(* ===== verification/Sim_Prelude.thy ===== *)
theory Sim_Prelude
  imports Main "HOL-Library.Word"
begin

text \<open>
  Shared vocabulary of the simbus development.

  \<^item> the machine types and the four-valued bus bit (\<open>bus_bitval_t\<close> of simbus_priv.h);
  \<^item> \<open>outcome\<close>: the result of running a piece of C code, which either returns a value or
    stops for a stated reason (a failed \<open>assert\<close>, a \<open>read\<close> that waits for a server
    that says nothing more, undefined behaviour, a loop that turns without ever reaching input
    again, an exhausted loop budget);
  \<^item> \<open>while_io\<close>: a C loop whose body talks to the server.  Every turn consumes scripted
    input, so the amount of pending input is a loop budget that the model never exceeds (which says that
    the budget cuts nothing off, not that the C loop ends: the script is finite by construction); the locale
    \<open>io_loop\<close> proves that once and gives the usual unfolding equation and loop rules;
  \<^item> the bit-vector idioms the sources repeat (\<open>for (idx...) x[idx] = (val&1)? BIT_1 : BIT_0\<close>
    and the reverse), with their characterisation lemmas.
\<close>

unbundle bit_operations_syntax

type_synonym u8 = "8 word"
type_synonym u16 = "16 word"
type_synonym u32 = "32 word"
type_synonym u64 = "64 word"

section \<open>Automation\<close>

named_theorems ret_simps \<open>unfolding of definitions that a partial-correctness goal runs through\<close>
named_theorems ret_rules \<open>introduction rules for \<open>ret\<close> goals, one per shape of program\<close>
named_theorems frame_simps \<open>fields that an operation leaves alone\<close>

section \<open>Outcomes\<close>

datatype stop = Assert_failed | Blocked | Undefined | Diverges | Out_of_fuel

datatype 'a outcome = Done 'a | Stop stop

fun obind :: "'a outcome \<Rightarrow> ('a \<Rightarrow> 'b outcome) \<Rightarrow> 'b outcome" where
  "obind (Done x) f = f x"
| "obind (Stop e) f = Stop e"

lemma obind_cong [fundef_cong]:
  "m = m' \<Longrightarrow> (\<And>x. m' = Done x \<Longrightarrow> f x = g x) \<Longrightarrow> obind m f = obind m' g"
  by (cases m') auto

lemma obind_Done_right [simp]: "obind m Done = m"
  by (cases m) auto

lemma obind_assoc: "obind (obind m f) g = obind m (\<lambda>x. obind (f x) g)"
  by (cases m) auto

lemma obind_eq_Done [simp]: "obind m f = Done y \<longleftrightarrow> (\<exists>x. m = Done x \<and> f x = Done y)"
  by (cases m) auto

lemma obind_eq_Stop: "obind m f = Stop e \<longleftrightarrow> m = Stop e \<or> (\<exists>x. m = Done x \<and> f x = Stop e)"
  by (cases m) auto

text \<open>\<open>assert\<close> of the C library, and a read that is only defined in range.\<close>

definition c_assert :: "bool \<Rightarrow> 'a outcome \<Rightarrow> 'a outcome" where
  "c_assert b m = (if b then m else Stop Assert_failed)"

definition c_defined :: "bool \<Rightarrow> 'a outcome \<Rightarrow> 'a outcome" where
  "c_defined b m = (if b then m else Stop Undefined)"

lemma c_assert_Done [simp]: "c_assert b m = Done x \<longleftrightarrow> b \<and> m = Done x"
  by (simp add: c_assert_def)

lemma c_defined_Done [simp]: "c_defined b m = Done x \<longleftrightarrow> b \<and> m = Done x"
  by (simp add: c_defined_def)

lemma c_assert_True [simp]: "c_assert True m = m"
  by (simp add: c_assert_def)

lemma c_defined_True [simp]: "c_defined True m = m"
  by (simp add: c_defined_def)

lemma c_assert_cong [fundef_cong]: "b = b' \<Longrightarrow> (b' \<Longrightarrow> m = m') \<Longrightarrow> c_assert b m = c_assert b' m'"
  by (simp add: c_assert_def)

lemma c_defined_cong [fundef_cong]: "b = b' \<Longrightarrow> (b' \<Longrightarrow> m = m') \<Longrightarrow> c_defined b m = c_defined b' m'"
  by (simp add: c_defined_def)

subsection \<open>Partial correctness\<close>

text \<open>\<open>ret m P\<close>: whenever \<open>m\<close> returns, its value satisfies \<open>P\<close>.\<close>

definition ret :: "'a outcome \<Rightarrow> ('a \<Rightarrow> bool) \<Rightarrow> bool" where
  "ret m P \<longleftrightarrow> (\<forall>x. m = Done x \<longrightarrow> P x)"

lemma ret_Done [simp]: "ret (Done x) P = P x"
  by (simp add: ret_def)

lemma ret_Stop [simp]: "ret (Stop e) P"
  by (simp add: ret_def)

lemma retD: "ret m P \<Longrightarrow> m = Done x \<Longrightarrow> P x"
  by (simp add: ret_def)

lemma retI: "(\<And>x. m = Done x \<Longrightarrow> P x) \<Longrightarrow> ret m P"
  by (simp add: ret_def)

lemma ret_obind [simp]: "ret (obind m f) P \<longleftrightarrow> ret m (\<lambda>x. ret (f x) P)"
  by (cases m) auto

lemma ret_seq: "ret m Q \<Longrightarrow> (\<And>x. Q x \<Longrightarrow> ret (f x) P) \<Longrightarrow> ret (obind m f) P"
  by (cases m) auto

lemma ret_seq2: "ret m (\<lambda>(x, y). Q x y) \<Longrightarrow> (\<And>x y. Q x y \<Longrightarrow> ret (f (x, y)) P) \<Longrightarrow> ret (obind m f) P"
  by (cases m) auto

lemma ret_any: "(\<And>x. ret (f x) P) \<Longrightarrow> ret (obind m f) P"
  by (cases m) auto

lemma ret_any2: "(\<And>x y. ret (f (x, y)) P) \<Longrightarrow> ret (obind m f) P"
  by (cases m) auto

lemma ret_conj: "ret m P \<Longrightarrow> ret m Q \<Longrightarrow> ret m (\<lambda>x. P x \<and> Q x)"
  by (simp add: ret_def)

lemma ret_mono: "ret m P \<Longrightarrow> (\<And>x. P x \<Longrightarrow> Q x) \<Longrightarrow> ret m Q"
  by (simp add: ret_def)

lemma ret_c_assert [simp]: "ret (c_assert b m) P \<longleftrightarrow> (b \<longrightarrow> ret m P)"
  by (simp add: c_assert_def)

lemma ret_c_defined [simp]: "ret (c_defined b m) P \<longleftrightarrow> (b \<longrightarrow> ret m P)"
  by (simp add: c_defined_def)

lemma ret_if [simp]: "ret (if b then m else n) P \<longleftrightarrow> (b \<longrightarrow> ret m P) \<and> (\<not> b \<longrightarrow> ret n P)"
  by simp

subsection \<open>Running within the budget\<close>

text \<open>\<open>runs m P\<close>: \<open>m\<close> does not stop for want of a loop budget, and its value, if it returns one,
  satisfies \<open>P\<close>.\<close>

definition runs :: "'a outcome \<Rightarrow> ('a \<Rightarrow> bool) \<Rightarrow> bool" where
  "runs m P \<longleftrightarrow> m \<noteq> Stop Out_of_fuel \<and> ret m P"

lemma runs_Done [simp]: "runs (Done x) P = P x"
  by (simp add: runs_def)

lemma runs_Stop [simp]: "runs (Stop e) P \<longleftrightarrow> e \<noteq> Out_of_fuel"
  by (simp add: runs_def)

lemma runs_seq: "runs m Q \<Longrightarrow> (\<And>x. Q x \<Longrightarrow> runs (f x) P) \<Longrightarrow> runs (obind m f) P"
  by (cases m) (auto simp: runs_def)

lemma runs_seq2: "runs m (\<lambda>(x, y). Q x y) \<Longrightarrow> (\<And>x y. Q x y \<Longrightarrow> runs (f (x, y)) P) \<Longrightarrow> runs (obind m f) P"
  by (cases m) (auto simp: runs_def)

lemma runs_mono: "runs m P \<Longrightarrow> (\<And>x. P x \<Longrightarrow> Q x) \<Longrightarrow> runs m Q"
  by (auto simp: runs_def intro: ret_mono)

lemma runs_c_assert [simp]: "runs (c_assert b m) P \<longleftrightarrow> (b \<longrightarrow> runs m P)"
  by (simp add: c_assert_def)

lemma runs_c_defined [simp]: "runs (c_defined b m) P \<longleftrightarrow> (b \<longrightarrow> runs m P)"
  by (simp add: c_defined_def)

lemma runs_if [simp]: "runs (if b then m else n) P \<longleftrightarrow> (b \<longrightarrow> runs m P) \<and> (\<not> b \<longrightarrow> runs n P)"
  by simp

section \<open>Loops that talk to the server\<close>

fun while_fuel :: "nat \<Rightarrow> ('s \<Rightarrow> bool) \<Rightarrow> ('s \<Rightarrow> 's outcome) \<Rightarrow> 's \<Rightarrow> 's outcome" where
  "while_fuel 0 b c s = Stop Out_of_fuel"
| "while_fuel (Suc n) b c s = (if b s then obind (c s) (while_fuel n b c) else Done s)"

definition while_io ::
  "('s \<Rightarrow> nat) \<Rightarrow> ('s \<Rightarrow> bool) \<Rightarrow> ('s \<Rightarrow> 's outcome) \<Rightarrow> 's \<Rightarrow> 's outcome" where
  "while_io pend b c s = while_fuel (Suc (pend s)) b c s"

lemma while_fuel_inv:
  assumes "I s" and "\<And>s. I s \<Longrightarrow> b s \<Longrightarrow> ret (c s) I"
  shows "ret (while_fuel n b c s) (\<lambda>t. I t \<and> \<not> b t)"
  using assms(1)
proof (induction n arbitrary: s)
  case 0
  show ?case by simp
next
  case (Suc n)
  then show ?case
    by (auto intro!: retI dest: assms(2) [THEN retD] Suc.IH [THEN retD, rotated])
qed

lemma ret_while_io:
  assumes "I s" and "\<And>s. I s \<Longrightarrow> b s \<Longrightarrow> ret (c s) I"
  shows "ret (while_io pend b c s) (\<lambda>t. I t \<and> \<not> b t)"
  unfolding while_io_def by (rule while_fuel_inv) (use assms in auto)

lemma while_io_exit [simp]: "\<not> b s \<Longrightarrow> while_io pend b c s = Done s"
  by (simp add: while_io_def)

text \<open>A loop whose body consumes input where its invariant and its condition hold.\<close>

lemma runs_while_fuel:
  assumes step: "\<And>s. I s \<Longrightarrow> b s \<Longrightarrow> runs (c s) (\<lambda>t. I t \<and> pend t < pend s)"
  shows "I s \<Longrightarrow> pend s < n \<Longrightarrow> runs (while_fuel n b c s) (\<lambda>t. I t \<and> \<not> b t \<and> pend t \<le> pend s)"
proof (induction n arbitrary: s)
  case (Suc n)
  show ?case
  proof (cases "b s")
    case True
    have "runs (obind (c s) (while_fuel n b c)) (\<lambda>t. I t \<and> \<not> b t \<and> pend t \<le> pend s)"
    proof (rule runs_seq [OF step [OF Suc.prems(1) True]])
      fix t assume t: "I t \<and> pend t < pend s"
      with Suc.prems have "runs (while_fuel n b c t) (\<lambda>u. I u \<and> \<not> b u \<and> pend u \<le> pend t)"
        by (intro Suc.IH) auto
      then show "runs (while_fuel n b c t) (\<lambda>u. I u \<and> \<not> b u \<and> pend u \<le> pend s)"
        by (rule runs_mono) (use t in auto)
    qed
    with True show ?thesis by simp
  next
    case False
    with Suc.prems show ?thesis by simp
  qed
qed simp

lemma runs_while_io:
  assumes "I s" and "\<And>s. I s \<Longrightarrow> b s \<Longrightarrow> runs (c s) (\<lambda>t. I t \<and> pend t < pend s)"
  shows "runs (while_io pend b c s) (\<lambda>t. I t \<and> \<not> b t \<and> pend t \<le> pend s)"
  unfolding while_io_def by (rule runs_while_fuel) (use assms in auto)

text \<open>
  The interface between a loop and its body: the body consumes input.  Under it the budget is
  never the reason a loop stops, and the loop satisfies the C unfolding equation.
\<close>

locale io_loop =
  fixes pend :: "'s \<Rightarrow> nat" and body :: "'s \<Rightarrow> 's outcome"
  assumes consumes: "body s = Done t \<Longrightarrow> pend t < pend s"
begin

lemma fuel_enough:
  "pend s < n \<Longrightarrow> pend s < m \<Longrightarrow> while_fuel n b body s = while_fuel m b body s"
proof (induction n arbitrary: m s)
  case 0
  then show ?case by simp
next
  case (Suc n)
  from Suc.prems obtain m' where m: "m = Suc m'" by (cases m) auto
  have "while_fuel n b body t = while_fuel m' b body t" if "body s = Done t" for t
    by (rule Suc.IH) (use consumes [OF that] Suc.prems m in auto)
  then show ?case by (simp add: m cong: obind_cong)
qed

lemma unfold:
  "while_io pend b body s = (if b s then obind (body s) (while_io pend b body) else Done s)"
proof -
  have "while_fuel (pend s) b body t = while_fuel (Suc (pend t)) b body t"
    if "body s = Done t" for t
    using consumes [OF that] by (intro fuel_enough) auto
  then show ?thesis by (simp add: while_io_def cong: obind_cong)
qed

lemma never_out_of_fuel:
  assumes "\<And>s. body s \<noteq> Stop Out_of_fuel"
  shows "while_io pend b body s \<noteq> Stop Out_of_fuel"
proof (induction "pend s" arbitrary: s rule: less_induct)
  case less
  have "while_io pend b body t \<noteq> Stop Out_of_fuel" if "body s = Done t" for t
    by (rule less) (rule consumes [OF that])
  with assms [of s] show ?case by (subst unfold) (auto simp: obind_eq_Stop)
qed

lemma pend_le: "ret (while_io pend b body s) (\<lambda>t. pend t \<le> pend s)"
  by (rule ret_mono [OF ret_while_io [where I = "\<lambda>t. pend t \<le> pend s"]])
    (auto intro!: retI dest!: consumes)

lemma returns_or_stops:
  assumes "\<And>s. b s \<Longrightarrow> (\<exists>t. body s = Done t) \<or> body s = Stop Blocked"
  shows "(\<exists>t. while_io pend b body s = Done t \<and> \<not> b t) \<or> while_io pend b body s = Stop Blocked"
proof (induction "pend s" arbitrary: s rule: less_induct)
  case less
  show ?case
  proof (cases "b s")
    case True
    note un = unfold [of b s]
    from assms [OF True] show ?thesis
    proof
      assume "\<exists>t. body s = Done t"
      then obtain t where t: "body s = Done t" by blast
      from less [OF consumes [OF t]] show ?thesis by (simp add: un True t)
    qed (simp add: un True)
  next
    case False
    then show ?thesis by simp
  qed
qed

end

end
