(* ===== verification/Sim_MT.thy ===== *)
theory Sim_MT
  imports Sim_Prelude
begin

text \<open>
  libsimbus/mt19937int.c: the Mersenne twister behind the random retries of the PCI interface.
  \<open>unsigned long\<close> has 64 bits; the context keeps its 1023-word array, of which the first
  624 are used.  The generator is compared with the recurrence it stands for, and the words it
  keeps and returns are shown to stay within 32 bits.
\<close>

record mt_context =
  mti :: int
  mt :: "u64 list"

definition MATRIX_A :: u64 where "MATRIX_A = 0x9908b0df"
definition UPPER_MASK :: u64 where "UPPER_MASK = 0x80000000"
definition LOWER_MASK :: u64 where "LOWER_MASK = 0x7fffffff"
definition TEMPERING_MASK_B :: u64 where "TEMPERING_MASK_B = 0x9d2c5680"
definition TEMPERING_MASK_C :: u64 where "TEMPERING_MASK_C = 0xefc60000"

text \<open>\<open>for (mti=1; mti<N; mti++) mt[mti] = (69069 * mt[mti-1]) & 0xffffffff;\<close>\<close>

definition seed_step :: "nat \<Rightarrow> u64 list \<Rightarrow> u64 list" where
  "seed_step i xs = xs[i := (69069 * xs ! (i - 1)) AND 0xffffffff]"

definition simbus_mt_sgenrand :: "u64 \<Rightarrow> mt_context \<Rightarrow> mt_context" where
  "simbus_mt_sgenrand seed c =
     c\<lparr>mt := fold seed_step [1..<624] ((mt c)[0 := seed AND 0xffffffff]), mti := 624\<rparr>"

definition mag01 :: "u64 \<Rightarrow> u64" where
  "mag01 y = (if y AND 1 = 0 then 0 else MATRIX_A)"

definition twist :: "u64 \<Rightarrow> u64 \<Rightarrow> u64 \<Rightarrow> u64" where
  "twist far cur nxt =
     (let y = (cur AND UPPER_MASK) OR (nxt AND LOWER_MASK)
      in (far XOR drop_bit 1 y) XOR mag01 y)"

text \<open>The two loops of the refill, and its last statement.\<close>

definition low_step :: "nat \<Rightarrow> u64 list \<Rightarrow> u64 list" where
  "low_step kk xs = xs[kk := twist (xs ! (kk + 397)) (xs ! kk) (xs ! (kk + 1))]"

definition high_step :: "nat \<Rightarrow> u64 list \<Rightarrow> u64 list" where
  "high_step kk xs = xs[kk := twist (xs ! (kk - 227)) (xs ! kk) (xs ! (kk + 1))]"

definition refill :: "u64 list \<Rightarrow> u64 list" where
  "refill xs =
     (let ys = fold high_step [227..<623] (fold low_step [0..<227] xs)
      in ys[623 := twist (ys ! 396) (ys ! 623) (ys ! 0)])"

definition temper :: "u64 \<Rightarrow> u64" where
  "temper y0 =
     (let y1 = y0 XOR drop_bit 11 y0;
          y2 = y1 XOR (push_bit 7 y1 AND TEMPERING_MASK_B);
          y3 = y2 XOR (push_bit 15 y2 AND TEMPERING_MASK_C)
      in y3 XOR drop_bit 18 y3)"

definition simbus_mt_genrand :: "mt_context \<Rightarrow> (u64 \<times> mt_context) outcome" where
  "simbus_mt_genrand c =
     (let c1 = (if mti c \<ge> 624
                then let c0 = (if mti c = 625 then simbus_mt_sgenrand 4357 c else c)
                     in c0\<lparr>mt := refill (mt c0), mti := 0\<rparr>
                else c)
      in c_defined (0 \<le> mti c1)
           (Done (temper (mt c1 ! nat (mti c1)), c1\<lparr>mti := mti c1 + 1\<rparr>)))"

section \<open>Seeding\<close>

lemma length_fold_step:
  "(\<And>i xs. length (f i xs) = length xs) \<Longrightarrow> length (fold f is xs) = length xs"
  by (induction "is" arbitrary: xs) simp_all

lemma length_steps [simp]:
  "length (fold seed_step is xs) = length xs" "length (fold low_step is xs) = length xs"
  "length (fold high_step is xs) = length xs"
  by (rule length_fold_step, simp add: seed_step_def low_step_def high_step_def)+

lemma length_refill [simp]: "length (refill xs) = length xs"
  by (simp only: refill_def Let_def length_list_update length_steps)

lemma length_sgenrand [simp]: "length (mt (simbus_mt_sgenrand seed c)) = length (mt c)"
  by (simp add: simbus_mt_sgenrand_def del: upt_rec_numeral)

lemma and_ffffffff: "(w AND 0xffffffff :: u64) = take_bit 32 w"
  by (simp add: take_bit_eq_mask mask_eq_exp_minus_1)

lemma take_bit_mult_right: "take_bit 32 (a * take_bit 32 b) = take_bit 32 (a * b :: u64)"
  by transfer (simp add: take_bit_eq_mod mod_mult_right_eq mod_mod_cancel)

lemma nth_seed_fold:
  assumes "0 < length xs" and "xs ! 0 = take_bit 32 seed"
  shows "1 \<le> n \<Longrightarrow> n \<le> length xs \<Longrightarrow>
    (\<forall>i < n. fold seed_step [1..<n] xs ! i = take_bit 32 (69069 ^ i * seed))
    \<and> (\<forall>i. n \<le> i \<longrightarrow> fold seed_step [1..<n] xs ! i = xs ! i)"
proof (induction n)
  case (Suc n)
  show ?case
  proof (cases "n = 0")
    case True
    with assms show ?thesis by simp
  next
    case False
    with Suc have IH: "\<forall>i < n. fold seed_step [1..<n] xs ! i = take_bit 32 (69069 ^ i * seed)"
        "\<forall>i. n \<le> i \<longrightarrow> fold seed_step [1..<n] xs ! i = xs ! i" by auto
    have "take_bit 32 (69069 * take_bit 32 (69069 ^ (n - 1) * seed)) = take_bit 32 (69069 ^ n * seed)"
      using False by (cases n) (simp_all add: take_bit_mult_right ac_simps)
    moreover have "fold seed_step [1..<Suc n] xs = (let ys = fold seed_step [1..<n] xs
        in ys[n := take_bit 32 (69069 * ys ! (n - 1))])"
      using False by (simp add: seed_step_def [of n] and_ffffffff Let_def)
    ultimately show ?thesis
      using IH False Suc.prems by (auto simp: Let_def nth_list_update less_Suc_eq)
  qed
qed simp

section \<open>The recurrence\<close>

text \<open>
  The sequence of Matsumoto and Nishimura's paper (n = 624, m = 397): the first 624 words come
  from the seeding, every later one from the word 624 places back, its successor and the word 227
  places back.
\<close>

function mt_word :: "u64 list \<Rightarrow> nat \<Rightarrow> u64" where
  "mt_word xs k =
     (if k < 624 then xs ! k
      else twist (mt_word xs (k - 227)) (mt_word xs (k - 624)) (mt_word xs (k - 623)))"
  by auto
termination by (relation "measure snd") auto

declare mt_word.simps [simp del]

lemma mt_word_init: "k < 624 \<Longrightarrow> mt_word xs k = xs ! k"
  by (subst mt_word.simps) simp

lemma mt_word_step: "mt_word xs (k + 624) = twist (mt_word xs (k + 397)) (mt_word xs k) (mt_word xs (k + 1))"
  by (subst mt_word.simps) (simp add: add.commute)

text \<open>The array while block \<open>b\<close> is being replaced by block \<open>b + 1\<close>, up to word \<open>k\<close>.\<close>

definition mixed :: "u64 list \<Rightarrow> nat \<Rightarrow> nat \<Rightarrow> u64 list \<Rightarrow> bool" where
  "mixed xs b k ys \<longleftrightarrow> 624 \<le> length ys
     \<and> (\<forall>i < 624. ys ! i = mt_word xs (624 * b + i + (if i < k then 624 else 0)))"

lemma mixed_update:
  assumes "mixed xs b k ys" and "k < 624" and "v = mt_word xs (624 * b + k + 624)"
  shows "mixed xs b (Suc k) (ys[k := v])"
  using assms by (auto simp: mixed_def nth_list_update less_Suc_eq)

lemma mixed_low:
  "mixed xs b 0 ys \<Longrightarrow> k \<le> 227 \<Longrightarrow> mixed xs b k (fold low_step [0..<k] ys)"
proof (induction k)
  case (Suc k)
  then have m: "mixed xs b k (fold low_step [0..<k] ys)" by simp
  have "twist (fold low_step [0..<k] ys ! (k + 397)) (fold low_step [0..<k] ys ! k)
      (fold low_step [0..<k] ys ! (k + 1)) = mt_word xs (624 * b + k + 624)"
    using m Suc.prems by (subst mt_word_step) (simp add: mixed_def ac_simps)
  from mixed_update [OF m _ this] Suc.prems show ?case by (simp add: low_step_def [of k])
qed simp

lemma mixed_high:
  assumes "mixed xs b 227 ys"
  shows "k \<le> 396 \<Longrightarrow> mixed xs b (227 + k) (fold high_step [227..<227 + k] ys)"
proof (induction k)
  case (Suc k)
  let ?zs = "fold high_step [227..<227 + k] ys"
  from Suc have m: "mixed xs b (227 + k) ?zs" by simp
  have "?zs ! (227 + k - 227) = mt_word xs ((624 * b + (227 + k)) + 397)"
      "?zs ! (227 + k) = mt_word xs (624 * b + (227 + k))"
      "?zs ! (227 + k + 1) = mt_word xs ((624 * b + (227 + k)) + 1)"
    using m Suc.prems by (simp_all add: mixed_def ac_simps)
  then have "twist (?zs ! (227 + k - 227)) (?zs ! (227 + k)) (?zs ! (227 + k + 1)) =
      mt_word xs (624 * b + (227 + k) + 624)"
    by (simp only: mt_word_step)
  from mixed_update [OF m _ this] Suc.prems
  have "mixed xs b (Suc (227 + k)) (high_step (227 + k) ?zs)"
    unfolding high_step_def by simp
  moreover have "fold high_step [227..<Suc (227 + k)] ys = high_step (227 + k) ?zs"
    by (simp only: upt_Suc le_add1 if_True fold_append fold_simps comp_apply)
  ultimately show ?case by (simp only: add_Suc_right)
qed (use assms in simp)

lemma mixed_next: "mixed xs b 624 ys \<Longrightarrow> mixed xs (Suc b) 0 ys"
  by (simp add: mixed_def ac_simps)

lemma mixed_refill:
  assumes "mixed xs b 0 ys"
  shows "mixed xs (Suc b) 0 (refill ys)"
proof -
  let ?ys = "fold high_step [227..<623] (fold low_step [0..<227] ys)"
  have m: "mixed xs b 623 ?ys"
    using mixed_high [OF mixed_low [OF assms], of 396] by simp
  have "twist (?ys ! 396) (?ys ! 623) (?ys ! 0) = mt_word xs (624 * b + 623 + 624)"
    using m by (subst mt_word_step) (simp add: mixed_def ac_simps)
  from mixed_update [OF m _ this] have "mixed xs b 624 (refill ys)" by (simp add: refill_def Let_def)
  then show ?thesis by (rule mixed_next)
qed


section \<open>The generator\<close>

text \<open>The state after \<open>n\<close> numbers have been drawn since seeding.\<close>

definition drawn :: "u64 list \<Rightarrow> nat \<Rightarrow> mt_context \<Rightarrow> bool" where
  "drawn xs n c \<longleftrightarrow> (\<exists>b. mixed xs b 0 (mt c) \<and> 0 \<le> mti c \<and> mti c \<le> 624
     \<and> int n + 624 = 624 * int b + mti c)"

lemma genrand_drawn:
  assumes "drawn xs n c"
  shows "\<exists>c'. simbus_mt_genrand c = Done (temper (mt_word xs (n + 624)), c') \<and> drawn xs (Suc n) c'"
proof -
  from assms obtain b where b: "mixed xs b 0 (mt c)" "0 \<le> mti c" "mti c \<le> 624"
      "int n + 624 = 624 * int b + mti c"
    by (auto simp: drawn_def)
  have main: ?thesis if g: "simbus_mt_genrand c = Done (temper (ys ! k), c\<lparr>mt := ys, mti := int k + 1\<rparr>)"
    and m: "mixed xs d 0 ys" and k: "k < 624" "n + 624 = 624 * d + k" for ys d k
  proof -
    from m k have "ys ! k = mt_word xs (n + 624)" by (simp add: mixed_def)
    with g m k show ?thesis by (auto simp: drawn_def)
  qed
  show ?thesis
  proof (cases "mti c = 624")
    case True
    with b have "n + 624 = 624 * Suc b + 0" by simp
    from main [OF _ mixed_refill [OF b(1)] _ this] True show ?thesis
      by (simp add: simbus_mt_genrand_def)
  next
    case False
    with b have "nat (mti c) < 624" "n + 624 = 624 * b + nat (mti c)" by auto
    from main [OF _ b(1) this] False b show ?thesis by (simp add: simbus_mt_genrand_def)
  qed
qed

fun draw :: "nat \<Rightarrow> mt_context \<Rightarrow> (u64 list \<times> mt_context) outcome" where
  "draw 0 c = Done ([], c)"
| "draw (Suc n) c =
     obind (draw n c) (\<lambda>(ys, c1). obind (simbus_mt_genrand c1) (\<lambda>(y, c2). Done (ys @ [y], c2)))"

lemma draw_words:
  assumes "drawn xs 0 c"
  shows "\<exists>c'. draw n c = Done (map (\<lambda>k. temper (mt_word xs (k + 624))) [0..<n], c') \<and> drawn xs n c'"
proof (induction n)
  case 0
  then show ?case using assms by simp
next
  case (Suc n)
  then obtain c' where "draw n c = Done (map (\<lambda>k. temper (mt_word xs (k + 624))) [0..<n], c')" "drawn xs n c'"
    by blast
  with genrand_drawn [of xs n c'] show ?case by auto
qed

definition seed_words :: "u64 \<Rightarrow> u64 list" where
  "seed_words seed = map (\<lambda>i. take_bit 32 (69069 ^ i * seed)) [0..<624]"

lemma sgenrand_words:
  assumes "624 \<le> length (mt c)" and "i < 624"
  shows "mt (simbus_mt_sgenrand seed c) ! i = take_bit 32 (69069 ^ i * seed)"
proof -
  let ?xs = "(mt c)[0 := take_bit 32 seed]"
  have "0 < length ?xs" "?xs ! 0 = take_bit 32 seed" using assms(1) by (cases "mt c"; simp)+
  from nth_seed_fold [OF this, of 624] assms show ?thesis
    by (simp add: simbus_mt_sgenrand_def and_ffffffff)
qed

lemma sgenrand_drawn:
  assumes "624 \<le> length (mt c)"
  shows "drawn (seed_words seed) 0 (simbus_mt_sgenrand seed c)"
proof -
  have "mixed (seed_words seed) 0 0 (mt (simbus_mt_sgenrand seed c))"
    using assms sgenrand_words [OF assms]
    by (auto simp: mixed_def mt_word_init seed_words_def simbus_mt_sgenrand_def)
  then show ?thesis by (auto simp: drawn_def simbus_mt_sgenrand_def intro: exI [of _ 0])
qed

text \<open>C9: The generator is MT19937. After seeding, the \<open>n\<close>-th number drawn is the tempered word
  \<open>n + 624\<close> of the recurrence over the seed words \<open>69069\<^sup>i * seed mod 2\<^sup>3\<^sup>2\<close>, for every \<open>n\<close>,
  although the code refills its table in place in two loops and a final statement.\<close>

theorem genrand_is_mt19937:
  assumes "624 \<le> length (mt c)"
  shows "\<exists>c'. draw n (simbus_mt_sgenrand seed c) =
    Done (map (\<lambda>k. temper (mt_word (seed_words seed) (k + 624))) [0..<n], c')"
  using draw_words [OF sgenrand_drawn [OF assms]] by blast

theorem genrand_is_mt19937_witness:
  "\<exists>c'. draw 2 (simbus_mt_sgenrand 1 \<lparr>mti = 625, mt = replicate 1023 0\<rparr>) =
    Done (map (\<lambda>k. temper (mt_word (seed_words 1) (k + 624))) [0..<2], c')"
  by (rule genrand_is_mt19937) simp

section \<open>Bounds\<close>

definition low32 :: "u64 \<Rightarrow> bool" where
  "low32 w \<longleftrightarrow> take_bit 32 w = w"

lemma low32_bit: "low32 w \<longleftrightarrow> (\<forall>j \<ge> 32. \<not> bit w j)"
proof
  assume "low32 w"
  then show "\<forall>j \<ge> 32. \<not> bit w j" by (metis low32_def bit_take_bit_iff linorder_not_le)
next
  assume "\<forall>j \<ge> 32. \<not> bit w j"
  then show "low32 w" unfolding low32_def
    by (intro bit_word_eqI) (auto simp: bit_take_bit_iff intro: leI)
qed

lemma low32_less: "low32 w \<longleftrightarrow> w < 2 ^ 32"
  by (simp add: low32_def word_unat_eq_iff unsigned_take_bit_eq take_bit_nat_eq_self_iff word_less_nat_alt)

lemma low32_ops:
  "low32 a \<Longrightarrow> low32 b \<Longrightarrow> low32 (a XOR b)" "low32 a \<Longrightarrow> low32 b \<Longrightarrow> low32 (a OR b)"
  "low32 b \<Longrightarrow> low32 (a AND b)" "low32 a \<Longrightarrow> low32 (drop_bit n a)"
  by (auto simp: low32_bit bit_simps)

lemma low32_consts: "low32 MATRIX_A" "low32 UPPER_MASK" "low32 LOWER_MASK" "low32 TEMPERING_MASK_B"
    "low32 TEMPERING_MASK_C" "low32 0"
  by (simp_all add: low32_less MATRIX_A_def UPPER_MASK_def LOWER_MASK_def TEMPERING_MASK_B_def TEMPERING_MASK_C_def)

lemma low32_twist: "low32 far \<Longrightarrow> low32 (twist far cur nxt)"
  by (simp add: twist_def Let_def mag01_def low32_ops low32_consts)

lemma low32_temper: "low32 y \<Longrightarrow> low32 (temper y)"
  by (simp add: temper_def Let_def low32_ops low32_consts)

lemma low32_mt_word: "(\<forall>i < 624. low32 (xs ! i)) \<Longrightarrow> low32 (mt_word xs k)"
proof (induction k rule: less_induct)
  case (less k)
  show ?case
  proof (cases "k < 624")
    case True
    then show ?thesis using less.prems by (simp add: mt_word_init)
  next
    case False
    then have "low32 (mt_word xs (k - 227))" by (intro less) (use less.prems in auto)
    then show ?thesis using False by (subst mt_word.simps) (simp add: low32_twist)
  qed
qed

text \<open>Although the state is kept in 64-bit words that are never masked after seeding, every number
  drawn from a seeded generator is below \<open>2\<^sup>3\<^sup>2\<close>.\<close>

theorem genrand_32_bits:
  assumes "624 \<le> length (mt c)" and "draw n (simbus_mt_sgenrand seed c) = Done (ys, c')"
  shows "\<forall>y \<in> set ys. y < 2 ^ 32"
proof -
  have "\<forall>i < 624. low32 (seed_words seed ! i)" by (simp add: seed_words_def low32_def)
  then have "low32 (temper (mt_word (seed_words seed) k))" for k
    by (intro low32_temper low32_mt_word)
  then show ?thesis
    using draw_words [OF sgenrand_drawn [OF assms(1), of seed], of n] assms(2)
    by (auto simp: low32_less)
qed

theorem genrand_32_bits_witness:
  "\<exists>y c'. draw 1 (simbus_mt_sgenrand 1 \<lparr>mti = 625, mt = replicate 1023 0\<rparr>) = Done ([y], c') \<and> y < 2 ^ 32"
proof -
  have l: "624 \<le> length (mt \<lparr>mti = 625, mt = replicate 1023 0\<rparr>)" by simp
  obtain c' where d: "draw 1 (simbus_mt_sgenrand 1 \<lparr>mti = 625, mt = replicate 1023 0\<rparr>) =
      Done (map (\<lambda>k. temper (mt_word (seed_words 1) (k + 624))) [0..<1], c')"
    using draw_words [OF sgenrand_drawn [OF l]] by blast
  with genrand_32_bits [OF l d] show ?thesis by simp
qed

end
