(* ===== verification/Sim_Bits.thy ===== *)
theory Sim_Bits
  imports Sim_Prelude
begin

text \<open>
  The four-valued bit of the bus (\<open>bus_bitval_t\<close>, simbus_priv.h) with its wire characters
  (simbus.c), and the loops over bit arrays that every bus of libsimbus repeats: drive the bits of
  an integer onto lines, fill lines with one value, collect lines into an integer.  A C array
  \<open>bus_bitval_t x[n]\<close> is a list of length \<open>n\<close>.
\<close>

section \<open>Bit values\<close>

datatype bitval = BIT_0 | BIT_1 | BIT_X | BIT_Z

instantiation bitval :: enum
begin

definition "enum_bitval = [BIT_0, BIT_1, BIT_X, BIT_Z]"
definition "enum_all_bitval P \<longleftrightarrow> P BIT_0 \<and> P BIT_1 \<and> P BIT_X \<and> P BIT_Z"
definition "enum_ex_bitval P \<longleftrightarrow> P BIT_0 \<or> P BIT_1 \<or> P BIT_X \<or> P BIT_Z"

instance
proof
  show "UNIV = set (enum_class.enum :: bitval list)"
    by (auto simp: enum_bitval_def intro: bitval.exhaust)
  show "distinct (enum_class.enum :: bitval list)"
    by (simp add: enum_bitval_def)
  show "enum_class.enum_all P \<longleftrightarrow> Ball UNIV P" for P :: "bitval \<Rightarrow> bool"
    by (auto simp: enum_all_bitval_def intro: bitval.induct)
  show "enum_class.enum_ex P \<longleftrightarrow> Bex UNIV P" for P :: "bitval \<Rightarrow> bool"
    by (auto simp: enum_ex_bitval_def intro: bitval.exhaust) (metis bitval.exhaust)
qed

end

definition NUL :: char where
  "NUL = CHR 0x00"

fun bitval_to_char :: "bitval \<Rightarrow> char" where
  "bitval_to_char BIT_0 = CHR ''0''"
| "bitval_to_char BIT_1 = CHR ''1''"
| "bitval_to_char BIT_X = CHR ''x''"
| "bitval_to_char BIT_Z = CHR ''z''"

definition char_to_bitval :: "char \<Rightarrow> bitval" where
  "char_to_bitval val =
     (if val = CHR ''0'' then BIT_0
      else if val = CHR ''1'' then BIT_1
      else if val = CHR ''z'' then BIT_Z
      else BIT_X)"

lemma char_to_bitval_to_char [simp]: "char_to_bitval (bitval_to_char b) = b"
  by (cases b) (simp_all add: char_to_bitval_def)

lemma bitval_to_char_plain:
  "bitval_to_char b \<noteq> CHR '' ''" "bitval_to_char b \<noteq> CHR ''=''" "bitval_to_char b \<noteq> NUL"
  "bitval_to_char b \<noteq> CHR 0x0A"
  by (cases b; simp add: NUL_def)+

text \<open>\<open>(c)? BIT_1 : BIT_0\<close>, and the C conversion of an integer to the enum.\<close>

definition bit01 :: "bool \<Rightarrow> bitval" where
  "bit01 b = (if b then BIT_1 else BIT_0)"

definition enum_bitval_of :: "int \<Rightarrow> bitval" where
  "enum_bitval_of n = (if n = 0 then BIT_0 else if n = 1 then BIT_1 else if n = 2 then BIT_X else BIT_Z)"

lemma bit01_eq [simp]:
  "bit01 b = BIT_1 \<longleftrightarrow> b" "bit01 b = BIT_0 \<longleftrightarrow> \<not> b" "bit01 b \<noteq> BIT_X" "bit01 b \<noteq> BIT_Z"
  by (auto simp: bit01_def)

definition known :: "bitval \<Rightarrow> bool" where
  "known b \<longleftrightarrow> b = BIT_0 \<or> b = BIT_1"

lemma known_bit01 [simp]: "known (bit01 b)"
  by (simp add: known_def bit01_def)

section \<open>Loops over bit arrays\<close>

text \<open>\<open>for (idx = i ; idx < i+n ; idx += 1, v >>= 1) xs[idx] = (v&1)? BIT_1 : BIT_0;\<close>\<close>

fun put_bits :: "nat \<Rightarrow> nat \<Rightarrow> 'a::semiring_bit_operations \<Rightarrow> bitval list \<Rightarrow> bitval list" where
  "put_bits i 0 v xs = xs"
| "put_bits i (Suc n) v xs = put_bits (Suc i) n (drop_bit 1 v) (xs[i := bit01 (bit v 0)])"

text \<open>\<open>for (idx = i ; idx < i+n ; idx += 1) xs[idx] = b;\<close>\<close>

fun fill_bits :: "nat \<Rightarrow> nat \<Rightarrow> bitval \<Rightarrow> bitval list \<Rightarrow> bitval list" where
  "fill_bits i 0 b xs = xs"
| "fill_bits i (Suc n) b xs = fill_bits (Suc i) n b (xs[i := b])"

text \<open>\<open>for (idx = i ; idx < i+n ; idx += 1, mask <<= 1) if (p(xs[idx])) rc |= mask;\<close>\<close>

fun gather :: "(bitval \<Rightarrow> bool) \<Rightarrow> bitval list \<Rightarrow> nat \<Rightarrow> nat \<Rightarrow> 'a::semiring_bit_operations \<Rightarrow> 'a \<Rightarrow> 'a" where
  "gather p xs i 0 m rc = rc"
| "gather p xs i (Suc n) m rc =
     gather p xs (Suc i) n (push_bit 1 m) (if p (xs ! i) then rc OR m else rc)"

text \<open>\<open>for (idx = 0 ; idx < n ; idx += 1) { res *= 2; if (xs[i+n-1-idx] == BIT_1) res |= 1; }\<close>\<close>

fun horner :: "bitval list \<Rightarrow> nat \<Rightarrow> nat \<Rightarrow> 'a::semiring_bit_operations \<Rightarrow> 'a" where
  "horner xs i 0 res = res"
| "horner xs i (Suc n) res =
     horner xs i n (let r = res * 2 in if xs ! (i + n) = BIT_1 then r OR 1 else r)"

subsection \<open>Lengths and elements\<close>

lemma length_put_bits [simp]: "length (put_bits i n v xs) = length xs"
  by (induction i n v xs rule: put_bits.induct) simp_all

lemma length_fill_bits [simp]: "length (fill_bits i n b xs) = length xs"
  by (induction i n b xs rule: fill_bits.induct) simp_all

lemma nth_put_bits:
  "j < length xs \<Longrightarrow>
     put_bits i n v xs ! j = (if i \<le> j \<and> j < i + n then bit01 (bit v (j - i)) else xs ! j)"
proof (induction i n v xs rule: put_bits.induct)
  case (1 i v xs)
  then show ?case by auto
next
  case (2 i n v xs)
  show ?case
  proof (cases "i < j")
    case True
    then have "j - i = Suc (j - Suc i)" by simp
    with True 2 show ?thesis by (simp add: bit_drop_bit_eq)
  next
    case False
    with 2 show ?thesis by (auto simp: nth_list_update)
  qed
qed

lemma nth_fill_bits:
  "j < length xs \<Longrightarrow> fill_bits i n b xs ! j = (if i \<le> j \<and> j < i + n then b else xs ! j)"
  by (induction i n b xs rule: fill_bits.induct) (auto simp: nth_list_update)

lemma fill_bits_all: "length xs = n \<Longrightarrow> fill_bits 0 n b xs = replicate n b"
  by (rule nth_equalityI) (simp_all add: nth_fill_bits)

text \<open>The value collected by the mask loop, bit by bit.\<close>

lemma bit_gather_aux:
  "bit (gather p xs i n (push_bit k 1) rc) j \<longleftrightarrow>
     bit rc j \<or> possible_bit TYPE('a) j \<and> k \<le> j \<and> j < k + n \<and> p (xs ! (i + (j - k)))"
  for rc :: "'a::semiring_bit_operations"
proof (induction n arbitrary: i k rc)
  case 0
  then show ?case by auto
next
  case (Suc n)
  have pb: "push_bit 1 (push_bit k 1) = (push_bit (Suc k) 1 :: 'a)"
    by (simp only: push_bit_push_bit plus_1_eq_Suc)
  have step: "bit (gather p xs i (Suc n) (push_bit k 1) rc) j \<longleftrightarrow>
     bit (if p (xs ! i) then rc OR push_bit k 1 else rc) j
     \<or> possible_bit TYPE('a) j \<and> Suc k \<le> j \<and> j < Suc k + n \<and> p (xs ! (Suc i + (j - Suc k)))"
    by (simp only: gather.simps pb Suc.IH)
  consider "j < k" | "j = k" | "Suc k \<le> j" by linarith
  then show ?case
  proof cases
    case 1
    then show ?thesis unfolding step by (simp add: bit_or_iff bit_exp_iff)
  next
    case 2
    then show ?thesis unfolding step by (auto simp: bit_or_iff bit_exp_iff)
  next
    case 3
    then have "Suc i + (j - Suc k) = i + (j - k)" by simp
    with 3 show ?thesis unfolding step by (auto simp: bit_or_iff bit_exp_iff)
  qed
qed

lemma bit_gather:
  "bit (gather p xs i n 1 rc) j \<longleftrightarrow>
     bit rc j \<or> possible_bit TYPE('a) j \<and> j < n \<and> p (xs ! (i + j))"
  for rc :: "'a::semiring_bit_operations"
  using bit_gather_aux [of p xs i n 0 rc j] by simp

text \<open>Collecting what was driven gives back the driven integer.\<close>

lemma gather_put_bits:
  fixes v :: "'a::len word"
  assumes "i + n \<le> length xs" and "LENGTH('a) \<le> n"
  shows "gather (\<lambda>b. b = BIT_1) (put_bits i n v xs) i n 1 0 = v"
proof (rule bit_word_eqI)
  fix j assume "j < LENGTH('a)"
  with assms show "bit (gather (\<lambda>b. b = BIT_1) (put_bits i n v xs) i n 1 (0 :: 'a word)) j = bit v j"
    by (simp add: bit_gather nth_put_bits)
qed

text \<open>The most-significant-first loop computes the same integer as the mask loop.\<close>

lemma bit_horner:
  "j < LENGTH('a) \<Longrightarrow>
   bit (horner xs i n res) j \<longleftrightarrow> (if j < n then xs ! (i + j) = BIT_1 else bit res (j - n))"
  for res :: "'a::len word"
proof (induction n arbitrary: res)
  case 0
  then show ?case by simp
next
  case (Suc n)
  have dbl: "bit (res * 2) k \<longleftrightarrow> k < LENGTH('a) \<and> k \<noteq> 0 \<and> bit res (k - 1)" for k
    by (simp only: mult.commute [of res] bit_double_iff possible_bit_word)
  show ?case
  proof (cases "j < n")
    case True
    with Suc show ?thesis by simp
  next
    case False
    with Suc.prems have "bit (horner xs i (Suc n) res) j \<longleftrightarrow>
        bit (let r = res * 2 in if xs ! (i + n) = BIT_1 then r OR 1 else r) (j - n)"
      by (simp add: Suc.IH)
    also have "\<dots> \<longleftrightarrow> (if j = n then xs ! (i + n) = BIT_1 else bit res (j - Suc n))"
    proof (cases "j = n")
      case True
      then show ?thesis by (simp add: Let_def dbl bit_or_iff bit_1_iff)
    next
      case ne: False
      with False obtain k where k: "j - n = Suc k" "j - Suc n = k"
        by (metis Suc_diff_Suc linorder_neqE_nat)
      from Suc.prems k have "Suc k < LENGTH('a)" by simp
      with ne k show ?thesis by (simp add: Let_def dbl bit_or_iff bit_1_iff)
    qed
    finally show ?thesis using False by (auto simp: less_Suc_eq)
  qed
qed

lemma horner_gather:
  "n \<le> LENGTH('a) \<Longrightarrow> (horner xs i n 0 :: 'a::len word) = gather (\<lambda>b. b = BIT_1) xs i n 1 0"
  by (rule bit_word_eqI) (simp add: bit_horner bit_gather)

lemma horner_value:
  fixes v :: "'a::len word"
  assumes "n \<le> LENGTH('a)" and "\<And>j. j < n \<Longrightarrow> xs ! (i + j) = BIT_1 \<longleftrightarrow> bit v j" and "take_bit n v = v"
  shows "horner xs i n 0 = v"
proof (rule bit_word_eqI)
  fix j assume "j < LENGTH('a)"
  moreover have "bit v j \<longleftrightarrow> j < n \<and> bit v j" by (metis assms(3) bit_take_bit_iff)
  ultimately show "bit (horner xs i n 0 :: 'a word) j = bit v j" using assms(2) [of j] by (auto simp: bit_horner)
qed

text \<open>Reading a vector in two parts.\<close>

lemma horner_split: "horner xs i (m + n) r = horner xs i m (horner xs (i + m) n r)"
  by (induction n arbitrary: r) (simp_all add: ac_simps)

section \<open>Vectors on the wire\<close>

text \<open>
  A vector is written most significant bit first.  \<open>msb_first n xs\<close> is the loop
  \<open>for (idx = 0 ; idx < n ; idx += 1) *cp++ = __bitval_to_char(xs[n-1-idx]);\<close>
  and \<open>load_msb n s xs\<close> the loop
  \<open>for (bdx = 0 ; bdx < n ; bdx += 1) xs[n-1-bdx] = __char_to_bitval(s[bdx]);\<close>.
\<close>

definition msb_first :: "nat \<Rightarrow> bitval list \<Rightarrow> string" where
  "msb_first n xs = map (\<lambda>idx. bitval_to_char (xs ! (n - 1 - idx))) [0..<n]"

definition load_msb :: "nat \<Rightarrow> string \<Rightarrow> bitval list \<Rightarrow> bitval list" where
  "load_msb n s xs =
     fold (\<lambda>bdx ys. ys[n - 1 - bdx := char_to_bitval (s ! bdx)]) [0..<n] xs"

lemma length_msb_first [simp]: "length (msb_first n xs) = n"
  by (simp add: msb_first_def)

lemma length_fold_update [simp]:
  "length (fold (\<lambda>k ys. ys[f k := g k]) ks xs) = length xs"
  by (induction ks arbitrary: xs) simp_all

lemma length_load_msb [simp]: "length (load_msb n s xs) = length xs"
  by (simp add: load_msb_def)

lemma load_msb_prefix:
  "m \<le> n \<Longrightarrow> n \<le> length xs \<Longrightarrow> j < length xs \<Longrightarrow>
   fold (\<lambda>bdx ys. ys[n - 1 - bdx := char_to_bitval (s ! bdx)]) [0..<m] xs ! j =
     (if n - m \<le> j \<and> j < n then char_to_bitval (s ! (n - 1 - j)) else xs ! j)"
proof (induction m)
  case 0
  then show ?case by auto
next
  case (Suc m)
  then show ?case by (auto simp: nth_list_update)
qed

lemma nth_load_msb:
  assumes "n \<le> length xs" and "j < length xs"
  shows "load_msb n s xs ! j = (if j < n then char_to_bitval (s ! (n - 1 - j)) else xs ! j)"
  using load_msb_prefix [of n n xs j s] assms by (simp add: load_msb_def)

lemma load_msb_first:
  assumes "n \<le> length ys" and "length xs = n"
  shows "load_msb n (msb_first n xs) ys = xs @ drop n ys"
  using assms by (intro nth_equalityI) (auto simp: nth_load_msb msb_first_def nth_append)

lemma msb_first_rev: "length xs = n \<Longrightarrow> msb_first n xs = map bitval_to_char (rev xs)"
  by (rule nth_equalityI) (simp_all add: msb_first_def rev_nth)

lemma msb_first_plain:
  "c \<in> set (msb_first n xs) \<Longrightarrow> c \<noteq> CHR '' '' \<and> c \<noteq> CHR ''='' \<and> c \<noteq> NUL \<and> c \<noteq> CHR 0x0A"
  by (auto simp: msb_first_def bitval_to_char_plain)

end
