(* ===== verification/Sim_Base.thy ===== *)
theory Sim_Base
  imports Sim_Bits
begin

text \<open>
  libsimbus/simbus.c and simbus_priv.h: the connection to the bus server and the text protocol.

  The socket is a record \<open>conn\<close> that scripts what the operating system and the server do:
  \<open>rx\<close> is what the successive \<open>read\<close> calls can return, \<open>wr\<close> how the next \<open>write\<close>
  calls end (any further call writes everything), \<open>tx\<close> what was written.  A \<open>read\<close> with
  nothing left in \<open>rx\<close> waits for ever (\<open>Blocked\<close>).  A read of 0 bytes (the end of the stream) is one
  element of \<open>rx\<close>, and what follows is up to the script: a socket that the server has closed answers 0
  to every read, so a C loop that ignores that result turns for ever, which is here a script with as
  many such reads as one likes, and then \<open>Blocked\<close>.  That a function never exceeds its budget therefore
  does not say that the C function returns.  Address look-up and connecting are
  operating-system calls, arguments of the definitions that use them (record \<open>os\<close>).

  C strings are \<open>string\<close>s without the terminating NUL.  The 4096-byte message buffer that is
  sent and then overwritten by the answer keeps its old bytes behind the answer, and the token
  loop can run into them; the model keeps those bytes.  Debug logging writes to a file only and
  is not modelled.
\<close>

section \<open>Socket\<close>

datatype read_event = Rd_data string | Rd_error

datatype write_event = Wr_full | Wr_short nat | Wr_error

record conn =
  rx :: "read_event list"
  wr :: "write_event list"
  tx :: "string list"
  closed :: bool

fun event_size :: "read_event \<Rightarrow> nat" where
  "event_size (Rd_data s) = Suc (length s)"
| "event_size Rd_error = 1"

definition pending :: "conn \<Rightarrow> nat" where
  "pending c = length (wr c) + sum_list (map event_size (rx c))"

definition sock_write :: "conn \<Rightarrow> string \<Rightarrow> int \<times> conn" where
  "sock_write c msg =
     (case wr c of
        [] \<Rightarrow> (int (length msg), c\<lparr>tx := tx c @ [msg]\<rparr>)
      | Wr_full # ws \<Rightarrow> (int (length msg), c\<lparr>wr := ws, tx := tx c @ [msg]\<rparr>)
      | Wr_short n # ws \<Rightarrow> (int (min n (length msg)), c\<lparr>wr := ws, tx := tx c @ [take n msg]\<rparr>)
      | Wr_error # ws \<Rightarrow> (-1, c\<lparr>wr := ws\<rparr>))"

definition sock_read :: "conn \<Rightarrow> nat \<Rightarrow> (read_event \<times> conn) outcome" where
  "sock_read c n =
     (case rx c of
        [] \<Rightarrow> Stop Blocked
      | Rd_error # es \<Rightarrow> Done (Rd_error, c\<lparr>rx := es\<rparr>)
      | Rd_data s # es \<Rightarrow>
          (if length s \<le> n then Done (Rd_data s, c\<lparr>rx := es\<rparr>)
           else Done (Rd_data (take n s), c\<lparr>rx := Rd_data (drop n s) # es\<rparr>)))"

definition sock_close :: "conn \<Rightarrow> conn" where
  "sock_close c = c\<lparr>closed := True\<rparr>"

record 'a os =
  os_getaddrinfo :: "string \<Rightarrow> string \<Rightarrow> 'a list option"
  os_connect :: "'a \<Rightarrow> conn option"
  os_connect_unix :: "string \<Rightarrow> conn option"
  os_malloc_byte :: char

subsection \<open>Opening the connection\<close>

fun first_connection :: "('a \<Rightarrow> conn option) \<Rightarrow> 'a list \<Rightarrow> conn option" where
  "first_connection f [] = None"
| "first_connection f (a # as) =
     (case f a of None \<Rightarrow> first_connection f as | Some c \<Rightarrow> Some c)"

text \<open>
  The host name is copied into a \<open>malloc\<close>ed buffer whose last byte is never set (the
  statement \<open>host_name[cp-addr] - 0;\<close> has no effect), so the name is a string only if the
  allocator happened to deliver a zero byte there.
\<close>

definition tcp_socket :: "'a os \<Rightarrow> string \<Rightarrow> conn option outcome" where
  "tcp_socket os addr =
     (let n = length (takeWhile (\<lambda>c. c \<noteq> CHR '':'') addr);
          with_host = (n < length addr);
          host_port = (if with_host then drop (Suc n) addr else addr);
          host_name = (if with_host then take n addr else ''localhost'')
      in c_defined (with_host \<longrightarrow> os_malloc_byte os = NUL)
           (case os_getaddrinfo os host_name host_port of
              None \<Rightarrow> Stop Assert_failed
            | Some res \<Rightarrow> Done (first_connection (os_connect os) res)))"

definition sun_path_size :: nat where
  "sun_path_size = 108"

definition pipe_socket :: "'a os \<Rightarrow> string \<Rightarrow> conn option outcome" where
  "pipe_socket os path =
     c_assert (length path < sun_path_size) (Done (os_connect_unix os path))"

definition simbus_server_socket :: "'a os \<Rightarrow> string \<Rightarrow> conn option outcome" where
  "simbus_server_socket os addr =
     (if take 4 addr = ''tcp:'' then tcp_socket os (drop 4 addr)
      else if take 5 addr = ''pipe:'' then pipe_socket os (drop 5 addr)
      else tcp_socket os addr)"

section \<open>Numbers in text\<close>

fun dec_nat :: "nat \<Rightarrow> string" where
  "dec_nat n = (if n < 10 then [char_of (48 + n)] else dec_nat (n div 10) @ [char_of (48 + n mod 10)])"

declare dec_nat.simps [simp del]

definition dec_int :: "int \<Rightarrow> string" where
  "dec_int i = (if i < 0 then CHR ''-'' # dec_nat (nat (- i)) else dec_nat (nat i))"

definition is_digit :: "char \<Rightarrow> bool" where
  "is_digit c \<longleftrightarrow> 48 \<le> (of_char c :: nat) \<and> (of_char c :: nat) \<le> 57"

definition digit_val :: "char \<Rightarrow> nat" where
  "digit_val c = of_char c - 48"

definition is_space :: "char \<Rightarrow> bool" where
  "is_space c \<longleftrightarrow> c = CHR '' '' \<or> 9 \<le> (of_char c :: nat) \<and> (of_char c :: nat) \<le> 13"

definition digits_val :: "string \<Rightarrow> nat" where
  "digits_val ds = foldl (\<lambda>a c. a * 10 + digit_val c) 0 ds"

text \<open>The common part of \<open>strtoul\<close> and \<open>strtol\<close> in base 10: sign, magnitude, rest.\<close>

definition scan_number :: "string \<Rightarrow> (bool \<times> nat \<times> string) option" where
  "scan_number s =
     (let s1 = dropWhile is_space s;
          neg = (s1 \<noteq> [] \<and> hd s1 = CHR ''-'');
          s2 = (if s1 \<noteq> [] \<and> (hd s1 = CHR ''-'' \<or> hd s1 = CHR ''+'') then tl s1 else s1);
          ds = takeWhile is_digit s2
      in if ds = [] then None else Some (neg, digits_val ds, dropWhile is_digit s2))"

definition strtoul :: "string \<Rightarrow> u64 \<times> string" where
  "strtoul s =
     (case scan_number s of
        None \<Rightarrow> (0, s)
      | Some (neg, m, rest) \<Rightarrow>
          (if m \<ge> 2 ^ 64 then - 1 else if neg then - of_nat m else of_nat m, rest))"

text \<open>\<open>strtoul(s, 0, 0)\<close>: the base is in the prefix.\<close>

definition digit_in :: "nat \<Rightarrow> char \<Rightarrow> nat option" where
  "digit_in base c =
     (let n = of_char c :: nat;
          d = (if 48 \<le> n \<and> n \<le> 57 then n - 48 else if 97 \<le> n \<and> n \<le> 122 then n - 87
               else if 65 \<le> n \<and> n \<le> 90 then n - 55 else base)
      in if d < base then Some d else None)"

definition strtoul0 :: "string \<Rightarrow> u64" where
  "strtoul0 s =
     (let s1 = dropWhile is_space s;
          neg = (s1 \<noteq> [] \<and> hd s1 = CHR ''-'');
          s2 = (if s1 \<noteq> [] \<and> (hd s1 = CHR ''-'' \<or> hd s1 = CHR ''+'') then tl s1 else s1);
          hex = ((take 2 s2 = ''0x'' \<or> take 2 s2 = ''0X'') \<and> 2 < length s2 \<and> digit_in 16 (s2 ! 2) \<noteq> None);
          base = (if hex then 16 else if take 1 s2 = ''0'' then 8 else 10);
          ds = takeWhile (\<lambda>c. digit_in base c \<noteq> None) (if hex then drop 2 s2 else s2);
          m = foldl (\<lambda>a c. a * base + the (digit_in base c)) 0 ds
      in if m \<ge> 2 ^ 64 then - 1 else if neg then - of_nat m else of_nat m)"

definition strtol :: "string \<Rightarrow> int" where
  "strtol s =
     (case scan_number s of
        None \<Rightarrow> 0
      | Some (neg, m, rest) \<Rightarrow>
          (if neg then max (- int m) (- (2 ^ 63)) else min (int m) (2 ^ 63 - 1)))"

definition to_int32 :: "int \<Rightarrow> int" where
  "to_int32 i = sint (word_of_int i :: u32)"

section \<open>Simulation time\<close>

record simbus_time =
  time_mant :: u64
  time_exp :: int

definition init_simbus_time :: simbus_time where
  "init_simbus_time = \<lparr>time_mant = 0, time_exp = 0\<rparr>"

definition parse_time_token :: "string \<Rightarrow> simbus_time outcome" where
  "parse_time_token token =
     (let (mant, cp) = strtoul token
      in c_assert (cp \<noteq> [] \<and> hd cp = CHR ''e'')
           (Done \<lparr>time_mant = mant, time_exp = to_int32 (strtol (tl cp))\<rparr>))"

text \<open>\<open>snprintf(buf, sizeof(buf), "READY %" PRIu64 "e%d", time_mant, time_exp)\<close>\<close>

definition time_token :: "simbus_time \<Rightarrow> string" where
  "time_token t = dec_nat (unat (time_mant t)) @ ''e'' @ dec_int (time_exp t)"

definition ready_prefix :: "simbus_time \<Rightarrow> string" where
  "ready_prefix t = ''READY '' @ time_token t"

section \<open>Commands\<close>

definition NL :: char where
  "NL = CHR 0x0A"

definition buf_size :: nat where
  "buf_size = 4096"

definition max_argc :: nat where
  "max_argc = 2048"

text \<open>
  \<open>strchr(buf, '\n')\<close> on a buffer of which only the listed bytes are initialised: the
  position, or the reason there is none.
\<close>

fun find_newline :: "string \<Rightarrow> nat outcome" where
  "find_newline [] = Stop Undefined"
| "find_newline (c # cs) =
     (if c = NL then Done 0
      else if c = NUL then Stop Assert_failed
      else obind (find_newline cs) (\<lambda>n. Done (Suc n)))"

text \<open>The C string at the start of a buffer (\<open>strcmp\<close> and \<open>sscanf\<close> see this).\<close>

definition cstr :: "string \<Rightarrow> string" where
  "cstr buf = takeWhile (\<lambda>c. c \<noteq> NUL) buf"

text \<open>The command assembled in \<open>buf\<close>: the \<open>snprintf\<close>, the argument loop and the newline.\<close>

definition hello_line :: "string \<Rightarrow> string list \<Rightarrow> string" where
  "hello_line name argv =
     take (buf_size - 1) (''HELLO '' @ name) @ concat (map (\<lambda>a. '' '' @ a) argv) @ [NL]"

definition simbus_server_hello ::
  "conn \<Rightarrow> string \<Rightarrow> string list \<Rightarrow> (int \<times> u32 \<times> conn) outcome" where
  "simbus_server_hello server_fd name argv =
     (let buf = hello_line name argv
      in c_defined (length buf + 1 \<le> buf_size)
           (let (rc, c1) = sock_write server_fd buf
            in c_assert (rc = int (length buf))
                 (obind (sock_read c1 buf_size) (\<lambda>(r, c2).
                    case r of
                      Rd_error \<Rightarrow> Stop Assert_failed
                    | Rd_data s \<Rightarrow>
                        c_assert (s \<noteq> [])
                          (let mem = s @ drop (length s) (buf @ [NUL])
                           in obind (find_newline mem) (\<lambda>_.
                                if cstr mem = ''NAK'' @ [NL] then Done (-1, 0, sock_close c2)
                                else if take 8 mem = ''YOU-ARE ''
                                  then Done (0, ucast (fst (strtoul (drop 7 (cstr mem)))), c2)
                                else Done (-1, 0, sock_close c2)))))))"

definition simbus_server_finish :: "conn \<Rightarrow> conn outcome" where
  "simbus_server_finish server_fd =
     (let (rc, c1) = sock_write server_fd (''FINISH'' @ [NL])
      in c_assert (rc = 7)
           (obind (sock_read c1 127) (\<lambda>(r, c2).
              case r of
                Rd_error \<Rightarrow> Stop Assert_failed
              | Rd_data s \<Rightarrow> c_assert (cstr s = ''FINISH'' @ [NL]) (Done c2))))"

text \<open>
  The token loop
  \<open>while (*cp && cur_argc < max_argc) { argv[cur_argc++] = cp; cp += strcspn(cp, " ");
    *cp++ = 0; cp += strspn(cp, " "); }\<close>
  steps over the terminator of the last token, whatever that was.
\<close>

fun chop_tokens :: "nat \<Rightarrow> string \<Rightarrow> string list outcome" where
  "chop_tokens room [] = Stop Undefined"
| "chop_tokens room (c # cs) =
     (if c = NUL then Done []
      else case room of
        0 \<Rightarrow> Done []
      | Suc room' \<Rightarrow>
          (let tok = takeWhile (\<lambda>x. x \<noteq> CHR '' '' \<and> x \<noteq> NUL) (c # cs);
               rest = dropWhile (\<lambda>x. x \<noteq> CHR '' '' \<and> x \<noteq> NUL) (c # cs)
           in case rest of
                [] \<Rightarrow> Stop Undefined
              | x # rest' \<Rightarrow>
                  obind (chop_tokens room' (dropWhile (\<lambda>y. y = CHR '' '') rest'))
                    (\<lambda>toks. Done (tok # toks))))"

definition simbus_server_send_recv :: "conn \<Rightarrow> string \<Rightarrow> nat \<Rightarrow> nat \<Rightarrow> (string list \<times> conn) outcome" where
  "simbus_server_send_recv server_fd buf bsize maxc =
     (let (rc, c1) = sock_write server_fd buf
      in if rc < 0 then Done ([], c1)
         else c_assert (rc = int (length buf))
           (obind (sock_read c1 (bsize - 1)) (\<lambda>(r, c2).
              case r of
                Rd_error \<Rightarrow> Stop Assert_failed
              | Rd_data s \<Rightarrow>
                  if s = [] then Done ([], c2)
                  else
                    let mem = s @ [NUL] @ drop (Suc (length s)) (buf @ [NUL])
                    in obind (find_newline mem) (\<lambda>n.
                         obind (chop_tokens maxc (dropWhile (\<lambda>y. y = CHR '' '') (mem[n := NUL])))
                           (\<lambda>argv. c_defined (length argv < maxc) (Done (argv, c2)))))))"

section \<open>Signals\<close>

definition ready_signal :: "string \<Rightarrow> bitval list \<Rightarrow> nat \<Rightarrow> string" where
  "ready_signal name val nval = '' '' @ name @ ''='' @ msb_first nval val"

definition until_signal :: "string \<Rightarrow> bitval list \<Rightarrow> nat \<Rightarrow> bitval list outcome" where
  "until_signal src val nval = c_assert (nval = length src) (Done (load_msb nval src val))"

text \<open>\<open>*cp\<close> of a possibly empty string.\<close>

definition char0 :: "string \<Rightarrow> char" where
  "char0 s = (case s of [] \<Rightarrow> NUL | c # _ \<Rightarrow> c)"

text \<open>
  What every READY function does with the answer: no token or FINISH ends the simulation;
  otherwise UNTIL, a time token and \<open>name=value\<close> tokens, each handed to the bus.
\<close>

fun each_signal :: "('s \<Rightarrow> string \<Rightarrow> string \<Rightarrow> 's outcome) \<Rightarrow> string list \<Rightarrow> 's \<Rightarrow> 's outcome" where
  "each_signal f [] s = Done s"
| "each_signal f (tok # toks) s =
     c_assert (CHR ''='' \<in> set tok)
       (obind (f s (takeWhile (\<lambda>c. c \<noteq> CHR ''='') tok) (tl (dropWhile (\<lambda>c. c \<noteq> CHR ''='') tok)))
          (each_signal f toks))"

definition handle_until ::
  "int \<Rightarrow> (simbus_time \<Rightarrow> 's \<Rightarrow> 's) \<Rightarrow> ('s \<Rightarrow> string \<Rightarrow> string \<Rightarrow> 's outcome) \<Rightarrow>
     string list \<Rightarrow> 's \<Rightarrow> (int \<times> 's) outcome" where
  "handle_until finished set_time on_signal argv s =
     (if argv = [] then Done (finished, s)
      else if hd argv = ''FINISH'' then Done (finished, s)
      else c_assert (hd argv = ''UNTIL'')
        (c_defined (2 \<le> length argv)
          (obind (parse_time_token (argv ! 1)) (\<lambda>t.
             obind (each_signal on_signal (drop 2 argv) (set_time t s)) (\<lambda>s'. Done (0, s'))))))"

text \<open>
  The frame of every READY function: the command in a 4096-byte buffer, sent and answered, the
  answer taken in.
\<close>

definition ready_exchange ::
  "('s \<Rightarrow> conn) \<Rightarrow> (conn \<Rightarrow> 's \<Rightarrow> 's) \<Rightarrow> int \<Rightarrow> (simbus_time \<Rightarrow> 's \<Rightarrow> 's) \<Rightarrow>
     ('s \<Rightarrow> string \<Rightarrow> string \<Rightarrow> 's outcome) \<Rightarrow> string \<Rightarrow> 's \<Rightarrow> (int \<times> 's) outcome" where
  "ready_exchange fd_of set_fd finished set_time on_signal buf s =
     c_defined (length buf + 1 \<le> buf_size)
       (obind (simbus_server_send_recv (fd_of s) buf buf_size max_argc) (\<lambda>(argv, c).
          handle_until finished set_time on_signal argv (set_fd c s)))"

text \<open>
  The two ways the buses wait for a signal level: repeating the READY exchange whatever it
  reports, or only as long as it reports no error.
\<close>

definition spin :: "('s \<Rightarrow> conn) \<Rightarrow> ('s \<Rightarrow> (int \<times> 's) outcome) \<Rightarrow> ('s \<Rightarrow> bool) \<Rightarrow> 's \<Rightarrow> 's outcome" where
  "spin conn_of ready b =
     while_io (\<lambda>s. pending (conn_of s)) b (\<lambda>s. obind (ready s) (\<lambda>(rc, t). Done t))"

definition spin_rc ::
  "('s \<Rightarrow> conn) \<Rightarrow> ('s \<Rightarrow> (int \<times> 's) outcome) \<Rightarrow> ('s \<Rightarrow> bool) \<Rightarrow> int \<times> 's \<Rightarrow> (int \<times> 's) outcome" where
  "spin_rc conn_of ready b =
     while_io (\<lambda>(rc, s). pending (conn_of s)) (\<lambda>(rc, s). b s \<and> 0 \<le> rc) (\<lambda>(rc, s). ready s)"

section \<open>Numbers: printing and scanning\<close>

lemma of_char_digit: "n < 10 \<Longrightarrow> (of_char (char_of (48 + n) :: char) :: nat) = 48 + n"
  by (simp add: of_char_of)

lemma digit_char_of [simp]: "n < 10 \<Longrightarrow> is_digit (char_of (48 + n)) \<and> digit_val (char_of (48 + n)) = n"
  by (simp add: is_digit_def digit_val_def of_char_digit)

lemma dec_nat_digits: "list_all is_digit (dec_nat n)"
  by (induction n rule: dec_nat.induct) (subst dec_nat.simps, simp)

lemma dec_nat_nonempty [simp]: "dec_nat n \<noteq> []"
  by (subst dec_nat.simps) simp

lemma digits_val_append1: "digits_val (ds @ [c]) = digits_val ds * 10 + digit_val c"
  by (simp add: digits_val_def)

lemma digits_val_dec_nat [simp]: "digits_val (dec_nat n) = n"
proof (induction n rule: dec_nat.induct)
  case (1 n)
  show ?case
  proof (cases "n < 10")
    case True
    then show ?thesis by (subst dec_nat.simps) (simp add: digits_val_def)
  next
    case False
    with 1 have "digits_val (dec_nat (n div 10)) = n div 10" by simp
    with False show ?thesis by (subst dec_nat.simps) (simp add: digits_val_append1)
  qed
qed

lemma length_dec_nat: "0 < k \<Longrightarrow> n < 10 ^ k \<Longrightarrow> length (dec_nat n) \<le> k"
proof (induction k arbitrary: n)
  case 0
  then show ?case by simp
next
  case (Suc k)
  show ?case
  proof (cases "n < 10")
    case True
    then show ?thesis by (subst dec_nat.simps) simp
  next
    case False
    with Suc.prems have "0 < k" by (cases k) auto
    moreover have "n div 10 < 10 ^ k" using Suc.prems by (simp add: div_less_iff_less_mult mult.commute)
    ultimately have "length (dec_nat (n div 10)) \<le> k" by (rule Suc.IH)
    with False show ?thesis by (subst dec_nat.simps) simp
  qed
qed

lemma digit_neq: "is_digit c \<Longrightarrow> c \<noteq> CHR ''-'' \<and> c \<noteq> CHR ''+'' \<and> c \<noteq> CHR ''e'' \<and> \<not> is_space c
    \<and> c \<noteq> CHR '' '' \<and> c \<noteq> NUL \<and> c \<noteq> NL \<and> c \<noteq> CHR ''=''"
  by (auto simp: is_digit_def is_space_def NUL_def NL_def)

lemma takeWhile_dec:
  assumes "rest = [] \<or> \<not> is_digit (hd rest)"
  shows "takeWhile is_digit (dec_nat n @ rest) = dec_nat n"
    and "dropWhile is_digit (dec_nat n @ rest) = rest"
  using dec_nat_digits [of n] assms
  by (auto simp: list_all_iff takeWhile_append2 dropWhile_append2 takeWhile_eq_Nil_iff
      dropWhile_eq_self_iff)

lemma hd_dec_nat: "is_digit (hd (dec_nat n))"
  using dec_nat_digits [of n] by (cases "dec_nat n") (auto simp: list_all_iff)

lemma scan_dec_nat:
  assumes "rest = [] \<or> \<not> is_digit (hd rest)"
  shows "scan_number (dec_nat n @ rest) = Some (False, n, rest)"
proof -
  have hd: "hd (dec_nat n @ rest) = hd (dec_nat n)" by simp
  have "dropWhile is_space (dec_nat n @ rest) = dec_nat n @ rest"
    using hd_dec_nat [of n] hd digit_neq by (metis dropWhile_eq_self_iff)
  then show ?thesis
    using hd_dec_nat [of n] digit_neq [of "hd (dec_nat n)"] takeWhile_dec [OF assms, of n]
    by (simp add: scan_number_def Let_def)
qed

lemma scan_minus:
  assumes "rest = [] \<or> \<not> is_digit (hd rest)"
  shows "scan_number (CHR ''-'' # dec_nat n @ rest) = Some (True, n, rest)"
  using takeWhile_dec [OF assms, of n]
  by (simp add: scan_number_def Let_def is_space_def)

lemma strtol_dec_int: "- (2 ^ 63) \<le> i \<Longrightarrow> i < 2 ^ 63 \<Longrightarrow> strtol (dec_int i) = i"
  using scan_dec_nat [of "[]" "nat i"] scan_minus [of "[]" "nat (- i)"]
  by (auto simp: strtol_def dec_int_def)

lemma to_int32_id: "- (2 ^ 31) \<le> i \<Longrightarrow> i < 2 ^ 31 \<Longrightarrow> to_int32 i = i"
  by (simp add: to_int32_def signed_of_int signed_take_bit_int_eq_self)

definition time_ok :: "simbus_time \<Rightarrow> bool" where
  "time_ok t \<longleftrightarrow> - (2 ^ 31) \<le> time_exp t \<and> time_exp t < 2 ^ 31"

lemma time_ok_init [simp]: "time_ok init_simbus_time"
  by (simp add: time_ok_def init_simbus_time_def)

lemma to_int32_range: "- (2 ^ 31) \<le> to_int32 i \<and> to_int32 i < 2 ^ 31"
  using sint_range_size [of "word_of_int i :: u32"] by (simp add: to_int32_def word_size)

lemma parse_time_ok: "ret (parse_time_token tok) time_ok"
  using to_int32_range by (auto simp: parse_time_token_def time_ok_def split: prod.splits)

text \<open>The printed form of a time: at most 20 digits, the letter e, at most 11 characters.\<close>

lemma length_time_token: "time_ok t \<Longrightarrow> length (time_token t) \<le> 32"
proof -
  assume ok: "time_ok t"
  have "unat (time_mant t) < 2 ^ 64" using unsigned_less [of "time_mant t"] by simp
  then have "length (dec_nat (unat (time_mant t))) \<le> 20"
    by (intro length_dec_nat) simp_all
  moreover have "length (dec_nat (nat \<bar>time_exp t\<bar>)) \<le> 10"
    using ok by (intro length_dec_nat) (auto simp: time_ok_def)
  ultimately show ?thesis by (auto simp: time_token_def dec_int_def)
qed

section \<open>Pending input\<close>

lemma pending_sock_write: "sock_write c msg = (rc, c') \<Longrightarrow>
    pending c' \<le> pending c \<and> rx c' = rx c \<and> (rc < 0 \<longrightarrow> pending c' < pending c)"
  by (auto simp: sock_write_def pending_def split: list.splits write_event.splits)

lemma pending_sock_read: "0 < n \<Longrightarrow> sock_read c n = Done (r, c') \<Longrightarrow> pending c' < pending c"
  by (auto simp: sock_read_def pending_def split: list.splits read_event.splits if_splits)

lemma pending_send_recv:
  assumes "1 < bsize" and "simbus_server_send_recv c buf bsize maxc = Done (argv, c')"
  shows "pending c' < pending c"
proof -
  obtain rc c1 where w: "sock_write c buf = (rc, c1)" by (cases "sock_write c buf")
  note pw = pending_sock_write [OF w]
  show ?thesis
  proof (cases "rc < 0")
    case True
    with assms(2) w pw show ?thesis by (auto simp: simbus_server_send_recv_def)
  next
    case False
    obtain r where "sock_read c1 (bsize - 1) = Done (r, c')"
    proof (cases "sock_read c1 (bsize - 1)")
      case (Done p)
      with False assms(2) w show thesis
        by (cases p; cases "fst p")
          (auto simp: simbus_server_send_recv_def Let_def split: if_splits intro: that)
    next
      case (Stop e)
      with False assms(2) w show thesis by (auto simp: simbus_server_send_recv_def)
    qed
    from pending_sock_read [OF _ this] assms(1) pw show ?thesis by simp
  qed
qed

subsection \<open>The interface of a bus: one READY exchange\<close>

text \<open>
  Every bus offers one operation that sends its outputs and takes in one answer.  What the
  clock functions rely on is only that an exchange that returns has consumed input; the loops
  over it then need no other termination argument.
\<close>

locale ready_bus =
  fixes conn_of :: "'s \<Rightarrow> conn" and ready :: "'s \<Rightarrow> (int \<times> 's) outcome"
  assumes ready_consumes: "ready s = Done (rc, t) \<Longrightarrow> pending (conn_of t) < pending (conn_of s)"
begin

sublocale plain: io_loop "\<lambda>s. pending (conn_of s)" "\<lambda>s. obind (ready s) (\<lambda>(rc, t). Done t)"
  by unfold_locales (auto dest: ready_consumes)

sublocale coded: io_loop "\<lambda>(rc :: int, s). pending (conn_of s)" "\<lambda>(rc, s). ready s"
  by unfold_locales (auto dest: ready_consumes)

lemma spin_unfold:
  "spin conn_of ready b s =
     (if b s then obind (ready s) (\<lambda>(rc, t). spin conn_of ready b t) else Done s)"
proof -
  have "spin conn_of ready b s =
    (if b s then obind (obind (ready s) (\<lambda>(rc, t). Done t)) (spin conn_of ready b) else Done s)"
    unfolding spin_def by (rule plain.unfold)
  also have "obind (obind (ready s) (\<lambda>(rc, t). Done t)) (spin conn_of ready b) =
      obind (ready s) (\<lambda>(rc, t). spin conn_of ready b t)"
    by (simp add: obind_assoc case_prod_unfold)
  finally show ?thesis .
qed

lemma spin_rc_unfold:
  "spin_rc conn_of ready b (rc, s) =
     (if b s \<and> 0 \<le> rc then obind (ready s) (spin_rc conn_of ready b) else Done (rc, s))"
  using coded.unfold [of "\<lambda>(rc, s). b s \<and> 0 \<le> rc" "(rc, s)"] by (simp add: spin_rc_def)

lemma spin_post: "ret (spin conn_of ready b s) (\<lambda>t. \<not> b t)"
  unfolding spin_def by (rule ret_mono [OF ret_while_io [where I = "\<lambda>_. True"]]) (auto intro: retI)

lemma spin_rc_post: "ret (spin_rc conn_of ready b p) (\<lambda>(rc, t). rc < 0 \<or> \<not> b t)"
  unfolding spin_rc_def
  by (rule ret_mono [OF ret_while_io [where I = "\<lambda>_. True"]]) (auto intro: retI)

lemma spin_inv:
  assumes "I s" and "\<And>s. I s \<Longrightarrow> ret (ready s) (\<lambda>(rc, t). I t)"
  shows "ret (spin conn_of ready b s) I"
  unfolding spin_def
  by (rule ret_mono [OF ret_while_io [where I = I]])
    (use assms in \<open>auto simp: case_prod_unfold\<close>)

lemma spin_rc_inv:
  assumes "I s" and "\<And>s. I s \<Longrightarrow> ret (ready s) (\<lambda>(rc, t). I t)"
  shows "ret (spin_rc conn_of ready b (rc, s)) (\<lambda>(rc, t). I t)"
  unfolding spin_rc_def
  by (rule ret_mono [OF ret_while_io [where I = "\<lambda>(rc, t). I t"]])
    (use assms in \<open>auto simp: case_prod_unfold\<close>)

lemma spin_pending: "ret (spin conn_of ready b s) (\<lambda>t. pending (conn_of t) \<le> pending (conn_of s))"
  unfolding spin_def by (rule plain.pend_le)

lemma spin_pending_less:
  "b s \<Longrightarrow> ret (spin conn_of ready b s) (\<lambda>t. pending (conn_of t) < pending (conn_of s))"
  by (subst spin_unfold) (auto intro!: retI dest!: ready_consumes dest: spin_pending [THEN retD])

lemma spin_rc_pending:
  "ret (spin_rc conn_of ready b (rc, s)) (\<lambda>(rc, t). pending (conn_of t) \<le> pending (conn_of s))"
  unfolding spin_rc_def
  using coded.pend_le [of "\<lambda>(rc, s). b s \<and> 0 \<le> rc" "(rc, s)"] by (simp add: case_prod_unfold)

lemma spin_not_out_of_fuel:
  "(\<And>s. ready s \<noteq> Stop Out_of_fuel) \<Longrightarrow> spin conn_of ready b s \<noteq> Stop Out_of_fuel"
  unfolding spin_def by (rule plain.never_out_of_fuel) (auto simp: obind_eq_Stop)

lemma spin_rc_not_out_of_fuel:
  "(\<And>s. ready s \<noteq> Stop Out_of_fuel) \<Longrightarrow> spin_rc conn_of ready b p \<noteq> Stop Out_of_fuel"
  unfolding spin_rc_def by (rule coded.never_out_of_fuel) (auto simp: case_prod_unfold)

end

subsection \<open>The interface of a bus: its signals\<close>

lemma each_signal_inv:
  assumes "\<And>s nm cp. I s \<Longrightarrow> ret (f s nm cp) I" and "I s"
  shows "ret (each_signal f toks s) I"
  using assms(2)
proof (induction toks arbitrary: s)
  case (Cons tok toks)
  then show ?case
    by (auto intro!: retI dest: assms(1) [THEN retD] Cons.IH [THEN retD, rotated])
qed simp

lemma handle_until_inv:
  assumes "\<And>s nm cp. I s \<Longrightarrow> ret (f s nm cp) I" and "\<And>t s. time_ok t \<Longrightarrow> I s \<Longrightarrow> I (st t s)" and "I s"
  shows "ret (handle_until fin st f argv s) (\<lambda>(rc, t). I t)"
proof -
  have "ret (each_signal f toks (st t s)) I" if "time_ok t" for t toks
    by (rule each_signal_inv [OF assms(1)]) (use assms(2,3) that in auto)
  then show ?thesis
    using assms(3) parse_time_ok [of "argv ! 1"]
    by (auto simp: handle_until_def ret_def)
qed

lemma handle_until_rc: "ret (handle_until fin st f argv s) (\<lambda>(rc, t). rc = 0 \<or> rc = fin)"
  by (auto simp: handle_until_def ret_def)

text \<open>Nothing in an exchange runs on a budget.\<close>

lemma find_newline_fuel [simp]: "find_newline s \<noteq> Stop Out_of_fuel"
  by (induction s) (auto simp: obind_eq_Stop)

lemma chop_tokens_fuel [simp]: "chop_tokens n s \<noteq> Stop Out_of_fuel"
proof (induction n s rule: chop_tokens.induct)
  case (2 room c cs)
  show ?case
    by (subst chop_tokens.simps, split if_splits, split nat.splits)
      (auto simp: Let_def obind_eq_Stop 2 simp del: chop_tokens.simps split: list.splits)
qed simp

lemma sock_read_fuel [simp]: "sock_read c n \<noteq> Stop Out_of_fuel"
  by (auto simp: sock_read_def split: list.splits read_event.splits)

lemma send_recv_fuel [simp]: "simbus_server_send_recv c buf n m \<noteq> Stop Out_of_fuel"
  by (auto simp: simbus_server_send_recv_def Let_def obind_eq_Stop c_assert_def c_defined_def
      split: prod.splits read_event.splits)

lemma handle_until_fuel:
  assumes "\<And>s nm cp. f s nm cp \<noteq> Stop Out_of_fuel"
  shows "handle_until fin st f argv s \<noteq> Stop Out_of_fuel"
proof -
  have "each_signal f toks s \<noteq> Stop Out_of_fuel" for toks s
    by (induction toks arbitrary: s) (auto simp: obind_eq_Stop c_assert_def assms)
  then show ?thesis
    by (auto simp: handle_until_def obind_eq_Stop c_assert_def c_defined_def parse_time_token_def
        split: prod.splits)
qed

text \<open>
  What a bus supplies to the exchange: where its connection and time are stored, how it takes a
  signal, when its configuration fits its arrays (the exchange is undefined otherwise), and an
  invariant that all of these keep.  In return the exchange consumes input (so
  every clock loop over it ends), keeps the invariant and reports only 0 or its end-of-simulation
  code.
\<close>

locale signal_bus =
  fixes fd_of :: "'s \<Rightarrow> conn" and set_fd :: "conn \<Rightarrow> 's \<Rightarrow> 's" and finished :: int
    and set_time :: "simbus_time \<Rightarrow> 's \<Rightarrow> 's"
    and on_signal :: "'s \<Rightarrow> string \<Rightarrow> string \<Rightarrow> 's outcome"
    and message :: "'s \<Rightarrow> string" and fits :: "'s \<Rightarrow> bool"
    and ready :: "'s \<Rightarrow> (int \<times> 's) outcome" and ok :: "'s \<Rightarrow> bool"
  assumes ready_eq: "ready s = c_defined (fits s)
      (ready_exchange fd_of set_fd finished set_time on_signal (message s) s)"
    and fd_set_fd: "fd_of (set_fd c s) = c"
    and fd_set_time: "fd_of (set_time t s) = fd_of s"
    and fd_on_signal: "ret (on_signal s nm cp) (\<lambda>t. fd_of t = fd_of s)"
    and ok_set_fd: "ok s \<Longrightarrow> ok (set_fd c s)"
    and ok_set_time: "time_ok t \<Longrightarrow> ok s \<Longrightarrow> ok (set_time t s)"
    and ok_on_signal: "ok s \<Longrightarrow> ret (on_signal s nm cp) ok"
    and fuel_on_signal: "on_signal s nm cp \<noteq> Stop Out_of_fuel"
begin

lemma exchange_consumes:
  assumes "ready s = Done (rc, t)"
  shows "pending (fd_of t) < pending (fd_of s)"
proof -
  from assms obtain argv c where
    sr: "simbus_server_send_recv (fd_of s) (message s) buf_size max_argc = Done (argv, c)" and
    h: "handle_until finished set_time on_signal argv (set_fd c s) = Done (rc, t)"
    by (auto simp: ready_eq ready_exchange_def)
  have "ret (handle_until finished set_time on_signal argv (set_fd c s)) (\<lambda>(rc, t). fd_of t = c)"
    by (rule handle_until_inv [where I = "\<lambda>t. fd_of t = c"])
      (use fd_on_signal in \<open>auto simp: ret_def fd_set_fd fd_set_time\<close>)
  from retD [OF this h] pending_send_recv [OF _ sr] show ?thesis by (simp add: buf_size_def)
qed

sublocale ready_bus fd_of ready
  by unfold_locales (rule exchange_consumes)

lemma exchange_ok:
  assumes "ok s"
  shows "ret (ready s) (\<lambda>(rc, t). ok t)"
proof -
  have "ret (handle_until finished set_time on_signal argv (set_fd c s)) (\<lambda>(rc, t). ok t)" for argv c
    by (rule handle_until_inv) (use assms ok_on_signal ok_set_time ok_set_fd in auto)
  then show ?thesis by (auto simp: ready_eq ready_exchange_def case_prod_unfold intro!: retI dest: retD)
qed

lemma exchange_rc:
  "ret (ready s)
     (\<lambda>(rc, t). rc = 0 \<or> rc = finished)"
  using handle_until_rc [of finished set_time on_signal]
  by (auto simp: ready_eq ready_exchange_def case_prod_unfold intro!: retI dest: retD)

lemma exchange_fuel: "ready s \<noteq> Stop Out_of_fuel"
  using handle_until_fuel [OF fuel_on_signal]
  by (auto simp: ready_eq ready_exchange_def obind_eq_Stop c_defined_def split: prod.splits)

lemmas spin_fuel = spin_not_out_of_fuel [OF exchange_fuel]
lemmas spin_rc_fuel = spin_rc_not_out_of_fuel [OF exchange_fuel]

lemma spin_rc_code:
  assumes "rc = 0 \<or> rc = finished"
  shows "ret (spin_rc fd_of ready q (rc, s)) (\<lambda>(rc, t). rc = 0 \<or> rc = finished)"
  unfolding spin_rc_def
  by (rule ret_mono [OF ret_while_io [where I = "\<lambda>(rc, t). rc = 0 \<or> rc = finished"]])
    (use assms exchange_rc in \<open>auto simp: case_prod_unfold\<close>)

end

section \<open>Tokens\<close>

lemma skip_spaces: "dropWhile (\<lambda>y. y = CHR '' '') s = [] \<or> hd (dropWhile (\<lambda>y. y = CHR '' '') s) \<noteq> CHR '' ''"
  using hd_dropWhile [of "\<lambda>y. y = CHR '' ''" s] by blast

text \<open>Every token takes at least one character and its separator another.\<close>

lemma chop_tokens_length:
  "cs = [] \<or> hd cs \<noteq> CHR '' '' \<Longrightarrow>
     ret (chop_tokens room cs) (\<lambda>toks. 2 * length toks < length cs \<and> length toks \<le> room)"
proof (induction room cs rule: chop_tokens.induct)
  case (1 room)
  show ?case by simp
next
  case (2 room c cs)
  let ?p = "\<lambda>x. x \<noteq> CHR '' '' \<and> x \<noteq> NUL"
  show ?case
  proof (cases "c = NUL \<or> room = 0")
    case True
    then show ?thesis by (auto split: nat.splits)
  next
    case False
    then obtain room' where room: "room = Suc room'" by (cases room) auto
    from False "2.prems" have drop: "dropWhile ?p (c # cs) = dropWhile ?p cs" by simp
    show ?thesis
    proof (cases "dropWhile ?p cs")
      case Nil
      then show ?thesis using False room drop
        by (simp add: Let_def del: dropWhile.simps takeWhile.simps dropWhile_eq_Nil_conv)
    next
      case (Cons x rest)
      let ?q = "dropWhile (\<lambda>y. y = CHR '' '') rest"
      have "ret (chop_tokens room' ?q) (\<lambda>toks. 2 * length toks < length ?q \<and> length toks \<le> room')"
        by (rule 2(1) [OF _ _ refl refl])
          (use False room Cons drop skip_spaces [of rest] in \<open>auto simp del: dropWhile.simps\<close>)
      moreover have "Suc (length rest) \<le> length cs" "length ?q \<le> length rest"
        using Cons length_dropWhile_le [of ?p cs] length_dropWhile_le [of _ rest] by auto
      ultimately show ?thesis
        using False room Cons drop
        by (auto simp: Let_def ret_def simp del: dropWhile.simps takeWhile.simps)
    qed
  qed
qed

subsection \<open>A response line and its tokens\<close>

definition plain_token :: "string \<Rightarrow> bool" where
  "plain_token t \<longleftrightarrow> t \<noteq> [] \<and> (\<forall>c \<in> set t. c \<noteq> CHR '' '' \<and> c \<noteq> NUL \<and> c \<noteq> NL)"

fun join_tokens :: "string list \<Rightarrow> string" where
  "join_tokens [] = []"
| "join_tokens [t] = t"
| "join_tokens (t # u # us) = t @ CHR '' '' # join_tokens (u # us)"

lemma find_newline_append:
  "(\<forall>c \<in> set xs. c \<noteq> NL \<and> c \<noteq> NUL) \<Longrightarrow> find_newline (xs @ NL # ys) = Done (length xs)"
  by (induction xs) auto

lemma chop_one:
  assumes "plain_token t" and "sep = CHR '' '' \<or> sep = NUL"
  shows "chop_tokens (Suc room) (t @ sep # rest) =
    obind (chop_tokens room (dropWhile (\<lambda>y. y = CHR '' '') rest)) (\<lambda>toks. Done (t # toks))"
proof -
  let ?p = "\<lambda>x. x \<noteq> CHR '' '' \<and> x \<noteq> NUL"
  from assms(1) obtain c cs where t: "t = c # cs" and c: "c \<noteq> NUL" "c \<noteq> CHR '' ''"
    by (cases t) (auto simp: plain_token_def)
  have all: "\<forall>x \<in> set t. ?p x" using assms(1) by (auto simp: plain_token_def)
  then have "takeWhile ?p (t @ sep # rest) = t" "dropWhile ?p (t @ sep # rest) = sep # rest"
    using assms(2) by (simp_all add: takeWhile_append2 dropWhile_append2) auto
  then show ?thesis using c unfolding t by (simp add: Let_def)
qed

lemma hd_join: "toks \<noteq> [] \<Longrightarrow> list_all plain_token toks \<Longrightarrow>
    join_tokens toks \<noteq> [] \<and> hd (join_tokens toks) \<noteq> CHR '' ''"
  by (cases toks rule: join_tokens.cases) (auto simp: plain_token_def)

lemma join_plain: "list_all plain_token toks \<Longrightarrow> c \<in> set (join_tokens toks) \<Longrightarrow> c \<noteq> NL \<and> c \<noteq> NUL"
proof (induction toks rule: join_tokens.induct)
  case (3 t u us)
  then show ?case by (auto simp: plain_token_def NL_def NUL_def)
qed (auto simp: plain_token_def)

lemma skip_none: "xs \<noteq> [] \<Longrightarrow> hd xs \<noteq> CHR '' '' \<Longrightarrow> dropWhile (\<lambda>y. y = CHR '' '') (xs @ ys) = xs @ ys"
  by (cases xs) auto

lemma chop_join:
  "toks \<noteq> [] \<Longrightarrow> list_all plain_token toks \<Longrightarrow> length toks \<le> room \<Longrightarrow>
   chop_tokens room (join_tokens toks @ NUL # NUL # rest) = Done toks"
proof (induction toks arbitrary: room rule: join_tokens.induct)
  case 1
  then show ?case by simp
next
  case (2 t)
  then obtain r where "room = Suc r" by (cases room) auto
  with 2 show ?case by (simp add: chop_one NUL_def)
next
  case (3 t u us)
  then obtain r where r: "room = Suc r" by (cases room) auto
  have "chop_tokens r (join_tokens (u # us) @ NUL # NUL # rest) = Done (u # us)"
    using 3 r by simp
  with 3 r show ?case by (simp add: chop_one skip_none hd_join)
qed

lemma send_recv_join:
  assumes "toks \<noteq> []" and "list_all plain_token toks" and "length toks < maxc"
    and "wr c = []" and "rx c = Rd_data (join_tokens toks @ [NL]) # es"
    and "length (join_tokens toks) + 1 < bsize"
  shows "simbus_server_send_recv c buf bsize maxc = Done (toks, c\<lparr>rx := es, tx := tx c @ [buf]\<rparr>)"
proof -
  let ?l = "join_tokens toks"
  let ?tail = "drop (Suc (Suc (length ?l))) (buf @ [NUL])"
  let ?mem = "(?l @ [NL]) @ [NUL] @ ?tail"
  have nl: "find_newline ?mem = Done (length ?l)"
    using find_newline_append [of ?l "NUL # ?tail"] join_plain [OF assms(2)] by simp
  have upd: "?mem[length ?l := NUL] = ?l @ NUL # NUL # ?tail"
    by simp
  have chop: "chop_tokens maxc (dropWhile (\<lambda>y. y = CHR '' '') (?l @ NUL # NUL # ?tail)) = Done toks"
    using assms(1-3) by (simp add: skip_none hd_join chop_join)
  have len: "Suc (length ?l) \<le> bsize - Suc 0" using assms(6) by simp
  from assms(4-5) len have "simbus_server_send_recv c buf bsize maxc =
      obind (find_newline ?mem) (\<lambda>n. obind
        (chop_tokens maxc (dropWhile (\<lambda>y. y = CHR '' '') (?mem[n := NUL])))
        (\<lambda>argv. c_defined (length argv < maxc) (Done (argv, c\<lparr>tx := tx c @ [buf], rx := es\<rparr>))))"
    by (simp add: simbus_server_send_recv_def sock_write_def sock_read_def Let_def)
  also have "\<dots> = Done (toks, c\<lparr>rx := es, tx := tx c @ [buf]\<rparr>)"
    unfolding nl obind.simps upd chop using assms(3) by simp
  finally show ?thesis .
qed

text \<open>A server answer of space-separated plain tokens, ended by a newline and delivered by one
  read, comes back as exactly those tokens; the message was written and the answer consumed.\<close>

theorem send_recv_tokens:
  assumes "toks \<noteq> []" and "list_all plain_token toks" and "length toks < maxc"
    and "wr c = []" and "rx c = Rd_data (join_tokens toks @ [NL]) # es"
    and "length (join_tokens toks) + 1 < bsize"
  shows "simbus_server_send_recv c buf bsize maxc = Done (toks, c\<lparr>rx := es, tx := tx c @ [buf]\<rparr>)"
  using assms by (rule send_recv_join)

theorem send_recv_tokens_witness:
  "simbus_server_send_recv
     \<lparr>rx = [Rd_data (''UNTIL 5e-9 CLK=1'' @ [NL])], wr = [], tx = [], closed = False\<rparr> ''READY'' 4096 2048
   = Done ([''UNTIL'', ''5e-9'', ''CLK=1''],
       \<lparr>rx = [], wr = [], tx = [''READY''], closed = False\<rparr>)"
  using send_recv_tokens [of "[''UNTIL'', ''5e-9'', ''CLK=1'']" 2048
      "\<lparr>rx = [Rd_data (''UNTIL 5e-9 CLK=1'' @ [NL])], wr = [], tx = [], closed = False\<rparr>" "[]" 4096 "''READY''"]
  by (simp add: plain_token_def NUL_def NL_def)

text \<open>The argument vector never overflows. Whatever a 4096-byte message buffer holds, the token
  loop finds fewer than 2048 tokens, so the final \<open>argv[cur_argc] = 0\<close> stays inside
  \<open>argv[2048]\<close>.\<close>

lemma argv_in_bounds:
  assumes "length mem \<le> buf_size"
    and "chop_tokens max_argc (dropWhile (\<lambda>y. y = CHR '' '') mem) = Done argv"
  shows "length argv < max_argc"
proof -
  have "2 * length argv < length (dropWhile (\<lambda>y. y = CHR '' '') mem)"
    using retD [OF chop_tokens_length [OF skip_spaces] assms(2)] by simp
  also have "\<dots> \<le> buf_size" using length_dropWhile_le [of _ mem] assms(1) by (rule le_trans)
  finally show ?thesis by (simp add: buf_size_def max_argc_def)
qed

lemma parse_printed_time:
  assumes "time_ok t"
  shows "parse_time_token (time_token t) = Done t"
proof -
  have "scan_number (dec_nat (unat (time_mant t)) @ ''e'' @ dec_int (time_exp t)) =
      Some (False, unat (time_mant t), ''e'' @ dec_int (time_exp t))"
    by (rule scan_dec_nat) (simp add: is_digit_def)
  moreover have "unat (time_mant t) < 2 ^ 64" using unsigned_less [of "time_mant t"] by simp
  ultimately have "strtoul (time_token t) = (time_mant t, ''e'' @ dec_int (time_exp t))"
    by (simp add: strtoul_def time_token_def)
  moreover have "to_int32 (strtol (dec_int (time_exp t))) = time_exp t"
    using assms by (simp add: time_ok_def strtol_dec_int to_int32_id)
  ultimately show ?thesis by (simp add: parse_time_token_def)
qed

text \<open>A time printed into a READY command and parsed from an UNTIL answer is the same time, for
  every 64-bit mantissa and every C int exponent.\<close>

lemma time_roundtrip:
  assumes "time_ok t"
  shows "parse_time_token (time_token t) = Done t"
  using assms by (rule parse_printed_time)

text \<open>A vector written by \<open>__ready_signal\<close> and read by \<open>__until_signal\<close> is the same vector, and
  nothing else of the destination array changes.\<close>

theorem signal_roundtrip:
  assumes "length val = n" and "n \<le> length dst"
  shows "\<exists>payload. ready_signal name val n = '' '' @ name @ ''='' @ payload
           \<and> until_signal payload dst n = Done (val @ drop n dst)"
  using assms by (simp add: ready_signal_def until_signal_def load_msb_first)

theorem signal_roundtrip_witness:
  "\<exists>payload. ready_signal ''tkeep'' [BIT_1, BIT_0, BIT_X] 3 = '' '' @ ''tkeep'' @ ''='' @ payload
     \<and> until_signal payload [BIT_Z, BIT_Z, BIT_Z, BIT_0] 3 = Done ([BIT_1, BIT_0, BIT_X] @ [BIT_0])"
  using signal_roundtrip [of "[BIT_1, BIT_0, BIT_X]" 3 "[BIT_Z, BIT_Z, BIT_Z, BIT_0]" "''tkeep''"]
  by simp

section \<open>The HELLO handshake\<close>

lemma cstr_append: "(\<forall>c \<in> set xs. c \<noteq> NUL) \<Longrightarrow> cstr (xs @ ys) = xs @ cstr ys"
  by (simp add: cstr_def takeWhile_append2)

lemma hello_answer:
  assumes "wr c = []" and "rx c = Rd_data (line @ [NL]) # es"
    and "length (line @ [NL]) \<le> buf_size" and "length (hello_line name argv) < buf_size"
    and "\<forall>x \<in> set line. x \<noteq> NL \<and> x \<noteq> NUL"
  defines "c2 \<equiv> c\<lparr>rx := es, tx := tx c @ [hello_line name argv]\<rparr>"
    and "rest \<equiv> cstr (drop (Suc (length line)) (hello_line name argv @ [NUL]))"
  shows "simbus_server_hello c name argv =
    (if line = ''NAK'' \<and> rest = [] then Done (-1, 0, sock_close c2)
     else if take 8 (line @ [NL] @ drop (Suc (length line)) (hello_line name argv @ [NUL])) = ''YOU-ARE ''
       then Done (0, ucast (fst (strtoul (drop 7 (line @ NL # rest)))), c2)
     else Done (-1, 0, sock_close c2))"
proof -
  let ?mem = "(line @ [NL]) @ drop (length (line @ [NL])) (hello_line name argv @ [NUL])"
  have "find_newline ?mem = Done (length line)"
    using find_newline_append [of line] assms(5) by simp
  moreover have "cstr ?mem = line @ NL # rest"
    using assms(5) cstr_append [of "line @ [NL]"] by (auto simp: rest_def NL_def NUL_def)
  moreover have "line @ NL # rest = ''NAK'' @ [NL] \<longleftrightarrow> line = ''NAK'' \<and> rest = []"
  proof
    assume eq: "line @ NL # rest = ''NAK'' @ [NL]"
    have "takeWhile (\<lambda>x. x \<noteq> NL) (line @ NL # rest) = line" using assms(5) by (simp add: takeWhile_append2)
    moreover have "takeWhile (\<lambda>x. x \<noteq> NL) (''NAK'' @ [NL]) = ''NAK''" by (simp add: NL_def)
    ultimately have "line = ''NAK''" using eq by simp
    with eq show "line = ''NAK'' \<and> rest = []" by simp
  qed simp
  ultimately show ?thesis
    using assms(1-4) unfolding c2_def
    by (simp add: simbus_server_hello_def sock_write_def sock_read_def sock_close_def Let_def)
qed

lemma hello_you_are:
  assumes "wr c = []" and "rx c = Rd_data (''YOU-ARE '' @ dec_nat n @ [NL]) # es"
    and "n < 2 ^ 32" and "length (hello_line name argv) < buf_size"
  shows "simbus_server_hello c name argv =
    Done (0, of_nat n, c\<lparr>rx := es, tx := tx c @ [hello_line name argv]\<rparr>)"
proof -
  let ?line = "''YOU-ARE '' @ dec_nat n"
  let ?rest = "cstr (drop (Suc (length ?line)) (hello_line name argv @ [NUL]))"
  have dig: "\<forall>x \<in> set ?line. x \<noteq> NL \<and> x \<noteq> NUL"
    using dec_nat_digits [of n] digit_neq by (auto simp: list_all_iff NL_def NUL_def)
  have "length (dec_nat n) \<le> 10" by (rule length_dec_nat) (use assms(3) in simp_all)
  then have len: "length (?line @ [NL]) \<le> buf_size" by (simp add: buf_size_def)
  have sp: "scan_number (CHR '' '' # s) = scan_number s" for s
    by (simp add: scan_number_def is_space_def)
  have "scan_number (dec_nat n @ NL # ?rest) = Some (False, n, NL # ?rest)"
    by (rule scan_dec_nat) (simp add: is_digit_def NL_def)
  then have num: "fst (strtoul (drop 7 (?line @ NL # ?rest))) = of_nat n"
    using assms(3) by (simp add: strtoul_def sp)
  have "ucast (of_nat n :: u64) = (of_nat n :: u32)"
    using assms(3) by (simp add: unsigned_of_nat take_bit_nat_eq_self)
  with num show ?thesis
    using hello_answer [OF assms(1) _ len assms(4) dig] assms(2) by simp
qed

text \<open>When the server answers the HELLO with \<open>YOU-ARE n\<close>, the handshake succeeds and reports
  exactly the identifier \<open>n\<close>, for every 32-bit \<open>n\<close>, although the answer is parsed in a buffer that
  still holds the tail of the HELLO command.\<close>

theorem hello_identifies:
  assumes "wr c = []" and "rx c = Rd_data (''YOU-ARE '' @ dec_nat n @ [NL]) # es"
    and "n < 2 ^ 32" and "length (hello_line name argv) < buf_size"
  shows "simbus_server_hello c name argv =
    Done (0, of_nat n, c\<lparr>rx := es, tx := tx c @ [hello_line name argv]\<rparr>)"
  using assms by (rule hello_you_are)

theorem hello_identifies_witness:
  "simbus_server_hello \<lparr>rx = [Rd_data (''YOU-ARE '' @ dec_nat 3 @ [NL])], wr = [], tx = [], closed = False\<rparr>
     ''ram'' [] = Done (0, 3, \<lparr>rx = [], wr = [], tx = [hello_line ''ram'' []], closed = False\<rparr>)"
  using hello_identifies [of "\<lparr>rx = [Rd_data (''YOU-ARE '' @ dec_nat 3 @ [NL])], wr = [], tx = [], closed = False\<rparr>"
      3 "[]" "''ram''" "[]"]
  by (simp add: hello_line_def buf_size_def)

section \<open>A scripted server\<close>

text \<open>
  For concrete runs: an operating system that connects to one scripted connection, and the
  answer lines of a server.
\<close>

definition script_os :: "conn \<Rightarrow> unit os" where
  "script_os c = \<lparr>os_getaddrinfo = (\<lambda>h p. Some [()]), os_connect = (\<lambda>_. Some c),
     os_connect_unix = (\<lambda>_. Some c), os_malloc_byte = NUL\<rparr>"

definition script :: "read_event list \<Rightarrow> conn" where
  "script es = \<lparr>rx = es, wr = [], tx = [], closed = False\<rparr>"

definition you_are :: "nat \<Rightarrow> read_event" where
  "you_are n = Rd_data (''YOU-ARE '' @ dec_nat n @ [NL])"

definition answer :: "string list \<Rightarrow> read_event" where
  "answer toks = Rd_data (join_tokens toks @ [NL])"

lemma script_sel [simp]:
  "rx (script es) = es" "wr (script es) = []" "tx (script es) = []" "closed (script es) = False"
  by (simp_all add: script_def)

lemma script_socket: "simbus_server_socket (script_os c) ''bus'' = Done (Some c)"
  by (simp add: simbus_server_socket_def tcp_socket_def script_os_def)

lemma script_hello:
  "n < 2 ^ 32 \<Longrightarrow> length (hello_line nm argv) < buf_size \<Longrightarrow>
   simbus_server_hello (script (you_are n # es)) nm argv =
     Done (0, of_nat n, (script es)\<lparr>tx := [hello_line nm argv]\<rparr>)"
  by (subst hello_you_are [where n = n and es = es]) (simp_all add: script_def you_are_def)

lemma init_token: "time_token init_simbus_time = ''0e0''"
  by (simp add: time_token_def init_simbus_time_def dec_nat.simps dec_int_def char_of_def bit_Suc_0_iff)

text \<open>One exchange with a server that answers \<open>UNTIL time signals\<close>.\<close>

lemma ready_exchange_answer:
  assumes "length buf + 1 \<le> buf_size" and "wr (fd_of s) = []"
    and "rx (fd_of s) = answer (''UNTIL'' # time_token t # sigs) # es" and "time_ok t"
    and "list_all plain_token (''UNTIL'' # time_token t # sigs)" and "length sigs < max_argc - 2"
    and "length (join_tokens (''UNTIL'' # time_token t # sigs)) + 1 < buf_size"
  shows "ready_exchange fd_of set_fd fin st on buf s =
    obind (each_signal on sigs (st t (set_fd ((fd_of s)\<lparr>rx := es, tx := tx (fd_of s) @ [buf]\<rparr>) s)))
      (\<lambda>s'. Done (0, s'))"
proof -
  have "simbus_server_send_recv (fd_of s) buf buf_size max_argc =
      Done (''UNTIL'' # time_token t # sigs, (fd_of s)\<lparr>rx := es, tx := tx (fd_of s) @ [buf]\<rparr>)"
    by (rule send_recv_join) (use assms in \<open>simp_all add: answer_def max_argc_def\<close>)
  with assms(1,4) show ?thesis
    by (simp add: ready_exchange_def handle_until_def parse_printed_time)
qed

text \<open>One exchange with a server that ends the simulation.\<close>

lemma ready_exchange_finish:
  assumes "length buf + 1 \<le> buf_size" and "wr (fd_of s) = []" and "rx (fd_of s) = answer [''FINISH''] # es"
  shows "ready_exchange fd_of set_fd fin st on buf s =
    Done (fin, set_fd ((fd_of s)\<lparr>rx := es, tx := tx (fd_of s) @ [buf]\<rparr>) s)"
proof -
  have "simbus_server_send_recv (fd_of s) buf buf_size max_argc =
      Done ([''FINISH''], (fd_of s)\<lparr>rx := es, tx := tx (fd_of s) @ [buf]\<rparr>)"
    by (rule send_recv_join)
      (use assms in \<open>simp_all add: answer_def max_argc_def buf_size_def plain_token_def NUL_def NL_def\<close>)
  with assms(1) show ?thesis by (simp add: ready_exchange_def handle_until_def)
qed

end
