(* ===== verification/Sim_PCI.thy ===== *)
theory Sim_PCI
  imports Sim_Base Sim_MT
begin

text \<open>
  libsimbus/simbus_pci.c and simbus_pci_priv.h: the PCI/PCI-X bus object, its READY exchange, the
  clock, interrupts, arbitration and the master's half of a bus transaction.

  The record has the fields of \<open>struct simbus_pci_s\<close>.  A C function pointer registered by the
  device is a handle (a number, \<open>None\<close> for NULL) that a callback table interprets, because the
  callbacks work on the bus object that stores them; \<open>user\<close> is the device's own state.

  \<open>pci_next_posedge\<close> does nothing when the clock line is neither 0 nor 1, so a C loop around it
  that waits for another line then turns for ever; that is the outcome \<open>Diverges\<close>.  The target
  state machine that \<open>simbus_pci_wait\<close> runs after every clock is an argument \<open>tsm\<close> here; theory
  Sim_PCI_Target defines it and closes the recursion.
\<close>

record simbus_translation =
  xl_flags :: int
  xl_base :: u64
  xl_mask :: u64
  xl_need32 :: "nat option"
  xl_recv32 :: "nat option"

definition no_translation :: simbus_translation where
  "no_translation = \<lparr>xl_flags = 0, xl_base = 0, xl_mask = 0, xl_need32 = None, xl_recv32 = None\<rparr>"

datatype target_machine_e = TARG_IDLE | TARG_DAC | TARG_BUS_BUSY

record 'd simbus_pci =
  name :: string
  fd :: conn
  ident :: u32
  random_state :: mt_context
  retry_rate :: int
  bus_time :: simbus_time
  out_reset_n :: bitval
  out_req_n :: bitval
  out_req64_n :: bitval
  out_frame_n :: bitval
  out_irdy_n :: bitval
  out_trdy_n :: bitval
  out_stop_n :: bitval
  out_devsel_n :: bitval
  out_ack64_n :: bitval
  out_c_be :: "bitval list"
  out_ad :: "bitval list"
  out_par :: bitval
  out_par64 :: bitval
  pcixcap :: bitval
  pci_clk :: bitval
  pci_gnt_n :: bitval
  pci_inta_n :: "bitval list"
  pci_intb_n :: "bitval list"
  pci_intc_n :: "bitval list"
  pci_intd_n :: "bitval list"
  pci_frame_n :: bitval
  pci_req64_n :: bitval
  pci_irdy_n :: bitval
  pci_trdy_n :: bitval
  pci_stop_n :: bitval
  pci_devsel_n :: bitval
  pci_ack64_n :: bitval
  pci_c_be :: "bitval list"
  pci_ad :: "bitval list"
  pci_par :: bitval
  pci_par64 :: bitval
  config_need32 :: "nat option"
  config_recv32 :: "nat option"
  mem_target :: "simbus_translation list"
  dac_addr_lo :: u64
  break_flag :: int
  target_state :: target_machine_e
  user :: 'd

definition SIMBUS_PCI_ERROR :: int where "SIMBUS_PCI_ERROR = -1"
definition SIMBUS_PCI_FINISHED :: int where "SIMBUS_PCI_FINISHED = -2"
definition SIMBUS_PCI_BREAK :: int where "SIMBUS_PCI_BREAK = -3"
definition GPCI_MASTER_ABORT :: int where "GPCI_MASTER_ABORT = -1"
definition GPCI_TARGET_RETRY :: int where "GPCI_TARGET_RETRY = -2"
definition TARGET_MEM_REGIONS :: nat where "TARGET_MEM_REGIONS = 8"

definition pcix_mode :: "'d simbus_pci \<Rightarrow> bool" where
  "pcix_mode pci \<longleftrightarrow> pcixcap pci = BIT_1"

section \<open>The bus object\<close>

text \<open>
  \<open>calloc\<close> followed by \<open>init_simbus_pci\<close>: lines that the initialiser does not set start as
  enumerator 0, which is \<open>BIT_0\<close>.
\<close>

definition init_simbus_pci :: "string \<Rightarrow> conn \<Rightarrow> u32 \<Rightarrow> 'd \<Rightarrow> 'd simbus_pci" where
  "init_simbus_pci nm c idn u =
     \<lparr>name = nm, fd = c, ident = idn,
      random_state = simbus_mt_sgenrand 111 \<lparr>mti = 0, mt = replicate 1023 0\<rparr>, retry_rate = 0,
      bus_time = init_simbus_time, out_reset_n = BIT_1, out_req_n = BIT_1, out_req64_n = BIT_Z,
      out_frame_n = BIT_Z, out_irdy_n = BIT_Z, out_trdy_n = BIT_Z, out_stop_n = BIT_Z,
      out_devsel_n = BIT_Z, out_ack64_n = BIT_Z, out_c_be = replicate 8 BIT_Z,
      out_ad = replicate 64 BIT_Z, out_par = BIT_Z, out_par64 = BIT_Z,
      pcixcap = BIT_X, pci_clk = BIT_X, pci_gnt_n = BIT_X,
      pci_inta_n = replicate 16 BIT_0, pci_intb_n = replicate 16 BIT_0,
      pci_intc_n = replicate 16 BIT_0, pci_intd_n = replicate 16 BIT_0,
      pci_frame_n = BIT_0, pci_req64_n = BIT_0, pci_irdy_n = BIT_0, pci_trdy_n = BIT_0,
      pci_stop_n = BIT_0, pci_devsel_n = BIT_0, pci_ack64_n = BIT_0,
      pci_c_be = replicate 8 BIT_0, pci_ad = replicate 64 BIT_X, pci_par = BIT_0, pci_par64 = BIT_0,
      config_need32 = None, config_recv32 = None,
      mem_target = replicate TARGET_MEM_REGIONS no_translation, dac_addr_lo = 0, break_flag = 0,
      target_state = TARG_IDLE, user = u\<rparr>"

definition simbus_pci_connect :: "'a os \<Rightarrow> string \<Rightarrow> string \<Rightarrow> 'd \<Rightarrow> 'd simbus_pci option outcome" where
  "simbus_pci_connect os server nm u =
     obind (simbus_server_socket os server) (\<lambda>server_fd.
       case server_fd of
         None \<Rightarrow> Stop Assert_failed
       | Some c \<Rightarrow>
           obind (simbus_server_hello c nm []) (\<lambda>(rc, idn, c').
             if rc < 0 then Done None else Done (Some (init_simbus_pci nm c' idn u))))"

definition simbus_pci_config_need32 :: "'d simbus_pci \<Rightarrow> nat option \<Rightarrow> 'd simbus_pci" where
  "simbus_pci_config_need32 pci f = pci\<lparr>config_need32 := f\<rparr>"

definition simbus_pci_config_recv32 :: "'d simbus_pci \<Rightarrow> nat option \<Rightarrow> 'd simbus_pci" where
  "simbus_pci_config_recv32 pci f = pci\<lparr>config_recv32 := f\<rparr>"

definition simbus_pci_retry_rate :: "'d simbus_pci \<Rightarrow> int \<Rightarrow> 'd simbus_pci" where
  "simbus_pci_retry_rate pci rate = pci\<lparr>retry_rate := rate\<rparr>"

definition simbus_pci_wait_break :: "'d simbus_pci \<Rightarrow> int \<times> 'd simbus_pci" where
  "simbus_pci_wait_break pci = (0, pci\<lparr>break_flag := 1\<rparr>)"

definition simbus_pci_disconnect :: "'d simbus_pci \<Rightarrow> conn" where
  "simbus_pci_disconnect pci = sock_close (fd pci)"

definition simbus_pci_end_simulation :: "'d simbus_pci \<Rightarrow> conn outcome" where
  "simbus_pci_end_simulation pci =
     obind (simbus_server_finish (fd pci)) (\<lambda>c. Done (simbus_pci_disconnect (pci\<lparr>fd := c\<rparr>)))"

section \<open>The READY exchange\<close>

definition pin :: "string \<Rightarrow> bitval \<Rightarrow> string" where
  "pin nm v = nm @ ''='' @ [bitval_to_char v]"

definition ready_message_pci :: "'d simbus_pci \<Rightarrow> string" where
  "ready_message_pci pci =
     ready_prefix (bus_time pci)
     @ pin '' RESET#'' (out_reset_n pci)
     @ pin '' REQ#'' (out_req_n pci)
     @ pin '' REQ64#'' (out_req64_n pci)
     @ pin '' FRAME#'' (out_frame_n pci)
     @ pin '' IRDY#'' (out_irdy_n pci)
     @ pin '' TRDY#'' (out_trdy_n pci)
     @ pin '' STOP#'' (out_stop_n pci)
     @ pin '' DEVSEL#'' (out_devsel_n pci)
     @ pin '' ACK64#'' (out_ack64_n pci)
     @ '' C/BE#='' @ msb_first 8 (out_c_be pci)
     @ '' AD='' @ msb_first 64 (out_ad pci)
     @ pin '' PAR'' (out_par pci)
     @ pin '' PAR64'' (out_par64 pci)
     @ [NL]"

definition on_signal_pci :: "'d simbus_pci \<Rightarrow> string \<Rightarrow> string \<Rightarrow> 'd simbus_pci outcome" where
  "on_signal_pci pci nm cp =
     (let v = char_to_bitval (char0 cp)
      in if nm = ''PCI_CLK'' then Done (pci\<lparr>pci_clk := v\<rparr>)
         else if nm = ''PCIXCAP'' then Done (pci\<lparr>pcixcap := v\<rparr>)
         else if nm = ''GNT#'' then Done (pci\<lparr>pci_gnt_n := v\<rparr>)
         else if nm = ''INTA#'' then obind (until_signal cp (pci_inta_n pci) 16) (\<lambda>xs. Done (pci\<lparr>pci_inta_n := xs\<rparr>))
         else if nm = ''INTB#'' then obind (until_signal cp (pci_intb_n pci) 16) (\<lambda>xs. Done (pci\<lparr>pci_intb_n := xs\<rparr>))
         else if nm = ''INTC#'' then obind (until_signal cp (pci_intc_n pci) 16) (\<lambda>xs. Done (pci\<lparr>pci_intc_n := xs\<rparr>))
         else if nm = ''INTD#'' then obind (until_signal cp (pci_intd_n pci) 16) (\<lambda>xs. Done (pci\<lparr>pci_intd_n := xs\<rparr>))
         else if nm = ''FRAME#'' then Done (pci\<lparr>pci_frame_n := v\<rparr>)
         else if nm = ''REQ64#'' then Done (pci\<lparr>pci_req64_n := v\<rparr>)
         else if nm = ''IRDY#'' then Done (pci\<lparr>pci_irdy_n := v\<rparr>)
         else if nm = ''TRDY#'' then Done (pci\<lparr>pci_trdy_n := v\<rparr>)
         else if nm = ''STOP#'' then Done (pci\<lparr>pci_stop_n := v\<rparr>)
         else if nm = ''DEVSEL#'' then Done (pci\<lparr>pci_devsel_n := v\<rparr>)
         else if nm = ''ACK64#'' then Done (pci\<lparr>pci_ack64_n := v\<rparr>)
         else if nm = ''C/BE#'' then obind (until_signal cp (pci_c_be pci) 8) (\<lambda>xs. Done (pci\<lparr>pci_c_be := xs\<rparr>))
         else if nm = ''AD'' then obind (until_signal cp (pci_ad pci) 64) (\<lambda>xs. Done (pci\<lparr>pci_ad := xs\<rparr>))
         else if nm = ''PAR'' then Done (pci\<lparr>pci_par := v\<rparr>)
         else if nm = ''PAR64'' then Done (pci\<lparr>pci_par64 := v\<rparr>)
         else Done pci)"

definition send_ready_pci :: "'d simbus_pci \<Rightarrow> (int \<times> 'd simbus_pci) outcome" where
  "send_ready_pci pci =
     ready_exchange fd (\<lambda>c b. b\<lparr>fd := c\<rparr>) SIMBUS_PCI_FINISHED (\<lambda>t b. b\<lparr>bus_time := t\<rparr>) on_signal_pci
       (ready_message_pci pci) pci"

section \<open>Parity\<close>

definition bit_xor :: "bitval \<Rightarrow> bitval \<Rightarrow> bitval" where
  "bit_xor a b =
     (if a = BIT_X then BIT_X else if a = BIT_Z then BIT_X
      else if b = BIT_X then BIT_X else if b = BIT_Z then BIT_X
      else if a \<noteq> b then BIT_1 else BIT_0)"

text \<open>\<open>for (idx ... && par == BIT_Z) if (out_ad[idx] != BIT_Z) par = BIT_0;\<close>\<close>

fun par_start :: "bitval list \<Rightarrow> bitval" where
  "par_start [] = BIT_Z"
| "par_start (b # bs) = (if b \<noteq> BIT_Z then BIT_0 else par_start bs)"

definition par_of :: "bitval list \<Rightarrow> bitval list \<Rightarrow> bitval" where
  "par_of ad be =
     (if par_start ad \<noteq> BIT_Z then foldl bit_xor (foldl bit_xor (par_start ad) ad) be else BIT_Z)"

definition next_parity :: "'d simbus_pci \<Rightarrow> 'd simbus_pci" where
  "next_parity pci =
     pci\<lparr>out_par := par_of (take 32 (out_ad pci))
           (take 4 (if out_c_be pci ! 0 = BIT_Z then pci_c_be pci else out_c_be pci)),
         out_par64 := par_of (take 32 (drop 32 (out_ad pci))) (take 4 (drop 4 (out_c_be pci)))\<rparr>"

section \<open>Clock\<close>

definition pci_next_posedge :: "'d simbus_pci \<Rightarrow> 'd simbus_pci outcome" where
  "pci_next_posedge pci =
     obind (spin fd send_ready_pci (\<lambda>p. pci_clk p = BIT_1) pci) (\<lambda>p1.
     obind (spin fd send_ready_pci (\<lambda>p. pci_clk p = BIT_0) p1) (\<lambda>p2. Done (next_parity p2)))"

text \<open>
  \<open>while (b) __pci_next_posedge(pci);\<close> for a condition on the lines.  With the clock line
  unknown the body changes no input line, so the loop does not end.
\<close>

definition clocked :: "('d simbus_pci \<Rightarrow> bool) \<Rightarrow> 'd simbus_pci \<Rightarrow> 'd simbus_pci outcome" where
  "clocked b =
     while_io (\<lambda>p. pending (fd p)) b
       (\<lambda>p. if known (pci_clk p) then pci_next_posedge p else Stop Diverges)"

text \<open>\<open>do __pci_next_posedge(pci); while (b);\<close>\<close>

definition do_clocked :: "('d simbus_pci \<Rightarrow> bool) \<Rightarrow> 'd simbus_pci \<Rightarrow> 'd simbus_pci outcome" where
  "do_clocked b pci = obind (pci_next_posedge pci) (clocked b)"

section \<open>Interrupts and waiting\<close>

definition active_low :: "bitval list \<Rightarrow> u64" where
  "active_low xs = gather (\<lambda>b. b = BIT_0) xs 0 16 1 0"

definition intr_active :: "'d simbus_pci \<Rightarrow> u64" where
  "intr_active pci =
     ((active_low (pci_inta_n pci) OR push_bit 16 (active_low (pci_intb_n pci)))
        OR push_bit 32 (active_low (pci_intc_n pci))) OR push_bit 48 (active_low (pci_intd_n pci))"

fun wait_clocks ::
  "('d simbus_pci \<Rightarrow> 'd simbus_pci outcome) \<Rightarrow> nat \<Rightarrow> u64 \<Rightarrow> u64 \<Rightarrow> u64 option \<Rightarrow> 'd simbus_pci
     \<Rightarrow> (int \<times> u64 option \<times> 'd simbus_pci) outcome" where
  "wait_clocks tsm 0 use_irq msk irq pci =
     Done (if msk = 0 then 0 else 1, map_option (\<lambda>i. i AND msk) irq, pci)"
| "wait_clocks tsm (Suc clks) use_irq msk irq pci =
     (if msk AND use_irq \<noteq> 0
      then Done (if msk = 0 then 0 else 1, map_option (\<lambda>i. i AND msk) irq, pci)
      else
        obind (spin_rc fd send_ready_pci (\<lambda>p. pci_clk p \<noteq> BIT_0) (0, pci)) (\<lambda>q1.
        obind (spin_rc fd send_ready_pci (\<lambda>p. pci_clk p \<noteq> BIT_1) q1) (\<lambda>(rc, p2).
          if rc < 0 then Done (rc, irq, p2)
          else obind (tsm p2) (\<lambda>p3.
            if break_flag p3 \<noteq> 0 \<and> target_state p3 = TARG_IDLE then Done (SIMBUS_PCI_BREAK, irq, p3)
            else wait_clocks tsm clks use_irq (intr_active p3) irq p3))))"

definition simbus_pci_wait_with ::
  "('d simbus_pci \<Rightarrow> 'd simbus_pci outcome) \<Rightarrow> 'd simbus_pci \<Rightarrow> nat \<Rightarrow> u64 option
     \<Rightarrow> (int \<times> u64 option \<times> 'd simbus_pci) outcome" where
  "simbus_pci_wait_with tsm pci clks irq =
     (if clks = 0
      then let msk = intr_active pci
           in Done (if msk = 0 then 0 else 1, map_option (\<lambda>i. i AND msk) irq, pci)
      else wait_clocks tsm clks (case irq of None \<Rightarrow> 0 | Some i \<Rightarrow> i) 0 irq (pci\<lparr>break_flag := 0\<rparr>))"

definition simbus_pci_reset_with ::
  "('d simbus_pci \<Rightarrow> 'd simbus_pci outcome) \<Rightarrow> 'd simbus_pci \<Rightarrow> nat \<Rightarrow> nat \<Rightarrow> 'd simbus_pci outcome" where
  "simbus_pci_reset_with tsm pci width settle =
     c_assert (width > 0) (c_assert (settle > 0)
       (obind (simbus_pci_wait_with tsm (pci\<lparr>out_reset_n := BIT_0\<rparr>) width None) (\<lambda>(rc1, irq1, p1).
        obind (simbus_pci_wait_with tsm (p1\<lparr>out_reset_n := BIT_1\<rparr>) settle None) (\<lambda>(rc2, irq2, p2).
          Done p2))))"

section \<open>Arbitration\<close>

definition bus_taken :: "'d simbus_pci \<Rightarrow> bool" where
  "bus_taken pci \<longleftrightarrow> pci_gnt_n pci \<noteq> BIT_0 \<or> pci_frame_n pci = BIT_0 \<or> pci_irdy_n pci = BIT_0"

fun await_grant ::
  "('d simbus_pci \<Rightarrow> 'd simbus_pci outcome) \<Rightarrow> nat \<Rightarrow> 'd simbus_pci \<Rightarrow> 'd simbus_pci outcome" where
  "await_grant tsm count pci =
     (if bus_taken pci
      then obind (simbus_pci_wait_with tsm pci 1 None) (\<lambda>(rc, irq, p1).
             case count of
               0 \<Rightarrow> Stop Assert_failed
             | Suc n \<Rightarrow> c_assert (n > 0) (await_grant tsm n p1))
      else Done pci)"

declare await_grant.simps [simp del]

definition pci_request_bus_with ::
  "('d simbus_pci \<Rightarrow> 'd simbus_pci outcome) \<Rightarrow> 'd simbus_pci \<Rightarrow> 'd simbus_pci outcome" where
  "pci_request_bus_with tsm pci =
     obind (await_grant tsm 4096 (pci\<lparr>out_req_n := BIT_0\<rparr>)) (\<lambda>p. Done (p\<lparr>out_req_n := BIT_1\<rparr>))"

section \<open>The master's phases\<close>

definition SIMBUS_PCI_DFN :: "int \<Rightarrow> int \<Rightarrow> u8" where
  "SIMBUS_PCI_DFN dev fn = word_of_int (((dev * 8) AND 0xf8) OR (fn AND 0x07))"

text \<open>Lines 491 to 513: FRAME#, REQ64# and the address lines, before the first clock.\<close>

definition drive_address :: "u64 \<Rightarrow> bool \<Rightarrow> 'd simbus_pci \<Rightarrow> 'd simbus_pci" where
  "drive_address addr flag64 pci =
     (let ad = put_bits 0 32 addr (out_ad pci)
      in pci\<lparr>out_req64_n := (if flag64 then BIT_0 else BIT_1), out_frame_n := BIT_0,
             out_irdy_n := BIT_1, out_trdy_n := BIT_Z, out_stop_n := BIT_Z, out_devsel_n := BIT_Z,
             out_ad := (if flag64 then put_bits 32 32 (drop_bit 32 addr) ad else ad)\<rparr>)"

definition dac_phase :: "u64 \<Rightarrow> 'd simbus_pci \<Rightarrow> 'd simbus_pci outcome" where
  "dac_phase addr_tmp pci =
     (if addr_tmp \<noteq> 0
      then obind (pci_next_posedge
             (pci\<lparr>out_c_be := (out_c_be pci)[0 := BIT_1, 1 := BIT_0, 2 := BIT_1, 3 := BIT_1]\<rparr>)) (\<lambda>p1.
             Done (p1\<lparr>out_ad := put_bits 0 32 addr_tmp (out_ad p1)\<rparr>))
      else Done pci)"

text \<open>
  The attribute phase as written: the loop over the address lines shifts \<open>addr\<close>, not
  \<open>attr_a\<close>, so every line carries bit 0 of the attribute word, and the last command line tests
  \<open>attr_c&5\<close>.
\<close>

definition attr_phase :: "int \<Rightarrow> 'd simbus_pci \<Rightarrow> 'd simbus_pci outcome" where
  "attr_phase BEn pci =
     (if pcixcap pci = BIT_1
      then let attr_a = push_bit 8 (ucast (SIMBUS_PCI_DFN (uint (ident pci)) 0) :: u32);
               attr_c = BEn AND 0x0f
           in obind (pci_next_posedge
                (pci\<lparr>out_ad := fill_bits 0 32 (bit01 (bit attr_a 0)) (out_ad pci),
                     out_c_be := (out_c_be pci)
                       [0 := bit01 (bit attr_c 0), 1 := bit01 (bit attr_c 1), 2 := bit01 (bit attr_c 2),
                        3 := bit01 (attr_c AND 5 \<noteq> 0)]\<rparr>)) (\<lambda>p1.
              pci_next_posedge
                (p1\<lparr>out_c_be := (out_c_be p1)[0 := BIT_1, 1 := BIT_1, 2 := BIT_1, 3 := BIT_1]\<rparr>))
      else Done pci)"

definition address_command ::
  "'d simbus_pci \<Rightarrow> u64 \<Rightarrow> int \<Rightarrow> int \<Rightarrow> bool \<Rightarrow> bool \<Rightarrow> 'd simbus_pci outcome" where
  "address_command pci addr cmd BEn flag64 burst_flag =
     obind (dac_phase (drop_bit 32 addr) (drive_address addr flag64 pci)) (\<lambda>p1.
     obind (pci_next_posedge (p1\<lparr>out_c_be := put_bits 0 4 cmd (out_c_be p1)\<rparr>)) (\<lambda>p2.
     obind (attr_phase BEn p2) (\<lambda>p3.
       Done (p3\<lparr>out_frame_n := (if out_req64_n p3 \<noteq> BIT_0 \<and> \<not> burst_flag \<and> pcixcap p3 \<noteq> BIT_1
                                  then BIT_1 else out_frame_n p3),
                out_irdy_n := BIT_0\<rparr>))))"

definition undrive_bus :: "'d simbus_pci \<Rightarrow> 'd simbus_pci" where
  "undrive_bus pci =
     pci\<lparr>out_frame_n := BIT_Z, out_req64_n := BIT_Z, out_ack64_n := BIT_Z, out_irdy_n := BIT_Z,
         out_trdy_n := BIT_Z, out_stop_n := BIT_Z, out_devsel_n := BIT_Z,
         out_c_be := fill_bits 0 8 BIT_Z (out_c_be pci), out_ad := fill_bits 0 64 BIT_Z (out_ad pci)\<rparr>"

fun await_devsel :: "nat \<Rightarrow> 'd simbus_pci \<Rightarrow> 'd simbus_pci outcome" where
  "await_devsel 0 pci = Done pci"
| "await_devsel (Suc n) pci =
     (if pci_devsel_n pci \<noteq> BIT_0 then obind (pci_next_posedge pci) (await_devsel n) else Done pci)"

text \<open>Fast, medium and slow decode: three clocks at most.\<close>

definition wait_for_devsel :: "'d simbus_pci \<Rightarrow> (int \<times> 'd simbus_pci) outcome" where
  "wait_for_devsel pci =
     obind (await_devsel 3 pci) (\<lambda>p.
       if pci_devsel_n p \<noteq> BIT_0 then Done (GPCI_MASTER_ABORT, undrive_bus p)
       else if out_req64_n p = BIT_0 \<and> pci_ack64_n p = BIT_0
         then Done (0, p\<lparr>out_frame_n := BIT_1, out_req64_n := BIT_1\<rparr>)
       else Done (0, p))"

fun await_trdy :: "nat \<Rightarrow> 'd simbus_pci \<Rightarrow> (int \<times> 'd simbus_pci) outcome" where
  "await_trdy count pci =
     (if pci_trdy_n pci \<noteq> BIT_0
      then if pci_stop_n pci = BIT_0 then Done (GPCI_TARGET_RETRY, pci)
           else obind (pci_next_posedge pci) (\<lambda>p1.
                  case count of
                    0 \<Rightarrow> Stop Assert_failed
                  | Suc n \<Rightarrow> c_assert (n > 0) (await_trdy n p1))
      else Done (0, pci))"

declare await_trdy.simps [simp del]

definition collect_ad :: "(bitval \<Rightarrow> bool) \<Rightarrow> 'd simbus_pci \<Rightarrow> u64" where
  "collect_ad p pci =
     (let lo = gather p (pci_ad pci) 0 32 1 0
      in if pci_ack64_n pci = BIT_0 then gather p (pci_ad pci) 32 32 (push_bit 32 1) lo else lo)"

definition wait_for_read :: "'d simbus_pci \<Rightarrow> u64 \<Rightarrow> u64 \<Rightarrow> (int \<times> u64 \<times> u64 \<times> 'd simbus_pci) outcome" where
  "wait_for_read pci val valx =
     obind (await_trdy 256 pci) (\<lambda>(rc, p).
       if rc < 0 then Done (rc, val, valx, p)
       else Done (0, collect_ad (\<lambda>b. b \<noteq> BIT_0) p, collect_ad (\<lambda>b. \<not> known b) p, p))"

definition setup_for_write :: "'d simbus_pci \<Rightarrow> u64 \<Rightarrow> int \<Rightarrow> bool \<Rightarrow> 'd simbus_pci outcome" where
  "setup_for_write pci val BEn flag64 =
     (let be = put_bits 0 4 BEn (out_c_be pci);
          ad = put_bits 0 32 val (out_ad pci)
      in pci_next_posedge
           (pci\<lparr>out_c_be := (if flag64 then put_bits 4 4 (drop_bit 4 BEn) be else fill_bits 4 4 BIT_1 be),
                out_ad := (if flag64 then put_bits 32 32 (drop_bit 32 val) ad else fill_bits 32 32 BIT_Z ad)\<rparr>))"

section \<open>Single-word transactions\<close>

text \<open>
  The caller's \<open>*result\<close> and \<open>*resultx\<close> are passed in and returned; a master abort does not
  write \<open>*resultx\<close>.
\<close>

definition read_phase :: "'d simbus_pci \<Rightarrow> u32 \<Rightarrow> u32 \<Rightarrow> (int \<times> u32 \<times> u32 \<times> 'd simbus_pci) outcome" where
  "read_phase pci result resultx =
     obind (wait_for_devsel pci) (\<lambda>(rc, p1).
       if rc < 0
       then obind (pci_next_posedge (undrive_bus p1)) (\<lambda>p2.
              Done (GPCI_MASTER_ABORT, 0xffffffff, resultx, p2))
       else
         obind (wait_for_read
             (p1\<lparr>out_frame_n := (if pcixcap p1 \<noteq> BIT_1 then BIT_1 else out_frame_n p1),
                 out_req64_n := BIT_1\<rparr>) 0 0) (\<lambda>(rc, val, valx, p2).
           if rc < 0
           then obind (pci_next_posedge (undrive_bus p2)) (\<lambda>p3. Done (rc, 0xffffffff, 0xffffffff, p3))
           else
             obind (if pcixcap p2 = BIT_1
                    then obind (pci_next_posedge p2) (\<lambda>p3.
                           pci_next_posedge (p3\<lparr>out_irdy_n := BIT_1, out_frame_n := BIT_1\<rparr>))
                    else Done p2) (\<lambda>p4.
             obind (pci_next_posedge (undrive_bus p4)) (\<lambda>p5. Done (0, ucast val, ucast valx, p5)))))"

definition generic_pci_read32_with ::
  "('d simbus_pci \<Rightarrow> 'd simbus_pci outcome) \<Rightarrow> 'd simbus_pci \<Rightarrow> u64 \<Rightarrow> int \<Rightarrow> int \<Rightarrow> u32 \<Rightarrow> u32
     \<Rightarrow> (int \<times> u32 \<times> u32 \<times> 'd simbus_pci) outcome" where
  "generic_pci_read32_with tsm pci addr cmd BEn result resultx =
     obind (pci_request_bus_with tsm pci) (\<lambda>p1.
     obind (address_command (p1\<lparr>out_req_n := BIT_1\<rparr>) addr cmd BEn False False) (\<lambda>p2.
     obind (pci_next_posedge
         (p2\<lparr>out_c_be := put_bits 0 4 BEn (out_c_be p2), out_ad := fill_bits 0 64 BIT_Z (out_ad p2)\<rparr>)) (\<lambda>p3.
       read_phase p3 result resultx)))"

definition generic_pci_write32_with ::
  "('d simbus_pci \<Rightarrow> 'd simbus_pci outcome) \<Rightarrow> 'd simbus_pci \<Rightarrow> u64 \<Rightarrow> int \<Rightarrow> u32 \<Rightarrow> int
     \<Rightarrow> (int \<times> 'd simbus_pci) outcome" where
  "generic_pci_write32_with tsm pci addr cmd val BEn =
     obind (pci_request_bus_with tsm pci) (\<lambda>p1.
     obind (address_command (p1\<lparr>out_req_n := BIT_1\<rparr>) addr cmd BEn False False) (\<lambda>p2.
     obind (setup_for_write p2 (ucast val) BEn False) (\<lambda>p3.
     obind (wait_for_devsel p3) (\<lambda>(rc, p4).
       if rc < 0 then Done (rc, p4)
       else obind (clocked (\<lambda>p. pci_trdy_n p \<noteq> BIT_0) p4) (\<lambda>p5.
            obind (pci_next_posedge (undrive_bus p5)) (\<lambda>p6. Done (0, p6)))))))"

section \<open>Invariant\<close>

definition pci_wf :: "'d simbus_pci \<Rightarrow> bool" where
  "pci_wf pci \<longleftrightarrow>
     length (out_c_be pci) = 8 \<and> length (out_ad pci) = 64
     \<and> length (pci_c_be pci) = 8 \<and> length (pci_ad pci) = 64
     \<and> length (pci_inta_n pci) = 16 \<and> length (pci_intb_n pci) = 16
     \<and> length (pci_intc_n pci) = 16 \<and> length (pci_intd_n pci) = 16
     \<and> length (mem_target pci) = 8 \<and> length (mt (random_state pci)) = 1023 \<and> time_ok (bus_time pci)"

text \<open>What an exchange with the server leaves alone: everything this side drives or configures.\<close>

definition pci_own :: "'d simbus_pci \<Rightarrow>
    (bitval list \<times> bitval list \<times> bitval list) \<times> (string \<times> u32 \<times> mt_context \<times> int)
    \<times> (nat option \<times> nat option \<times> simbus_translation list \<times> u64 \<times> int \<times> target_machine_e \<times> 'd)" where
  "pci_own p =
     (([out_reset_n p, out_req_n p, out_req64_n p, out_frame_n p, out_irdy_n p, out_trdy_n p, out_stop_n p,
        out_devsel_n p, out_ack64_n p], out_c_be p, out_ad p),
      (name p, ident p, random_state p, retry_rate p),
      (config_need32 p, config_recv32 p, mem_target p, dac_addr_lo p, break_flag p, target_state p, user p))"


lemma pci_own_eq:
  "pci_own q = pci_own p \<longleftrightarrow>
     out_reset_n q = out_reset_n p \<and> out_req_n q = out_req_n p \<and> out_req64_n q = out_req64_n p
     \<and> out_frame_n q = out_frame_n p \<and> out_irdy_n q = out_irdy_n p \<and> out_trdy_n q = out_trdy_n p
     \<and> out_stop_n q = out_stop_n p \<and> out_devsel_n q = out_devsel_n p \<and> out_ack64_n q = out_ack64_n p
     \<and> out_c_be q = out_c_be p \<and> out_ad q = out_ad p
     \<and> name q = name p \<and> ident q = ident p \<and> random_state q = random_state p \<and> retry_rate q = retry_rate p
     \<and> config_need32 q = config_need32 p \<and> config_recv32 q = config_recv32 p
     \<and> mem_target q = mem_target p \<and> dac_addr_lo q = dac_addr_lo p \<and> break_flag q = break_flag p
     \<and> target_state q = target_state p \<and> user q = user p"
  by (auto simp: pci_own_def)

abbreviation pci_keeps :: "'d simbus_pci \<Rightarrow> 'd simbus_pci \<Rightarrow> bool" where
  "pci_keeps p q \<equiv> pci_wf q \<and> pci_own q = pci_own p"

text \<open>The parity lines are driven too, but a clock sets them anew.\<close>

definition pci_parity :: "'d simbus_pci \<Rightarrow> bitval \<times> bitval" where
  "pci_parity p = (out_par p, out_par64 p)"

lemma on_signal_pci_keeps:
  "pci_wf p \<Longrightarrow> ret (on_signal_pci p nm cp) (\<lambda>q. pci_keeps p q \<and> pci_parity q = pci_parity p)"
  by (simp add: on_signal_pci_def until_signal_def Let_def pci_wf_def pci_own_eq pci_parity_def)

interpretation pci: signal_bus fd "\<lambda>c b. b\<lparr>fd := c\<rparr>" SIMBUS_PCI_FINISHED "\<lambda>t b. b\<lparr>bus_time := t\<rparr>"
    on_signal_pci ready_message_pci "\<lambda>_. True" send_ready_pci
    "\<lambda>b. pci_wf b \<and> pci_own b = k \<and> pci_parity b = pr" for k pr
proof unfold_locales
  show "ret (on_signal_pci s nm cp) (\<lambda>t. fd t = fd s)" for s :: "'a simbus_pci" and nm cp
    by (simp add: on_signal_pci_def until_signal_def Let_def)
  show "ret (on_signal_pci s nm cp) (\<lambda>b. pci_wf b \<and> pci_own b = k \<and> pci_parity b = pr)"
    if "pci_wf s \<and> pci_own s = k \<and> pci_parity s = pr" for s nm cp
    using on_signal_pci_keeps [of s nm cp] that by simp
  show "on_signal_pci s nm cp \<noteq> Stop Out_of_fuel" for s :: "'a simbus_pci" and nm cp
    by (simp add: on_signal_pci_def until_signal_def Let_def c_assert_def obind_eq_Stop)
qed (auto simp: pci_wf_def pci_own_eq pci_parity_def send_ready_pci_def)

lemma pci_spin_keeps: "pci_wf p \<Longrightarrow> ret (spin fd send_ready_pci b p) (pci_keeps p)"
  by (rule ret_mono [OF pci.spin_inv [where I = "\<lambda>q. pci_keeps p q \<and> pci_parity q = pci_parity p"]])
    (use pci.exchange_ok [of _ "pci_own p" "pci_parity p"] in auto)

lemma pci_spin_rc_keeps:
  "pci_wf p \<Longrightarrow> ret (spin_rc fd send_ready_pci b (rc, p)) (\<lambda>(rc, q). pci_keeps p q \<and> pci_parity q = pci_parity p)"
  by (rule pci.spin_rc_inv) (use pci.exchange_ok [of _ "pci_own p" "pci_parity p"] in auto)

text \<open>What a clock does: it keeps everything this side drives, and ends with the clock not low.\<close>

lemma posedge_keeps: "pci_wf p \<Longrightarrow> ret (pci_next_posedge p) (pci_keeps p)"
  unfolding pci_next_posedge_def
proof (rule ret_seq [OF pci_spin_keeps])
  fix q assume q: "pci_wf p" "pci_keeps p q"
  show "ret (obind (spin fd send_ready_pci (\<lambda>p. pci_clk p = BIT_0) q) (\<lambda>p2. Done (next_parity p2))) (pci_keeps p)"
    by (rule ret_seq [OF pci_spin_keeps]) (use q in \<open>auto simp: next_parity_def pci_wf_def pci_own_eq\<close>)
qed

lemma posedge_seq:
  assumes "pci_wf p" and "\<And>q. pci_keeps p q \<Longrightarrow> ret (f q) P"
  shows "ret (obind (pci_next_posedge p) f) P"
  by (rule ret_seq [OF posedge_keeps]) (use assms in auto)

lemma posedge_not_low: "ret (pci_next_posedge p) (\<lambda>q. pci_clk q \<noteq> BIT_0)"
  unfolding pci_next_posedge_def
  by (rule ret_any, rule ret_seq [OF pci.spin_post]) (simp add: next_parity_def)

lemma pending_next_parity [simp]: "fd (next_parity p) = fd p"
  by (simp add: next_parity_def)

lemma posedge_pending: "ret (pci_next_posedge p) (\<lambda>q. pending (fd q) \<le> pending (fd p))"
  unfolding pci_next_posedge_def
proof (rule ret_seq [OF pci.spin_pending])
  fix q :: "'a simbus_pci" assume q: "pending (fd q) \<le> pending (fd p)"
  show "ret (obind (spin fd send_ready_pci (\<lambda>p. pci_clk p = BIT_0) q) (\<lambda>p2. Done (next_parity p2)))
      (\<lambda>q. pending (fd q) \<le> pending (fd p))"
    by (rule ret_seq [OF pci.spin_pending]) (use q in simp)
qed

lemma posedge_consumes:
  assumes "known (pci_clk p)"
  shows "ret (pci_next_posedge p) (\<lambda>q. pending (fd q) < pending (fd p))"
proof (cases "pci_clk p = BIT_1")
  case True
  show ?thesis unfolding pci_next_posedge_def
  proof (rule ret_seq [OF pci.spin_pending_less])
    fix q :: "'a simbus_pci" assume q: "pending (fd q) < pending (fd p)"
    show "ret (obind (spin fd send_ready_pci (\<lambda>p. pci_clk p = BIT_0) q) (\<lambda>p2. Done (next_parity p2)))
        (\<lambda>q. pending (fd q) < pending (fd p))"
      by (rule ret_seq [OF pci.spin_pending]) (use q in simp)
  qed (rule True)
next
  case False
  with assms have 0: "pci_clk p = BIT_0" by (simp add: known_def)
  have "pci_next_posedge p = obind (spin fd send_ready_pci (\<lambda>p. pci_clk p = BIT_0) p) (\<lambda>p2. Done (next_parity p2))"
    using False by (simp add: pci_next_posedge_def pci.spin_unfold [of "\<lambda>p. pci_clk p = BIT_1"])
  with pci.spin_pending_less [of "\<lambda>p. pci_clk p = BIT_0" p] 0 show ?thesis by simp
qed

lemma posedge_fuel [simp]: "pci_next_posedge p \<noteq> Stop Out_of_fuel"
  by (simp add: pci_next_posedge_def obind_eq_Stop pci.spin_fuel)

interpretation clk: io_loop "\<lambda>p. pending (fd p)"
    "\<lambda>p. if known (pci_clk p) then pci_next_posedge p else Stop Diverges"
  by unfold_locales (auto split: if_splits dest: posedge_consumes [THEN retD, rotated])

lemma clocked_fuel [simp]: "clocked b p \<noteq> Stop Out_of_fuel"
  unfolding clocked_def by (rule clk.never_out_of_fuel) simp

lemma clocked_keeps: "pci_wf p \<Longrightarrow> ret (clocked b p) (\<lambda>q. pci_keeps p q \<and> \<not> b q)"
  unfolding clocked_def
  by (rule ret_while_io) (use posedge_keeps in \<open>fastforce simp: ret_def\<close>)+

lemma clocked_seq:
  assumes "pci_wf p" and "\<And>q. pci_keeps p q \<Longrightarrow> \<not> b q \<Longrightarrow> ret (f q) P"
  shows "ret (obind (clocked b p) f) P"
  by (rule ret_seq [OF clocked_keeps]) (use assms in auto)

lemma clocked_pending: "ret (clocked b p) (\<lambda>q. pending (fd q) \<le> pending (fd p))"
  unfolding clocked_def by (rule clk.pend_le)

text \<open>With the clock unknown, a clock changes no input line and no driven line but the parity.\<close>

lemma posedge_unknown: "\<not> known (pci_clk p) \<Longrightarrow> pci_next_posedge p = Done (next_parity p)"
  by (simp add: pci_next_posedge_def known_def pci.spin_unfold)

section \<open>Parity is even\<close>

definition ones :: "bitval list \<Rightarrow> nat" where
  "ones xs = length (filter (\<lambda>b. b = BIT_1) xs)"

text \<open>What the parity line must carry for the lines it covers.\<close>

definition parity_spec :: "bitval list \<Rightarrow> bitval list \<Rightarrow> bitval" where
  "parity_spec ad be =
     (if \<forall>b \<in> set ad. b = BIT_Z then BIT_Z
      else if \<forall>b \<in> set (ad @ be). known b then bit01 (odd (ones (ad @ be))) else BIT_X)"

lemma foldl_bit_xor_X: "foldl bit_xor BIT_X xs = BIT_X"
  by (induction xs) (simp_all add: bit_xor_def)

lemma foldl_bit_xor:
  "foldl bit_xor (bit01 s) xs =
     (if \<forall>b \<in> set xs. known b then bit01 (s \<noteq> odd (ones xs)) else BIT_X)"
proof (induction xs arbitrary: s)
  case (Cons x xs)
  have "bit_xor (bit01 s) x = (if known x then bit01 (s \<noteq> (x = BIT_1)) else BIT_X)"
    by (cases x) (auto simp: bit_xor_def known_def bit01_def)
  with Cons [of "s \<noteq> (x = BIT_1)"] show ?case by (auto simp: foldl_bit_xor_X ones_def known_def bit01_def)
qed (simp add: ones_def)

lemma par_start_spec: "par_start xs = (if \<forall>b \<in> set xs. b = BIT_Z then BIT_Z else bit01 False)"
  by (induction xs) (auto simp: bit01_def)

lemma par_of_spec: "par_of ad be = parity_spec ad be"
  by (auto simp: par_of_def par_start_spec parity_spec_def ones_def foldl_bit_xor
      foldl_append [symmetric] simp del: foldl_append)

text \<open>The parity lines are the parity of the lines at the end of the clock.\<close>

lemma posedge_parity: "ret (pci_next_posedge p) (\<lambda>q.
     out_par q = parity_spec (take 32 (out_ad q))
       (take 4 (if out_c_be q ! 0 = BIT_Z then pci_c_be q else out_c_be q))
     \<and> out_par64 q = parity_spec (take 32 (drop 32 (out_ad q))) (take 4 (drop 4 (out_c_be q))))"
  unfolding pci_next_posedge_def
  by (rule ret_any, rule ret_any) (simp add: next_parity_def par_of_spec)

text \<open>C1: After every clock each parity line is released while its half of the AD lines is released,
  and otherwise even parity over that half and four C/BE# lines, unknown if one of those is
  unknown.  PAR covers the low half and C/BE#[3:0], the received ones when this side does not drive
  them.  PAR64 covers the high half and the C/BE#[7:4] that this side drives itself, never the
  received ones: a 64-bit target that drives AD in a read cycle leaves C/BE# undriven, so its
  PAR64 is unknown, although the comment in the code promises the same treatment for both lines.\<close>

theorem pci_even_parity:
  "ret (pci_next_posedge p) (\<lambda>q.
     out_par q = parity_spec (take 32 (out_ad q))
       (take 4 (if out_c_be q ! 0 = BIT_Z then pci_c_be q else out_c_be q))
     \<and> out_par64 q = parity_spec (take 32 (drop 32 (out_ad q))) (take 4 (drop 4 (out_c_be q))))"
  by (rule posedge_parity)

text \<open>So the PAR64 of a target that drives the high half of AD in a read is unknown.\<close>

lemma par64_of_read:
  assumes "pci_wf p" and "\<exists>b \<in> set (take 32 (drop 32 (out_ad p))). b \<noteq> BIT_Z" and "out_c_be p = replicate 8 BIT_Z"
  shows "ret (pci_next_posedge p) (\<lambda>q. out_par64 q = BIT_X)"
proof (rule ret_mono [OF ret_conj [OF posedge_keeps [OF assms(1)] posedge_parity]])
  fix q :: "'a simbus_pci"
  assume "pci_keeps p q \<and> out_par q = parity_spec (take 32 (out_ad q))
       (take 4 (if out_c_be q ! 0 = BIT_Z then pci_c_be q else out_c_be q))
     \<and> out_par64 q = parity_spec (take 32 (drop 32 (out_ad q))) (take 4 (drop 4 (out_c_be q)))"
  then show "out_par64 q = BIT_X"
    using assms(2,3) by (auto simp: parity_spec_def pci_own_eq known_def)
qed

section \<open>Interrupt lines\<close>

lemma bit_active_low: "bit (active_low xs) j \<longleftrightarrow> j < 16 \<and> xs ! j = BIT_0"
  by (auto simp: active_low_def bit_gather)

text \<open>The interrupt mask has bit \<open>16 * k + i\<close> set exactly when slot \<open>i\<close> pulls line A, B, C or
  D (\<open>k = 0, 1, 2, 3\<close>) low, and no other bits.\<close>

lemma intr_active_bits:
  "bit (intr_active pci) j \<longleftrightarrow> j < 64 \<and>
     [pci_inta_n pci, pci_intb_n pci, pci_intc_n pci, pci_intd_n pci] ! (j div 16) ! (j mod 16) = BIT_0"
proof -
  consider "j < 16" | "16 \<le> j \<and> j < 32" | "32 \<le> j \<and> j < 48" | "48 \<le> j \<and> j < 64" | "64 \<le> j" by linarith
  then show ?thesis
  proof cases
    case 1
    then show ?thesis by (simp add: intr_active_def bit_active_low bit_simps)
  next
    case 2
    then have "j div 16 = 1" "j mod 16 = j - 16" by (auto simp: mod_if div_if)
    with 2 show ?thesis by (auto simp: intr_active_def bit_active_low bit_simps)
  next
    case 3
    then have "j div 16 = 2" "j mod 16 = j - 32" by (auto simp: mod_if div_if)
    with 3 show ?thesis by (auto simp: intr_active_def bit_active_low bit_simps)
  next
    case 4
    then have "j div 16 = 3" "j mod 16 = j - 48" by (auto simp: mod_if div_if)
    with 4 show ?thesis by (auto simp: intr_active_def bit_active_low bit_simps)
  next
    case 5
    then show ?thesis by (simp add: intr_active_def bit_active_low bit_simps)
  qed
qed

section \<open>Released lines\<close>

text \<open>
  This side drives none of the shared lines that it drives directly.  PAR and PAR64 are apart: the
  code sets them in \<open>__pci_next_posedge\<close> only, from the AD lines of that moment, so they follow
  the release of the bus one clock later, and stay driven when that clock does not come.
\<close>

definition quiet :: "'d simbus_pci \<Rightarrow> bool" where
  "quiet p \<longleftrightarrow> out_frame_n p = BIT_Z \<and> out_req64_n p = BIT_Z \<and> out_ack64_n p = BIT_Z
     \<and> out_irdy_n p = BIT_Z \<and> out_trdy_n p = BIT_Z \<and> out_stop_n p = BIT_Z \<and> out_devsel_n p = BIT_Z
     \<and> out_c_be p = replicate 8 BIT_Z \<and> out_ad p = replicate 64 BIT_Z"

lemma quiet_own: "pci_own q = pci_own p \<Longrightarrow> quiet q = quiet p"
  by (simp add: quiet_def pci_own_eq)

lemma quiet_undrive [simp]: "pci_wf p \<Longrightarrow> quiet (undrive_bus p)"
  by (simp add: quiet_def undrive_bus_def pci_wf_def fill_bits_all)

lemma wf_undrive [simp]: "pci_wf (undrive_bus p) = pci_wf p"
  by (simp add: undrive_bus_def pci_wf_def)

lemma undrive_sel [simp]:
  "out_req_n (undrive_bus p) = out_req_n p" "out_reset_n (undrive_bus p) = out_reset_n p"
  "fd (undrive_bus p) = fd p" "pci_devsel_n (undrive_bus p) = pci_devsel_n p"
  "pci_clk (undrive_bus p) = pci_clk p" "target_state (undrive_bus p) = target_state p"
  "out_par (undrive_bus p) = out_par p" "out_par64 (undrive_bus p) = out_par64 p"
  by (simp_all add: undrive_bus_def)

lemma own_req: "pci_own q = pci_own p \<Longrightarrow> out_req_n q = out_req_n p"
  by (simp add: pci_own_eq)

lemma wf_lines [simp]:
  "pci_wf (p\<lparr>out_req_n := v\<rparr>) = pci_wf p" "pci_wf (p\<lparr>out_reset_n := v\<rparr>) = pci_wf p"
  "pci_wf (p\<lparr>out_frame_n := v\<rparr>) = pci_wf p" "pci_wf (p\<lparr>out_req64_n := v\<rparr>) = pci_wf p"
  "pci_wf (p\<lparr>out_irdy_n := v\<rparr>) = pci_wf p" "pci_wf (p\<lparr>out_trdy_n := v\<rparr>) = pci_wf p"
  "pci_wf (p\<lparr>out_stop_n := v\<rparr>) = pci_wf p" "pci_wf (p\<lparr>out_devsel_n := v\<rparr>) = pci_wf p"
  "pci_wf (p\<lparr>out_ack64_n := v\<rparr>) = pci_wf p" "pci_wf (p\<lparr>break_flag := i\<rparr>) = pci_wf p"
  "pci_wf (p\<lparr>target_state := st\<rparr>) = pci_wf p" "pci_wf (p\<lparr>dac_addr_lo := a\<rparr>) = pci_wf p"
  "pci_wf (p\<lparr>user := u\<rparr>) = pci_wf p" "pci_wf (p\<lparr>retry_rate := r\<rparr>) = pci_wf p"
  "pci_wf (p\<lparr>config_need32 := f\<rparr>) = pci_wf p" "pci_wf (p\<lparr>config_recv32 := f\<rparr>) = pci_wf p"
  by (simp_all add: pci_wf_def)

lemma wf_arrays [simp]:
  "pci_wf p \<Longrightarrow> length xs = 8 \<Longrightarrow> pci_wf (p\<lparr>out_c_be := xs\<rparr>)"
  "pci_wf p \<Longrightarrow> length ys = 64 \<Longrightarrow> pci_wf (p\<lparr>out_ad := ys\<rparr>)"
  by (simp_all add: pci_wf_def)

lemma wf_len [simp]:
  "pci_wf p \<Longrightarrow> length (out_c_be p) = 8" "pci_wf p \<Longrightarrow> length (out_ad p) = 64"
  "pci_wf p \<Longrightarrow> length (pci_c_be p) = 8" "pci_wf p \<Longrightarrow> length (pci_ad p) = 64"
  "pci_wf p \<Longrightarrow> length (mem_target p) = 8"
  by (simp_all add: pci_wf_def)

lemma quiet_lines [simp]:
  "quiet (p\<lparr>out_req_n := v\<rparr>) = quiet p" "quiet (p\<lparr>out_reset_n := v\<rparr>) = quiet p"
  "quiet (p\<lparr>break_flag := i\<rparr>) = quiet p" "quiet (p\<lparr>target_state := st\<rparr>) = quiet p"
  "quiet (p\<lparr>dac_addr_lo := a\<rparr>) = quiet p" "quiet (p\<lparr>user := u\<rparr>) = quiet p"
  by (simp_all add: quiet_def)

abbreviation idle :: "'d simbus_pci \<Rightarrow> bool" where
  "idle p \<equiv> pci_wf p \<and> quiet p"

definition par_off :: "'d simbus_pci \<Rightarrow> bool" where
  "par_off p \<longleftrightarrow> out_par p = BIT_Z \<and> out_par64 p = BIT_Z"

text \<open>All shared lines: with \<open>par\<close> the parity lines among them.\<close>

abbreviation resting :: "bool \<Rightarrow> 'd simbus_pci \<Rightarrow> bool" where
  "resting par p \<equiv> pci_wf p \<and> quiet p \<and> (par \<longrightarrow> par_off p)"

abbreviation released :: "'d simbus_pci \<Rightarrow> bool" where
  "released p \<equiv> pci_wf p \<and> quiet p \<and> par_off p"

lemma idle_resting: "idle p \<Longrightarrow> resting False p"
  by simp

lemma par_off_parity: "pci_parity q = pci_parity p \<Longrightarrow> par_off q = par_off p"
  by (simp add: par_off_def pci_parity_def)

lemma par_off_lines [simp]:
  "par_off (p\<lparr>out_req_n := v\<rparr>) = par_off p" "par_off (p\<lparr>out_reset_n := v\<rparr>) = par_off p"
  "par_off (p\<lparr>out_frame_n := v\<rparr>) = par_off p" "par_off (p\<lparr>out_req64_n := v\<rparr>) = par_off p"
  "par_off (p\<lparr>out_irdy_n := v\<rparr>) = par_off p" "par_off (p\<lparr>out_trdy_n := v\<rparr>) = par_off p"
  "par_off (p\<lparr>out_stop_n := v\<rparr>) = par_off p" "par_off (p\<lparr>out_devsel_n := v\<rparr>) = par_off p"
  "par_off (p\<lparr>out_ack64_n := v\<rparr>) = par_off p" "par_off (p\<lparr>break_flag := i\<rparr>) = par_off p"
  "par_off (p\<lparr>target_state := st\<rparr>) = par_off p" "par_off (p\<lparr>dac_addr_lo := a\<rparr>) = par_off p"
  "par_off (p\<lparr>user := u\<rparr>) = par_off p" "par_off (p\<lparr>retry_rate := r\<rparr>) = par_off p"
  "par_off (p\<lparr>config_need32 := f\<rparr>) = par_off p" "par_off (p\<lparr>config_recv32 := f\<rparr>) = par_off p"
  "par_off (p\<lparr>random_state := c\<rparr>) = par_off p" "par_off (p\<lparr>mem_target := m\<rparr>) = par_off p"
  "par_off (undrive_bus p) = par_off p"
  by (simp_all add: par_off_def undrive_bus_def)

text \<open>A clock with the AD lines released releases the parity lines.\<close>

lemma posedge_par_off:
  assumes "pci_wf p" and "out_ad p = replicate 64 BIT_Z"
  shows "ret (pci_next_posedge p) (\<lambda>q. pci_keeps p q \<and> par_off q)"
proof (rule ret_mono [OF ret_conj [OF posedge_keeps [OF assms(1)] posedge_parity]])
  fix q :: "'a simbus_pci"
  assume "pci_keeps p q \<and> out_par q = parity_spec (take 32 (out_ad q))
       (take 4 (if out_c_be q ! 0 = BIT_Z then pci_c_be q else out_c_be q))
     \<and> out_par64 q = parity_spec (take 32 (drop 32 (out_ad q))) (take 4 (drop 4 (out_c_be q)))"
  then show "pci_keeps p q \<and> par_off q"
    using assms(2) by (simp add: parity_spec_def pci_own_eq par_off_def)
qed

text \<open>A clock with the lowest AD line driven drives PAR.\<close>

lemma posedge_par_on:
  assumes "pci_wf p" and "out_ad p ! 0 \<noteq> BIT_Z"
  shows "ret (pci_next_posedge p) (\<lambda>q. pci_keeps p q \<and> out_par q \<noteq> BIT_Z)"
proof (rule ret_mono [OF ret_conj [OF posedge_keeps [OF assms(1)] posedge_parity]])
  fix q :: "'a simbus_pci"
  assume q: "pci_keeps p q \<and> out_par q = parity_spec (take 32 (out_ad q))
       (take 4 (if out_c_be q ! 0 = BIT_Z then pci_c_be q else out_c_be q))
     \<and> out_par64 q = parity_spec (take 32 (drop 32 (out_ad q))) (take 4 (drop 4 (out_c_be q)))"
  have ad: "out_ad q = out_ad p" using q by (simp add: pci_own_eq)
  have len: "length (out_ad q) = 64" using q by (intro wf_len) (elim conjE)
  have "take 32 (out_ad q) ! 0 \<in> set (take 32 (out_ad q))"
    by (rule nth_mem) (simp add: len)
  then have "out_ad p ! 0 \<in> set (take 32 (out_ad q))" by (simp only: nth_take ad zero_less_numeral)
  with assms(2) have "\<exists>b \<in> set (take 32 (out_ad q)). b \<noteq> BIT_Z" by blast
  then show "pci_keeps p q \<and> out_par q \<noteq> BIT_Z"
    using q by (auto simp: parity_spec_def bit01_def)
qed

lemma idle_own: "pci_wf q \<Longrightarrow> pci_own q = pci_own p \<Longrightarrow> quiet p \<Longrightarrow> idle q"
  using quiet_own [of q p] by simp

lemma posedge_idle: "idle p \<Longrightarrow> ret (pci_next_posedge p) idle"
  by (rule ret_mono [OF posedge_keeps]) (blast intro: idle_own dest: idle_own)+

subsection \<open>The master's phases keep the arrays in shape\<close>

text \<open>The part of the invariant that a running transaction has: arrays in shape, REQ# withdrawn.\<close>

definition busy :: "'d simbus_pci \<Rightarrow> bool" where
  "busy p \<longleftrightarrow> pci_wf p \<and> out_req_n p = BIT_1"

lemma busy_wf: "busy p \<Longrightarrow> pci_wf p"
  by (simp add: busy_def)

lemma busy_keeps: "busy p \<Longrightarrow> pci_keeps p q \<Longrightarrow> busy q"
  by (simp add: busy_def pci_own_eq)

lemma busy_lines [simp]:
  "busy (p\<lparr>out_reset_n := w\<rparr>) = busy p"
  "busy (p\<lparr>out_frame_n := w\<rparr>) = busy p" "busy (p\<lparr>out_req64_n := w\<rparr>) = busy p"
  "busy (p\<lparr>out_irdy_n := w\<rparr>) = busy p" "busy (p\<lparr>out_trdy_n := w\<rparr>) = busy p"
  "busy (p\<lparr>out_stop_n := w\<rparr>) = busy p" "busy (p\<lparr>out_devsel_n := w\<rparr>) = busy p"
  "busy (p\<lparr>out_ack64_n := w\<rparr>) = busy p" "busy (undrive_bus p) = busy p"
  by (simp_all add: busy_def)

lemma busy_arrays [simp]:
  "busy p \<Longrightarrow> length xs = 8 \<Longrightarrow> busy (p\<lparr>out_c_be := xs\<rparr>)"
  "busy p \<Longrightarrow> length ys = 64 \<Longrightarrow> busy (p\<lparr>out_ad := ys\<rparr>)"
  by (simp_all add: busy_def)

lemma busy_len [simp]: "busy p \<Longrightarrow> length (out_c_be p) = 8" "busy p \<Longrightarrow> length (out_ad p) = 64"
  by (simp_all add: busy_def)

lemma posedge_busy: "busy p \<Longrightarrow> ret (pci_next_posedge p) busy"
  by (rule ret_mono [OF posedge_keeps]) (auto intro: busy_keeps busy_wf)

lemmas posedge_busy_seq = ret_seq [OF posedge_busy]

lemma clocked_busy: "busy p \<Longrightarrow> ret (clocked b p) busy"
  by (rule ret_mono [OF clocked_keeps]) (auto intro: busy_keeps busy_wf)

lemma dac_phase_busy: "busy p \<Longrightarrow> ret (dac_phase a p) busy"
  unfolding dac_phase_def by (auto simp del: ret_obind intro!: posedge_busy_seq)

lemma attr_phase_busy: "busy p \<Longrightarrow> ret (attr_phase b p) busy"
  unfolding attr_phase_def Let_def by (auto simp del: ret_obind intro!: posedge_busy_seq posedge_busy)

lemma drive_address_busy [simp]: "busy p \<Longrightarrow> busy (drive_address a f p)"
  by (simp add: drive_address_def Let_def)

lemma address_command_busy: "busy p \<Longrightarrow> ret (address_command p a c b f g) busy"
  unfolding address_command_def
  by (auto simp del: ret_obind intro!: posedge_busy_seq ret_seq [OF dac_phase_busy] ret_seq [OF attr_phase_busy])

text \<open>
  After three clocks without DEVSEL# the parity lines are what the AD lines of this side make them:
  released for a read, driven for a write.
\<close>

lemma await_devsel_parity:
  "pci_wf p \<Longrightarrow> out_ad p = replicate 64 BIT_Z \<Longrightarrow> ret (await_devsel (Suc n) p) (\<lambda>q. pci_devsel_n q \<noteq> BIT_0 \<longrightarrow> par_off q)"
  "pci_wf p \<Longrightarrow> out_ad p ! 0 \<noteq> BIT_Z \<Longrightarrow> ret (await_devsel (Suc n) p) (\<lambda>q. pci_devsel_n q \<noteq> BIT_0 \<longrightarrow> out_par q \<noteq> BIT_Z)"
proof (induction n arbitrary: p)
  case 0
  {
    case 1
    then show ?case by (auto simp del: ret_obind intro!: ret_seq [OF posedge_par_off])
  next
    case 2
    then show ?case by (auto simp del: ret_obind intro!: ret_seq [OF posedge_par_on])
  }
next
  case (Suc n)
  {
    case 1
    then show ?case
      by (subst await_devsel.simps) (auto simp del: ret_obind await_devsel.simps simp: pci_own_eq
          intro!: ret_seq [OF posedge_par_off] Suc.IH(1))
  next
    case 2
    then show ?case
      by (subst await_devsel.simps) (auto simp del: ret_obind await_devsel.simps simp: pci_own_eq
          intro!: ret_seq [OF posedge_par_on] Suc.IH(2))
  }
qed

lemma await_devsel_busy: "busy p \<Longrightarrow> ret (await_devsel n p) busy"
  by (induction n arbitrary: p) (auto simp del: ret_obind intro!: posedge_busy_seq)

text \<open>
  A master abort leaves the bus released but for the parity, which is released if the AD lines
  were released before (a read) and still driven if they were not (a write).
\<close>

lemma wait_for_devsel_busy:
  assumes "busy p"
  shows "ret (wait_for_devsel p) (\<lambda>(rc, q). busy q
    \<and> (rc = 0 \<and> pci_devsel_n q = BIT_0
      \<or> rc = GPCI_MASTER_ABORT \<and> pci_devsel_n q \<noteq> BIT_0 \<and> quiet q
        \<and> (out_ad p = replicate 64 BIT_Z \<longrightarrow> par_off q) \<and> (out_ad p ! 0 \<noteq> BIT_Z \<longrightarrow> out_par q \<noteq> BIT_Z)))"
proof -
  have "ret (await_devsel 3 p) (\<lambda>q. busy q \<and> (pci_devsel_n q \<noteq> BIT_0 \<longrightarrow>
      (out_ad p = replicate 64 BIT_Z \<longrightarrow> par_off q) \<and> (out_ad p ! 0 \<noteq> BIT_Z \<longrightarrow> out_par q \<noteq> BIT_Z)))"
  proof -
    have off: "ret (await_devsel 3 p) (\<lambda>q. out_ad p = replicate 64 BIT_Z \<longrightarrow> pci_devsel_n q \<noteq> BIT_0 \<longrightarrow> par_off q)"
      using await_devsel_parity(1) [OF busy_wf [OF assms], of 2] by (auto simp: ret_def numeral_3_eq_3 numeral_2_eq_2)
    have on: "ret (await_devsel 3 p) (\<lambda>q. out_ad p ! 0 \<noteq> BIT_Z \<longrightarrow> pci_devsel_n q \<noteq> BIT_0 \<longrightarrow> out_par q \<noteq> BIT_Z)"
      using await_devsel_parity(2) [OF busy_wf [OF assms], of 2] by (auto simp: ret_def numeral_3_eq_3 numeral_2_eq_2)
    show ?thesis
      by (rule ret_mono [OF ret_conj [OF await_devsel_busy [OF assms] ret_conj [OF off on]]]) blast
  qed
  then show ?thesis
    unfolding wait_for_devsel_def by (rule ret_seq) (simp add: busy_wf)
qed

lemma await_trdy_busy:
  "busy p \<Longrightarrow> ret (await_trdy n p) (\<lambda>(rc, q). busy q
     \<and> (rc = 0 \<and> pci_trdy_n q = BIT_0 \<or> rc = GPCI_TARGET_RETRY \<and> pci_trdy_n q \<noteq> BIT_0 \<and> pci_stop_n q = BIT_0))"
proof (induction n arbitrary: p)
  case 0
  show ?case by (subst await_trdy.simps) (use 0 in \<open>auto simp del: ret_obind intro: ret_any\<close>)
next
  case (Suc n)
  show ?case
    by (subst await_trdy.simps) (use Suc in \<open>auto simp del: ret_obind intro!: posedge_busy_seq\<close>)
qed

lemma await_trdy_codes:
  "ret (await_trdy n p) (\<lambda>(rc, q). rc = 0 \<and> pci_trdy_n q = BIT_0
     \<or> rc = GPCI_TARGET_RETRY \<and> pci_trdy_n q \<noteq> BIT_0 \<and> pci_stop_n q = BIT_0)"
proof (induction n arbitrary: p)
  case 0
  show ?case by (subst await_trdy.simps) (auto simp del: ret_obind intro: ret_any)
next
  case (Suc n)
  show ?case by (subst await_trdy.simps) (use Suc in \<open>auto simp del: ret_obind intro!: ret_any\<close>)
qed

lemma wait_for_read_busy:
  assumes "busy p"
  shows "ret (wait_for_read p val valx) (\<lambda>(rc, val', valx', q). busy q \<and> (rc = 0 \<or> rc = GPCI_TARGET_RETRY))"
  unfolding wait_for_read_def
  by (rule ret_seq2 [OF await_trdy_busy [OF assms]]) (auto simp: GPCI_TARGET_RETRY_def)

lemma setup_for_write_busy: "busy p \<Longrightarrow> ret (setup_for_write p val b f) (\<lambda>q. busy q \<and> out_ad q ! 0 \<noteq> BIT_Z)"
  unfolding setup_for_write_def Let_def
proof (rule ret_mono [OF posedge_keeps])
  let ?p = "p\<lparr>out_c_be := if f then put_bits 4 4 (drop_bit 4 b) (put_bits 0 4 b (out_c_be p))
      else fill_bits 4 4 BIT_1 (put_bits 0 4 b (out_c_be p)),
    out_ad := if f then put_bits 32 32 (drop_bit 32 val) (put_bits 0 32 val (out_ad p))
      else fill_bits 32 32 BIT_Z (put_bits 0 32 val (out_ad p))\<rparr>"
  assume p: "busy p"
  then have b: "busy ?p" by simp
  then show "pci_wf ?p" by (rule busy_wf)
  fix q assume q: "pci_keeps ?p q"
  have "out_ad ?p ! 0 \<noteq> BIT_Z"
    using p by (simp add: nth_put_bits nth_fill_bits bit01_def)
  then show "busy q \<and> out_ad q ! 0 \<noteq> BIT_Z"
    using busy_keeps [OF b q] q by (simp add: pci_own_eq del: simbus_pci.simps)
qed

text \<open>The exits of a transaction that release the bus and clock once.\<close>

definition done_with :: "'d simbus_pci \<Rightarrow> bool" where
  "done_with p \<longleftrightarrow> busy p \<and> quiet p \<and> par_off p"

lemma release_clock:
  assumes "busy p"
  shows "ret (pci_next_posedge (undrive_bus p)) done_with"
proof (rule ret_mono [OF posedge_par_off])
  have u: "busy (undrive_bus p)" "quiet (undrive_bus p)" using assms by (simp_all add: busy_wf)
  then show "pci_wf (undrive_bus p)" "out_ad (undrive_bus p) = replicate 64 BIT_Z" by (simp_all add: busy_wf quiet_def)
  fix q assume "pci_keeps (undrive_bus p) q \<and> par_off q"
  with u busy_keeps quiet_own show "done_with q" unfolding done_with_def by blast
qed

lemmas release_seq = ret_seq [OF release_clock]

definition read_codes :: "int \<Rightarrow> bool" where
  "read_codes rc \<longleftrightarrow> rc = 0 \<or> rc = GPCI_MASTER_ABORT \<or> rc = GPCI_TARGET_RETRY"

lemma read_codes [simp]: "read_codes 0" "read_codes (- 1)" "read_codes (- 2)"
  by (simp_all add: read_codes_def GPCI_MASTER_ABORT_def GPCI_TARGET_RETRY_def)

lemma read_phase_done:
  assumes "busy p"
  shows "ret (read_phase p r r2) (\<lambda>(rc, r', r2', q). done_with q \<and> read_codes rc)"
proof -
  have pcix: "ret (if pcixcap q = BIT_1
        then obind (pci_next_posedge q) (\<lambda>p3. pci_next_posedge (p3\<lparr>out_irdy_n := BIT_1, out_frame_n := BIT_1\<rparr>))
        else Done q) busy" if "busy q" for q :: "'a simbus_pci"
    using that by (auto simp del: ret_obind intro!: posedge_busy_seq posedge_busy)
  have fin: "ret (obind (pci_next_posedge (undrive_bus q)) (\<lambda>p5. Done (rc, w, wx, p5)))
      (\<lambda>(rc, r', r2', q). done_with q \<and> read_codes rc)"
    if "busy q" "read_codes rc" for q :: "'a simbus_pci" and rc and w :: u32 and wx :: u32
    by (rule release_seq) (use that in auto)
  have body: "ret (obind (wait_for_read p1 0 0) (\<lambda>(rc, val, valx, p2).
        if rc < 0 then obind (pci_next_posedge (undrive_bus p2)) (\<lambda>p3. Done (rc, 0xffffffff :: u32, 0xffffffff :: u32, p3))
        else obind (if pcixcap p2 = BIT_1
            then obind (pci_next_posedge p2) (\<lambda>p3. pci_next_posedge (p3\<lparr>out_irdy_n := BIT_1, out_frame_n := BIT_1\<rparr>))
            else Done p2) (\<lambda>p4. obind (pci_next_posedge (undrive_bus p4)) (\<lambda>p5. Done (0, ucast val, ucast valx, p5)))))
      (\<lambda>(rc, r', r2', q). done_with q \<and> read_codes rc)" if "busy p1" for p1 :: "'a simbus_pci"
    by (rule ret_seq [OF wait_for_read_busy])
      (use that in \<open>auto simp del: ret_obind simp: GPCI_TARGET_RETRY_def split del: if_split intro!: ret_seq [OF pcix] fin\<close>)
  show ?thesis
    unfolding read_phase_def
    by (rule ret_seq2 [OF wait_for_devsel_busy [OF assms]])
      (auto simp del: ret_obind simp: GPCI_MASTER_ABORT_def intro!: fin body)
qed

text \<open>How a write ends: completed and released, or without an answer and with the parity left driven.\<close>

definition write_end :: "int \<times> 'd simbus_pci \<Rightarrow> bool" where
  "write_end r \<longleftrightarrow> (case r of (rc, q) \<Rightarrow> rc = 0 \<and> done_with q
     \<or> rc = GPCI_MASTER_ABORT \<and> busy q \<and> quiet q \<and> pci_devsel_n q \<noteq> BIT_0 \<and> out_par q \<noteq> BIT_Z)"

text \<open>The data phase of a write, shared by all master writes.\<close>

lemma write_phase_done:
  assumes "busy p" and "out_ad p ! 0 \<noteq> BIT_Z"
  shows "ret (obind (wait_for_devsel p) (\<lambda>(rc, p4).
      if rc < 0 then Done (rc, p4)
      else obind (clocked (\<lambda>p. pci_trdy_n p \<noteq> BIT_0) p4) (\<lambda>p5.
           obind (pci_next_posedge (undrive_bus p5)) (\<lambda>p6. Done (0, p6)))))
    write_end"
proof -
  have "ret (obind (clocked (\<lambda>p. pci_trdy_n p \<noteq> BIT_0) q) (\<lambda>p5.
           obind (pci_next_posedge (undrive_bus p5)) (\<lambda>p6. Done (0 :: int, p6))))
      write_end" if "busy q" for q :: "'a simbus_pci"
    by (rule ret_seq [OF clocked_busy [OF that]], rule release_seq) (auto simp: write_end_def)
  then show ?thesis
    by (intro ret_seq2 [OF wait_for_devsel_busy [OF assms(1)]])
      (use assms(2) in \<open>auto simp del: ret_obind simp: GPCI_MASTER_ABORT_def write_end_def\<close>)
qed

section \<open>The interface of the target machine\<close>

text \<open>
  \<open>simbus_pci_wait\<close> runs the target machine after every clock.  What the master's side relies on
  is that the machine keeps the arrays in shape and has released whatever it drove when it returns.
\<close>

locale target_machine =
  fixes tsm :: "'d simbus_pci \<Rightarrow> 'd simbus_pci outcome"
  assumes tsm_idle: "resting par p \<Longrightarrow> ret (tsm p) (resting par)"
begin

lemma spin_rc_idle: "resting par p \<Longrightarrow> ret (spin_rc fd send_ready_pci b (rc, p)) (\<lambda>(rc, q). resting par q)"
  by (rule ret_mono [OF pci_spin_rc_keeps]) (auto intro: quiet_own [THEN iffD2] par_off_parity [THEN iffD2])

lemma clock_then:
  assumes "resting par p" and "\<And>rc q. resting par q \<Longrightarrow> ret (f (rc, q)) P"
  shows "ret (obind (spin_rc fd send_ready_pci b (rc, p)) (\<lambda>q1. obind (spin_rc fd send_ready_pci c q1) f)) P"
  by (rule ret_seq2 [OF spin_rc_idle [OF assms(1)]], rule ret_seq2 [OF spin_rc_idle]) (auto intro: assms(2))

lemma wait_clocks_idle:
  "resting par p \<Longrightarrow> ret (wait_clocks tsm n use_irq msk irq p) (\<lambda>(rc, irq', q). resting par q)"
proof (induction n arbitrary: msk p)
  case (Suc n)
  have "ret (obind (tsm q) (\<lambda>p3. if break_flag p3 \<noteq> 0 \<and> target_state p3 = TARG_IDLE
        then Done (SIMBUS_PCI_BREAK, irq, p3) else wait_clocks tsm n use_irq (intr_active p3) irq p3))
      (\<lambda>(rc, irq', q). resting par q)" if "resting par q" for q
    by (rule ret_seq [OF tsm_idle [OF that]]) (use Suc.IH in auto)
  with Suc.prems show ?case by (auto simp del: ret_obind intro!: clock_then)
qed simp

lemma wait_idle: "resting par p \<Longrightarrow> ret (simbus_pci_wait_with tsm p n irq) (\<lambda>(rc, irq', q). resting par q)"
  by (auto simp: simbus_pci_wait_with_def Let_def intro!: wait_clocks_idle)

lemma reset_idle: "resting par p \<Longrightarrow> ret (simbus_pci_reset_with tsm p w n) (resting par)"
proof -
  have 1: "ret (obind (simbus_pci_wait_with tsm (q\<lparr>out_reset_n := BIT_1\<rparr>) n None) (\<lambda>(rc, i, t). Done t)) (resting par)"
    if "resting par q" for q
    by (rule ret_seq [OF wait_idle]) (use that in auto)
  assume "resting par p"
  then have "ret (obind (simbus_pci_wait_with tsm (p\<lparr>out_reset_n := BIT_0\<rparr>) w None) (\<lambda>(rc, i, q).
      obind (simbus_pci_wait_with tsm (q\<lparr>out_reset_n := BIT_1\<rparr>) n None) (\<lambda>(rc, i, t). Done t))) (resting par)"
    by (intro ret_seq [OF wait_idle]) (use 1 in auto)
  then show ?thesis by (simp add: simbus_pci_reset_with_def del: ret_obind)
qed

lemma await_grant_idle: "resting par p \<Longrightarrow> ret (await_grant tsm n p) (\<lambda>q. resting par q \<and> \<not> bus_taken q)"
proof (induction n arbitrary: p)
  case 0
  then show ?case by (subst await_grant.simps) (auto simp del: ret_obind intro: ret_any)
next
  case (Suc n)
  show ?case
    by (subst await_grant.simps)
      (use Suc in \<open>auto simp del: ret_obind intro!: ret_seq [OF wait_idle]\<close>)
qed

lemma request_bus_granted:
  assumes "resting par p"
  shows "ret (pci_request_bus_with tsm p) (\<lambda>q. busy q \<and> quiet q \<and> (par \<longrightarrow> par_off q) \<and> \<not> bus_taken q)"
  unfolding pci_request_bus_with_def
  by (rule ret_seq [OF await_grant_idle [where par = par]]) (use assms in \<open>auto simp: busy_def bus_taken_def\<close>)

lemma read32_done:
  assumes "idle p"
  shows "ret (generic_pci_read32_with tsm p a c b r r2) (\<lambda>(rc, r', r2', q). done_with q \<and> read_codes rc)"
  unfolding generic_pci_read32_with_def
proof (rule ret_seq [OF request_bus_granted [where par = False]], rule assms [THEN idle_resting],
    rule ret_seq [OF address_command_busy])
  fix p1 p2 :: "'d simbus_pci" assume "busy p1 \<and> quiet p1 \<and> (False \<longrightarrow> par_off p1) \<and> \<not> bus_taken p1" and p2: "busy p2"
  show "ret (obind (pci_next_posedge (p2\<lparr>out_c_be := put_bits 0 4 b (out_c_be p2),
      out_ad := fill_bits 0 64 BIT_Z (out_ad p2)\<rparr>)) (\<lambda>p3. read_phase p3 r r2))
      (\<lambda>(rc, r', r2', q). done_with q \<and> read_codes rc)"
    by (rule posedge_busy_seq) (use p2 read_phase_done in auto)
qed (simp add: busy_def)

lemma write32_done:
  assumes "idle p"
  shows "ret (generic_pci_write32_with tsm p a c v b)
    write_end"
  unfolding generic_pci_write32_with_def
  by (rule ret_seq [OF request_bus_granted [OF assms [THEN idle_resting]]], rule ret_seq [OF address_command_busy],
      simp add: busy_def, rule ret_seq [OF setup_for_write_busy], assumption, rule write_phase_done) simp_all

end

section \<open>What waiting and reading report\<close>

text \<open>
  The two ways a wait ends: early, with the caller's mask untouched, or with the mask narrowed to
  the interrupts that are active at the end.
\<close>

definition wait_report :: "u64 option \<Rightarrow> int \<times> u64 option \<times> 'd simbus_pci \<Rightarrow> bool" where
  "wait_report irq r \<longleftrightarrow> (case r of (rc, irq', q) \<Rightarrow>
     (rc = SIMBUS_PCI_FINISHED \<or> rc = SIMBUS_PCI_BREAK) \<and> irq' = irq
     \<or> rc = (if intr_active q = 0 then 0 else 1) \<and> irq' = map_option (\<lambda>i. i AND intr_active q) irq)"

lemma two_edges:
  assumes "\<And>rc q. rc = 0 \<or> rc = SIMBUS_PCI_FINISHED \<Longrightarrow> ret (f (rc, q)) P"
  shows "ret (obind (spin_rc fd send_ready_pci b (0, p)) (\<lambda>q1. obind (spin_rc fd send_ready_pci c q1) f)) P"
  by (rule ret_seq2 [OF pci.spin_rc_code], simp, rule ret_seq2 [OF pci.spin_rc_code]) (auto intro: assms)

lemma wait_report_intros:
  "wait_report irq (SIMBUS_PCI_FINISHED, irq, q)" "wait_report irq (SIMBUS_PCI_BREAK, irq, q)"
  "wait_report irq (if intr_active q = 0 then 0 else 1, map_option (\<lambda>i. i AND intr_active q) irq, q)"
  by (simp_all add: wait_report_def)

lemma wait_step_report:
  assumes "\<And>p. ret (wait_clocks tsm n use_irq (intr_active p) irq p) (wait_report irq)" and "msk AND use_irq = 0"
  shows "ret (wait_clocks tsm (Suc n) use_irq msk irq p) (wait_report irq)"
proof -
  have "ret (obind (tsm q) (\<lambda>p3. if break_flag p3 \<noteq> 0 \<and> target_state p3 = TARG_IDLE
        then Done (SIMBUS_PCI_BREAK, irq, p3) else wait_clocks tsm n use_irq (intr_active p3) irq p3))
      (wait_report irq)" for q
    by (rule ret_any) (simp add: assms(1) wait_report_intros)
  with assms(2) show ?thesis
    by (simp del: ret_obind) (rule two_edges, auto simp: wait_report_intros simp del: ret_obind)
qed

lemma wait_clocks_report: "ret (wait_clocks tsm n use_irq (intr_active p) irq p) (wait_report irq)"
proof (induction n arbitrary: p)
  case (Suc n)
  show ?case
  proof (cases "intr_active p AND use_irq = 0")
    case True
    from wait_step_report [OF Suc True] show ?thesis .
  next
    case False
    then show ?thesis using wait_report_intros(3) [of irq p] by simp
  qed
qed (simp add: wait_report_def)

text \<open>Waiting for clocks ends either early, with the code for the end of the simulation or for a
  break request and the caller's interrupt mask untouched, or with the interrupts that are active at
  the end: the mask is narrowed to them, and the result is 1 as soon as any line is active,
  whether or not the mask enables it.\<close>

theorem wait_reports_interrupts:
  assumes "0 < clks"
  shows "ret (simbus_pci_wait_with tsm p clks irq) (\<lambda>(rc, irq', q).
     (rc = SIMBUS_PCI_FINISHED \<or> rc = SIMBUS_PCI_BREAK) \<and> irq' = irq
     \<or> rc = (if intr_active q = 0 then 0 else 1) \<and> irq' = map_option (\<lambda>i. i AND intr_active q) irq)"
proof -
  obtain n where n: "clks = Suc n" using assms by (cases clks) auto
  have "ret (simbus_pci_wait_with tsm p clks irq) (wait_report irq)"
    unfolding n simbus_pci_wait_with_def
    by (simp del: ret_obind wait_clocks.simps, rule wait_step_report [OF wait_clocks_report]) simp
  then show ?thesis by (simp add: wait_report_def [abs_def])
qed

lemma bit_collect_ad:
  "bit (collect_ad P p) j \<longleftrightarrow> j < (if pci_ack64_n p = BIT_0 then 64 else 32) \<and> P (pci_ad p ! j)"
proof -
  have "bit (gather P (pci_ad p) 32 32 (push_bit 32 1) (gather P (pci_ad p) 0 32 1 0) :: u64) j
      \<longleftrightarrow> j < 64 \<and> P (pci_ad p ! j)"
    unfolding bit_gather_aux bit_gather by auto
  then show ?thesis by (auto simp: collect_ad_def bit_gather Let_def)
qed

text \<open>A read that the target completes returns the AD lines of the clock in which TRDY# was low: 64
  of them if ACK64# is low and 32 otherwise, with unknown lines read as 1 and marked in the second
  word; a read that is not completed is a retry, with STOP# low, and returns no data.\<close>

theorem read_returns_lines:
  "ret (wait_for_read p v vx) (\<lambda>(rc, val, valx, q).
     rc = GPCI_TARGET_RETRY \<and> pci_stop_n q = BIT_0 \<and> pci_trdy_n q \<noteq> BIT_0 \<and> val = v \<and> valx = vx
     \<or> rc = 0 \<and> pci_trdy_n q = BIT_0
       \<and> (\<forall>j. bit val j \<longleftrightarrow> j < (if pci_ack64_n q = BIT_0 then 64 else 32) \<and> pci_ad q ! j \<noteq> BIT_0)
       \<and> (\<forall>j. bit valx j \<longleftrightarrow> j < (if pci_ack64_n q = BIT_0 then 64 else 32) \<and> \<not> known (pci_ad q ! j)))"
proof -
  have "ret (await_trdy 256 p) (\<lambda>(rc, q). rc = 0 \<and> pci_trdy_n q = BIT_0
      \<or> rc = GPCI_TARGET_RETRY \<and> pci_trdy_n q \<noteq> BIT_0 \<and> pci_stop_n q = BIT_0)"
    by (rule await_trdy_codes)
  then show ?thesis
    unfolding wait_for_read_def
    by (rule ret_seq2) (auto simp: GPCI_TARGET_RETRY_def bit_collect_ad)
qed

section \<open>A clock from the server\<close>

definition clk_answer :: "bitval \<Rightarrow> read_event" where
  "clk_answer v = answer [''UNTIL'', time_token init_simbus_time, ''PCI_CLK='' @ [bitval_to_char v]]"

definition clk_turn :: "bitval \<Rightarrow> read_event list \<Rightarrow> 'd simbus_pci \<Rightarrow> 'd simbus_pci" where
  "clk_turn v es p =
     p\<lparr>fd := (fd p)\<lparr>rx := es, tx := tx (fd p) @ [ready_message_pci p]\<rparr>, bus_time := init_simbus_time, pci_clk := v\<rparr>"

lemma length_pin [simp]: "length (pin nm v) = length nm + 2"
  by (simp add: pin_def)

lemma ready_message_pci_fits:
  assumes "time_ok (bus_time p)"
  shows "length (ready_message_pci p) + 1 \<le> buf_size"
  using length_time_token [OF assms] by (simp add: ready_message_pci_def ready_prefix_def buf_size_def)

lemma send_ready_clk:
  assumes "time_ok (bus_time p)" and "wr (fd p) = []" and "rx (fd p) = clk_answer v # es"
  shows "send_ready_pci p = Done (0, clk_turn v es p)"
proof -
  let ?sigs = "[''PCI_CLK='' @ [bitval_to_char v]]"
  have plain: "list_all plain_token (''UNTIL'' # time_token init_simbus_time # ?sigs)"
    using bitval_to_char_plain [of v] by (simp add: init_token plain_token_def NUL_def NL_def)
  have "send_ready_pci p = obind (each_signal on_signal_pci ?sigs
      (p\<lparr>fd := (fd p)\<lparr>rx := es, tx := tx (fd p) @ [ready_message_pci p]\<rparr>, bus_time := init_simbus_time\<rparr>))
      (\<lambda>s'. Done (0, s'))"
    unfolding send_ready_pci_def
    by (subst ready_exchange_answer [where t = init_simbus_time and sigs = ?sigs and es = es])
      (use assms ready_message_pci_fits [OF assms(1)] plain in
        \<open>simp_all add: clk_answer_def max_argc_def init_token buf_size_def\<close>)
  then show ?thesis by (simp add: on_signal_pci_def char0_def clk_turn_def Let_def)
qed

lemma clk_turn_sel [simp]:
  "pci_clk (clk_turn v es p) = v" "rx (fd (clk_turn v es p)) = es" "wr (fd (clk_turn v es p)) = wr (fd p)"
  "bus_time (clk_turn v es p) = init_simbus_time"
  by (simp_all add: clk_turn_def)

text \<open>Against a server that lowers and raises the clock, \<open>__pci_next_posedge\<close> returns after
  exactly those two answers, with the driven lines as they were and the clock high.\<close>

lemma posedge_live:
  assumes "time_ok (bus_time p)" and "wr (fd p) = []" and "pci_clk p = BIT_1"
    and "rx (fd p) = clk_answer BIT_0 # clk_answer BIT_1 # es"
  shows "pci_next_posedge p = Done (next_parity (clk_turn BIT_1 es (clk_turn BIT_0 (clk_answer BIT_1 # es) p)))"
  using assms
  by (simp add: pci_next_posedge_def pci.spin_unfold [of _ p] pci.spin_unfold [of _ "clk_turn v es q" for v es q]
      send_ready_clk)

definition demo_pci :: "unit simbus_pci" where
  "demo_pci = (init_simbus_pci ''host'' (script [clk_answer BIT_0, clk_answer BIT_1]) 0 ())\<lparr>pci_clk := BIT_1\<rparr>"

lemma demo_sel [simp]:
  "bus_time demo_pci = init_simbus_time" "fd demo_pci = script [clk_answer BIT_0, clk_answer BIT_1]"
  "pci_clk demo_pci = BIT_1" "break_flag demo_pci = 0" "target_state demo_pci = TARG_IDLE"
  by (simp_all add: demo_pci_def init_simbus_pci_def)

lemma demo_wait_returns: "\<exists>rc irq' q. simbus_pci_wait_with Done demo_pci 1 (Some 1) = Done (rc, irq', q)"
proof -
  have p: "demo_pci\<lparr>break_flag := 0\<rparr> = demo_pci" by (simp add: demo_pci_def init_simbus_pci_def)
  have "break_flag (clk_turn v es q) = break_flag q" for v es and q :: "unit simbus_pci"
    by (simp add: clk_turn_def)
  then show ?thesis
    by (simp add: simbus_pci_wait_with_def p pci.spin_rc_unfold send_ready_clk)
qed

theorem wait_reports_interrupts_witness:
  "\<exists>rc irq' q. simbus_pci_wait_with Done demo_pci 1 (Some 1) = Done (rc, irq', q) \<and> wait_report (Some 1) (rc, irq', q)"
proof -
  let ?r = "simbus_pci_wait_with Done demo_pci 1 (Some 1)"
  obtain rc irq' q where r: "?r = Done (rc, irq', q)"
    using demo_wait_returns by blast
  from wait_reports_interrupts [of 1 Done demo_pci "Some 1"] r show ?thesis
    by (auto simp: wait_report_def)
qed

end
