(* ===== verification/Sim_PCI_Target.thy ===== *)
theory Sim_PCI_Target
  imports Sim_PCI
begin

text \<open>
  libsimbus/simbus_pci_target.c: the target side of the PCI interface, run by \<open>simbus_pci_wait\<close>
  after every clock.

  A device registers its handlers as numbers; the table \<open>'d handlers\<close> gives what each does: from
  the device's state, the address and the byte enables to the value, the new device state and the
  calls it makes back into the interface (those that run no bus cycle).  The translation that a
  cycle matched is an index into \<open>mem_target\<close>, as the C pointer is, so that a handler that
  replaces it is seen by the rest of the cycle.

  A split completion arbitrates for the bus in the middle of a target cycle and waits with the
  target machine running, so the machine can call itself; \<open>target_sm\<close> bounds the depth by the
  pending input, and the depth is shown to be sufficient.
\<close>

section \<open>Device handlers\<close>

datatype api_call =
    Call_wait_break
  | Call_retry_rate int
  | Call_config_need32 "nat option"
  | Call_config_recv32 "nat option"
  | Call_mem_xlate nat "simbus_translation option"

record 'd handlers =
  h_need32 :: "nat \<Rightarrow> 'd \<Rightarrow> u64 \<Rightarrow> int \<Rightarrow> u32 \<times> 'd \<times> api_call list"
  h_recv32 :: "nat \<Rightarrow> 'd \<Rightarrow> u64 \<Rightarrow> u32 \<Rightarrow> int \<Rightarrow> 'd \<times> api_call list"

definition simbus_pci_mem_xlate ::
  "'d simbus_pci \<Rightarrow> nat \<Rightarrow> simbus_translation option \<Rightarrow> 'd simbus_pci" where
  "simbus_pci_mem_xlate pci idx drv =
     (if idx \<ge> TARGET_MEM_REGIONS then pci
      else case drv of
             None \<Rightarrow> pci\<lparr>mem_target := (mem_target pci)[idx := no_translation]\<rparr>
           | Some d \<Rightarrow> pci\<lparr>mem_target := (mem_target pci)[idx := d]\<rparr>)"

fun api_apply :: "api_call \<Rightarrow> 'd simbus_pci \<Rightarrow> 'd simbus_pci" where
  "api_apply Call_wait_break p = snd (simbus_pci_wait_break p)"
| "api_apply (Call_retry_rate r) p = simbus_pci_retry_rate p r"
| "api_apply (Call_config_need32 f) p = simbus_pci_config_need32 p f"
| "api_apply (Call_config_recv32 f) p = simbus_pci_config_recv32 p f"
| "api_apply (Call_mem_xlate i d) p = simbus_pci_mem_xlate p i d"

definition call_need32 :: "'d handlers \<Rightarrow> nat \<Rightarrow> 'd simbus_pci \<Rightarrow> u64 \<Rightarrow> int \<Rightarrow> u32 \<times> 'd simbus_pci" where
  "call_need32 cb h p addr BEn =
     (let (v, u, calls) = h_need32 cb h (user p) addr BEn in (v, fold api_apply calls (p\<lparr>user := u\<rparr>)))"

definition call_recv32 :: "'d handlers \<Rightarrow> nat \<Rightarrow> 'd simbus_pci \<Rightarrow> u64 \<Rightarrow> u32 \<Rightarrow> int \<Rightarrow> 'd simbus_pci" where
  "call_recv32 cb h p addr val BEn =
     (let (u, calls) = h_recv32 cb h (user p) addr val BEn in fold api_apply calls (p\<lparr>user := u\<rparr>))"

section \<open>Decoding the lines\<close>

definition pci64_mode :: "'d simbus_pci \<Rightarrow> simbus_translation \<Rightarrow> bool" where
  "pci64_mode pci bar \<longleftrightarrow> bit (xl_flags bar) 0 \<and> pci_req64_n pci = BIT_0"

definition pcix_split_completion_mode :: "'d simbus_pci \<Rightarrow> simbus_translation \<Rightarrow> bool" where
  "pcix_split_completion_mode pci bar \<longleftrightarrow> pcix_mode pci \<and> bit (xl_flags bar) 1"

definition get_command :: "'d simbus_pci \<Rightarrow> nat" where
  "get_command pci =
     (let rc0 = (if pci_c_be pci ! 3 = BIT_1 then 0 OR 8 else 0);
          rc1 = (if pci_c_be pci ! 2 = BIT_1 then rc0 OR 4 else rc0);
          rc2 = (if pci_c_be pci ! 1 = BIT_1 then rc1 OR 2 else rc1)
      in if pci_c_be pci ! 0 = BIT_1 then rc2 OR 1 else rc2)"

definition get_data64 :: "'d simbus_pci \<Rightarrow> u64" where
  "get_data64 pci = gather (\<lambda>b. b = BIT_1) (pci_ad pci) 0 64 1 0"

definition get_addr32 :: "'d simbus_pci \<Rightarrow> u64" where
  "get_addr32 pci = gather (\<lambda>b. b = BIT_1) (pci_ad pci) 0 32 1 0"

definition get_addr :: "'d simbus_pci \<Rightarrow> u64" where
  "get_addr pci =
     (let rc = gather (\<lambda>b. b = BIT_1) (pci_ad pci) 0 32 1 0
      in if target_state pci \<noteq> TARG_DAC then rc else push_bit 32 rc + dac_addr_lo pci)"

definition get_idsel :: "'d simbus_pci \<Rightarrow> bool outcome" where
  "get_idsel pci =
     c_assert (ident pci < 16) (Done (pci_ad pci ! (16 + unat (ident pci)) = BIT_1))"

definition get_xattr :: "'d simbus_pci \<Rightarrow> u32" where
  "get_xattr pci = gather (\<lambda>b. b = BIT_1) (pci_ad pci) 0 32 1 0"

definition get_c_be :: "'d simbus_pci \<Rightarrow> nat \<Rightarrow> int" where
  "get_c_be pci bytes = gather (\<lambda>b. b = BIT_1) (pci_c_be pci) 0 bytes 1 0"

fun first_match :: "simbus_translation list \<Rightarrow> u64 \<Rightarrow> nat \<Rightarrow> nat option" where
  "first_match [] addr idx = None"
| "first_match (cur # rest) addr idx =
     (if xl_mask cur = 0 then first_match rest addr (Suc idx)
      else if xl_mask cur AND xl_base cur = xl_mask cur AND addr then Some idx
      else first_match rest addr (Suc idx))"

definition match_mem_target :: "'d simbus_pci \<Rightarrow> nat option" where
  "match_mem_target pci = first_match (take TARGET_MEM_REGIONS (mem_target pci)) (get_addr pci) 0"

definition do_target_DAC :: "'d simbus_pci \<Rightarrow> 'd simbus_pci" where
  "do_target_DAC pci = pci\<lparr>dac_addr_lo := get_addr32 pci, target_state := TARG_DAC\<rparr>"

section \<open>Configuration cycles\<close>

definition do_target_config_read :: "'d handlers \<Rightarrow> 'd simbus_pci \<Rightarrow> 'd simbus_pci outcome" where
  "do_target_config_read cb pci =
     (let addr = get_addr32 pci AND 0x0000ffff;
          (val, p0) = (case config_need32 pci of
                         None \<Rightarrow> (0xffffffff, pci)
                       | Some h \<Rightarrow> call_need32 cb h pci addr 0)
      in obind (pci_next_posedge (p0\<lparr>out_devsel_n := BIT_0, out_trdy_n := BIT_1, out_stop_n := BIT_1\<rparr>)) (\<lambda>p1.
         obind (do_clocked (\<lambda>p. pci_irdy_n p = BIT_1)
             (p1\<lparr>out_trdy_n := BIT_0,
                 out_ad := fill_bits 32 32 BIT_Z (put_bits 0 32 val (out_ad p1))\<rparr>)) (\<lambda>p2.
         obind (pci_next_posedge
             (p2\<lparr>out_devsel_n := BIT_1, out_trdy_n := BIT_1, out_stop_n := BIT_1,
                 out_ad := fill_bits 0 64 BIT_Z (out_ad p2)\<rparr>)) (\<lambda>p3.
           Done ((undrive_bus p3)\<lparr>target_state := TARG_IDLE\<rparr>)))))"

definition config_ben :: "'d simbus_pci \<Rightarrow> int" where
  "config_ben pci =
     (let b0 = (if pci_c_be pci ! 0 = BIT_1 then 0 OR 1 else 0);
          b1 = (if pci_c_be pci ! 1 = BIT_1 then b0 OR 2 else b0);
          b2 = (if pci_c_be pci ! 2 = BIT_1 then b1 OR 4 else b1)
      in if pci_c_be pci ! 3 = BIT_1 then b2 OR 8 else b2)"

definition do_target_config_write :: "'d handlers \<Rightarrow> 'd simbus_pci \<Rightarrow> 'd simbus_pci outcome" where
  "do_target_config_write cb pci =
     c_assert (pci_clk pci = BIT_1)
       (let addr = get_addr32 pci AND 0x0000ffff
        in obind (do_clocked (\<lambda>p. pci_irdy_n p = BIT_1)
               (pci\<lparr>out_devsel_n := BIT_0, out_trdy_n := BIT_0, out_stop_n := BIT_1\<rparr>)) (\<lambda>p1.
           let p2 = (case config_recv32 p1 of
                       None \<Rightarrow> p1
                     | Some h \<Rightarrow> call_recv32 cb h p1 addr (ucast (get_addr32 p1)) (config_ben p1))
           in obind (pci_next_posedge
                  (p2\<lparr>out_devsel_n := BIT_1, out_trdy_n := BIT_1, out_stop_n := BIT_1\<rparr>)) (\<lambda>p3.
                Done (p3\<lparr>out_devsel_n := BIT_Z, out_trdy_n := BIT_Z, out_stop_n := BIT_Z,
                         target_state := TARG_IDLE\<rparr>))))"

section \<open>Retries\<close>

text \<open>\<open>%\<close> of C: the remainder has the sign of the dividend.\<close>

definition c_rem :: "int \<Rightarrow> int \<Rightarrow> int" where
  "c_rem a b = sgn a * (\<bar>a\<bar> mod \<bar>b\<bar>)"

definition draw_int32 :: "'d simbus_pci \<Rightarrow> (int \<times> 'd simbus_pci) outcome" where
  "draw_int32 pci =
     obind (simbus_mt_genrand (random_state pci)) (\<lambda>(y, c).
       Done (sint (ucast y :: u32), pci\<lparr>random_state := c\<rparr>))"

definition choose_to_retry :: "nat \<Rightarrow> 'd simbus_pci \<Rightarrow> simbus_translation \<Rightarrow> (bool \<times> 'd simbus_pci) outcome" where
  "choose_to_retry flag pci bar =
     (if \<not> bit (xl_flags bar) flag then Done (False, pci)
      else if retry_rate pci \<le> 0 then Done (False, pci)
      else obind (draw_int32 pci) (\<lambda>(val, p). Done (c_rem val (retry_rate p) = 0, p)))"

definition choose_to_retry_w :: "'d simbus_pci \<Rightarrow> simbus_translation \<Rightarrow> (bool \<times> 'd simbus_pci) outcome" where
  "choose_to_retry_w = choose_to_retry 2"

definition choose_to_retry_r :: "'d simbus_pci \<Rightarrow> simbus_translation \<Rightarrow> (bool \<times> 'd simbus_pci) outcome" where
  "choose_to_retry_r = choose_to_retry 3"

definition when_pcix :: "'d simbus_pci \<Rightarrow> 'd simbus_pci outcome" where
  "when_pcix pci = (if pcix_mode pci then pci_next_posedge pci else Done pci)"

definition do_target_memory_rw_retry :: "'d simbus_pci \<Rightarrow> 'd simbus_pci outcome" where
  "do_target_memory_rw_retry pci =
     obind (when_pcix pci) (\<lambda>p1.
     obind (when_pcix (p1\<lparr>out_devsel_n := BIT_0, out_ack64_n := BIT_1, out_stop_n := BIT_1\<rparr>)) (\<lambda>p2.
     obind (pci_next_posedge (p2\<lparr>out_trdy_n := BIT_1, out_stop_n := BIT_0\<rparr>)) (\<lambda>p3.
     obind (pci_next_posedge (p3\<lparr>out_trdy_n := BIT_1, out_stop_n := BIT_1\<rparr>)) (\<lambda>p4.
     obind (pci_next_posedge
         (p4\<lparr>out_devsel_n := BIT_Z, out_ack64_n := BIT_Z, out_trdy_n := BIT_Z, out_stop_n := BIT_Z\<rparr>)) (\<lambda>p5.
       Done (p5\<lparr>target_state := TARG_IDLE\<rparr>))))))"

section \<open>Split completion\<close>

definition SPLIT_COMPLETION_DELAY :: nat where "SPLIT_COMPLETION_DELAY = 10"

fun posedges :: "nat \<Rightarrow> 'd simbus_pci \<Rightarrow> 'd simbus_pci outcome" where
  "posedges 0 p = Done p"
| "posedges (Suc n) p = obind (pci_next_posedge p) (posedges n)"

text \<open>Lines 276 to 309: the split response and the delay.\<close>

definition split_response :: "'d simbus_pci \<Rightarrow> 'd simbus_pci outcome" where
  "split_response pci =
     obind (pci_next_posedge
         (pci\<lparr>out_devsel_n := BIT_0, out_ack64_n := BIT_1, out_trdy_n := BIT_1, out_stop_n := BIT_1\<rparr>)) (\<lambda>p1.
     obind (pci_next_posedge
         (p1\<lparr>out_devsel_n := BIT_1, out_trdy_n := BIT_0, out_stop_n := BIT_1,
             out_ad := fill_bits 0 64 BIT_1 (out_ad p1)\<rparr>)) (\<lambda>p2.
     obind (pci_next_posedge
         (p2\<lparr>out_devsel_n := BIT_1, out_ack64_n := BIT_1, out_trdy_n := BIT_1, out_stop_n := BIT_1,
             out_ad := fill_bits 0 64 BIT_Z (out_ad p2)\<rparr>)) (\<lambda>p3.
       posedges SPLIT_COMPLETION_DELAY ((undrive_bus p3)\<lparr>target_state := TARG_IDLE\<rparr>))))"

text \<open>Lines 316 to 340: the address and command of the completion.\<close>

definition split_address :: "u64 \<Rightarrow> u32 \<Rightarrow> 'd simbus_pci \<Rightarrow> 'd simbus_pci" where
  "split_address addr attr pci =
     pci\<lparr>out_frame_n := BIT_0, out_req64_n := BIT_1,
         out_ad := (put_bits 8 21 (drop_bit 8 attr) ((put_bits 0 7 addr (out_ad pci))[7 := BIT_0]))
           [29 := BIT_0, 30 := BIT_0, 31 := BIT_0],
         out_c_be := (out_c_be pci)[0 := BIT_0, 1 := BIT_0, 2 := BIT_1, 3 := BIT_1,
           4 := BIT_0, 5 := BIT_0, 6 := BIT_1, 7 := BIT_1]\<rparr>"

text \<open>Lines 342 to 378: the attributes; the top byte-count line tests \<open>byte_count&0x600\<close>.\<close>

definition split_attributes :: "nat \<Rightarrow> 'd simbus_pci \<Rightarrow> 'd simbus_pci" where
  "split_attributes byte_count pci =
     pci\<lparr>out_ad := fill_bits 16 16 BIT_0
           (put_bits 11 5 (ident pci) (fill_bits 8 3 BIT_0 (put_bits 0 8 byte_count (out_ad pci)))),
         out_c_be := (out_c_be pci)[0 := bit01 (bit byte_count 8), 1 := bit01 (bit byte_count 9),
           2 := bit01 (bit byte_count 10), 3 := bit01 (byte_count AND 0x600 \<noteq> 0),
           4 := BIT_1, 5 := BIT_1, 6 := BIT_1, 7 := BIT_1]\<rparr>"

text \<open>Lines 395 to 413: one word per clock; without a handler the word is an uninitialised variable.\<close>

fun split_words :: "'d handlers \<Rightarrow> nat \<Rightarrow> nat \<Rightarrow> u64 \<Rightarrow> 'd simbus_pci \<Rightarrow> 'd simbus_pci outcome" where
  "split_words cb bar 0 use_addr p = Done p"
| "split_words cb bar (Suc n) use_addr p =
     (let p0 = p\<lparr>out_irdy_n := BIT_0\<rparr>
      in case xl_need32 (mem_target p0 ! bar) of
           None \<Rightarrow> Stop Undefined
         | Some h \<Rightarrow>
             (let (val, p1) = call_need32 cb h p0 use_addr 0
              in obind (pci_next_posedge (p1\<lparr>out_ad := put_bits 0 32 val (out_ad p1)\<rparr>))
                   (split_words cb bar n (use_addr + 4))))"

definition do_target_memory_read_split ::
  "'d handlers \<Rightarrow> ('d simbus_pci \<Rightarrow> 'd simbus_pci outcome) \<Rightarrow> 'd simbus_pci \<Rightarrow> nat \<Rightarrow> u64 \<Rightarrow> u32 \<Rightarrow> nat
     \<Rightarrow> 'd simbus_pci outcome" where
  "do_target_memory_read_split cb tsm pci bar addr attr byte_count =
     obind (split_response pci) (\<lambda>p1.
     obind (pci_request_bus_with tsm p1) (\<lambda>p2.
     obind (pci_next_posedge (split_address addr attr p2)) (\<lambda>p3.
     obind (pci_next_posedge (split_attributes byte_count p3)) (\<lambda>p4.
     obind (clocked (\<lambda>p. pci_devsel_n p \<noteq> BIT_0)
         (p4\<lparr>out_c_be := (out_c_be p4)[0 := BIT_1, 1 := BIT_1, 2 := BIT_1, 3 := BIT_1]\<rparr>)) (\<lambda>p5.
       let word_count = (unat (addr mod 4) + byte_count + 3) div 4
       in obind (split_words cb bar word_count (addr AND NOT 3) p5) (\<lambda>p6.
          obind (if word_count = 1 then pci_next_posedge p6 else Done p6) (\<lambda>p7.
          obind (pci_next_posedge (p7\<lparr>out_frame_n := BIT_1, out_irdy_n := BIT_1\<rparr>)) (\<lambda>p8.
            pci_next_posedge ((undrive_bus p8)\<lparr>target_state := TARG_IDLE\<rparr>)))))))))"

section \<open>Memory reads\<close>

text \<open>
  The burst loop.  It ends when the master releases FRAME#, or in PCI-X mode after the announced
  number of words.  If a turn consumed no input and the announced number is already passed, no line
  can change any more and the loop goes on for ever.  The word registers are shifted out by the
  drive loop, so without a handler only the first word is all ones.
\<close>

definition burst_words ::
  "'d handlers \<Rightarrow> nat \<Rightarrow> nat \<Rightarrow> u64 \<Rightarrow> u32 \<Rightarrow> u32 \<Rightarrow> 'd simbus_pci \<Rightarrow> (u32 \<times> u32 \<times> 'd simbus_pci) outcome" where
  "burst_words cb bar word_size addr valL valH pci =
     (case xl_need32 (mem_target pci ! bar) of
        None \<Rightarrow> Done (valL, valH, pci)
      | Some h \<Rightarrow>
          (let (vl, q) = call_need32 cb h pci (addr AND NOT 3) (if pcix_mode pci then 0 else get_c_be pci 4)
           in if word_size = 8
              then case xl_need32 (mem_target q ! bar) of
                     None \<Rightarrow> Stop Undefined
                   | Some h' \<Rightarrow>
                       (let (vh, q') = call_need32 cb h' q ((addr + 4) AND NOT 3) 0 in Done (vl, vh, q'))
              else Done (vl, valH, q)))"

function read_burst ::
  "'d handlers \<Rightarrow> nat \<Rightarrow> nat \<Rightarrow> nat \<Rightarrow> u64 \<Rightarrow> nat \<Rightarrow> u32 \<Rightarrow> u32 \<Rightarrow> 'd simbus_pci \<Rightarrow> 'd simbus_pci outcome" where
  "read_burst cb bar word_size word_count addr burst_len valL valH pci =
     obind (burst_words cb bar word_size addr valL valH pci) (\<lambda>(vL, vH, p1).
     obind (do_clocked (\<lambda>p. pci_irdy_n p = BIT_1)
         (p1\<lparr>out_trdy_n := BIT_0,
             out_ad := (if word_size = 8 then put_bits 32 32 vH (put_bits 0 32 vL (out_ad p1))
                        else fill_bits 32 32 BIT_Z (put_bits 0 32 vL (out_ad p1)))\<rparr>)) (\<lambda>p2.
       if pcix_mode p2 \<and> Suc burst_len = word_count then Done p2
       else if pci_frame_n p2 = BIT_0
         then if pending (fd p2) < pending (fd pci)
                 \<or> pending (fd p2) = pending (fd pci) \<and> burst_len < word_count
              then read_burst cb bar word_size word_count (addr + of_nat word_size) (Suc burst_len) 0
                     (if word_size = 8 then 0 else vH) p2
              else Stop Diverges
       else Done p2))"
  by pat_completeness auto
termination
  by (relation "measure (\<lambda>(cb, bar, ws, wc, addr, b, vl, vh, p). pending (fd p) + (wc - b))") auto

declare read_burst.simps [simp del]

text \<open>Lines 477 to 543: the data phases of a read.\<close>

definition read_data_phase ::
  "'d handlers \<Rightarrow> nat \<Rightarrow> nat \<Rightarrow> nat \<Rightarrow> u64 \<Rightarrow> 'd simbus_pci \<Rightarrow> 'd simbus_pci outcome" where
  "read_data_phase cb bar word_size word_count addr pci =
     obind (when_pcix (pci\<lparr>out_devsel_n := BIT_0, out_ack64_n := (if word_size = 8 then BIT_0 else BIT_1),
                           out_stop_n := BIT_1\<rparr>)) (\<lambda>p1.
     obind (pci_next_posedge (p1\<lparr>out_trdy_n := BIT_1\<rparr>)) (\<lambda>p2.
     obind (read_burst cb bar word_size word_count addr 0 0xffffffff 0xffffffff p2) (\<lambda>p3.
     obind (pci_next_posedge
         (p3\<lparr>out_devsel_n := BIT_1, out_ack64_n := BIT_1, out_trdy_n := BIT_1, out_stop_n := BIT_1,
             out_ad := fill_bits 0 64 BIT_Z (out_ad p3)\<rparr>)) (\<lambda>p4.
       Done ((undrive_bus p4)\<lparr>target_state := TARG_IDLE\<rparr>)))))"

text \<open>The byte count of the PCI-X attribute phase, and the word size and count it gives.\<close>

definition attr_byte_count :: "'d simbus_pci \<Rightarrow> nat" where
  "attr_byte_count pci = push_bit 8 (get_command pci) OR unat (get_xattr pci AND 0xff)"

definition burst_shape :: "'d simbus_pci \<Rightarrow> simbus_translation \<Rightarrow> u64 \<Rightarrow> nat \<Rightarrow> nat \<times> nat" where
  "burst_shape pci bar addr byte_count =
     (if pci64_mode pci bar \<and> unat (addr mod 4) + byte_count > 4
      then (8, (unat (addr mod 8) + byte_count + 7) div 8)
      else (4, (unat (addr mod 4) + byte_count + 3) div 4))"

definition do_target_memory_read ::
  "'d handlers \<Rightarrow> ('d simbus_pci \<Rightarrow> 'd simbus_pci outcome) \<Rightarrow> 'd simbus_pci \<Rightarrow> nat \<Rightarrow> 'd simbus_pci outcome" where
  "do_target_memory_read cb tsm pci bar =
     (let addr = get_addr pci
      in obind (choose_to_retry_r pci (mem_target pci ! bar)) (\<lambda>(retry, p0).
           if retry then do_target_memory_rw_retry p0
           else if pcix_mode p0
             then obind (pci_next_posedge p0) (\<lambda>p1.
                    let attr = get_xattr p1; byte_count = attr_byte_count p1
                    in if pcix_split_completion_mode p1 (mem_target p1 ! bar)
                       then do_target_memory_read_split cb tsm p1 bar addr attr byte_count
                       else let (word_size, word_count) = burst_shape p1 (mem_target p1 ! bar) addr byte_count
                            in read_data_phase cb bar word_size word_count addr p1)
           else read_data_phase cb bar 4 0 addr p0))"

section \<open>Memory writes\<close>

definition make_ben4x :: "u64 \<Rightarrow> int \<Rightarrow> int \<times> int" where
  "make_ben4x addr byte_count =
     (let a = addr mod 4;
          first = (if a = 0 then (if byte_count = 1 then 0xe else if byte_count = 2 then 0xc
                                  else if byte_count = 3 then 0x8 else 0x0)
                   else if a = 1 then (if byte_count = 1 then 0xd else if byte_count = 2 then 0x9 else 0x1)
                   else if a = 2 then (if byte_count = 1 then 0xb else 0x3)
                   else 0x7);
          e = (a + word_of_int byte_count) mod 4;
          last = (if e = 0 then 0 else if e = 1 then 0xe else if e = 2 then 0xc else 0x8)
      in (first OR 0xf0, last OR 0xf0))"

definition make_ben8x :: "u64 \<Rightarrow> int \<Rightarrow> int \<times> int" where
  "make_ben8x addr byte_count =
     (let ben1 = 0xff AND NOT (push_bit (unat (addr mod 8)) (-1));
          b2 = 0xff AND push_bit (unat ((addr + word_of_int byte_count) mod 8)) (-1);
          ben2 = (if b2 = 0xff then 0 else b2)
      in (if addr mod 8 + word_of_int byte_count < 8 then ben1 OR ben2 else ben1, ben2))"

definition deliver_word ::
  "'d handlers \<Rightarrow> nat \<Rightarrow> nat \<Rightarrow> u64 \<Rightarrow> int \<Rightarrow> 'd simbus_pci \<Rightarrow> 'd simbus_pci outcome" where
  "deliver_word cb bar word_size addr BEn pci =
     (case xl_recv32 (mem_target pci ! bar) of
        None \<Rightarrow> Done pci
      | Some h \<Rightarrow>
          if word_size = 4
          then Done (call_recv32 cb h pci (addr AND NOT 3) (ucast (get_addr32 pci)) BEn)
          else c_assert (word_size = 8)
            (let val = get_data64 pci;
                 p1 = call_recv32 cb h pci ((addr AND NOT 7) + 0) (ucast (val AND 0xffffffff)) (BEn AND 15)
             in case xl_recv32 (mem_target p1 ! bar) of
                  None \<Rightarrow> Stop Undefined
                | Some h' \<Rightarrow>
                    Done (call_recv32 cb h' p1 ((addr AND NOT 7) + 4) (ucast (drop_bit 32 val AND 0xffffffff))
                            (drop_bit 4 BEn AND 15))))"

definition word_ben :: "nat \<Rightarrow> nat \<Rightarrow> nat \<Rightarrow> int \<Rightarrow> int \<Rightarrow> 'd simbus_pci \<Rightarrow> int" where
  "word_ben word_size word_count burst_len first_ben last_ben pci =
     (let pcix_ben = (if burst_len = 0 then first_ben
                      else if Suc burst_len = word_count then last_ben else 0)
      in if pcix_mode pci then pcix_ben else get_c_be pci word_size)"

text \<open>The burst loop of a write; see \<open>read_burst\<close> for the case that it cannot end.\<close>

function write_burst ::
  "'d handlers \<Rightarrow> nat \<Rightarrow> nat \<Rightarrow> nat \<Rightarrow> int \<Rightarrow> int \<Rightarrow> u64 \<Rightarrow> nat \<Rightarrow> 'd simbus_pci \<Rightarrow> 'd simbus_pci outcome" where
  "write_burst cb bar word_size word_count first_ben last_ben addr burst_len pci =
     obind (do_clocked (\<lambda>p. pci_irdy_n p = BIT_1) pci) (\<lambda>p1.
     obind (deliver_word cb bar word_size addr
         (word_ben word_size word_count burst_len first_ben last_ben p1) p1) (\<lambda>p2.
       if pcix_mode p2 \<and> Suc burst_len = word_count then Done p2
       else if pci_frame_n p2 = BIT_0
               \<or> pcix_mode p2 \<and> Suc burst_len + 1 = word_count \<or> pcix_mode p2 \<and> Suc burst_len + 2 = word_count
         then if pending (fd p2) < pending (fd pci)
                 \<or> pending (fd p2) = pending (fd pci) \<and> burst_len < word_count
              then write_burst cb bar word_size word_count first_ben last_ben (addr + of_nat word_size)
                     (Suc burst_len) p2
              else Stop Diverges
       else Done p2))"
  by pat_completeness auto
termination
  by (relation "measure (\<lambda>(cb, bar, ws, wc, fb, lb, addr, b, p). pending (fd p) + (wc - b))") auto

declare write_burst.simps [simp del]

text \<open>Lines 748 to 821: the data phases of a write.\<close>

definition write_data_phase ::
  "'d handlers \<Rightarrow> nat \<Rightarrow> nat \<Rightarrow> nat \<Rightarrow> int \<Rightarrow> int \<Rightarrow> u64 \<Rightarrow> 'd simbus_pci \<Rightarrow> 'd simbus_pci outcome" where
  "write_data_phase cb bar word_size word_count first_ben last_ben addr pci =
     obind (when_pcix (pci\<lparr>out_devsel_n := BIT_0, out_ack64_n := (if word_size = 8 then BIT_0 else BIT_1),
                           out_stop_n := BIT_1\<rparr>)) (\<lambda>p1.
     obind (write_burst cb bar word_size word_count first_ben last_ben addr 0 (p1\<lparr>out_trdy_n := BIT_0\<rparr>)) (\<lambda>p2.
     obind (pci_next_posedge
         (p2\<lparr>out_devsel_n := BIT_Z, out_ack64_n := BIT_Z, out_trdy_n := BIT_Z, out_stop_n := BIT_Z\<rparr>)) (\<lambda>p3.
       Done (p3\<lparr>target_state := TARG_IDLE\<rparr>))))"

definition do_target_memory_write ::
  "'d handlers \<Rightarrow> 'd simbus_pci \<Rightarrow> nat \<Rightarrow> 'd simbus_pci outcome" where
  "do_target_memory_write cb pci bar =
     (let addr = get_addr pci
      in obind (choose_to_retry_w pci (mem_target pci ! bar)) (\<lambda>(retry, p0).
           if retry then do_target_memory_rw_retry p0
           else if pcix_mode p0
             then obind (pci_next_posedge p0) (\<lambda>p1.
                    let byte_count = attr_byte_count p1;
                        (word_size, word_count) = burst_shape p1 (mem_target p1 ! bar) addr byte_count;
                        (first_ben, last_ben) =
                          (if word_size = 8 then make_ben8x addr (int byte_count)
                           else make_ben4x addr (int byte_count))
                    in obind (draw_int32 p1) (\<lambda>(val, p2).
                       obind (posedges (nat (c_rem val 3)) p2)
                         (write_data_phase cb bar word_size word_count first_ben last_ben addr)))
           else write_data_phase cb bar 4 0 0 0 addr p0))"

section \<open>The target state machine\<close>

definition do_target_memory_read_multiple where
  "do_target_memory_read_multiple = do_target_memory_read"

definition do_target_memory_read_line where
  "do_target_memory_read_line = do_target_memory_read"

text \<open>The commands a matched region answers, in both states of the machine.\<close>

definition target_idle :: "'d handlers \<Rightarrow> ('d simbus_pci \<Rightarrow> 'd simbus_pci outcome) \<Rightarrow> 'd simbus_pci \<Rightarrow> 'd simbus_pci outcome" where
  "target_idle cb tsm pci =
     (let command = get_command pci
      in obind (get_idsel pci) (\<lambda>idsel.
           case (match_mem_target pci, command) of
             (Some bar, c) \<Rightarrow>
               if c = 0x06 then do_target_memory_read cb tsm pci bar
               else if c = 0x07 then do_target_memory_write cb pci bar
               else if idsel \<and> c = 0x0a then do_target_config_read cb pci
               else if idsel \<and> c = 0x0b then do_target_config_write cb pci
               else if c = 0x0c then do_target_memory_read_multiple cb tsm pci bar
               else if c = 0x0d then Done (do_target_DAC pci)
               else if c = 0x0e then do_target_memory_read_line cb tsm pci bar
               else if pcix_mode pci \<and> c = 0x0f then do_target_memory_write cb pci bar
               else Done (pci\<lparr>target_state := TARG_BUS_BUSY\<rparr>)
           | (None, c) \<Rightarrow>
               if idsel \<and> c = 0x0a then do_target_config_read cb pci
               else if idsel \<and> c = 0x0b then do_target_config_write cb pci
               else if c = 0x0d then Done (do_target_DAC pci)
               else Done (pci\<lparr>target_state := TARG_BUS_BUSY\<rparr>)))"

definition target_dac :: "'d handlers \<Rightarrow> ('d simbus_pci \<Rightarrow> 'd simbus_pci outcome) \<Rightarrow> 'd simbus_pci \<Rightarrow> 'd simbus_pci outcome" where
  "target_dac cb tsm pci =
     (let command = get_command pci
      in case match_mem_target pci of
           Some bar \<Rightarrow>
             if command = 0x06 then do_target_memory_read cb tsm pci bar
             else if command = 0x07 then do_target_memory_write cb pci bar
             else if command = 0x0c then do_target_memory_read_multiple cb tsm pci bar
             else if command = 0x0e then do_target_memory_read_line cb tsm pci bar
             else if pcix_mode pci \<and> command = 0x0f then do_target_memory_write cb pci bar
             else Done (pci\<lparr>target_state := TARG_BUS_BUSY\<rparr>)
         | None \<Rightarrow> Done (pci\<lparr>target_state := TARG_BUS_BUSY\<rparr>))"

definition target_step ::
  "'d handlers \<Rightarrow> ('d simbus_pci \<Rightarrow> 'd simbus_pci outcome) \<Rightarrow> 'd simbus_pci \<Rightarrow> 'd simbus_pci outcome" where
  "target_step cb tsm pci =
     (case target_state pci of
        TARG_IDLE \<Rightarrow> if pci_frame_n pci = BIT_0 then target_idle cb tsm pci else Done pci
      | TARG_DAC \<Rightarrow>
          if pci_frame_n pci = BIT_0 then target_dac cb tsm pci else Done (pci\<lparr>target_state := TARG_IDLE\<rparr>)
      | TARG_BUS_BUSY \<Rightarrow>
          if pci_frame_n pci = BIT_1 then Done (pci\<lparr>target_state := TARG_IDLE\<rparr>) else Done pci)"

fun target_sm :: "'d handlers \<Rightarrow> nat \<Rightarrow> 'd simbus_pci \<Rightarrow> 'd simbus_pci outcome" where
  "target_sm cb 0 pci = Stop Out_of_fuel"
| "target_sm cb (Suc n) pci = target_step cb (target_sm cb n) pci"

definition pci_target_state_machine :: "'d handlers \<Rightarrow> 'd simbus_pci \<Rightarrow> 'd simbus_pci outcome" where
  "pci_target_state_machine cb pci = target_sm cb (Suc (pending (fd pci))) pci"

section \<open>The interface functions with the machine in place\<close>

definition simbus_pci_wait ::
  "'d handlers \<Rightarrow> 'd simbus_pci \<Rightarrow> nat \<Rightarrow> u64 option \<Rightarrow> (int \<times> u64 option \<times> 'd simbus_pci) outcome" where
  "simbus_pci_wait cb = simbus_pci_wait_with (pci_target_state_machine cb)"

definition simbus_pci_reset :: "'d handlers \<Rightarrow> 'd simbus_pci \<Rightarrow> nat \<Rightarrow> nat \<Rightarrow> 'd simbus_pci outcome" where
  "simbus_pci_reset cb = simbus_pci_reset_with (pci_target_state_machine cb)"

definition pci_request_bus :: "'d handlers \<Rightarrow> 'd simbus_pci \<Rightarrow> 'd simbus_pci outcome" where
  "pci_request_bus cb = pci_request_bus_with (pci_target_state_machine cb)"

definition generic_pci_read32 ::
  "'d handlers \<Rightarrow> 'd simbus_pci \<Rightarrow> u64 \<Rightarrow> int \<Rightarrow> int \<Rightarrow> u32 \<Rightarrow> u32 \<Rightarrow> (int \<times> u32 \<times> u32 \<times> 'd simbus_pci) outcome" where
  "generic_pci_read32 cb = generic_pci_read32_with (pci_target_state_machine cb)"

definition generic_pci_write32 ::
  "'d handlers \<Rightarrow> 'd simbus_pci \<Rightarrow> u64 \<Rightarrow> int \<Rightarrow> u32 \<Rightarrow> int \<Rightarrow> (int \<times> 'd simbus_pci) outcome" where
  "generic_pci_write32 cb = generic_pci_write32_with (pci_target_state_machine cb)"

section \<open>What a target cycle keeps\<close>

text \<open>
  Properties that a clock preserves because they only speak of what this side drives: the lines as
  they were, and parity released when AD is.
\<close>

definition kept :: "('d simbus_pci \<Rightarrow> bool) \<Rightarrow> bool" where
  "kept I \<longleftrightarrow> (\<forall>p q. I p \<longrightarrow> pci_keeps p q \<longrightarrow> (out_ad p = replicate 64 BIT_Z \<longrightarrow> par_off q) \<longrightarrow> I q)
    \<and> (\<forall>p. I p \<longrightarrow> pci_wf p)"

lemma posedge_kept: "kept I \<Longrightarrow> I p \<Longrightarrow> ret (pci_next_posedge p) I"
proof -
  assume I: "kept I" "I p"
  then have wf: "pci_wf p" by (simp add: kept_def)
  have off: "ret (pci_next_posedge p) (\<lambda>q. out_ad p = replicate 64 BIT_Z \<longrightarrow> par_off q)"
    using posedge_par_off [OF wf] by (auto simp: ret_def)
  show ?thesis
    by (rule ret_mono [OF ret_conj [OF posedge_keeps [OF wf] off]]) (use I in \<open>unfold kept_def, blast\<close>)
qed

lemma clocked_kept: "kept I \<Longrightarrow> I p \<Longrightarrow> ret (clocked b p) I"
  unfolding clocked_def
  by (rule ret_mono [OF ret_while_io [where I = I]]) (use posedge_kept [of I] in auto)

lemma do_clocked_kept: "kept I \<Longrightarrow> I p \<Longrightarrow> ret (do_clocked b p) I"
  unfolding do_clocked_def by (rule ret_seq [OF posedge_kept [of I]]) (auto intro: clocked_kept)

lemma posedges_kept: "kept I \<Longrightarrow> I p \<Longrightarrow> ret (posedges n p) I"
  by (induction n arbitrary: p) (auto simp del: ret_obind intro: ret_seq [OF posedge_kept [of I]])

lemma when_pcix_kept: "kept I \<Longrightarrow> I p \<Longrightarrow> ret (when_pcix p) I"
  by (simp add: when_pcix_def posedge_kept)

text \<open>This side drives none of the master's lines, nor AD; with \<open>par\<close>, nor the parity.\<close>

definition mquiet :: "bool \<Rightarrow> 'd simbus_pci \<Rightarrow> bool" where
  "mquiet par p \<longleftrightarrow> pci_wf p \<and> out_frame_n p = BIT_Z \<and> out_req64_n p = BIT_Z \<and> out_irdy_n p = BIT_Z
     \<and> out_c_be p = replicate 8 BIT_Z \<and> out_ad p = replicate 64 BIT_Z \<and> (par \<longrightarrow> par_off p)"

definition aquiet :: "bool \<Rightarrow> 'd simbus_pci \<Rightarrow> bool" where
  "aquiet par p \<longleftrightarrow> mquiet par p \<and> out_ack64_n p = BIT_Z"

lemma kept_wf [simp]: "kept pci_wf"
  by (simp add: kept_def)

lemma kept_mquiet [simp]: "kept (mquiet par)"
  by (simp add: kept_def mquiet_def pci_own_eq)

lemma kept_aquiet [simp]: "kept (aquiet par)"
  by (simp add: kept_def aquiet_def mquiet_def pci_own_eq)

lemma released_resting: "ret m released \<Longrightarrow> ret m (resting par)"
  by (erule ret_mono) simp

lemma kept_released [simp]: "kept released"
  unfolding kept_def by (simp add: quiet_def pci_own_eq)

lemma kept_resting [simp]: "kept (resting par)"
  unfolding kept_def by (simp add: quiet_def pci_own_eq)

lemma kept_busy [simp]: "kept busy"
  unfolding kept_def using busy_keeps busy_wf by blast

lemma idle_aquiet: "resting par p \<Longrightarrow> aquiet par p"
  by (simp add: aquiet_def mquiet_def quiet_def)

lemma idle_mquiet: "resting par p \<Longrightarrow> mquiet par p"
  by (simp add: mquiet_def quiet_def)

text \<open>A clock with AD released, then \<open>undrive_bus\<close>: everything is released.\<close>

definition freed :: "'d simbus_pci \<Rightarrow> bool" where
  "freed p \<longleftrightarrow> pci_wf p \<and> par_off p"

lemma posedge_freed: "pci_wf p \<Longrightarrow> out_ad p = replicate 64 BIT_Z \<Longrightarrow> ret (pci_next_posedge p) freed"
  by (rule ret_mono [OF posedge_par_off]) (simp_all add: freed_def)

lemma posedge_released: "idle p \<Longrightarrow> ret (pci_next_posedge p) released"
  by (rule ret_mono [OF posedge_par_off]) (simp_all add: quiet_def pci_own_eq)

lemma freed_undrive [simp]: "freed p \<Longrightarrow> released ((undrive_bus p)\<lparr>target_state := st\<rparr>)"
  by (simp add: freed_def)

lemma mquiet_lines [simp]:
  "mquiet par (p\<lparr>out_devsel_n := v\<rparr>) = mquiet par p" "mquiet par (p\<lparr>out_trdy_n := v\<rparr>) = mquiet par p"
  "mquiet par (p\<lparr>out_stop_n := v\<rparr>) = mquiet par p" "mquiet par (p\<lparr>out_ack64_n := v\<rparr>) = mquiet par p"
  "mquiet par (p\<lparr>target_state := st\<rparr>) = mquiet par p"
  by (simp_all add: mquiet_def)

lemma aquiet_lines [simp]:
  "aquiet par (p\<lparr>out_devsel_n := v\<rparr>) = aquiet par p" "aquiet par (p\<lparr>out_trdy_n := v\<rparr>) = aquiet par p"
  "aquiet par (p\<lparr>out_stop_n := v\<rparr>) = aquiet par p"
  by (simp_all add: aquiet_def)

lemma release_target:
  "mquiet par p \<Longrightarrow> resting par (p\<lparr>out_devsel_n := BIT_Z, out_ack64_n := BIT_Z, out_trdy_n := BIT_Z, out_stop_n := BIT_Z\<rparr>)"
  by (simp add: mquiet_def quiet_def)

lemma release_config:
  "aquiet par p \<Longrightarrow> resting par (p\<lparr>out_devsel_n := BIT_Z, out_trdy_n := BIT_Z, out_stop_n := BIT_Z, target_state := st\<rparr>)"
  by (simp add: aquiet_def mquiet_def quiet_def)

text \<open>A handler touches no line.\<close>

lemma device_lines [simp]:
  "mquiet par (p\<lparr>break_flag := i\<rparr>) = mquiet par p" "mquiet par (p\<lparr>retry_rate := i\<rparr>) = mquiet par p"
  "mquiet par (p\<lparr>config_need32 := f\<rparr>) = mquiet par p" "mquiet par (p\<lparr>config_recv32 := f\<rparr>) = mquiet par p"
  "mquiet par (p\<lparr>user := u\<rparr>) = mquiet par p"
  "busy (p\<lparr>break_flag := i\<rparr>) = busy p" "busy (p\<lparr>retry_rate := i\<rparr>) = busy p"
  "busy (p\<lparr>config_need32 := f\<rparr>) = busy p" "busy (p\<lparr>config_recv32 := f\<rparr>) = busy p"
  "busy (p\<lparr>user := u\<rparr>) = busy p"
  by (simp_all add: mquiet_def busy_def)

lemma xlate_lines [simp]:
  "pci_wf (p\<lparr>mem_target := (mem_target p)[i := d]\<rparr>) = pci_wf p"
  "mquiet par (p\<lparr>mem_target := (mem_target p)[i := d]\<rparr>) = mquiet par p"
  "busy (p\<lparr>mem_target := (mem_target p)[i := d]\<rparr>) = busy p"
  unfolding mquiet_def busy_def pci_wf_def by simp_all

lemmas api_defs = simbus_pci_wait_break_def simbus_pci_retry_rate_def simbus_pci_config_need32_def
  simbus_pci_config_recv32_def simbus_pci_mem_xlate_def

lemma api_apply_lines [simp]:
  "fd (api_apply c p) = fd p" "pci_clk (api_apply c p) = pci_clk p"
  "out_ad (api_apply c p) = out_ad p" "out_c_be (api_apply c p) = out_c_be p"
  "out_ack64_n (api_apply c p) = out_ack64_n p"
  by (cases c; simp add: api_defs split: option.split)+

lemma api_apply_frame [simp]:
  "mquiet par (api_apply c p) = mquiet par p" "busy (api_apply c p) = busy p" "pci_wf (api_apply c p) = pci_wf p"
  by (cases c; simp add: api_defs split: option.split)+

lemma api_fold_frame [simp]:
  "fd (fold api_apply cs p) = fd p" "pci_clk (fold api_apply cs p) = pci_clk p"
  "out_ad (fold api_apply cs p) = out_ad p" "out_c_be (fold api_apply cs p) = out_c_be p"
  "out_ack64_n (fold api_apply cs p) = out_ack64_n p"
  "mquiet par (fold api_apply cs p) = mquiet par p"
  "busy (fold api_apply cs p) = busy p" "pci_wf (fold api_apply cs p) = pci_wf p"
  by (induction cs arbitrary: p) simp_all

lemma call_need32_frame:
  assumes "call_need32 cb h p a b = (v, q)"
  shows "fd q = fd p \<and> out_ad q = out_ad p \<and> mquiet par q = mquiet par p \<and> aquiet par q = aquiet par p \<and> busy q = busy p
    \<and> pci_wf q = pci_wf p"
  using assms by (auto simp: call_need32_def aquiet_def split: prod.splits)

lemma call_recv32_frame [simp]:
  "fd (call_recv32 cb h p a v b) = fd p" "mquiet par (call_recv32 cb h p a v b) = mquiet par p"
  "aquiet par (call_recv32 cb h p a v b) = aquiet par p" "pci_wf (call_recv32 cb h p a v b) = pci_wf p"
  by (auto simp: call_recv32_def aquiet_def split: prod.splits)

subsection \<open>The cycles release what they drive\<close>

lemma genrand_length: "ret (simbus_mt_genrand c) (\<lambda>(y, c'). length (mt c') = length (mt c))"
  by (auto simp: simbus_mt_genrand_def Let_def)

lemma draw_idle:
  assumes "resting par p"
  shows "ret (draw_int32 p) (\<lambda>(v, q). resting par q)"
proof -
  have "resting par (p\<lparr>random_state := c\<rparr>)" if "length (mt c) = length (mt (random_state p))" for c
    using assms that unfolding quiet_def pci_wf_def by simp
  then show ?thesis
    unfolding draw_int32_def by (intro ret_seq [OF genrand_length]) auto
qed

lemma choose_to_retry_idle: "resting par p \<Longrightarrow> ret (choose_to_retry f p bar) (\<lambda>(r, q). resting par q)"
  unfolding choose_to_retry_def by (auto simp del: ret_obind intro!: ret_seq2 [OF draw_idle])

lemma rw_retry_idle: "resting par p \<Longrightarrow> ret (do_target_memory_rw_retry p) (resting par)"
  unfolding do_target_memory_rw_retry_def
  by (rule ret_seq [OF when_pcix_kept [OF kept_mquiet idle_mquiet]], assumption,
      rule ret_seq [OF when_pcix_kept [OF kept_mquiet]], simp,
      rule ret_seq [OF posedge_kept [OF kept_mquiet]], simp,
      rule ret_seq [OF posedge_kept [OF kept_mquiet]], simp,
      rule ret_seq [OF posedge_kept [OF kept_resting release_target]], simp, simp)

lemma config_need_wf:
  "pci_wf p \<Longrightarrow> pci_wf (snd (case config_need32 p of None \<Rightarrow> (w, p) | Some h \<Rightarrow> call_need32 cb h p a b))"
  by (simp add: call_need32_frame [OF surjective_pairing] split: option.split)

lemma config_read_idle:
  assumes "pci_wf p"
  shows "ret (do_target_config_read cb p) released"
  unfolding do_target_config_read_def Let_def case_prod_unfold
  by (rule ret_seq [OF posedge_kept [OF kept_wf]], simp only: wf_lines config_need_wf [OF assms],
      rule ret_seq [OF do_clocked_kept [OF kept_wf]], simp,
      rule ret_seq [OF posedge_freed], simp, simp add: fill_bits_all, simp add: freed_def)

lemma config_write_idle:
  assumes "resting par p"
  shows "ret (do_target_config_write cb p) (resting par)"
proof -
  have "ret (obind (pci_next_posedge ((case config_recv32 q of None \<Rightarrow> q | Some h \<Rightarrow> call_recv32 cb h q a v b)
        \<lparr>out_devsel_n := BIT_1, out_trdy_n := BIT_1, out_stop_n := BIT_1\<rparr>)) (\<lambda>p3.
      Done (p3\<lparr>out_devsel_n := BIT_Z, out_trdy_n := BIT_Z, out_stop_n := BIT_Z, target_state := TARG_IDLE\<rparr>))) (resting par)"
    if "aquiet par q" for q :: "'a simbus_pci" and a v b
    by (rule ret_seq [OF posedge_kept [OF kept_aquiet [of par]]], use that in \<open>simp split: option.split\<close>)
      (simp only: ret_Done, rule release_config)
  then show ?thesis
    unfolding do_target_config_write_def Let_def
    by (simp del: ret_obind, intro impI ret_seq [OF do_clocked_kept [OF kept_aquiet]])
      (use idle_aquiet [OF assms] in auto)
qed

lemma split_response_idle: "pci_wf p \<Longrightarrow> ret (split_response p) released"
  unfolding split_response_def
  by (rule ret_seq [OF posedge_kept [OF kept_wf]], simp,
      rule ret_seq [OF posedge_kept [OF kept_wf]], simp,
      rule ret_seq [OF posedge_freed], simp, simp add: fill_bits_all,
      rule posedges_kept [OF kept_released], simp add: freed_def)

lemma split_words_wf: "pci_wf p \<Longrightarrow> ret (split_words cb bar n a p) pci_wf"
proof (induction n arbitrary: a p)
  case (Suc n)
  have "ret (let (v, q) = call_need32 cb h (p\<lparr>out_irdy_n := BIT_0\<rparr>) a 0
      in obind (pci_next_posedge (q\<lparr>out_ad := put_bits 0 32 v (out_ad q)\<rparr>)) (split_words cb bar n (a + 4))) pci_wf" for h
    using call_need32_frame [of cb h "p\<lparr>out_irdy_n := BIT_0\<rparr>" a 0] Suc
    by (cases "call_need32 cb h (p\<lparr>out_irdy_n := BIT_0\<rparr>) a 0")
      (auto simp del: ret_obind intro!: ret_seq [OF posedge_kept [OF kept_wf]])
  then show ?case by (simp del: ret_obind add: Let_def split: option.split)
qed simp

lemma burst_words_wf: "pci_wf p \<Longrightarrow> ret (burst_words cb bar ws a vl vh p) (\<lambda>(vl, vh, q). pci_wf q)"
  unfolding burst_words_def
  by (auto split: option.split prod.split dest!: call_need32_frame)

lemma read_burst_wf: "pci_wf p \<Longrightarrow> ret (read_burst cb bar ws wc a n vl vh p) pci_wf"
proof (induction "pending (fd p) + (wc - n)" arbitrary: a n vl vh p rule: less_induct)
  case less
  have turn: "ret (obind (do_clocked b q) (\<lambda>p2.
      if pcix_mode p2 \<and> Suc n = wc then Done p2
      else if pci_frame_n p2 = BIT_0
        then if pending (fd p2) < pending (fd p) \<or> pending (fd p2) = pending (fd p) \<and> n < wc
             then read_burst cb bar ws wc (a + of_nat ws) (Suc n) 0 w p2 else Stop Diverges
      else Done p2)) pci_wf" if "pci_wf q" for q :: "'a simbus_pci" and b w
    by (rule ret_seq [OF do_clocked_kept [OF kept_wf that]]) (auto intro!: less.hyps)
  show ?case
    by (subst read_burst.simps, rule ret_seq [OF burst_words_wf [OF less.prems]])
      (clarify, rule turn, simp)
qed

lemma read_data_phase_idle: "pci_wf p \<Longrightarrow> ret (read_data_phase cb bar ws wc a p) released"
  unfolding read_data_phase_def
  by (rule ret_seq [OF when_pcix_kept [OF kept_wf]], simp,
      rule ret_seq [OF posedge_kept [OF kept_wf]], simp,
      rule ret_seq [OF read_burst_wf], assumption,
      rule ret_seq [OF posedge_freed], simp, simp add: fill_bits_all, simp add: freed_def)

lemma deliver_mquiet: "mquiet par p \<Longrightarrow> ret (deliver_word cb bar ws a b p) (mquiet par)"
  unfolding deliver_word_def by (auto simp: Let_def split: option.split)

lemma write_burst_mquiet: "mquiet par p \<Longrightarrow> ret (write_burst cb bar ws wc fb lb a n p) (mquiet par)"
proof (induction "pending (fd p) + (wc - n)" arbitrary: a n p rule: less_induct)
  case less
  have ih: "ret (write_burst cb bar ws wc fb lb (a + of_nat ws) (Suc n) q) (mquiet par)"
    if "mquiet par q" "pending (fd q) < pending (fd p) \<or> pending (fd q) = pending (fd p) \<and> n < wc" for q
    by (rule less.hyps) (use that in auto)
  have turn: "ret (obind (deliver_word cb bar ws a b q) (\<lambda>p2.
      if pcix_mode p2 \<and> Suc n = wc then Done p2
      else if pci_frame_n p2 = BIT_0 \<or> pcix_mode p2 \<and> Suc n + 1 = wc \<or> pcix_mode p2 \<and> Suc n + 2 = wc
        then if pending (fd p2) < pending (fd p) \<or> pending (fd p2) = pending (fd p) \<and> n < wc
             then write_burst cb bar ws wc fb lb (a + of_nat ws) (Suc n) p2 else Stop Diverges
      else Done p2)) (mquiet par)" if "mquiet par q" for q :: "'a simbus_pci" and b
    by (rule ret_seq [OF deliver_mquiet [OF that]]) (simp add: ih)
  show ?case
    by (subst write_burst.simps, rule ret_seq [OF do_clocked_kept [OF kept_mquiet less.prems]]) (rule turn)
qed

lemma write_data_phase_idle: "mquiet par p \<Longrightarrow> ret (write_data_phase cb bar ws wc fb lb a p) (resting par)"
  unfolding write_data_phase_def
  by (rule ret_seq [OF when_pcix_kept [OF kept_mquiet]], simp,
      rule ret_seq [OF write_burst_mquiet], simp,
      rule ret_seq [OF posedge_kept [OF kept_resting release_target]], assumption, simp)

lemma memory_write_idle:
  assumes "resting par p"
  shows "ret (do_target_memory_write cb p bar) (resting par)"
proof -
  have "ret (obind (draw_int32 q) (\<lambda>(val, p2). obind (posedges (nat (c_rem val 3)) p2)
      (write_data_phase cb bar ws wc fb lb a))) (resting par)" if "resting par q" for q :: "'a simbus_pci" and ws wc fb lb a
    by (rule ret_seq2 [OF draw_idle [OF that]], simp only: prod.case,
        rule ret_seq [OF posedges_kept [OF kept_resting]], assumption) (auto intro: write_data_phase_idle idle_mquiet)
  then have pcix: "ret (obind (pci_next_posedge q) (\<lambda>p1.
      let bc = attr_byte_count p1; (ws, wc) = burst_shape p1 (mem_target p1 ! bar) (get_addr p) bc;
          (fb, lb) = (if ws = 8 then make_ben8x (get_addr p) (int bc) else make_ben4x (get_addr p) (int bc))
      in obind (draw_int32 p1) (\<lambda>(val, p2). obind (posedges (nat (c_rem val 3)) p2)
           (write_data_phase cb bar ws wc fb lb (get_addr p))))) (resting par)" if "resting par q" for q :: "'a simbus_pci"
    by (intro ret_seq [OF posedge_kept [OF kept_resting that]]) (simp add: Let_def case_prod_unfold del: ret_obind)
  show ?thesis
    unfolding do_target_memory_write_def Let_def choose_to_retry_w_def
    by (rule ret_seq2 [OF choose_to_retry_idle [OF assms]])
      (use pcix in \<open>simp add: Let_def rw_retry_idle write_data_phase_idle idle_mquiet del: ret_obind\<close>)
qed

context target_machine
begin

lemma split_idle:
  assumes "pci_wf p"
  shows "ret (do_target_memory_read_split cb tsm p bar a attr bc) released"
proof -
  have data: "ret (obind (split_words cb bar n a q) (\<lambda>p6.
      obind (if n = 1 then pci_next_posedge p6 else Done p6) (\<lambda>p7.
      obind (pci_next_posedge (p7\<lparr>out_frame_n := BIT_1, out_irdy_n := BIT_1\<rparr>)) (\<lambda>p8.
        pci_next_posedge ((undrive_bus p8)\<lparr>target_state := TARG_IDLE\<rparr>))))) released"
    if "pci_wf q" for n a and q :: "'d simbus_pci"
  proof (rule ret_seq [OF split_words_wf [OF that]], rule ret_seq [where Q = pci_wf])
    show "ret (if n = 1 then pci_next_posedge r else Done r) pci_wf" if "pci_wf r" for r :: "'d simbus_pci"
      using posedge_kept [OF kept_wf that] that by simp
    show "ret (obind (pci_next_posedge (r\<lparr>out_frame_n := BIT_1, out_irdy_n := BIT_1\<rparr>)) (\<lambda>p8.
        pci_next_posedge ((undrive_bus p8)\<lparr>target_state := TARG_IDLE\<rparr>))) released" if "pci_wf r" for r :: "'d simbus_pci"
      by (rule ret_seq [OF posedge_kept [OF kept_wf]], use that in simp, rule posedge_released, simp)
  qed
  show ?thesis
    unfolding do_target_memory_read_split_def Let_def
    by (rule ret_seq [OF split_response_idle [OF assms]],
        rule ret_seq [OF request_bus_granted [where par = True]], simp,
        rule ret_seq [OF posedge_kept [OF kept_wf]], simp add: split_address_def busy_wf,
        rule ret_seq [OF posedge_kept [OF kept_wf]], simp add: split_attributes_def,
        rule ret_seq [OF clocked_kept [OF kept_wf]], simp, rule data)
qed

lemma memory_read_idle:
  assumes "resting par p"
  shows "ret (do_target_memory_read cb tsm p bar) (resting par)"
proof -
  have pcix: "ret (obind (pci_next_posedge q) (\<lambda>p1.
      let attr = get_xattr p1; bc = attr_byte_count p1
      in if pcix_split_completion_mode p1 (mem_target p1 ! bar)
         then do_target_memory_read_split cb tsm p1 bar a attr bc
         else case burst_shape p1 (mem_target p1 ! bar) a bc of
                (ws, wc) \<Rightarrow> read_data_phase cb bar ws wc a p1)) (resting par)" if "resting par q" for q a
    by (rule ret_seq [OF posedge_kept [OF kept_resting that]])
      (simp add: Let_def case_prod_unfold released_resting [OF split_idle] released_resting [OF read_data_phase_idle])
  show ?thesis
    unfolding do_target_memory_read_def Let_def choose_to_retry_r_def
    by (rule ret_seq2 [OF choose_to_retry_idle [OF assms]])
      (use pcix in \<open>simp add: Let_def rw_retry_idle released_resting [OF read_data_phase_idle] del: ret_obind\<close>)
qed

lemma target_step_idle:
  assumes "resting par p"
  shows "ret (target_step cb tsm p) (resting par)"
proof -
  note cycles = memory_read_idle [OF assms] memory_write_idle [OF assms]
    released_resting [OF config_read_idle [OF conjunct1 [OF assms]]] config_write_idle [OF assms]
  have "ret (target_dac cb tsm p) (resting par)"
    using assms cycles
    by (simp add: target_dac_def Let_def do_target_memory_read_multiple_def do_target_memory_read_line_def
        split: option.split)
  moreover have "ret (target_idle cb tsm p) (resting par)"
    using assms cycles unfolding target_idle_def Let_def
    by (intro ret_any) (simp add: do_target_memory_read_multiple_def do_target_memory_read_line_def
        do_target_DAC_def split: option.split)
  ultimately show ?thesis
    using assms by (simp add: target_step_def split: target_machine_e.split)
qed

end

subsection \<open>The cycles consume input only, and the depth of the machine suffices\<close>

definition within :: "nat \<Rightarrow> 'd simbus_pci \<Rightarrow> bool" where
  "within N p \<longleftrightarrow> pending (fd p) \<le> N"

lemma within_fd: "fd q = fd p \<Longrightarrow> within N q = within N p"
  by (simp add: within_def)

lemma posedge_runs: "within N p \<Longrightarrow> runs (pci_next_posedge p) (within N)"
  using posedge_pending [of p] by (auto simp: runs_def within_def ret_def)

lemma clocked_runs: "within N p \<Longrightarrow> runs (clocked b p) (within N)"
  using clocked_pending [of b p] by (auto simp: runs_def within_def ret_def)

lemmas posedge_runs_seq = runs_seq [OF posedge_runs]

lemma do_clocked_runs: "within N p \<Longrightarrow> runs (do_clocked b p) (within N)"
  unfolding do_clocked_def by (rule posedge_runs_seq) (auto intro: clocked_runs)

lemma posedges_runs: "within N p \<Longrightarrow> runs (posedges n p) (within N)"
  by (induction n arbitrary: p) (auto intro: posedge_runs_seq)

lemma when_pcix_runs: "within N p \<Longrightarrow> runs (when_pcix p) (within N)"
  by (simp add: when_pcix_def posedge_runs)

lemma within_lines [simp]:
  "within N (p\<lparr>out_req_n := v\<rparr>) = within N p" "within N (p\<lparr>out_frame_n := v\<rparr>) = within N p"
  "within N (p\<lparr>out_req64_n := v\<rparr>) = within N p" "within N (p\<lparr>out_irdy_n := v\<rparr>) = within N p"
  "within N (p\<lparr>out_trdy_n := v\<rparr>) = within N p" "within N (p\<lparr>out_stop_n := v\<rparr>) = within N p"
  "within N (p\<lparr>out_devsel_n := v\<rparr>) = within N p" "within N (p\<lparr>out_ack64_n := v\<rparr>) = within N p"
  "within N (p\<lparr>out_c_be := xs\<rparr>) = within N p" "within N (p\<lparr>out_ad := xs\<rparr>) = within N p"
  "within N (p\<lparr>target_state := st\<rparr>) = within N p" "within N (p\<lparr>dac_addr_lo := a\<rparr>) = within N p"
  "within N (p\<lparr>random_state := c\<rparr>) = within N p" "within N (undrive_bus p) = within N p"
  "within N (p\<lparr>break_flag := i\<rparr>) = within N p" "within N (p\<lparr>user := u\<rparr>) = within N p"
  by (simp_all add: within_def)

lemma draw_runs: "within N p \<Longrightarrow> runs (draw_int32 p) (\<lambda>(v, q). within N q)"
  by (simp add: draw_int32_def simbus_mt_genrand_def Let_def runs_def c_defined_def)

lemma choose_to_retry_runs: "within N p \<Longrightarrow> runs (choose_to_retry f p bar) (\<lambda>(r, q). within N q)"
  unfolding choose_to_retry_def by (auto intro!: runs_seq [OF draw_runs])

lemma rw_retry_runs: "within N p \<Longrightarrow> runs (do_target_memory_rw_retry p) (within N)"
  unfolding do_target_memory_rw_retry_def
  by (rule runs_seq [OF when_pcix_runs], assumption, rule runs_seq [OF when_pcix_runs], simp,
      rule posedge_runs_seq, simp, rule posedge_runs_seq, simp, rule posedge_runs_seq, simp, simp)

lemma call_need32_within [simp]: "within N (snd (call_need32 cb h p a b)) = within N p"
  using call_need32_frame [OF surjective_pairing] by (intro within_fd) blast

lemma call_recv32_within [simp]: "within N (call_recv32 cb h p a v b) = within N p"
  by (rule within_fd) simp

lemma config_read_runs: "within N p \<Longrightarrow> runs (do_target_config_read cb p) (within N)"
  unfolding do_target_config_read_def Let_def case_prod_unfold
  by (rule posedge_runs_seq [of N], simp split: option.split, rule runs_seq [OF do_clocked_runs], simp,
      rule posedge_runs_seq, simp, simp)

lemma config_write_runs:
  assumes "within N p"
  shows "runs (do_target_config_write cb p) (within N)"
proof -
  have "runs (obind (pci_next_posedge ((case config_recv32 q of None \<Rightarrow> q | Some h \<Rightarrow> call_recv32 cb h q a v b)
        \<lparr>out_devsel_n := BIT_1, out_trdy_n := BIT_1, out_stop_n := BIT_1\<rparr>)) (\<lambda>p3.
      Done (p3\<lparr>out_devsel_n := BIT_Z, out_trdy_n := BIT_Z, out_stop_n := BIT_Z, target_state := TARG_IDLE\<rparr>))) (within N)"
    if "within N q" for q :: "'a simbus_pci" and a v b
    by (rule posedge_runs_seq [of N], use that in \<open>simp split: option.split\<close>) simp
  then show ?thesis
    unfolding do_target_config_write_def Let_def using assms
    by (simp, intro impI runs_seq [OF do_clocked_runs [of N]]) auto
qed

lemma split_response_runs: "within N p \<Longrightarrow> runs (split_response p) (within N)"
  unfolding split_response_def
  by (rule posedge_runs_seq, simp, rule posedge_runs_seq, simp, rule posedge_runs_seq, simp,
      rule posedges_runs, simp)

lemma split_words_runs: "within N p \<Longrightarrow> runs (split_words cb bar n a p) (within N)"
proof (induction n arbitrary: a p)
  case (Suc n)
  then show ?case
    by (auto simp: Let_def case_prod_unfold split: option.split intro!: posedge_runs_seq [of N])
qed simp

lemma burst_words_runs: "within N p \<Longrightarrow> runs (burst_words cb bar ws a vl vh p) (\<lambda>(vl, vh, q). within N q)"
  unfolding burst_words_def by (simp add: Let_def case_prod_unfold split: option.split)

lemma read_burst_runs: "within N p \<Longrightarrow> runs (read_burst cb bar ws wc a n vl vh p) (within N)"
proof (induction "pending (fd p) + (wc - n)" arbitrary: a n vl vh p rule: less_induct)
  case less
  have ih: "runs (read_burst cb bar ws wc (a + of_nat ws) (Suc n) 0 w q) (within N)"
    if "within N q" "pending (fd q) < pending (fd p) \<or> pending (fd q) = pending (fd p) \<and> n < wc" for q w
    by (rule less.hyps) (use that in auto)
  have turn: "runs (obind (do_clocked b q) (\<lambda>p2.
      if pcix_mode p2 \<and> Suc n = wc then Done p2
      else if pci_frame_n p2 = BIT_0
        then if pending (fd p2) < pending (fd p) \<or> pending (fd p2) = pending (fd p) \<and> n < wc
             then read_burst cb bar ws wc (a + of_nat ws) (Suc n) 0 w p2 else Stop Diverges
      else Done p2)) (within N)" if "within N q" for q :: "'a simbus_pci" and b w
    by (rule runs_seq [OF do_clocked_runs [OF that]]) (simp add: ih)
  show ?case
    by (subst read_burst.simps, rule runs_seq [OF burst_words_runs [OF less.prems]])
      (clarify, rule turn, simp)
qed

lemma read_data_phase_runs: "within N p \<Longrightarrow> runs (read_data_phase cb bar ws wc a p) (within N)"
  unfolding read_data_phase_def
  by (rule runs_seq [OF when_pcix_runs], simp, rule posedge_runs_seq, simp,
      rule runs_seq [OF read_burst_runs], assumption, rule posedge_runs_seq, simp, simp)

lemma deliver_runs: "within N p \<Longrightarrow> runs (deliver_word cb bar ws a b p) (within N)"
  unfolding deliver_word_def by (auto simp: Let_def split: option.split)

lemma write_burst_runs: "within N p \<Longrightarrow> runs (write_burst cb bar ws wc fb lb a n p) (within N)"
proof (induction "pending (fd p) + (wc - n)" arbitrary: a n p rule: less_induct)
  case less
  have ih: "runs (write_burst cb bar ws wc fb lb (a + of_nat ws) (Suc n) q) (within N)"
    if "within N q" "pending (fd q) < pending (fd p) \<or> pending (fd q) = pending (fd p) \<and> n < wc" for q
    by (rule less.hyps) (use that in auto)
  have turn: "runs (obind (deliver_word cb bar ws a b q) (\<lambda>p2.
      if pcix_mode p2 \<and> Suc n = wc then Done p2
      else if pci_frame_n p2 = BIT_0 \<or> pcix_mode p2 \<and> Suc n + 1 = wc \<or> pcix_mode p2 \<and> Suc n + 2 = wc
        then if pending (fd p2) < pending (fd p) \<or> pending (fd p2) = pending (fd p) \<and> n < wc
             then write_burst cb bar ws wc fb lb (a + of_nat ws) (Suc n) p2 else Stop Diverges
      else Done p2)) (within N)" if "within N q" for q :: "'a simbus_pci" and b
    by (rule runs_seq [OF deliver_runs [OF that]]) (simp add: ih)
  show ?case
    by (subst write_burst.simps, rule runs_seq [OF do_clocked_runs [OF less.prems]]) (rule turn)
qed

lemma write_data_phase_runs: "within N p \<Longrightarrow> runs (write_data_phase cb bar ws wc fb lb a p) (within N)"
  unfolding write_data_phase_def
  by (rule runs_seq [OF when_pcix_runs], simp, rule runs_seq [OF write_burst_runs], simp,
      rule posedge_runs_seq, simp, simp)

lemma memory_write_runs:
  assumes "within N p"
  shows "runs (do_target_memory_write cb p bar) (within N)"
proof -
  have "runs (obind (draw_int32 q) (\<lambda>(val, p2). obind (posedges (nat (c_rem val 3)) p2)
      (write_data_phase cb bar ws wc fb lb a))) (within N)" if "within N q" for q :: "'a simbus_pci" and ws wc fb lb a
    by (rule runs_seq [OF draw_runs [OF that]])
      (auto intro!: runs_seq [OF posedges_runs [of N]] write_data_phase_runs)
  then have pcix: "runs (obind (pci_next_posedge q) (\<lambda>p1.
      let bc = attr_byte_count p1; (ws, wc) = burst_shape p1 (mem_target p1 ! bar) (get_addr p) bc;
          (fb, lb) = (if ws = 8 then make_ben8x (get_addr p) (int bc) else make_ben4x (get_addr p) (int bc))
      in obind (draw_int32 p1) (\<lambda>(val, p2). obind (posedges (nat (c_rem val 3)) p2)
           (write_data_phase cb bar ws wc fb lb (get_addr p))))) (within N)" if "within N q" for q :: "'a simbus_pci"
    by (intro posedge_runs_seq [OF that]) (simp add: Let_def case_prod_unfold)
  show ?thesis
    unfolding do_target_memory_write_def Let_def choose_to_retry_w_def
    by (rule runs_seq [OF choose_to_retry_runs [OF assms]])
      (use pcix in \<open>auto simp: Let_def rw_retry_runs write_data_phase_runs\<close>)
qed

text \<open>Between two rising edges at least one exchange takes place.\<close>

lemma edge_consumes:
  "runs (obind (spin_rc fd send_ready_pci (\<lambda>p. pci_clk p \<noteq> BIT_0) (0, p))
      (spin_rc fd send_ready_pci (\<lambda>p. pci_clk p \<noteq> BIT_1)))
    (\<lambda>(rc, q). pending (fd q) < pending (fd p))"
proof (cases "pci_clk p = BIT_0")
  case True
  then have e: "obind (spin_rc fd send_ready_pci (\<lambda>p. pci_clk p \<noteq> BIT_0) (0, p))
      (spin_rc fd send_ready_pci (\<lambda>p. pci_clk p \<noteq> BIT_1)) =
    obind (send_ready_pci p) (spin_rc fd send_ready_pci (\<lambda>p. pci_clk p \<noteq> BIT_1))"
    by (simp add: pci.spin_rc_unfold [of _ 0 p])
  show ?thesis
    unfolding e
    by (rule runs_seq [where Q = "\<lambda>(rc, q). pending (fd q) < pending (fd p)"])
      (use pci.spin_rc_pending [of "\<lambda>p. pci_clk p \<noteq> BIT_1"] in
        \<open>fastforce simp: runs_def ret_def pci.exchange_fuel pci.spin_rc_fuel dest: pci.exchange_consumes\<close>)+
next
  case False
  then have e: "spin_rc fd send_ready_pci (\<lambda>p. pci_clk p \<noteq> BIT_0) (0, p) =
      obind (send_ready_pci p) (spin_rc fd send_ready_pci (\<lambda>p. pci_clk p \<noteq> BIT_0))"
    by (simp add: pci.spin_rc_unfold [of _ 0 p])
  have spin: "runs (spin_rc fd send_ready_pci b q) (\<lambda>(rc, r). pending (fd r) < pending (fd p))"
    if "pending (fd (snd q)) < pending (fd p)" for b q
    using pci.spin_rc_pending [of b "fst q" "snd q"] that
    by (cases q) (fastforce simp: runs_def ret_def pci.spin_rc_fuel)
  have "runs (send_ready_pci p) (\<lambda>(rc, q). pending (fd q) < pending (fd p))"
    by (auto simp: runs_def ret_def pci.exchange_fuel dest: pci.exchange_consumes)
  then have "runs (obind (send_ready_pci p) (spin_rc fd send_ready_pci (\<lambda>p. pci_clk p \<noteq> BIT_0)))
      (\<lambda>(rc, q). pending (fd q) < pending (fd p))"
    by (rule runs_seq) (use spin in auto)
  then show ?thesis
    unfolding e by (rule runs_seq) (rule runs_mono [OF spin], auto)
qed

text \<open>What the nested machine is asked for: only states with less pending input.\<close>

definition deeper :: "nat \<Rightarrow> ('d simbus_pci \<Rightarrow> 'd simbus_pci outcome) \<Rightarrow> bool" where
  "deeper N tsm \<longleftrightarrow> (\<forall>q. pending (fd q) < N \<longrightarrow> runs (tsm q) (within (pending (fd q))))"

lemma wait_clocks_runs:
  assumes "deeper N tsm"
  shows "within N p \<Longrightarrow> runs (wait_clocks tsm n use_irq msk irq p) (\<lambda>(rc, irq', q). within N q)"
proof (induction n arbitrary: msk p)
  case (Suc n)
  have tail: "runs (obind (tsm q) (\<lambda>p3. if break_flag p3 \<noteq> 0 \<and> target_state p3 = TARG_IDLE
        then Done (SIMBUS_PCI_BREAK, irq, p3) else wait_clocks tsm n use_irq (intr_active p3) irq p3))
      (\<lambda>(rc, irq', q). within N q)" if "pending (fd q) < N" for q
    by (rule runs_seq [where Q = "within (pending (fd q))"])
      (use assms that Suc.IH in \<open>auto simp: deeper_def within_def\<close>)
  have "runs (obind (obind (spin_rc fd send_ready_pci (\<lambda>p. pci_clk p \<noteq> BIT_0) (0, p))
        (spin_rc fd send_ready_pci (\<lambda>p. pci_clk p \<noteq> BIT_1))) (\<lambda>(rc, p2).
      if rc < 0 then Done (rc, irq, p2)
      else obind (tsm p2) (\<lambda>p3. if break_flag p3 \<noteq> 0 \<and> target_state p3 = TARG_IDLE
        then Done (SIMBUS_PCI_BREAK, irq, p3) else wait_clocks tsm n use_irq (intr_active p3) irq p3)))
      (\<lambda>(rc, irq', q). within N q)"
    by (rule runs_seq [OF edge_consumes]) (use Suc.prems tail in \<open>auto simp: within_def\<close>)
  then show ?case using Suc.prems by (simp add: obind_assoc)
qed simp

lemma request_bus_runs:
  assumes "deeper N tsm" and "within N p"
  shows "runs (pci_request_bus_with tsm p) (within N)"
proof -
  have wait: "runs (simbus_pci_wait_with tsm q (Suc 0) None) (\<lambda>(rc, irq', r). within N r)" if "within N q" for q
    using wait_clocks_runs [OF assms(1), of "q\<lparr>break_flag := 0\<rparr>"] that
    by (simp add: simbus_pci_wait_with_def del: wait_clocks.simps)
  have "runs (await_grant tsm n q) (within N)" if "within N q" for n q
    using that
  proof (induction n arbitrary: q)
    case 0
    show ?case by (subst await_grant.simps) (auto intro!: runs_seq [OF wait] 0)
  next
    case (Suc n)
    show ?case by (subst await_grant.simps) (use Suc in \<open>auto intro!: runs_seq [OF wait]\<close>)
  qed
  then show ?thesis
    unfolding pci_request_bus_with_def by (rule runs_seq) (use assms(2) in simp_all)
qed

lemma split_runs:
  assumes "deeper N tsm" and "within N p"
  shows "runs (do_target_memory_read_split cb tsm p bar a attr bc) (within N)"
proof -
  have data: "runs (obind (split_words cb bar n a q) (\<lambda>p6.
      obind (if n = 1 then pci_next_posedge p6 else Done p6) (\<lambda>p7.
      obind (pci_next_posedge (p7\<lparr>out_frame_n := BIT_1, out_irdy_n := BIT_1\<rparr>)) (\<lambda>p8.
        pci_next_posedge ((undrive_bus p8)\<lparr>target_state := TARG_IDLE\<rparr>))))) (within N)"
    if "within N q" for n a and q :: "'a simbus_pci"
  proof (rule runs_seq [OF split_words_runs [OF that]], rule runs_seq [where Q = "within N"])
    show "runs (if n = 1 then pci_next_posedge r else Done r) (within N)" if "within N r" for r :: "'a simbus_pci"
      using posedge_runs [OF that] that by simp
    show "runs (obind (pci_next_posedge (r\<lparr>out_frame_n := BIT_1, out_irdy_n := BIT_1\<rparr>)) (\<lambda>p8.
        pci_next_posedge ((undrive_bus p8)\<lparr>target_state := TARG_IDLE\<rparr>))) (within N)"
      if "within N r" for r :: "'a simbus_pci"
      by (rule posedge_runs_seq, use that in simp, rule posedge_runs, simp)
  qed
  show ?thesis
    unfolding do_target_memory_read_split_def Let_def
    by (rule runs_seq [OF split_response_runs [OF assms(2)]], rule runs_seq [OF request_bus_runs [OF assms(1)]],
        assumption, rule posedge_runs_seq, simp add: split_address_def,
        rule posedge_runs_seq, simp add: split_attributes_def,
        rule runs_seq [OF clocked_runs], simp, rule data)
qed

lemma memory_read_runs:
  assumes "deeper N tsm" and "within N p"
  shows "runs (do_target_memory_read cb tsm p bar) (within N)"
proof -
  have pcix: "runs (obind (pci_next_posedge q) (\<lambda>p1.
      let attr = get_xattr p1; bc = attr_byte_count p1
      in if pcix_split_completion_mode p1 (mem_target p1 ! bar)
         then do_target_memory_read_split cb tsm p1 bar a attr bc
         else case burst_shape p1 (mem_target p1 ! bar) a bc of
                (ws, wc) \<Rightarrow> read_data_phase cb bar ws wc a p1)) (within N)" if "within N q" for q a
    by (rule posedge_runs_seq [OF that])
      (simp add: Let_def case_prod_unfold split_runs [OF assms(1)] read_data_phase_runs)
  show ?thesis
    unfolding do_target_memory_read_def Let_def choose_to_retry_r_def
    by (rule runs_seq [OF choose_to_retry_runs [OF assms(2)]])
      (use pcix in \<open>auto simp: Let_def rw_retry_runs read_data_phase_runs\<close>)
qed

lemma target_step_runs:
  assumes "deeper N tsm" and "within N p"
  shows "runs (target_step cb tsm p) (within N)"
proof -
  note cycles = memory_read_runs [OF assms] memory_write_runs [OF assms(2)]
    config_read_runs [OF assms(2)] config_write_runs [OF assms(2)]
  have "runs (target_dac cb tsm p) (within N)"
    using assms(2) cycles
    by (simp add: target_dac_def Let_def do_target_memory_read_multiple_def do_target_memory_read_line_def
        split: option.split)
  moreover have "runs (target_idle cb tsm p) (within N)"
    using assms(2) cycles
    by (simp add: target_idle_def get_idsel_def Let_def c_assert_def do_target_memory_read_multiple_def
        do_target_memory_read_line_def do_target_DAC_def split: option.split)
  ultimately show ?thesis
    using assms(2) by (simp add: target_step_def split: target_machine_e.split)
qed

lemma target_sm_runs: "pending (fd p) < n \<Longrightarrow> runs (target_sm cb n p) (within (pending (fd p)))"
proof (induction n arbitrary: p)
  case (Suc n)
  show ?case
    unfolding target_sm.simps
    by (rule target_step_runs) (use Suc in \<open>auto simp: deeper_def\<close>, simp add: within_def)
qed simp

lemma target_sm_idle: "target_machine (target_sm cb n)"
proof (induction n)
  case 0
  show ?case by unfold_locales simp
next
  case (Suc n)
  show ?case by unfold_locales (simp add: target_machine.target_step_idle [OF Suc])
qed

interpretation tgt: target_machine "pci_target_state_machine cb" for cb
  by unfold_locales (unfold pci_target_state_machine_def, rule target_machine.tsm_idle [OF target_sm_idle])


text \<open>C2: Whatever happens on the bus, this side lets go of it. From a state in which it drives none of
  FRAME#, REQ64#, ACK64#, IRDY#, TRDY#, STOP#, DEVSEL#, C/BE# and AD, a target cycle, a wait, a reset, an
  arbitration, a read and a write all end in such a state again (with the bus won and REQ# withdrawn
  after arbitration), on every path including retries and master aborts; reads and writes return only
  the documented codes.  The parity lines: a read always ends with PAR and PAR64 released too; a
  target cycle, a wait, a reset and an arbitration end with them released if they were before; a
  write ends with them released when it was completed, but a write that nobody answers always leaves
  PAR driven, because the code returns from the master abort without the clock that would release
  it, and waiting does not release it either.\<close>

theorem bus_released:
  assumes "pci_wf p" and "quiet p"
  shows "ret (pci_target_state_machine cb p) (\<lambda>q. idle q \<and> (par_off p \<longrightarrow> par_off q))
    \<and> ret (simbus_pci_wait cb p clks irq) (\<lambda>(rc, irq', q). idle q \<and> (par_off p \<longrightarrow> par_off q))
    \<and> ret (simbus_pci_reset cb p w s) (\<lambda>q. idle q \<and> (par_off p \<longrightarrow> par_off q))
    \<and> ret (pci_request_bus cb p) (\<lambda>q. idle q \<and> (par_off p \<longrightarrow> par_off q) \<and> out_req_n q = BIT_1 \<and> \<not> bus_taken q)
    \<and> ret (generic_pci_read32 cb p a c b r r2) (\<lambda>(rc, v, vx, q). released q \<and> out_req_n q = BIT_1
        \<and> rc \<in> {0, GPCI_MASTER_ABORT, GPCI_TARGET_RETRY})
    \<and> ret (generic_pci_write32 cb p a c v b) (\<lambda>(rc, q). idle q \<and> out_req_n q = BIT_1
        \<and> (rc = 0 \<and> par_off q \<or> rc = GPCI_MASTER_ABORT \<and> out_par q \<noteq> BIT_Z))"
proof -
  have i: "idle p" using assms by simp
  have o: "resting (par_off p) p" using assms by simp
  have sm: "ret (pci_target_state_machine cb p) (\<lambda>q. idle q \<and> (par_off p \<longrightarrow> par_off q))"
    by (rule ret_mono [OF tgt.tsm_idle [OF o]]) simp
  have wt: "ret (simbus_pci_wait cb p clks irq) (\<lambda>(rc, irq', q). idle q \<and> (par_off p \<longrightarrow> par_off q))"
    unfolding simbus_pci_wait_def by (rule ret_mono [OF tgt.wait_idle [OF o]]) auto
  have rs: "ret (simbus_pci_reset cb p w s) (\<lambda>q. idle q \<and> (par_off p \<longrightarrow> par_off q))"
    unfolding simbus_pci_reset_def by (rule ret_mono [OF tgt.reset_idle [OF o]]) simp
  have bus: "ret (pci_request_bus cb p)
      (\<lambda>q. idle q \<and> (par_off p \<longrightarrow> par_off q) \<and> out_req_n q = BIT_1 \<and> \<not> bus_taken q)"
    unfolding pci_request_bus_def by (rule ret_mono [OF tgt.request_bus_granted [OF o]]) (simp add: busy_def)
  have rd: "ret (generic_pci_read32 cb p a c b r r2) (\<lambda>(rc, v, vx, q). released q \<and> out_req_n q = BIT_1
        \<and> rc \<in> {0, GPCI_MASTER_ABORT, GPCI_TARGET_RETRY})"
    unfolding generic_pci_read32_def
    by (rule ret_mono [OF tgt.read32_done [OF i]]) (auto simp: done_with_def busy_def read_codes_def)
  have wr: "ret (generic_pci_write32 cb p a c v b) (\<lambda>(rc, q). idle q \<and> out_req_n q = BIT_1
        \<and> (rc = 0 \<and> par_off q \<or> rc = GPCI_MASTER_ABORT \<and> out_par q \<noteq> BIT_Z))"
    unfolding generic_pci_write32_def
    by (rule ret_mono [OF tgt.write32_done [OF i]]) (auto simp: write_end_def done_with_def busy_def)
  from sm wt rs bus rd wr show ?thesis by (intro conjI)
qed

section \<open>Addresses\<close>

lemma bit_get_addr32: "bit (get_addr32 p) j \<longleftrightarrow> j < 32 \<and> pci_ad p ! j = BIT_1"
  by (auto simp: get_addr32_def bit_gather)

lemma get_addr_split:
  "get_addr p = (if target_state p \<noteq> TARG_DAC then get_addr32 p else push_bit 32 (get_addr32 p) + dac_addr_lo p)"
  by (simp add: get_addr_def get_addr32_def Let_def)

lemma join_halves:
  assumes "\<And>j. bit hi j \<longleftrightarrow> j < 32 \<and> bit (drop_bit 32 a) j" and "\<And>j. bit lo j \<longleftrightarrow> j < 32 \<and> bit a j"
  shows "push_bit 32 hi + lo = (a :: u64)"
proof -
  have "push_bit 32 hi AND lo = 0" by (rule bit_word_eqI) (simp add: bit_simps assms(2))
  then have "push_bit 32 hi + lo = push_bit 32 hi OR lo" by (rule disjunctive_add_eq_or)
  also have "\<dots> = a"
    by (rule bit_word_eqI) (auto simp: bit_simps assms)
  finally show ?thesis .
qed

lemma nth_drive_address:
  "pci_wf p \<Longrightarrow> j < 32 \<Longrightarrow> out_ad (drive_address a f p) ! j = bit01 (bit a j)"
  by (simp add: drive_address_def Let_def nth_put_bits)

text \<open>C27: A target reconstructs the address a master puts on the bus, for every 64-bit address. If it
  fits 32 bits there is one address phase; otherwise a dual address cycle sends the low half, and the
  lines of the second phase give the high half.\<close>

theorem address_reaches_target:
  fixes a :: u64 and f :: bool
  assumes "pci_wf p" and "pci_wf t"
  defines "m \<equiv> drive_address a f p"
  shows "(drop_bit 32 a = 0 \<longrightarrow> dac_phase (drop_bit 32 a) m = Done m
        \<and> (target_state t \<noteq> TARG_DAC \<longrightarrow> get_addr (t\<lparr>pci_ad := out_ad m\<rparr>) = a))
    \<and> (drop_bit 32 a \<noteq> 0 \<longrightarrow> ret (dac_phase (drop_bit 32 a) m) (\<lambda>q.
          get_addr ((do_target_DAC (t\<lparr>pci_ad := out_ad m\<rparr>))\<lparr>pci_ad := out_ad q\<rparr>) = a))"
proof (intro conjI impI)
  have lo: "bit (get_addr32 (t\<lparr>pci_ad := out_ad m\<rparr>)) j \<longleftrightarrow> j < 32 \<and> bit a j" for j
    using assms(1) by (auto simp: bit_get_addr32 m_def nth_drive_address)
  {
    assume hi0: "drop_bit 32 a = 0" and "target_state t \<noteq> TARG_DAC"
    have "j < 32" if "bit a j" for j
    proof (rule ccontr)
      assume "\<not> j < 32"
      with that have "bit (drop_bit 32 a) (j - 32)" by (simp add: bit_drop_bit_eq)
      with hi0 show False by simp
    qed
    then have "get_addr32 (t\<lparr>pci_ad := out_ad m\<rparr>) = a" by (intro bit_word_eqI) (auto simp: lo)
    with \<open>target_state t \<noteq> TARG_DAC\<close> show "get_addr (t\<lparr>pci_ad := out_ad m\<rparr>) = a"
      by (simp add: get_addr_split)
  next
    assume "drop_bit 32 a \<noteq> 0"
    show "ret (dac_phase (drop_bit 32 a) m) (\<lambda>q.
          get_addr ((do_target_DAC (t\<lparr>pci_ad := out_ad m\<rparr>))\<lparr>pci_ad := out_ad q\<rparr>) = a)"
      unfolding dac_phase_def
    proof (simp only: \<open>drop_bit 32 a \<noteq> 0\<close> not_False_eq_True if_True, rule posedge_seq)
      show "pci_wf (m\<lparr>out_c_be := (out_c_be m)[0 := BIT_1, 1 := BIT_0, 2 := BIT_1, 3 := BIT_1]\<rparr>)"
        using assms(1) by (simp add: m_def drive_address_def Let_def)
    next
      fix q assume q: "pci_keeps (m\<lparr>out_c_be := (out_c_be m)[0 := BIT_1, 1 := BIT_0, 2 := BIT_1, 3 := BIT_1]\<rparr>) q"
      let ?t = "(do_target_DAC (t\<lparr>pci_ad := out_ad m\<rparr>))
        \<lparr>pci_ad := out_ad (q\<lparr>out_ad := put_bits 0 32 (drop_bit 32 a) (out_ad q)\<rparr>)\<rparr>"
      have "bit (get_addr32 ?t) j \<longleftrightarrow> j < 32 \<and> bit (drop_bit 32 a) j" for j
        using q by (auto simp: bit_get_addr32 nth_put_bits)
      from join_halves [OF this lo] show "ret (Done (q\<lparr>out_ad := put_bits 0 32 (drop_bit 32 a) (out_ad q)\<rparr>))
          (\<lambda>q. get_addr ((do_target_DAC (t\<lparr>pci_ad := out_ad m\<rparr>))\<lparr>pci_ad := out_ad q\<rparr>) = a)"
        by (simp add: get_addr_split do_target_DAC_def)
    qed
  }
qed (simp add: dac_phase_def)

section \<open>Regions\<close>

lemma first_match_spec:
  "first_match xs a k = Some i \<longleftrightarrow>
     k \<le> i \<and> i - k < length xs \<and> (let c = xs ! (i - k) in xl_mask c \<noteq> 0 \<and> xl_mask c AND xl_base c = xl_mask c AND a)
     \<and> (\<forall>j < i - k. xl_mask (xs ! j) = 0 \<or> xl_mask (xs ! j) AND xl_base (xs ! j) \<noteq> xl_mask (xs ! j) AND a)"
proof (induction xs arbitrary: k)
  case (Cons x xs)
  show ?case
  proof (cases "xl_mask x \<noteq> 0 \<and> xl_mask x AND xl_base x = xl_mask x AND a")
    case True
    then show ?thesis by (auto simp: Let_def dest!: spec [of _ 0])
  next
    case False
    then have "first_match (x # xs) a k = Some i \<longleftrightarrow> first_match xs a (Suc k) = Some i" by auto
    also have "\<dots> \<longleftrightarrow> k \<le> i \<and> i - k < length (x # xs)
        \<and> (let c = (x # xs) ! (i - k) in xl_mask c \<noteq> 0 \<and> xl_mask c AND xl_base c = xl_mask c AND a)
        \<and> (\<forall>j < i - k. xl_mask ((x # xs) ! j) = 0
            \<or> xl_mask ((x # xs) ! j) AND xl_base ((x # xs) ! j) \<noteq> xl_mask ((x # xs) ! j) AND a)"
    proof (cases "k < i")
      case True
      then have "i - k = Suc (i - Suc k)" by simp
      with True False show ?thesis by (auto simp: Cons Let_def All_less_Suc2)
    next
      case nk: False
      with False show ?thesis by (auto simp: Cons Let_def)
    qed
    finally show ?thesis .
  qed
qed simp

text \<open>A cycle goes to the first enabled region that contains the address: region \<open>i\<close> is chosen
  exactly when its mask is not zero, the address agrees with its base under the mask, and no region
  before it does so; with no such region there is no match.\<close>

lemma first_region_matches:
  assumes "pci_wf p"
  defines "hit \<equiv> \<lambda>i. xl_mask (mem_target p ! i) \<noteq> 0
    \<and> xl_mask (mem_target p ! i) AND xl_base (mem_target p ! i) = xl_mask (mem_target p ! i) AND get_addr p"
  shows "(match_mem_target p = Some i \<longleftrightarrow> i < 8 \<and> hit i \<and> (\<forall>j < i. \<not> hit j))
    \<and> (match_mem_target p = None \<longleftrightarrow> (\<forall>j < 8. \<not> hit j))"
proof -
  have some: "match_mem_target p = Some i \<longleftrightarrow> i < 8 \<and> hit i \<and> (\<forall>j < i. \<not> hit j)" for i
    using assms(1) by (auto simp: match_mem_target_def TARGET_MEM_REGIONS_def first_match_spec Let_def hit_def)
  have "match_mem_target p = None \<longleftrightarrow> (\<forall>j < 8. \<not> hit j)"
  proof
    assume none: "match_mem_target p = None"
    show "\<forall>j < 8. \<not> hit j"
    proof (rule ccontr)
      assume "\<not> (\<forall>j < 8. \<not> hit j)"
      then obtain j where j: "j < 8" "hit j" by blast
      obtain i where "i \<le> j" "hit i" "\<forall>k < i. \<not> hit k"
        using exists_least_iff [of hit] j(2) by (metis linorder_not_less)
      then have "match_mem_target p = Some i" using j(1) some [of i] by auto
      with none show False by simp
    qed
  next
    assume "\<forall>j < 8. \<not> hit j"
    then show "match_mem_target p = None" using some by (cases "match_mem_target p") auto
  qed
  with some show ?thesis by blast
qed

section \<open>Byte enables\<close>

lemma all_lt_4: "(\<forall>i < 4. P i) \<longleftrightarrow> P 0 \<and> P 1 \<and> P 2 \<and> P (3 :: nat)"
  by (auto simp: numeral_eq_Suc less_Suc_eq)

lemma word_mod_small:
  assumes "m = 4 \<or> m = 8"
  shows "a mod of_nat m = (of_nat (unat a mod m) :: u64)"
  using assms by (auto simp: word_unat_eq_iff unat_mod unsigned_of_nat take_bit_nat_eq_self)

lemma offset_end:
  assumes "m = 4 \<or> m = 8" and "n < 4096"
  shows "(a mod of_nat m + word_of_int (int n)) mod of_nat m = (of_nat ((unat (a mod of_nat m) + n) mod m) :: u64)"
proof -
  have "unat (a mod of_nat m :: u64) < 8" using assms(1) by (auto simp: unat_mod)
  with assms(2) have "unat (a mod of_nat m + word_of_int (int n) :: u64) = unat (a mod of_nat m :: u64) + n"
    by (simp add: unat_word_ariths unsigned_of_nat take_bit_nat_eq_self)
  with word_mod_small [OF assms(1)] show ?thesis by simp
qed

text \<open>Which bytes of its last word a transfer of \<open>s\<close> bytes from an aligned address reaches.\<close>

lemma last_word:
  assumes "i < m" and "1 < (s + (m - 1)) div m"
  shows "m * ((s + (m - 1)) div m - 1) + i < s \<longleftrightarrow> s mod m = 0 \<or> i < (s mod m :: nat)"
proof -
  define q where "q = s div m"
  have s: "s = m * q + s mod m" by (simp add: q_def)
  have m: "0 < m" using assms(1) by simp
  show ?thesis
  proof (cases "s mod m = 0")
    case True
    with m s have d: "(s + (m - 1)) div m = q"
      by (metis add.right_neutral diff_less div_less div_mult_self4 less_one nat_neq_iff)
    with assms(2) obtain q' where "q = Suc q'" by (cases q) auto
    with True s d assms(1) show ?thesis by simp
  next
    case False
    have "(m * q + (s mod m + (m - 1))) div m = q + (s mod m + (m - 1)) div m"
      using m div_mult_self2 [of m "s mod m + (m - 1)" q] by (simp only: add.commute [of "m * q"] mult.commute)
    moreover have "(s mod m + (m - 1)) div m = 1"
      using False mod_less_divisor [OF m, of s] by (intro div_nat_eqI) auto
    ultimately have "(s + (m - 1)) div m = Suc q" using s by (metis Suc_eq_plus1 add.assoc)
    moreover have "m * q + i < m * q + s mod m \<longleftrightarrow> i < s mod m" by simp
    ultimately show ?thesis using False s by simp
  qed
qed

text \<open>The byte enables a 32-bit PCI-X target uses for the first and last word of a burst, computed
  by case tables, enable exactly the bytes of the transfer, for every start address and every byte
  count from 1 to 4095.\<close>

theorem ben4x_enables_transfer:
  fixes addr :: u64
  assumes "1 \<le> n" and "n < 4096"
  defines "off \<equiv> unat (addr mod 4)"
  defines "wc \<equiv> (off + n + 3) div 4"
  shows "case make_ben4x addr (int n) of (fb, lb) \<Rightarrow>
    (\<forall>i < 4. bit fb i \<longleftrightarrow> \<not> (off \<le> i \<and> i < off + n))
    \<and> (1 < wc \<longrightarrow> (\<forall>i < 4. bit lb i \<longleftrightarrow> \<not> 4 * (wc - 1) + i < off + n))"
proof -
  have a: "addr mod 4 = of_nat off" by (simp add: off_def)
  have off: "off < 4" by (simp add: off_def unat_mod)
  then consider (o) "off = 0" | (1) "off = 1" | (2) "off = 2" | (3) "off = 3" by linarith
  note off_cases = this
  have e: "(addr mod 4 + word_of_int (int n)) mod 4 = (of_nat ((off + n) mod 4) :: u64)"
    using offset_end [of 4 n addr] assms(2) by (simp add: off_def)
  have first: "\<forall>i < 4. bit (fst (make_ben4x addr (int n))) i \<longleftrightarrow> \<not> (off \<le> i \<and> i < off + n)"
    unfolding all_lt_4 using off_cases assms(1)
    by cases (auto simp: make_ben4x_def Let_def a bit_numeral_rec)
  define r where "r = (off + n) mod 4"
  have r: "r = 0 \<or> r = 1 \<or> r = 2 \<or> r = 3" by (auto simp: r_def)
  have last: "snd (make_ben4x addr (int n)) = (if r = 0 then 0 else if r = 1 then 0xe else if r = 2 then 0xc else 0x8) OR 0xf0"
    unfolding make_ben4x_def Let_def snd_conv e r_def [symmetric] using r by auto
  have "4 * (wc - 1) + i < off + n \<longleftrightarrow> r = 0 \<or> i < r" if "1 < wc" "i < 4" for i
    using last_word [of i 4 "off + n"] that unfolding wc_def r_def by simp
  then have "1 < wc \<longrightarrow> (\<forall>i < 4. bit (snd (make_ben4x addr (int n))) i \<longleftrightarrow> \<not> 4 * (wc - 1) + i < off + n)"
    unfolding last using r by (auto simp: all_lt_4 bit_numeral_rec)
  with first show ?thesis by (simp add: case_prod_unfold)
qed

theorem ben4x_enables_transfer_witness:
  "case make_ben4x 0x1003 (int 6) of (fb, lb) \<Rightarrow>
    (\<forall>i < 4. bit fb i \<longleftrightarrow> \<not> (3 \<le> i \<and> i < 9)) \<and> (\<forall>i < 4. bit lb i \<longleftrightarrow> \<not> 8 + i < (9 :: nat))"
  using ben4x_enables_transfer [of 6 "0x1003"] by simp

text \<open>C26: The same for a 64-bit target, where the enables are computed by shifts.\<close>

theorem ben8x_enables_transfer:
  fixes addr :: u64
  assumes "1 \<le> n" and "n < 4096"
  defines "off \<equiv> unat (addr mod 8)"
  defines "wc \<equiv> (off + n + 7) div 8"
  shows "case make_ben8x addr (int n) of (fb, lb) \<Rightarrow>
    (\<forall>i < 8. bit fb i \<longleftrightarrow> \<not> (off \<le> i \<and> i < off + n))
    \<and> (1 < wc \<longrightarrow> (\<forall>i < 8. bit lb i \<longleftrightarrow> \<not> 8 * (wc - 1) + i < off + n))"
proof -
  have off: "off < 8" by (simp add: off_def unat_mod)
  define r where "r = (off + n) mod 8"
  have r: "r < 8" by (simp add: r_def)
  have ff: "bit (0xff :: int) i \<longleftrightarrow> i < 8" for i
    using bit_mask_iff [of 8 i, where 'a = int] by (simp add: mask_eq_exp_minus_1)
  have add: "(addr + word_of_int (int n)) mod 8 = (addr mod 8 + word_of_int (int n)) mod 8"
    by (simp add: word_unat_eq_iff unat_mod unat_word_ariths mod_mod_cancel mod_simps)
  have e: "unat ((addr + word_of_int (int n)) mod 8) = r"
    unfolding add using offset_end [of 8 n addr] assms(2) r
    by (simp add: off_def r_def unsigned_of_nat take_bit_nat_eq_self)
  have lt: "addr mod 8 + word_of_int (int n) < 8 \<longleftrightarrow> off + n < 8"
    using off assms(2) by (simp add: word_less_nat_alt unat_word_ariths off_def unsigned_of_nat take_bit_nat_eq_self)
  define f where "f = (0xff AND NOT (push_bit off (- 1)) :: int)"
  define l where "l = (0xff AND push_bit r (- 1) :: int)"
  have b1: "bit f i \<longleftrightarrow> i < off" for i
    using off unfolding f_def by (auto simp: bit_simps ff)
  have b2: "bit l i \<longleftrightarrow> r \<le> i \<and> i < 8" for i
    unfolding l_def by (auto simp: bit_simps ff)
  have l_ff: "l = 0xff \<longleftrightarrow> r = 0"
  proof
    assume "l = 0xff"
    then have "bit l 0" by (simp add: ff)
    then show "r = 0" by (simp add: b2)
  next
    assume "r = 0"
    then show "l = 0xff" by (simp add: l_def)
  qed
  let ?m = "make_ben8x addr (int n)"
  have m: "?m = (if off + n < 8 then f OR (if r = 0 then 0 else l) else f, if r = 0 then 0 else l)"
    unfolding make_ben8x_def e lt off_def [symmetric] f_def [symmetric] l_def [symmetric] l_ff Let_def by simp
  have rn: "r = off + n" if "off + n < 8" using that by (simp add: r_def)
  have first: "bit (fst ?m) i \<longleftrightarrow> \<not> (off \<le> i \<and> i < off + n)" if "i < 8" for i
    using that rn assms(1) unfolding m by (auto simp: bit_or_iff b1 b2)
  have "8 * (wc - 1) + i < off + n \<longleftrightarrow> r = 0 \<or> i < r" if "1 < wc" "i < 8" for i
    using last_word [of i 8 "off + n"] that unfolding wc_def r_def by simp
  then have "bit (snd ?m) i \<longleftrightarrow> \<not> 8 * (wc - 1) + i < off + n" if "1 < wc" "i < 8" for i
    using that unfolding m by (auto simp: b2)
  with first show ?thesis by (simp add: case_prod_unfold)
qed

theorem ben8x_enables_transfer_witness:
  "case make_ben8x 0x1003 (int 11) of (fb, lb) \<Rightarrow>
    (\<forall>i < 8. bit fb i \<longleftrightarrow> \<not> (3 \<le> i \<and> i < 14)) \<and> (\<forall>i < 8. bit lb i \<longleftrightarrow> \<not> 8 + i < (14 :: nat))"
  using ben8x_enables_transfer [of 11 "0x1003"] by simp

section \<open>Cycles for somebody else\<close>

text \<open>A cycle that is not for this device is left alone: with no matching region, no dual address
  cycle and no configuration cycle that selects the device, the machine only notes that the bus is
  busy, and it stays busy, driving nothing, until FRAME# is released.\<close>

theorem foreign_cycle_ignored:
  assumes "target_state p = TARG_IDLE" and "pci_frame_n p = BIT_0" and "ident p < 16"
    and "match_mem_target p = None" and "get_command p \<noteq> 0x0d"
    and "pci_ad p ! (16 + unat (ident p)) \<noteq> BIT_1 \<or> get_command p \<noteq> 0x0a \<and> get_command p \<noteq> 0x0b"
  shows "pci_target_state_machine cb p = Done (p\<lparr>target_state := TARG_BUS_BUSY\<rparr>)
    \<and> (pci_frame_n q \<noteq> BIT_1 \<longrightarrow>
         pci_target_state_machine cb (q\<lparr>target_state := TARG_BUS_BUSY\<rparr>) = Done (q\<lparr>target_state := TARG_BUS_BUSY\<rparr>))
    \<and> (pci_frame_n q = BIT_1 \<longrightarrow>
         pci_target_state_machine cb (q\<lparr>target_state := TARG_BUS_BUSY\<rparr>) = Done (q\<lparr>target_state := TARG_IDLE\<rparr>))"
  using assms
  by (auto simp: pci_target_state_machine_def target_step_def target_idle_def get_idsel_def Let_def)

section \<open>Concrete runs\<close>

text \<open>A device with one region, and a host that owns the bus, both before the first clock.\<close>

definition demo_cb :: "nat handlers" where
  "demo_cb = \<lparr>h_need32 = (\<lambda>h u a b. (of_nat u, Suc u, [])), h_recv32 = (\<lambda>h u a v b. (unat v, [Call_wait_break]))\<rparr>"

definition demo_host :: "nat simbus_pci" where
  "demo_host = (init_simbus_pci ''host'' (script []) 0 7)
     \<lparr>pci_gnt_n := BIT_0, pci_frame_n := BIT_1, pci_irdy_n := BIT_1,
      pci_ad := replicate 64 BIT_1, pci_ack64_n := BIT_1,
      mem_target := (replicate 8 no_translation)[1 := \<lparr>xl_flags = 0, xl_base = 0xffff0000, xl_mask = 0xffff0000,
        xl_need32 = Some 0, xl_recv32 = Some 0\<rparr>]\<rparr>"

lemma demo_host_sel [simp]:
  "pci_clk demo_host = BIT_X" "pci_gnt_n demo_host = BIT_0" "pci_frame_n demo_host = BIT_1"
  "pci_irdy_n demo_host = BIT_1" "pci_devsel_n demo_host = BIT_0" "pci_trdy_n demo_host = BIT_0"
  "pci_ack64_n demo_host = BIT_1" "pcixcap demo_host = BIT_X" "target_state demo_host = TARG_IDLE"
  "pci_ad demo_host = replicate 64 BIT_1" "ident demo_host = 0" "out_req_n demo_host = BIT_1"
  "length (out_ad demo_host) = 64"
  by (simp_all add: demo_host_def init_simbus_pci_def)

lemma demo_host_idle [simp]: "pci_wf demo_host" "quiet demo_host"
  unfolding pci_wf_def quiet_def by (simp_all add: demo_host_def init_simbus_pci_def TARGET_MEM_REGIONS_def)

lemma demo_read_returns:
  "\<exists>v vx q. generic_pci_read32 demo_cb demo_host 0x1000 0xf6 0 r r2 = Done (0, v, vx, q)"
proof -
  have grant: "await_grant tsm 4096 (demo_host\<lparr>out_req_n := BIT_0\<rparr>) = Done (demo_host\<lparr>out_req_n := BIT_0\<rparr>)" for tsm
    by (subst await_grant.simps) (simp add: bus_taken_def)
  have trdy: "await_trdy 256 p = Done (0, p)" if "pci_trdy_n p = BIT_0" for p :: "nat simbus_pci"
    using that by (subst await_trdy.simps) simp
  show ?thesis
    by (simp add: generic_pci_read32_def generic_pci_read32_with_def pci_request_bus_with_def grant
        address_command_def dac_phase_def attr_phase_def drive_address_def posedge_unknown known_def
        next_parity_def read_phase_def wait_for_devsel_def wait_for_read_def trdy undrive_bus_def
        numeral_3_eq_3 Let_def)
qed

text \<open>The host's bus with nobody who answers.\<close>

definition deaf_host :: "nat simbus_pci" where
  "deaf_host = demo_host\<lparr>pci_devsel_n := BIT_1\<rparr>"

lemma deaf_host_idle: "pci_wf deaf_host" "quiet deaf_host"
  using demo_host_idle unfolding deaf_host_def pci_wf_def quiet_def by simp_all

lemma abort_write_returns: "\<exists>q. generic_pci_write32 demo_cb deaf_host 0x1000 0xf7 0x1234 0 = Done (-1, q)"
proof -
  have grant: "await_grant tsm 4096 (demo_host\<lparr>pci_devsel_n := BIT_1, out_req_n := BIT_0\<rparr>) =
      Done (demo_host\<lparr>pci_devsel_n := BIT_1, out_req_n := BIT_0\<rparr>)" for tsm
    by (subst await_grant.simps) (simp add: bus_taken_def)
  show ?thesis
    by (simp add: deaf_host_def generic_pci_write32_def generic_pci_write32_with_def pci_request_bus_with_def grant
        address_command_def dac_phase_def attr_phase_def drive_address_def posedge_unknown known_def
        next_parity_def setup_for_write_def wait_for_devsel_def GPCI_MASTER_ABORT_def undrive_bus_def
        numeral_3_eq_3 Let_def)
qed

theorem bus_released_witness:
  "(\<exists>v vx q. generic_pci_read32 demo_cb demo_host 0x1000 0xf6 0 0 0 = Done (0, v, vx, q) \<and> released q \<and> out_req_n q = BIT_1)
   \<and> (\<exists>q. generic_pci_write32 demo_cb deaf_host 0x1000 0xf7 0x1234 0 = Done (GPCI_MASTER_ABORT, q)
        \<and> idle q \<and> out_par q \<noteq> BIT_Z)"
proof
  obtain v vx q where r: "generic_pci_read32 demo_cb demo_host 0x1000 0xf6 0 0 0 = Done (0, v, vx, q)"
    using demo_read_returns by blast
  have "ret (generic_pci_read32 demo_cb demo_host 0x1000 0xf6 0 0 0) (\<lambda>(rc, v, vx, q). released q \<and> out_req_n q = BIT_1
      \<and> rc \<in> {0, GPCI_MASTER_ABORT, GPCI_TARGET_RETRY})"
    using bus_released [of demo_host demo_cb 0 None 1 1 "0x1000" "0xf6" 0 0 0 0] by simp
  with r show "\<exists>v vx q. generic_pci_read32 demo_cb demo_host 0x1000 0xf6 0 0 0 = Done (0, v, vx, q)
      \<and> released q \<and> out_req_n q = BIT_1" by simp
  obtain q where w: "generic_pci_write32 demo_cb deaf_host 0x1000 0xf7 0x1234 0 = Done (-1, q)"
    using abort_write_returns by blast
  have "ret (generic_pci_write32 demo_cb deaf_host 0x1000 0xf7 0x1234 0) (\<lambda>(rc, q). idle q \<and> out_req_n q = BIT_1
        \<and> (rc = 0 \<and> par_off q \<or> rc = GPCI_MASTER_ABORT \<and> out_par q \<noteq> BIT_Z))"
    using bus_released [OF deaf_host_idle, of demo_cb 0 None 1 1 "0x1000" "0xf7" 0 0 0 "0x1234"] by (elim conjE)
  with w show "\<exists>q. generic_pci_write32 demo_cb deaf_host 0x1000 0xf7 0x1234 0 = Done (GPCI_MASTER_ABORT, q)
      \<and> idle q \<and> out_par q \<noteq> BIT_Z" by (simp add: GPCI_MASTER_ABORT_def)
qed

theorem address_reaches_target_witness:
  "ret (dac_phase (drop_bit 32 0x123456789) (drive_address 0x123456789 False demo_host)) (\<lambda>q.
     get_addr ((do_target_DAC (demo_host\<lparr>pci_ad := out_ad (drive_address 0x123456789 False demo_host)\<rparr>))
       \<lparr>pci_ad := out_ad q\<rparr>) = 0x123456789)"
  using address_reaches_target [of demo_host demo_host "0x123456789" False]
  by (simp add: drop_bit_eq_div del: dac_phase_def)

lemma demo_addr: "get_addr demo_host = 0xffffffff"
proof -
  have "get_addr32 demo_host = mask 32"
    by (rule bit_word_eqI) (auto simp: bit_get_addr32 bit_mask_iff)
  then show ?thesis by (simp add: get_addr_split mask_eq_exp_minus_1)
qed

lemma demo_regions: "mem_target demo_host = (replicate 8 no_translation)[1 := \<lparr>xl_flags = 0, xl_base = 0xffff0000,
    xl_mask = 0xffff0000, xl_need32 = Some 0, xl_recv32 = Some 0\<rparr>]"
  by (simp add: demo_host_def)

lemma no_region: "first_match (replicate n no_translation) a k = None"
  by (induction n arbitrary: k) (simp_all add: no_translation_def)

lemma demo_command: "pci_c_be demo_host = replicate 8 BIT_0"
  by (simp add: demo_host_def init_simbus_pci_def)

theorem foreign_cycle_ignored_witness:
  "pci_target_state_machine demo_cb (demo_host\<lparr>pci_frame_n := BIT_0, mem_target := replicate 8 no_translation\<rparr>)
     = Done (demo_host\<lparr>pci_frame_n := BIT_0, mem_target := replicate 8 no_translation, target_state := TARG_BUS_BUSY\<rparr>)"
  by (rule foreign_cycle_ignored [THEN conjunct1, THEN trans])
    (simp_all add: match_mem_target_def TARGET_MEM_REGIONS_def no_region get_command_def demo_command)

end
