(* ===== verification/Sim_PCI_Access.thy ===== *)
theory Sim_PCI_Access
  imports Sim_PCI_Target
begin

text \<open>
  The PCI transactions a host program calls: simbus_pci_rw32.c, simbus_pci_rw64.c,
  simbus_pci_config.c, and the memory-device client simbus_pci_memdev.c on top of them.

  The automatic retry loops go on as long as the target answers with a retry.  A turn that
  consumed no input found every line as it was before and will do so again, which is the outcome
  \<open>Diverges\<close>.
\<close>

section \<open>32-bit accesses\<close>

function read32_loop ::
  "'d handlers \<Rightarrow> u64 \<Rightarrow> int \<Rightarrow> u32 \<Rightarrow> u32 \<Rightarrow> 'd simbus_pci \<Rightarrow> (int \<times> u32 \<times> u32 \<times> 'd simbus_pci) outcome" where
  "read32_loop cb addr BEn val valx pci =
     obind (generic_pci_read32 cb pci addr 0xf6 BEn val valx) (\<lambda>(rc, v, vx, p).
       if rc = GPCI_TARGET_RETRY
       then if pending (fd p) < pending (fd pci) then read32_loop cb addr BEn v vx p else Stop Diverges
       else if rc \<ge> 0 then Done (0, v, vx, p)
       else Done (SIMBUS_PCI_ERROR, v, vx, p))"
  by pat_completeness auto
termination by (relation "measure (\<lambda>(cb, a, b, v, vx, p). pending (fd p))") auto

declare read32_loop.simps [simp del]

definition simbus_pci_read32_xz ::
  "'d handlers \<Rightarrow> 'd simbus_pci \<Rightarrow> u64 \<Rightarrow> int \<Rightarrow> (int \<times> u32 \<times> u32 \<times> 'd simbus_pci) outcome" where
  "simbus_pci_read32_xz cb pci addr BEn = read32_loop cb addr BEn 0xffffffff 0xffffffff pci"

definition simbus_pci_read32 :: "'d handlers \<Rightarrow> 'd simbus_pci \<Rightarrow> u64 \<Rightarrow> int \<Rightarrow> (u32 \<times> 'd simbus_pci) outcome" where
  "simbus_pci_read32 cb pci addr BEn =
     obind (simbus_pci_read32_xz cb pci addr BEn) (\<lambda>(rc, val, valx, p).
       Done (if valx \<noteq> 0 then 0xffffffff else val, p))"

definition simbus_pci_write32 :: "'d handlers \<Rightarrow> 'd simbus_pci \<Rightarrow> u64 \<Rightarrow> u32 \<Rightarrow> int \<Rightarrow> 'd simbus_pci outcome" where
  "simbus_pci_write32 cb pci addr val BEn =
     obind (generic_pci_write32 cb pci addr 0xf7 val BEn) (\<lambda>(rc, p). Done p)"

text \<open>Lines 107 to 131: the words after the first; the number left over is returned.\<close>

fun write_words :: "int \<Rightarrow> u32 list \<Rightarrow> 'd simbus_pci \<Rightarrow> (nat \<times> 'd simbus_pci) outcome" where
  "write_words BELn [] pci = Done (0, pci)"
| "write_words BELn (v # vs) pci =
     obind (if vs \<noteq> [] then setup_for_write pci (ucast v) 0 False
            else setup_for_write (pci\<lparr>out_frame_n := BIT_1\<rparr>) (ucast v) BELn False) (\<lambda>p1.
     obind (clocked (\<lambda>p. pci_trdy_n p \<noteq> BIT_0) p1) (\<lambda>p2.
       if pci_stop_n p2 = BIT_0
       then obind (pci_next_posedge (p2\<lparr>out_frame_n := BIT_1, out_irdy_n := BIT_1\<rparr>)) (\<lambda>p3. Done (length vs, p3))
       else write_words BELn vs p2))"

definition simbus_pci_write32b ::
  "'d handlers \<Rightarrow> 'd simbus_pci \<Rightarrow> u64 \<Rightarrow> u32 list \<Rightarrow> nat \<Rightarrow> int \<Rightarrow> int \<Rightarrow> (int \<times> 'd simbus_pci) outcome" where
  "simbus_pci_write32b cb pci addr val words BEFn BELn =
     c_assert (words > 0) (c_assert (words > 1 \<or> BEFn = BELn) (c_defined (words \<le> length val)
       (if words = 1 then obind (simbus_pci_write32 cb pci addr (val ! 0) BEFn) (\<lambda>p. Done (1, p))
        else
          obind (pci_request_bus cb pci) (\<lambda>p1.
          obind (address_command (p1\<lparr>out_req_n := BIT_1\<rparr>) addr 0xf7 BEFn False True) (\<lambda>p2.
          obind (setup_for_write p2 (ucast (val ! 0)) BEFn False) (\<lambda>p3.
          obind (wait_for_devsel p3) (\<lambda>(rc, p4).
            if rc < 0 then Done (rc, p4)
            else
              obind (clocked (\<lambda>p. pci_trdy_n p \<noteq> BIT_0) p4) (\<lambda>p5.
              obind (write_words BELn (tl (take words val)) p5) (\<lambda>(remain, p6).
              obind (pci_next_posedge (undrive_bus p6)) (\<lambda>p7.
                Done (int words - int remain, p7)))))))))))"

section \<open>64-bit accesses\<close>

text \<open>One turn of the loop of \<open>simbus_pci_read64\<close>: what it read, and how the turn ended.\<close>

datatype turn = Turn_abort | Turn_retry | Turn_done

definition read64_turn ::
  "'d handlers \<Rightarrow> u64 \<Rightarrow> int \<Rightarrow> u64 \<Rightarrow> u64 \<Rightarrow> 'd simbus_pci \<Rightarrow> (turn \<times> u64 \<times> u64 \<times> 'd simbus_pci) outcome" where
  "read64_turn cb addr BEn val valx pci =
     obind (pci_request_bus cb pci) (\<lambda>p1.
     obind (address_command (p1\<lparr>out_req_n := BIT_1\<rparr>) addr 0xf6 BEn True False) (\<lambda>p2.
     obind (wait_for_devsel
         (p2\<lparr>out_c_be := put_bits 0 8 BEn (out_c_be p2), out_ad := fill_bits 0 64 BIT_Z (out_ad p2)\<rparr>)) (\<lambda>(rc, p3).
       if rc < 0 then Done (Turn_abort, val, valx, p3)
       else
         obind (wait_for_read p3 val valx) (\<lambda>(rc, v, vx, p4).
           if rc = GPCI_TARGET_RETRY
           then obind (pci_next_posedge (undrive_bus p4)) (\<lambda>p5. Done (Turn_retry, v, vx, p5))
           else c_assert (rc \<ge> 0)
             (if out_frame_n p4 \<noteq> BIT_0 then Done (Turn_done, v, vx, p4)
              else
                obind (pci_next_posedge (p4\<lparr>out_frame_n := BIT_1, out_req64_n := BIT_1\<rparr>)) (\<lambda>p5.
                obind (wait_for_read p5 0 0) (\<lambda>(rc, hival, hivalx, p6).
                  c_assert (rc \<ge> 0) (Done (Turn_done, v OR push_bit 32 hival, vx, p6)))))))))"

function read64_loop ::
  "'d handlers \<Rightarrow> u64 \<Rightarrow> int \<Rightarrow> u64 \<Rightarrow> u64 \<Rightarrow> 'd simbus_pci \<Rightarrow> (u64 \<times> 'd simbus_pci) outcome" where
  "read64_loop cb addr BEn val valx pci =
     obind (read64_turn cb addr BEn val valx pci) (\<lambda>(t, v, vx, p).
       case t of
         Turn_abort \<Rightarrow> Done (0xffffffffffff, p)
       | Turn_retry \<Rightarrow>
           if pending (fd p) < pending (fd pci) then read64_loop cb addr BEn v vx p else Stop Diverges
       | Turn_done \<Rightarrow> obind (pci_next_posedge (undrive_bus p)) (\<lambda>p1. Done (v, p1)))"
  by pat_completeness auto
termination by (relation "measure (\<lambda>(cb, a, b, v, vx, p). pending (fd p))") auto

declare read64_loop.simps [simp del]

definition simbus_pci_read64 :: "'d handlers \<Rightarrow> 'd simbus_pci \<Rightarrow> u64 \<Rightarrow> int \<Rightarrow> (u64 \<times> 'd simbus_pci) outcome" where
  "simbus_pci_read64 cb pci addr BEn =
     read64_loop cb addr BEn 0xffffffffffffffff 0xffffffffffffffff pci"

definition simbus_pci_write64 :: "'d handlers \<Rightarrow> 'd simbus_pci \<Rightarrow> u64 \<Rightarrow> u64 \<Rightarrow> int \<Rightarrow> 'd simbus_pci outcome" where
  "simbus_pci_write64 cb pci addr val BEn =
     obind (pci_request_bus cb pci) (\<lambda>p1.
     obind (address_command (p1\<lparr>out_req_n := BIT_1\<rparr>) addr 0xf7 BEn True False) (\<lambda>p2.
     obind (setup_for_write p2 val BEn True) (\<lambda>p3.
     obind (wait_for_devsel p3) (\<lambda>(rc, p4).
       if rc < 0 then Done p4
       else
         obind (clocked (\<lambda>p. pci_trdy_n p \<noteq> BIT_0) p4) (\<lambda>p5.
           if out_frame_n p5 = BIT_1 then pci_next_posedge (undrive_bus p5)
           else
             obind (setup_for_write (p5\<lparr>out_frame_n := BIT_1, out_req64_n := BIT_1\<rparr>) (drop_bit 32 val) (drop_bit 4 BEn) False) (\<lambda>p6.
             obind (clocked (\<lambda>p. pci_trdy_n p \<noteq> BIT_0) p6) (\<lambda>p7.
               pci_next_posedge (undrive_bus p7))))))))"

text \<open>\<open>for (idx ... ; addr += 4)\<close>: the address advances by 4 per 64-bit word.\<close>

fun write64_words ::
  "'d handlers \<Rightarrow> nat \<Rightarrow> int \<Rightarrow> int \<Rightarrow> nat \<Rightarrow> u64 \<Rightarrow> u64 list \<Rightarrow> 'd simbus_pci \<Rightarrow> 'd simbus_pci outcome" where
  "write64_words cb words BEFn BELn idx addr [] pci = Done pci"
| "write64_words cb words BEFn BELn idx addr (v # vs) pci =
     obind (simbus_pci_write64 cb pci addr v
         (if idx = 0 then BEFn else if Suc idx = words then BELn else 0))
       (write64_words cb words BEFn BELn (Suc idx) (addr + 4) vs)"

definition simbus_pci_write64b ::
  "'d handlers \<Rightarrow> 'd simbus_pci \<Rightarrow> u64 \<Rightarrow> u64 list \<Rightarrow> nat \<Rightarrow> int \<Rightarrow> int \<Rightarrow> (int \<times> 'd simbus_pci) outcome" where
  "simbus_pci_write64b cb pci addr val words BEFn BELn =
     c_assert (words > 0) (c_assert (words > 1 \<or> BEFn = BELn) (c_defined (words \<le> length val)
       (obind (write64_words cb words BEFn BELn 0 addr (take words val) pci) (\<lambda>p. Done (int words, p)))))"

section \<open>Configuration accesses\<close>

definition make_type0_addr :: "u8 \<Rightarrow> u16 \<Rightarrow> u64" where
  "make_type0_addr dfn dw_addr =
     ((ucast dw_addr AND 0xfc) OR push_bit 8 (ucast dfn)) OR push_bit (unat (dfn div 8)) 0x10000"

definition simbus_pci_config_read :: "'d handlers \<Rightarrow> 'd simbus_pci \<Rightarrow> u8 \<Rightarrow> u16 \<Rightarrow> (u32 \<times> 'd simbus_pci) outcome" where
  "simbus_pci_config_read cb pci dfn dw_addr =
     obind (generic_pci_read32 cb pci (make_type0_addr dfn dw_addr) 0xfa 0xf0 0xffffffff 0) (\<lambda>(rc, val, valx, p).
       if rc < 0 then Done (0xffffffff, p) else Done (val, p))"

definition simbus_pci_config_write ::
  "'d handlers \<Rightarrow> 'd simbus_pci \<Rightarrow> u8 \<Rightarrow> u16 \<Rightarrow> u32 \<Rightarrow> int \<Rightarrow> 'd simbus_pci outcome" where
  "simbus_pci_config_write cb pci dfn dw_addr val BEn =
     obind (generic_pci_write32 cb pci (make_type0_addr dfn dw_addr) 0xfb val BEn) (\<lambda>(rc, p). Done p)"

section \<open>The memory device\<close>

definition FILL_CMD :: u32 where "FILL_CMD = 0"
definition COMPARE_CMD :: u32 where "COMPARE_CMD = 1"
definition LOAD_CMD :: u32 where "LOAD_CMD = 2"
definition SAVE_CMD :: u32 where "SAVE_CMD = 3"

record 'd simbus_pci_memdev =
  bus :: "'d simbus_pci"
  dfn :: u8
  devid :: u32
  base_memory :: u64
  base_cntrl :: u64

definition m1writel :: "'d handlers \<Rightarrow> u64 \<Rightarrow> u32 \<Rightarrow> 'd simbus_pci_memdev \<Rightarrow> 'd simbus_pci_memdev outcome" where
  "m1writel cb off val xsp =
     obind (simbus_pci_write32 cb (bus xsp) (base_cntrl xsp + off) val 0) (\<lambda>p. Done (xsp\<lparr>bus := p\<rparr>))"

definition m1readl :: "'d handlers \<Rightarrow> u64 \<Rightarrow> 'd simbus_pci_memdev \<Rightarrow> (u32 \<times> 'd simbus_pci_memdev) outcome" where
  "m1readl cb off xsp =
     obind (simbus_pci_read32 cb (bus xsp) (base_cntrl xsp + off) 0) (\<lambda>(v, p). Done (v, xsp\<lparr>bus := p\<rparr>))"

definition bar_address :: "u32 \<Rightarrow> u32 \<Rightarrow> u64" where
  "bar_address lo hi = ucast (lo AND NOT 15) OR push_bit 32 (ucast hi)"

definition simbus_pci_memdev_init ::
  "'d handlers \<Rightarrow> 'd simbus_pci \<Rightarrow> u8 \<Rightarrow> 'd simbus_pci_memdev outcome" where
  "simbus_pci_memdev_init cb b d =
     obind (simbus_pci_config_read cb b d 0) (\<lambda>(i, p0).
       c_assert (i = 0xffc112c5)
         (obind (simbus_pci_config_read cb p0 d 16) (\<lambda>(v0, p1).
          obind (simbus_pci_config_read cb p1 d 20) (\<lambda>(v1, p2).
          obind (simbus_pci_config_read cb p2 d 24) (\<lambda>(v2, p3).
          obind (simbus_pci_config_read cb p3 d 28) (\<lambda>(v3, p4).
            Done \<lparr>bus = p4, dfn = d, devid = i, base_memory = bar_address v0 v1,
                  base_cntrl = bar_address v2 v3\<rparr>))))))"

definition simbus_pci_memdev_start :: "'d simbus_pci_memdev \<Rightarrow> u64" where
  "simbus_pci_memdev_start xsp = base_memory xsp"

definition simbus_pci_memdev_fill ::
  "'d handlers \<Rightarrow> 'd simbus_pci_memdev \<Rightarrow> u64 \<Rightarrow> u32 \<Rightarrow> u32 \<Rightarrow> 'd simbus_pci_memdev outcome" where
  "simbus_pci_memdev_fill cb xsp off cnt fill =
     obind (m1writel cb 4 (ucast off) xsp) (\<lambda>x1.
     obind (m1writel cb 8 cnt x1) (\<lambda>x2.
     obind (m1writel cb 12 fill x2) (\<lambda>x3.
       m1writel cb 0 FILL_CMD x3)))"

definition simbus_pci_memdev_compare ::
  "'d handlers \<Rightarrow> 'd simbus_pci_memdev \<Rightarrow> u64 \<Rightarrow> u64 \<Rightarrow> u32 \<Rightarrow> (int \<times> 'd simbus_pci_memdev) outcome" where
  "simbus_pci_memdev_compare cb xsp off0 off1 cnt0 =
     obind (m1writel cb 4 (ucast off0) xsp) (\<lambda>x1.
     obind (m1writel cb 8 cnt0 x1) (\<lambda>x2.
     obind (m1writel cb 12 (ucast off1) x2) (\<lambda>x3.
     obind (m1writel cb 0 COMPARE_CMD x3) (\<lambda>x4.
     obind (m1readl cb 0 x4) (\<lambda>(rc, x5).
       Done (if rc = 0 then 0 else 1, x5))))))"

text \<open>
  The file name, four characters per word, low byte first; past the end the bytes are 0.  The
  loop steps over a character only if it is not the terminator.
\<close>

definition char_byte :: "char \<Rightarrow> u32" where
  "char_byte c = of_nat (of_char c)"

fun file_words :: "string \<Rightarrow> u32 list" where
  "file_words [] = []"
| "file_words (c0 # cs) =
     (let c1 = char0 cs; cs1 = (if c1 \<noteq> NUL then tl cs else cs);
          c2 = char0 cs1; cs2 = (if c2 \<noteq> NUL then tl cs1 else cs1);
          c3 = char0 cs2; cs3 = (if c3 \<noteq> NUL then tl cs2 else cs2)
      in (((char_byte c0 OR push_bit 8 (char_byte c1)) OR push_bit 16 (char_byte c2)) OR push_bit 24 (char_byte c3))
         # file_words cs3)"

fun m1write_list :: "'d handlers \<Rightarrow> u64 \<Rightarrow> u32 list \<Rightarrow> 'd simbus_pci_memdev \<Rightarrow> (u64 \<times> 'd simbus_pci_memdev) outcome" where
  "m1write_list cb rc [] xsp = Done (rc, xsp)"
| "m1write_list cb rc (w # ws) xsp = obind (m1writel cb rc w xsp) (m1write_list cb (rc + 4) ws)"

definition memdev_file_command ::
  "u32 \<Rightarrow> 'd handlers \<Rightarrow> 'd simbus_pci_memdev \<Rightarrow> u64 \<Rightarrow> u32 \<Rightarrow> string \<Rightarrow> (int \<times> 'd simbus_pci_memdev) outcome" where
  "memdev_file_command cmd cb xsp offset count file =
     obind (m1writel cb 4 (ucast offset) xsp) (\<lambda>x1.
     obind (m1writel cb 8 count x1) (\<lambda>x2.
     obind (m1write_list cb 12 (file_words (cstr file)) x2) (\<lambda>(rc, x3).
     obind (m1writel cb rc 0 x3) (\<lambda>x4.
     obind (m1writel cb 0 cmd x4) (\<lambda>x5.
     obind (m1readl cb 0 x5) (\<lambda>(v, x6). Done (sint v, x6)))))))"

definition simbus_pci_memdev_load ::
  "'d handlers \<Rightarrow> 'd simbus_pci_memdev \<Rightarrow> u64 \<Rightarrow> u32 \<Rightarrow> string \<Rightarrow> (int \<times> 'd simbus_pci_memdev) outcome" where
  "simbus_pci_memdev_load = memdev_file_command LOAD_CMD"

definition simbus_pci_memdev_save ::
  "'d handlers \<Rightarrow> 'd simbus_pci_memdev \<Rightarrow> u64 \<Rightarrow> u32 \<Rightarrow> string \<Rightarrow> (int \<times> 'd simbus_pci_memdev) outcome" where
  "simbus_pci_memdev_save = memdev_file_command SAVE_CMD"

section \<open>Every access lets go of the bus\<close>

text \<open>
  How a write leaves the bus: all released, or, if nobody answered it, with the parity of its data
  still driven.
\<close>

definition vacated :: "'d simbus_pci \<Rightarrow> bool" where
  "vacated p \<longleftrightarrow> idle p \<and> (par_off p \<or> pci_devsel_n p \<noteq> BIT_0 \<and> out_par p \<noteq> BIT_Z)"

lemma done_idle: "done_with p \<Longrightarrow> released p"
  by (simp add: done_with_def busy_def)

lemma vacated_idle: "vacated p \<Longrightarrow> idle p"
  by (simp add: vacated_def)

lemma released_vacated: "ret m released \<Longrightarrow> ret m vacated"
  by (erule ret_mono) (simp add: vacated_def)

lemma read32_idle: "idle p \<Longrightarrow> ret (generic_pci_read32 cb p a c b r r2) (\<lambda>(rc, v, vx, q). released q)"
  unfolding generic_pci_read32_def by (rule ret_mono [OF tgt.read32_done]) (auto dest: done_idle)

lemma write32_idle: "idle p \<Longrightarrow> ret (generic_pci_write32 cb p a c v b) (\<lambda>(rc, q). vacated q)"
  unfolding generic_pci_write32_def
  by (rule ret_mono [OF tgt.write32_done]) (auto simp: write_end_def vacated_def busy_wf dest: done_idle)

lemma read32_loop_idle: "idle p \<Longrightarrow> ret (read32_loop cb a b v vx p) (\<lambda>(rc, v, vx, q). released q)"
proof (induction "pending (fd p)" arbitrary: v vx p rule: less_induct)
  case less
  show ?case
    by (subst read32_loop.simps, rule ret_seq [OF read32_idle [OF less.prems]])
      (use less.hyps in auto)
qed

lemma release_idle: "busy p \<Longrightarrow> ret (pci_next_posedge (undrive_bus p)) released"
  by (rule ret_mono [OF release_clock]) (auto dest: done_idle)

lemma write_words_busy: "busy p \<Longrightarrow> ret (write_words b vs p) (\<lambda>(n, q). busy q \<and> n \<le> length vs)"
proof (induction vs arbitrary: p)
  case (Cons v vs)
  have su: "ret (if vs \<noteq> [] then setup_for_write p (ucast v) 0 False
      else setup_for_write (p\<lparr>out_frame_n := BIT_1\<rparr>) (ucast v) b False) busy"
    using Cons.prems by (auto intro: ret_mono [OF setup_for_write_busy])
  have last: "ret (obind (pci_next_posedge (q\<lparr>out_frame_n := BIT_1, out_irdy_n := BIT_1\<rparr>)) (\<lambda>p3. Done (length vs, p3)))
      (\<lambda>(n, q). busy q \<and> n \<le> length (v # vs))" if "busy q" for q :: "'a simbus_pci"
    by (rule posedge_busy_seq) (use that in auto)
  show ?case
    by (subst write_words.simps, rule ret_seq [OF su], rule ret_seq [OF clocked_busy], assumption)
      (use last in \<open>auto simp del: ret_obind intro: ret_mono [OF Cons.IH]\<close>)
qed simp

text \<open>The start of every master transaction: the bus is won, the address and command are sent.\<close>

lemma request_address:
  assumes "idle p" and "\<And>q. busy q \<Longrightarrow> ret (f q) P"
  shows "ret (obind (pci_request_bus cb p) (\<lambda>p1.
      obind (address_command (p1\<lparr>out_req_n := BIT_1\<rparr>) a c b g h) f)) P"
  unfolding pci_request_bus_def
  by (rule ret_seq [OF tgt.request_bus_granted [OF idle_resting [OF assms(1)]]], rule ret_seq [OF address_command_busy])
    (use assms(2) in \<open>simp_all add: busy_def\<close>)

lemma devsel_then:
  assumes "busy p"
    and "\<And>q. busy q \<Longrightarrow> quiet q \<Longrightarrow> pci_devsel_n q \<noteq> BIT_0
      \<Longrightarrow> out_ad p = replicate 64 BIT_Z \<longrightarrow> par_off q \<Longrightarrow> out_ad p ! 0 \<noteq> BIT_Z \<longrightarrow> out_par q \<noteq> BIT_Z
      \<Longrightarrow> P (g GPCI_MASTER_ABORT q)"
    and "\<And>q. busy q \<Longrightarrow> ret (f q) P"
  shows "ret (obind (wait_for_devsel p) (\<lambda>(rc, q). if rc < 0 then Done (g rc q) else f q)) P"
  by (rule ret_seq2 [OF wait_for_devsel_busy [OF assms(1)]])
    (auto simp del: ret_obind simp: GPCI_MASTER_ABORT_def assms(2) [unfolded GPCI_MASTER_ABORT_def] assms(3))

lemma devsel_write:
  assumes "busy p" and "out_ad p ! 0 \<noteq> BIT_Z" and "\<And>q. vacated q \<Longrightarrow> P (g GPCI_MASTER_ABORT q)"
    and "\<And>q. busy q \<Longrightarrow> ret (f q) P"
  shows "ret (obind (wait_for_devsel p) (\<lambda>(rc, q). if rc < 0 then Done (g rc q) else f q)) P"
  by (rule devsel_then [OF assms(1)]) (use assms(2) in \<open>auto intro!: assms(3,4) simp: vacated_def busy_wf\<close>)

lemma write32b_idle: "idle p \<Longrightarrow> ret (simbus_pci_write32b cb p a vs n b1 b2) (\<lambda>(rc, q). vacated q)"
proof -
  assume i: "idle p"
  have tail: "ret (obind (clocked (\<lambda>p. pci_trdy_n p \<noteq> BIT_0) q) (\<lambda>p5.
      obind (write_words b2 ws p5) (\<lambda>(remain, p6).
      obind (pci_next_posedge (undrive_bus p6)) (\<lambda>p7. Done (int n - int remain, p7))))) (\<lambda>(rc, q). vacated q)"
    if "busy q" for q :: "'a simbus_pci" and ws
    by (rule ret_seq [OF clocked_busy [OF that]], rule ret_seq [OF write_words_busy], assumption)
      (auto simp del: ret_obind simp: vacated_def intro!: ret_seq [OF release_idle])
  have body: "ret (obind (setup_for_write q v b1 False) (\<lambda>p3.
      obind (wait_for_devsel p3) (\<lambda>(rc, p4). if rc < 0 then Done (rc, p4)
        else obind (clocked (\<lambda>p. pci_trdy_n p \<noteq> BIT_0) p4) (\<lambda>p5.
      obind (write_words b2 ws p5) (\<lambda>(remain, p6).
      obind (pci_next_posedge (undrive_bus p6)) (\<lambda>p7. Done (int n - int remain, p7))))))) (\<lambda>(rc, q). vacated q)"
    if "busy q" for q :: "'a simbus_pci" and ws v
    by (rule ret_seq [OF setup_for_write_busy [OF that]], rule devsel_write) (auto simp del: ret_obind intro: tail)
  have one: "ret (obind (simbus_pci_write32 cb p a v b1) (\<lambda>p. Done (1, p))) (\<lambda>(rc, q). vacated q)" for v
    unfolding simbus_pci_write32_def by (rule ret_seq [OF ret_seq [OF write32_idle [OF i], where P = vacated]]) auto
  show ?thesis
    unfolding simbus_pci_write32b_def
    by (simp only: ret_c_assert ret_c_defined ret_if, intro conjI impI, rule one,
        rule request_address [OF i], rule body)
qed

lemma read64_turn_busy:
  assumes "idle p"
  shows "ret (read64_turn cb a b v vx p) (\<lambda>(t, v, vx, q). if t = Turn_done then busy q else released q)"
proof -
  have rest: "ret (obind (pci_next_posedge (q\<lparr>out_frame_n := BIT_1, out_req64_n := BIT_1\<rparr>)) (\<lambda>p5.
      obind (wait_for_read p5 0 0) (\<lambda>(rc, h, hx, p6). c_assert (rc \<ge> 0) (Done (Turn_done, w OR push_bit 32 h, wx, p6)))))
      (\<lambda>(t, v, vx, q). if t = Turn_done then busy q else released q)" if "busy q"
    for q :: "'a simbus_pci" and w :: u64 and wx :: u64
    by (rule posedge_busy_seq, use that in simp, rule ret_seq [OF wait_for_read_busy]) auto
  have retry: "ret (obind (pci_next_posedge (undrive_bus q)) (\<lambda>p5. Done (Turn_retry, w, wx, p5)))
      (\<lambda>(t, v, vx, q). if t = Turn_done then busy q else released q)" if "busy q"
    for q :: "'a simbus_pci" and w :: u64 and wx :: u64
    by (rule ret_seq [OF release_idle [OF that]]) simp
  have data: "ret (obind (wait_for_read q v vx) (\<lambda>(rc, v, vx, p4).
      if rc = GPCI_TARGET_RETRY
      then obind (pci_next_posedge (undrive_bus p4)) (\<lambda>p5. Done (Turn_retry, v, vx, p5))
      else c_assert (rc \<ge> 0)
        (if out_frame_n p4 \<noteq> BIT_0 then Done (Turn_done, v, vx, p4)
         else
           obind (pci_next_posedge (p4\<lparr>out_frame_n := BIT_1, out_req64_n := BIT_1\<rparr>)) (\<lambda>p5.
           obind (wait_for_read p5 0 0) (\<lambda>(rc, h, hx, p6).
             c_assert (rc \<ge> 0) (Done (Turn_done, v OR push_bit 32 h, vx, p6)))))))
      (\<lambda>(t, v, vx, q). if t = Turn_done then busy q else released q)" if "busy q" for q :: "'a simbus_pci"
    by (rule ret_seq [OF wait_for_read_busy [OF that]])
      (use rest retry in \<open>auto simp del: ret_obind split del: if_split simp: ret_if\<close>)
  show ?thesis
    unfolding read64_turn_def
    by (rule request_address [OF assms], rule devsel_then, simp, simp add: fill_bits_all busy_wf, rule data)
qed

lemma read64_loop_idle: "idle p \<Longrightarrow> ret (read64_loop cb a b v vx p) (\<lambda>(v, q). released q)"
proof (induction "pending (fd p)" arbitrary: v vx p rule: less_induct)
  case less
  have rel: "ret (obind (pci_next_posedge (undrive_bus q)) (\<lambda>p1. Done (w, p1))) (\<lambda>(v, q). released q)" if "busy q"
    for q :: "'a simbus_pci" and w :: u64
    by (rule ret_seq [OF release_idle [OF that]]) simp
  show ?case
    by (subst read64_loop.simps, rule ret_seq [OF read64_turn_busy [OF less.prems]])
      (use less.hyps rel in \<open>auto simp del: ret_obind split: turn.split\<close>)
qed

lemma write64_idle: "idle p \<Longrightarrow> ret (simbus_pci_write64 cb p a v b) vacated"
proof -
  assume i: "idle p"
  have second: "ret (obind (setup_for_write (q\<lparr>out_frame_n := BIT_1, out_req64_n := BIT_1\<rparr>) w c False) (\<lambda>p6.
      obind (clocked (\<lambda>p. pci_trdy_n p \<noteq> BIT_0) p6) (\<lambda>p7. pci_next_posedge (undrive_bus p7)))) released"
    if "busy q" for q :: "'a simbus_pci" and w c
    by (rule ret_seq [OF setup_for_write_busy], use that in simp, rule ret_seq [OF clocked_busy], erule conjunct1,
        rule release_idle)
  have data: "ret (obind (clocked (\<lambda>p. pci_trdy_n p \<noteq> BIT_0) q) (\<lambda>p5.
      if out_frame_n p5 = BIT_1 then pci_next_posedge (undrive_bus p5)
      else obind (setup_for_write (p5\<lparr>out_frame_n := BIT_1, out_req64_n := BIT_1\<rparr>) w c False) (\<lambda>p6.
        obind (clocked (\<lambda>p. pci_trdy_n p \<noteq> BIT_0) p6) (\<lambda>p7. pci_next_posedge (undrive_bus p7))))) released"
    if "busy q" for q :: "'a simbus_pci" and w c
    by (rule ret_seq [OF clocked_busy [OF that]]) (use second release_idle in \<open>auto simp del: ret_obind\<close>)
  show ?thesis
    unfolding simbus_pci_write64_def
    by (rule request_address [OF i], rule ret_seq [OF setup_for_write_busy], assumption,
        rule devsel_write [where g = "\<lambda>rc q. q"]) (auto simp del: ret_obind intro: released_vacated [OF data])
qed

lemma write64_words_idle: "idle p \<Longrightarrow> vs \<noteq> [] \<Longrightarrow> ret (write64_words cb n b1 b2 i a vs p) vacated"
proof (induction vs arbitrary: i a p)
  case (Cons v vs)
  show ?case
    by (subst write64_words.simps, rule ret_seq [OF write64_idle [OF Cons.prems(1)]])
      (cases "vs = []", use Cons.IH vacated_idle in auto)
qed simp

text \<open>C28: Every transaction a host can start lets go of the bus again: from a state in which FRAME#, REQ64#,
  ACK64#, IRDY#, TRDY#, STOP#, DEVSEL#, C/BE# and AD are released, 32- and 64-bit reads and writes,
  write bursts and configuration accesses all end in such a state, whatever the target does (no
  answer, retry, disconnect, 32-bit answer to a 64-bit request).  After every read PAR and PAR64
  are released as well.  After a write they are, or nobody answered it (DEVSEL# not low) and
  PAR is still driven: the functions return from the master abort without another clock, and most of
  them without telling the caller.\<close>

theorem accesses_release_bus:
  assumes "pci_wf p" and "quiet p"
  shows "ret (simbus_pci_read32 cb p a b) (\<lambda>(v, q). released q)
    \<and> ret (simbus_pci_read64 cb p a b) (\<lambda>(v, q). released q)
    \<and> ret (simbus_pci_config_read cb p d r) (\<lambda>(v, q). released q)
    \<and> ret (simbus_pci_write32 cb p a w b) vacated
    \<and> ret (simbus_pci_write32b cb p a ws n b b2) (\<lambda>(rc, q). vacated q)
    \<and> ret (simbus_pci_write64 cb p a w64 b) vacated
    \<and> ret (simbus_pci_write64b cb p a ws64 n b b2) (\<lambda>(rc, q). vacated q)
    \<and> ret (simbus_pci_config_write cb p d r w b) vacated"
proof -
  have i: "idle p" using assms by simp
  have 1: "ret (simbus_pci_read32 cb p a b) (\<lambda>(v, q). released q)"
    unfolding simbus_pci_read32_def simbus_pci_read32_xz_def by (rule ret_seq [OF read32_loop_idle [OF i]]) auto
  have 2: "ret (simbus_pci_write32 cb p a w b) vacated"
    unfolding simbus_pci_write32_def by (rule ret_seq [OF write32_idle [OF i]]) auto
  have 3: "ret (simbus_pci_write64b cb p a ws64 n b b2) (\<lambda>(rc, q). vacated q)"
    unfolding simbus_pci_write64b_def
    by (simp only: ret_c_assert ret_c_defined, intro impI, rule ret_seq [OF write64_words_idle [OF i]]) auto
  have 4: "ret (simbus_pci_config_read cb p d r) (\<lambda>(v, q). released q)"
    unfolding simbus_pci_config_read_def by (rule ret_seq [OF read32_idle [OF i]]) auto
  have 5: "ret (simbus_pci_config_write cb p d r w b) vacated"
    unfolding simbus_pci_config_write_def by (rule ret_seq [OF write32_idle [OF i]]) auto
  show ?thesis
    using 1 2 3 4 5 write32b_idle [OF i] read64_loop_idle [OF i] write64_idle [OF i]
    by (simp add: simbus_pci_read64_def)
qed

section \<open>Errors read as all ones\<close>

lemma read_phase_values:
  "ret (read_phase p r r2) (\<lambda>(rc, v, vx, q). rc = 0 \<or> rc = GPCI_MASTER_ABORT \<and> v = 0xffffffff \<and> vx = r2
     \<or> rc = GPCI_TARGET_RETRY \<and> v = 0xffffffff \<and> vx = 0xffffffff)"
proof -
  have rd: "ret (wait_for_read q 0 0) (\<lambda>(rc, v, vx, q). rc = 0 \<or> rc = GPCI_TARGET_RETRY)" for q :: "'a simbus_pci"
    unfolding wait_for_read_def by (rule ret_seq2 [OF await_trdy_codes]) (auto simp: GPCI_TARGET_RETRY_def)
  have body: "ret (obind (wait_for_read q 0 0) (\<lambda>(rc, val, valx, p2).
      if rc < 0 then obind (pci_next_posedge (undrive_bus p2)) (\<lambda>p3. Done (rc, 0xffffffff, 0xffffffff, p3))
      else obind (if pcixcap p2 = BIT_1
          then obind (pci_next_posedge p2) (\<lambda>p3. pci_next_posedge (p3\<lparr>out_irdy_n := BIT_1, out_frame_n := BIT_1\<rparr>))
          else Done p2) (\<lambda>p4. obind (pci_next_posedge (undrive_bus p4)) (\<lambda>p5. Done (0, ucast val, ucast valx, p5)))))
      (\<lambda>(rc, v :: u32, vx :: u32, q). rc = 0 \<or> rc = GPCI_MASTER_ABORT \<and> v = 0xffffffff \<and> vx = r2
     \<or> rc = GPCI_TARGET_RETRY \<and> v = 0xffffffff \<and> vx = 0xffffffff)" for q :: "'a simbus_pci"
    by (rule ret_seq [OF rd])
      (auto simp del: ret_obind simp: GPCI_TARGET_RETRY_def GPCI_MASTER_ABORT_def split del: if_split intro!: ret_any)
  show ?thesis
    unfolding read_phase_def
    by (rule ret_any2) (auto simp del: ret_obind intro!: body ret_any)
qed

lemma read32_values:
  "ret (generic_pci_read32 cb p a c b r r2) (\<lambda>(rc, v, vx, q).
     rc = 0 \<or> rc = GPCI_MASTER_ABORT \<and> v = 0xffffffff \<and> vx = r2
     \<or> rc = GPCI_TARGET_RETRY \<and> v = 0xffffffff \<and> vx = 0xffffffff)"
  unfolding generic_pci_read32_def generic_pci_read32_with_def
  by (rule ret_any, rule ret_any, rule ret_any, rule read_phase_values)

lemma read32_loop_values:
  "ret (read32_loop cb a b v 0xffffffff p) (\<lambda>(rc, v', vx', q).
     rc = 0 \<or> rc = SIMBUS_PCI_ERROR \<and> v' = 0xffffffff \<and> vx' = 0xffffffff)"
proof (induction "pending (fd p)" arbitrary: v p rule: less_induct)
  case less
  show ?case
    by (subst read32_loop.simps, rule ret_seq [OF read32_values])
      (use less.hyps in \<open>auto simp: GPCI_TARGET_RETRY_def GPCI_MASTER_ABORT_def\<close>)
qed

text \<open>C37: A 32-bit read reports success or one error code, and on the error both the value and the mask
  of unknown bits are all ones; \<open>simbus_pci_read32\<close> therefore returns \<open>0xffffffff\<close> for every failed
  read and for every read with an unknown bit, as its documentation says.\<close>

theorem read32_errors_all_ones:
  "ret (simbus_pci_read32_xz cb p a b) (\<lambda>(rc, v, vx, q).
       rc = 0 \<or> rc = SIMBUS_PCI_ERROR \<and> v = 0xffffffff \<and> vx = 0xffffffff)
   \<and> (\<forall>rc v vx q. simbus_pci_read32_xz cb p a b = Done (rc, v, vx, q) \<and> (rc \<noteq> 0 \<or> vx \<noteq> 0)
       \<longrightarrow> simbus_pci_read32 cb p a b = Done (0xffffffff, q))"
proof -
  have x: "ret (simbus_pci_read32_xz cb p a b) (\<lambda>(rc, v, vx, q).
       rc = 0 \<or> rc = SIMBUS_PCI_ERROR \<and> v = 0xffffffff \<and> vx = 0xffffffff)"
    unfolding simbus_pci_read32_xz_def by (rule read32_loop_values)
  then show ?thesis
    by (auto simp: simbus_pci_read32_def dest!: retD)
qed

section \<open>Configuration addressing\<close>

lemma bit_type0:
  "bit (make_type0_addr d r) j \<longleftrightarrow> j < 64 \<and>
     (2 \<le> j \<and> j < 8 \<and> bit r j \<or> 8 \<le> j \<and> bit d (j - 8) \<or> j = 16 + unat d div 8)"
proof -
  have fc: "bit (0xfc :: u64) j \<longleftrightarrow> 2 \<le> j \<and> j < 8" for j
  proof (cases "j < 8")
    case True
    then have "j \<in> {0, 1, 2, 3, 4, 5, 6, 7}" by auto
    then show ?thesis by (elim insertE) (simp_all add: bit_numeral_rec)
  next
    case False
    have "(0xfc :: u64) = take_bit 8 0xfc" by simp
    with False show ?thesis by (metis bit_take_bit_iff)
  qed
  define fcm where "fcm = (0xfc :: u64)"
  have fcm: "bit fcm j \<longleftrightarrow> 2 \<le> j \<and> j < 8" for j by (simp only: fcm_def fc)
  have "push_bit n (0x10000 :: u64) = push_bit (16 + n) 1" for n
  proof -
    have "(0x10000 :: u64) = push_bit 16 1" by simp
    then show ?thesis by (simp only: push_bit_push_bit add.commute)
  qed
  moreover have "unat (d div 8) = unat d div 8" by (simp add: unat_div)
  moreover have "bit d k \<Longrightarrow> k < 8" for k using bit_imp_le_length [of d k] by simp
  moreover have "bit r k \<Longrightarrow> k < 16" for k using bit_imp_le_length [of r k] by simp
  ultimately show ?thesis
    unfolding make_type0_addr_def fcm_def [symmetric]
    by (auto simp: bit_simps fcm)
qed

text \<open>C39: A configuration access selects exactly one slot. For a device number below 16 there is no dual
  address cycle, and among the slots 0 to 15 the address lines select the device with that number and
  no other; the selected device sees the register number and the device/function number it was
  addressed with.\<close>

theorem config_selects_slot:
  assumes "pci_wf p" and "d < 128" and "ident t < 16"
    and "pci_ad t = out_ad (drive_address (make_type0_addr d r) False p)"
  shows "drop_bit 32 (make_type0_addr d r) = 0
    \<and> get_idsel t = Done (unat (ident t) = unat d div 8)
    \<and> get_addr32 t AND 0xffff = (ucast r AND 0xfc) OR push_bit 8 (ucast d)"
proof (intro conjI)
  have d: "unat d div 8 < 16" using assms(2) by (simp add: word_less_nat_alt div_less_iff_less_mult)
  have hi: "\<not> bit d k" if "8 \<le> k" for k using bit_imp_le_length [of d k] that by auto
  show "drop_bit 32 (make_type0_addr d r) = 0"
  proof (rule bit_word_eqI)
    fix j assume "j < LENGTH(64)"
    show "bit (drop_bit 32 (make_type0_addr d r)) j = bit (0 :: u64) j"
      using d hi [of "32 + j - 8"] by (auto simp: bit_drop_bit_eq bit_type0)
  qed
  have id: "unat (ident t) < 16" using assms(3) by (simp add: word_less_nat_alt)
  have line: "pci_ad t ! j = bit01 (bit (make_type0_addr d r) j)" if "j < 32" for j
    using that assms(1,4) by (simp add: nth_drive_address)
  have "pci_ad t ! (16 + unat (ident t)) = BIT_1 \<longleftrightarrow> unat (ident t) = unat d div 8"
    using id hi [of "8 + unat (ident t)"] by (simp add: line bit_type0)
  with assms(3) show "get_idsel t = Done (unat (ident t) = unat d div 8)"
    by (simp add: get_idsel_def)
  show "get_addr32 t AND 0xffff = (ucast r AND 0xfc) OR push_bit 8 (ucast d)"
  proof (rule bit_word_eqI)
    fix j assume "j < LENGTH(64)"
    have ffff: "bit (0xffff :: u64) j \<longleftrightarrow> j < 16"
      using bit_mask_iff [of 16 j, where 'a = u64] \<open>j < LENGTH(64)\<close> by (simp add: mask_eq_exp_minus_1)
    have t0: "bit (make_type0_addr d r) j \<longleftrightarrow> bit ((ucast r AND 0xfc) OR push_bit 8 (ucast d) :: u64) j" if "j < 16"
    proof -
      have "\<not> bit (push_bit n (0x10000 :: u64)) j" for n
        using that push_bit_push_bit [of n 16 "1 :: u64"] by (auto simp: bit_simps)
      then show ?thesis by (simp only: make_type0_addr_def bit_or_iff simp_thms)
    qed
    have big: "\<not> bit ((ucast r AND 0xfc) OR push_bit 8 (ucast d) :: u64) j" if "16 \<le> j"
      using that hi [of "j - 8"] bit_imp_le_length [of r j] by (auto simp: bit_simps)
    show "bit (get_addr32 t AND 0xffff) j = bit ((ucast r AND 0xfc) OR push_bit 8 (ucast d) :: u64) j"
      using t0 big unfolding bit_and_iff ffff bit_get_addr32 by (cases "j < 16") (simp_all add: line)
  qed
qed

theorem config_selects_slot_witness:
  "let t = demo_host\<lparr>ident := 3, pci_ad := out_ad (drive_address (make_type0_addr 0x1a 0x10) False demo_host)\<rparr>
   in get_idsel t = Done True"
  using config_selects_slot [of demo_host "0x1a"
      "demo_host\<lparr>ident := 3, pci_ad := out_ad (drive_address (make_type0_addr 0x1a 0x10) False demo_host)\<rparr>" "0x10"]
  by simp

lemma demo_read32_returns: "\<exists>v vx q. simbus_pci_read32_xz demo_cb demo_host 0x1000 0 = Done (0, v, vx, q)"
proof -
  obtain v vx q where "generic_pci_read32 demo_cb demo_host 0x1000 0xf6 0 0xffffffff 0xffffffff = Done (0, v, vx, q)"
    using demo_read_returns by blast
  then show ?thesis
    unfolding simbus_pci_read32_xz_def by (subst read32_loop.simps) (simp add: GPCI_TARGET_RETRY_def)
qed

lemma abort_write32_returns:
  "\<exists>q. simbus_pci_write32 demo_cb deaf_host 0x1000 0x1234 0 = Done q \<and> out_par q \<noteq> BIT_Z"
proof -
  obtain q where w: "generic_pci_write32 demo_cb deaf_host 0x1000 0xf7 0x1234 0 = Done (-1, q)"
    using abort_write_returns by blast
  have "ret (generic_pci_write32 demo_cb deaf_host 0x1000 0xf7 0x1234 0) write_end"
    unfolding generic_pci_write32_def by (rule tgt.write32_done) (simp add: deaf_host_idle)
  with w show ?thesis by (simp add: simbus_pci_write32_def write_end_def)
qed

theorem accesses_release_bus_witness:
  "(\<exists>v q. simbus_pci_read32 demo_cb demo_host 0x1000 0 = Done (v, q) \<and> released q)
   \<and> (\<exists>q. simbus_pci_write32 demo_cb deaf_host 0x1000 0x1234 0 = Done q \<and> vacated q \<and> \<not> par_off q)"
proof
  obtain v q where r: "simbus_pci_read32 demo_cb demo_host 0x1000 0 = Done (v, q)"
    using demo_read32_returns by (auto simp: simbus_pci_read32_def)
  have "ret (simbus_pci_read32 demo_cb demo_host 0x1000 0) (\<lambda>(v, q). released q)"
    using accesses_release_bus [of demo_host demo_cb "0x1000" 0] by simp
  with r show "\<exists>v q. simbus_pci_read32 demo_cb demo_host 0x1000 0 = Done (v, q) \<and> released q" by simp
  obtain q where w: "simbus_pci_write32 demo_cb deaf_host 0x1000 0x1234 0 = Done q" "out_par q \<noteq> BIT_Z"
    using abort_write32_returns by blast
  have "ret (simbus_pci_write32 demo_cb deaf_host 0x1000 0x1234 0) vacated"
    using accesses_release_bus [OF deaf_host_idle, of demo_cb "0x1000" 0 0 0 "0x1234" "[]" 0 0 0 "[]"] by (elim conjE)
  with w show "\<exists>q. simbus_pci_write32 demo_cb deaf_host 0x1000 0x1234 0 = Done q \<and> vacated q \<and> \<not> par_off q"
    by (simp add: par_off_def)
qed

text \<open>The same reads on a bus where nobody answers.\<close>

lemma abort_read_returns:
  "\<exists>q. simbus_pci_read32_xz demo_cb (demo_host\<lparr>pci_devsel_n := BIT_1\<rparr>) 0x1000 0 =
     Done (SIMBUS_PCI_ERROR, 0xffffffff, 0xffffffff, q)"
proof -
  have grant: "await_grant tsm 4096 (demo_host\<lparr>pci_devsel_n := BIT_1, out_req_n := BIT_0\<rparr>) =
      Done (demo_host\<lparr>pci_devsel_n := BIT_1, out_req_n := BIT_0\<rparr>)" for tsm
    by (subst await_grant.simps) (simp add: bus_taken_def)
  have "\<exists>q. generic_pci_read32 demo_cb (demo_host\<lparr>pci_devsel_n := BIT_1\<rparr>) 0x1000 0xf6 0 0xffffffff 0xffffffff =
      Done (-1, 0xffffffff, 0xffffffff, q)"
    by (simp add: generic_pci_read32_def generic_pci_read32_with_def pci_request_bus_with_def grant
        address_command_def dac_phase_def attr_phase_def drive_address_def posedge_unknown known_def
        next_parity_def read_phase_def wait_for_devsel_def GPCI_MASTER_ABORT_def undrive_bus_def
        numeral_3_eq_3 Let_def)
  then obtain q where "generic_pci_read32 demo_cb (demo_host\<lparr>pci_devsel_n := BIT_1\<rparr>) 0x1000 0xf6 0 0xffffffff
      0xffffffff = Done (-1, 0xffffffff, 0xffffffff, q)" by blast
  then show ?thesis
    unfolding simbus_pci_read32_xz_def by (subst read32_loop.simps) (simp add: GPCI_TARGET_RETRY_def)
qed

theorem read32_errors_all_ones_witness:
  "\<exists>q. simbus_pci_read32 demo_cb (demo_host\<lparr>pci_devsel_n := BIT_1\<rparr>) 0x1000 0 = Done (0xffffffff, q)"
  using read32_errors_all_ones [of demo_cb "demo_host\<lparr>pci_devsel_n := BIT_1\<rparr>" "0x1000" 0] abort_read_returns
  by (auto simp: SIMBUS_PCI_ERROR_def)

end
