(* ===== verification/Sim_Mem.thy ===== *)
theory Sim_Mem
  imports Sim_Base
begin

text \<open>
  The memory device behind the VPI functions \<open>$simbus_mem_open\<close>, \<open>$simbus_mem_peek\<close> and
  \<open>$simbus_mem_poke\<close> (vpi/simbus_mem.c): up to four memories, each a mapped file and a bank of 1024
  control registers.  A poke of register 0 starts a command (fill, compare, load, save) whose
  arguments are the other registers.

  The simulator (argument values) and the operating system (open, ftruncate, mmap, fopen, fread,
  fwrite) are parameters.  An access outside the mapping or outside the register array stops the
  model with \<open>Undefined\<close>; so does a path that is not terminated within the registers.  Two instances
  map different files, so their mappings do not overlap; messages are dropped.
\<close>

section \<open>State and environment\<close>

definition CMD_FILL :: u32 where "CMD_FILL = 0x0000"
definition CMD_COMPARE :: u32 where "CMD_COMPARE = 0x0001"
definition CMD_LOAD :: u32 where "CMD_LOAD = 0x0002"
definition CMD_SAVE :: u32 where "CMD_SAVE = 0x0003"

definition CONTROL_COUNT :: nat where "CONTROL_COUNT = 1024"
definition MEMORY_INSTANCES :: nat where "MEMORY_INSTANCES = 4"

record memory_map_t =
  mm_fd :: int
  mm_path :: "string option"
  mm_base :: "u8 list"
  mm_size :: u64
  control_regs :: "u32 list"

definition closed_map :: memory_map_t where
  "closed_map = \<lparr>mm_fd = -1, mm_path = None, mm_base = [], mm_size = 0,
     control_regs = replicate CONTROL_COUNT 0\<rparr>"

definition memory_map_init :: "memory_map_t list" where
  "memory_map_init = replicate MEMORY_INSTANCES closed_map"

text \<open>The file functions: \<open>fs_load\<close> is \<open>fopen(path,"rb")\<close> and one \<open>fread\<close> of at most the given
  number of bytes, \<open>fs_create\<close> is \<open>fopen(path,"wb")\<close>, \<open>fs_write\<close> is \<open>fwrite\<close> with the count it
  returns.\<close>

record 'w file_os =
  fs_open :: "'w \<Rightarrow> string \<Rightarrow> int \<times> 'w"
  fs_ftruncate :: "'w \<Rightarrow> int \<Rightarrow> u64 \<Rightarrow> 'w"
  fs_mmap :: "'w \<Rightarrow> u64 \<Rightarrow> int \<Rightarrow> u8 list option"
  fs_load :: "'w \<Rightarrow> string \<Rightarrow> nat \<Rightarrow> u8 list option"
  fs_create :: "'w \<Rightarrow> string \<Rightarrow> 'w option"
  fs_write :: "'w \<Rightarrow> string \<Rightarrow> u8 list \<Rightarrow> nat \<times> 'w"

abbreviation put_reg :: "nat \<Rightarrow> u32 \<Rightarrow> memory_map_t \<Rightarrow> memory_map_t" where
  "put_reg i v m \<equiv> m\<lparr>control_regs := (control_regs m)[i := v]\<rparr>"

section \<open>Commands\<close>

definition byte_of :: "nat \<Rightarrow> u32 \<Rightarrow> u8" where
  "byte_of k w = ucast (drop_bit (8 * k) w AND 0xff)"

text \<open>\<open>for (idx = 0 ; idx < size ; idx += 1) { *ptr++ = fill0; ... *ptr++ = fill3; }\<close>\<close>

fun fill_words :: "nat \<Rightarrow> nat \<Rightarrow> u32 \<Rightarrow> u8 list \<Rightarrow> u8 list" where
  "fill_words 0 ptr fill mem = mem"
| "fill_words (Suc n) ptr fill mem =
     fill_words n (ptr + 4) fill
       (mem[ptr := byte_of 0 fill, ptr + 1 := byte_of 1 fill,
            ptr + 2 := byte_of 2 fill, ptr + 3 := byte_of 3 fill])"

definition cmd_fill :: "memory_map_t \<Rightarrow> memory_map_t outcome" where
  "cmd_fill m =
     (let base = control_regs m ! 1; size = control_regs m ! 2; fill = control_regs m ! 3
      in if ucast base \<ge> mm_size m then Done m
         else if size = 0 then Done m
         else
           let size' = (if ucast (base + size * 4) > mm_size m
                        then ucast ((mm_size m - ucast base) div 4) else size)
           in c_defined (unat base + 4 * unat size' \<le> length (mm_base m))
                (Done (m\<lparr>mm_base := fill_words (unat size') (unat base) fill (mm_base m)\<rparr>)))"

text \<open>The counting loop of \<open>cmd_compare\<close>.\<close>

fun count_differences :: "u8 list \<Rightarrow> nat \<Rightarrow> nat \<Rightarrow> nat \<Rightarrow> u32 \<Rightarrow> u32" where
  "count_differences mem ba bb 0 rc = rc"
| "count_differences mem ba bb (Suc n) rc =
     count_differences mem (Suc ba) (Suc bb) n (if mem ! ba \<noteq> mem ! bb then rc + 1 else rc)"

definition cmd_compare :: "memory_map_t \<Rightarrow> memory_map_t outcome" where
  "cmd_compare m =
     (let base1 = control_regs m ! 1; size1 = control_regs m ! 2; base2 = control_regs m ! 3
      in if ucast base1 \<ge> mm_size m then Done m
         else if ucast base2 \<ge> mm_size m then Done m
         else if size1 = 0 then Done m
         else
           let size1' = (if ucast (base1 + size1) > mm_size m
                         then ucast (mm_size m - ucast base1) else size1)
           in c_defined (unat base1 + unat size1' \<le> length (mm_base m)
                         \<and> unat base2 + unat size1' \<le> length (mm_base m))
                (Done (put_reg 0 (count_differences (mm_base m) (unat base1) (unat base2) (unat size1') 0) m)))"

text \<open>\<open>extract_path_from_load\<close>: the bytes of the registers up to the first zero byte.  The buffer is
  not initialised, so a path without a zero byte is undefined.\<close>

definition path_char :: "u8 \<Rightarrow> char" where
  "path_char b = char_of (unat b)"

fun extract_path :: "u32 list \<Rightarrow> string outcome" where
  "extract_path [] = Stop Undefined"
| "extract_path (word # ws) =
     (let b0 = byte_of 0 word; b1 = byte_of 1 word; b2 = byte_of 2 word; b3 = byte_of 3 word
      in if b0 = 0 then Done []
         else if b1 = 0 then Done [path_char b0]
         else if b2 = 0 then Done [path_char b0, path_char b1]
         else if b3 = 0 then Done [path_char b0, path_char b1, path_char b2]
         else obind (extract_path ws) (\<lambda>p. Done ([path_char b0, path_char b1, path_char b2, path_char b3] @ p)))"

definition extract_path_from_load :: "memory_map_t \<Rightarrow> string outcome" where
  "extract_path_from_load m = extract_path (take (CONTROL_COUNT - 3) (drop 3 (control_regs m)))"

definition cmd_load :: "'w file_os \<Rightarrow> 'w \<Rightarrow> memory_map_t \<Rightarrow> memory_map_t outcome" where
  "cmd_load fs w m =
     (let base1 = control_regs m ! 1; size1 = control_regs m ! 2
      in obind (extract_path_from_load m) (\<lambda>path.
           case fs_load fs w path (unat size1) of
             None \<Rightarrow> Done (put_reg 0 (-1) m)
           | Some bytes \<Rightarrow>
               c_defined (unat base1 + length bytes \<le> length (mm_base m))
                 (Done (put_reg 0 (of_nat (length bytes))
                    (m\<lparr>mm_base := take (unat base1) (mm_base m) @ bytes
                        @ drop (unat base1 + length bytes) (mm_base m)\<rparr>)))))"

definition cmd_save :: "'w file_os \<Rightarrow> 'w \<Rightarrow> memory_map_t \<Rightarrow> (memory_map_t \<times> 'w) outcome" where
  "cmd_save fs w m =
     (let base1 = control_regs m ! 1; size1 = control_regs m ! 2
      in if mm_fd m < 0 then Done (put_reg 0 (-1) m, w)
         else obind (extract_path_from_load m) (\<lambda>path.
           case fs_create fs w path of
             None \<Rightarrow> Done (put_reg 0 (-1) m, w)
           | Some w1 \<Rightarrow>
               if ucast (base1 + size1) > mm_size m then Done (put_reg 0 (-1) m, w1)
               else c_defined (unat base1 + unat size1 \<le> length (mm_base m))
                 (case fs_write fs w1 path (take (unat size1) (drop (unat base1) (mm_base m))) of
                    (cnt, w2) \<Rightarrow> Done (put_reg 0 (of_nat cnt) m, w2))))"

definition memdev_command ::
  "'w file_os \<Rightarrow> 'w \<Rightarrow> nat \<Rightarrow> memory_map_t list \<Rightarrow> (memory_map_t list \<times> 'w) outcome" where
  "memdev_command fs w n maps =
     c_assert (n < MEMORY_INSTANCES)
       (let m = maps ! n; cmd = control_regs m ! 0
        in if cmd = CMD_FILL then obind (cmd_fill m) (\<lambda>m'. Done (maps[n := m'], w))
           else if cmd = CMD_COMPARE then obind (cmd_compare m) (\<lambda>m'. Done (maps[n := m'], w))
           else if cmd = CMD_LOAD then obind (cmd_load fs w m) (\<lambda>m'. Done (maps[n := m'], w))
           else if cmd = CMD_SAVE then obind (cmd_save fs w m) (\<lambda>(m', w'). Done (maps[n := m'], w'))
           else Done (maps, w))"

section \<open>The VPI functions\<close>

text \<open>An argument of a system task, as its string and as its integer value; \<open>vpi_scan\<close> returns 0
  after the last one.\<close>

record vpi_arg =
  vpi_str :: string
  vpi_int :: u32

definition memory_open_sizetf :: int where "memory_open_sizetf = 32"
definition memory_peek_sizetf :: int where "memory_peek_sizetf = 32"

definition memory_open_compiletf :: "vpi_arg list \<Rightarrow> int outcome" where
  "memory_open_compiletf args = c_assert (0 < length args) (c_assert (1 < length args) (Done 0))"

definition memory_peek_compiletf :: "vpi_arg list \<Rightarrow> int outcome" where
  "memory_peek_compiletf args =
     c_assert (args \<noteq> []) (c_assert (0 < length args) (c_assert (1 < length args)
       (c_assert (2 < length args) (c_assert (\<not> 3 < length args) (Done 0)))))"

definition memory_poke_compiletf :: "vpi_arg list \<Rightarrow> int outcome" where
  "memory_poke_compiletf args =
     c_assert (args \<noteq> []) (c_assert (0 < length args) (c_assert (1 < length args)
       (c_assert (2 < length args) (c_assert (3 < length args)
         (c_assert (\<not> 4 < length args) (Done 0))))))"

text \<open>\<open>while (memory_map[id].fd >= 0 && id < MEMORY_INSTANCES) id += 1;\<close> with the read past the
  array when all are in use.\<close>

fun free_instance :: "memory_map_t list \<Rightarrow> nat \<Rightarrow> nat outcome" where
  "free_instance [] n = Stop Undefined"
| "free_instance (m # ms) n =
     (if mm_fd m \<ge> 0 \<and> n < MEMORY_INSTANCES then free_instance ms (Suc n) else Done n)"

definition memory_open_calltf ::
  "'w file_os \<Rightarrow> 'w \<Rightarrow> vpi_arg list \<Rightarrow> memory_map_t list \<Rightarrow> (nat \<times> memory_map_t list \<times> 'w) outcome" where
  "memory_open_calltf fs w args maps =
     c_assert (0 < length args) (c_assert (1 < length args)
       (obind (free_instance maps 0) (\<lambda>id.
          c_assert (id < MEMORY_INSTANCES)
            (let path = vpi_str (args ! 0); n = scast (vpi_int (args ! 1)); m = maps ! id
             in case fs_open fs w path of (fd, w1) \<Rightarrow>
                  let w2 = fs_ftruncate fs w1 fd n
                  in case fs_mmap fs w2 n fd of
                       None \<Rightarrow> Stop Assert_failed
                     | Some bytes \<Rightarrow>
                         Done (id, maps[id := m\<lparr>mm_path := Some path, mm_fd := fd, mm_size := n,
                                                mm_base := bytes\<rparr>], w2)))))"

text \<open>\<open>address = value.value.integer % memory_map[id].size\<close>: the signed value is converted to
  \<open>size_t\<close> first.\<close>

definition mem_address :: "u32 \<Rightarrow> memory_map_t \<Rightarrow> u32" where
  "mem_address a m = ucast ((scast a :: u64) mod mm_size m)"

definition memory_peek_calltf :: "vpi_arg list \<Rightarrow> memory_map_t list \<Rightarrow> u32 outcome" where
  "memory_peek_calltf args maps =
     c_assert (2 < length args)
       (let id = unat (vpi_int (args ! 0))
        in c_defined (id < length maps \<and> mm_size (maps ! id) \<noteq> 0)
             (let m = maps ! id; address = mem_address (vpi_int (args ! 1)) m; bar = vpi_int (args ! 2);
                  a = unat address
              in if bar = 0 then
                   c_defined (a + 3 < length (mm_base m))
                     (Done (push_bit 0 (ucast (mm_base m ! a)) OR push_bit 8 (ucast (mm_base m ! (a + 1)))
                        OR push_bit 16 (ucast (mm_base m ! (a + 2))) OR push_bit 24 (ucast (mm_base m ! (a + 3)))))
                 else if bar = 1 then
                   c_defined (a div 4 < length (control_regs m)) (Done (control_regs m ! (a div 4)))
                 else Done 0xffffffff))"

definition memory_poke_calltf ::
  "'w file_os \<Rightarrow> 'w \<Rightarrow> vpi_arg list \<Rightarrow> memory_map_t list \<Rightarrow> (memory_map_t list \<times> 'w) outcome" where
  "memory_poke_calltf fs w args maps =
     c_assert (3 < length args)
       (let id = unat (vpi_int (args ! 0))
        in c_defined (id < length maps \<and> mm_size (maps ! id) \<noteq> 0)
             (let m = maps ! id; address = mem_address (vpi_int (args ! 1)) m;
                  word_val = vpi_int (args ! 2); bar = vpi_int (args ! 3); a = unat address
              in if bar = 0 then
                   c_defined (a + 3 < length (mm_base m))
                     (Done (maps[id := m\<lparr>mm_base := (mm_base m)[a := byte_of 0 word_val,
                        a + 1 := byte_of 1 word_val, a + 2 := byte_of 2 word_val,
                        a + 3 := byte_of 3 word_val]\<rparr>], w))
                 else if bar = 1 then
                   c_defined (a div 4 < length (control_regs m))
                     (let maps' = maps[id := put_reg (a div 4) word_val m]
                      in if address = 0 then memdev_command fs w id maps' else Done (maps', w))
                 else Done (maps, w)))"

section \<open>Well-formedness\<close>

definition mem_wf :: "memory_map_t \<Rightarrow> bool" where
  "mem_wf m \<longleftrightarrow> length (mm_base m) = unat (mm_size m) \<and> length (control_regs m) = CONTROL_COUNT"

abbreviation maps_wf :: "memory_map_t list \<Rightarrow> bool" where
  "maps_wf maps \<equiv> length maps = MEMORY_INSTANCES \<and> list_all mem_wf maps"

lemma maps_wf_init: "maps_wf memory_map_init"
  by (simp add: memory_map_init_def closed_map_def mem_wf_def list_all_iff)

lemma maps_wf_update: "maps_wf maps \<Longrightarrow> mem_wf m \<Longrightarrow> maps_wf (maps[n := m])"
  by (auto simp: list_all_iff dest: set_update_subset_insert [THEN subsetD])

lemma maps_wf_nth: "maps_wf maps \<Longrightarrow> n < MEMORY_INSTANCES \<Longrightarrow> mem_wf (maps ! n)"
  by (simp add: list_all_length)

lemma mem_wf_put_reg [simp]: "mem_wf (put_reg i v m) = mem_wf m"
  by (simp add: mem_wf_def)

lemma length_fill_words [simp]: "length (fill_words n p f mem) = length mem"
  by (induction n p f mem rule: fill_words.induct) simp_all

lemma fill_wf: "mem_wf m \<Longrightarrow> ret (cmd_fill m) mem_wf"
  by (simp add: cmd_fill_def Let_def mem_wf_def)

lemma compare_wf: "mem_wf m \<Longrightarrow> ret (cmd_compare m) mem_wf"
  by (simp add: cmd_compare_def Let_def)

lemma load_wf: "mem_wf m \<Longrightarrow> ret (cmd_load fs w m) mem_wf"
  unfolding cmd_load_def Let_def
  by (rule ret_any) (auto simp: mem_wf_def split: option.split)

lemma save_wf: "mem_wf m \<Longrightarrow> ret (cmd_save fs w m) (\<lambda>(m', w'). mem_wf m')"
  unfolding cmd_save_def Let_def
  by (auto simp: split: option.split prod.split intro!: retI)

lemma command_wf: "maps_wf maps \<Longrightarrow> ret (memdev_command fs w n maps) (\<lambda>(maps', w'). maps_wf maps')"
  unfolding memdev_command_def Let_def
  using fill_wf [of "maps ! n"] compare_wf [of "maps ! n"] load_wf [of "maps ! n" fs w]
    save_wf [of "maps ! n" fs w] maps_wf_nth [of maps n] maps_wf_update [of maps]
  by (auto simp del: list_all_iff elim!: ret_mono split: prod.splits)

section \<open>Filling\<close>

lemma nth_fill_words:
  "p + 4 * n \<le> length mem \<Longrightarrow>
   fill_words n p f mem ! k =
     (if p \<le> k \<and> k < p + 4 * n then byte_of ((k - p) mod 4) f else mem ! k)"
proof (induction n arbitrary: p mem)
  case 0
  then show ?case by auto
next
  case (Suc n)
  let ?mem = "mem[p := byte_of 0 f, p + 1 := byte_of 1 f, p + 2 := byte_of 2 f, p + 3 := byte_of 3 f]"
  have IH: "fill_words (Suc n) p f mem ! k =
      (if p + 4 \<le> k \<and> k < p + 4 + 4 * n then byte_of ((k - (p + 4)) mod 4) f else ?mem ! k)"
    using Suc.IH [of "p + 4" ?mem] Suc.prems by simp
  consider (far) "p + 4 \<le> k" | (here) i where "k = p + i" "i < 4" | (before) "k < p"
    by (metis add.commute le_Suc_ex linorder_le_less_linear nat_add_left_cancel_less)
  then show ?case
  proof cases
    case far
    then have "(k - (p + 4)) mod 4 = (k - p) mod 4" by (simp add: le_mod_geq)
    with far show ?thesis unfolding IH by auto
  next
    case here
    then have "i = 0 \<or> i = 1 \<or> i = 2 \<or> i = 3" by auto
    with here Suc.prems show ?thesis unfolding IH by (auto simp: nth_list_update)
  next
    case before
    then show ?thesis unfolding IH by (simp add: nth_list_update)
  qed
qed

lemma unat32_less: "unat (a :: u32) < 4294967296"
  using unsigned_less [of a, where 'a = nat] by simp

lemma unat_up: "unat (ucast (a :: u32) :: u64) = unat a"
  using unat32_less [of a] by (simp add: unsigned_ucast_eq take_bit_nat_eq_self)

lemma ucast_le_size: "(ucast (a :: u32) :: u64) \<ge> s \<longleftrightarrow> unat s \<le> unat a"
  by (simp add: word_le_nat_alt unat_up)

lemma ucast_gt_size: "(ucast (a :: u32) :: u64) > s \<longleftrightarrow> unat s < unat a"
  by (simp add: word_less_nat_alt unat_up)

lemma clipped_words:
  fixes b :: u32 and s :: u64
  assumes "unat b < unat s" and "unat s - unat b < 2 ^ 32"
  shows "unat (ucast ((s - ucast b) div 4) :: u32) = (unat s - unat b) div 4"
    and "unat (ucast (s - ucast b) :: u32) = unat s - unat b"
proof -
  have u: "unat (ucast b :: u64) = unat b" by (rule unat_up)
  have sub: "unat (s - ucast b) = unat s - unat b"
    using assms(1) u by (subst unat_sub) (simp_all add: word_le_nat_alt)
  have d: "unat ((s - ucast b) div 4) = (unat s - unat b) div 4"
    by (simp add: unat_div sub)
  have "(unat s - unat b) div 4 < 2 ^ 32" using assms(2) by (simp add: div_less_iff_less_mult)
  then show "unat (ucast ((s - ucast b) div 4) :: u32) = (unat s - unat b) div 4"
    by (simp add: unsigned_ucast_eq d take_bit_nat_eq_self)
  show "unat (ucast (s - ucast b) :: u32) = unat s - unat b"
    using assms(2) by (simp add: unsigned_ucast_eq sub take_bit_nat_eq_self)
qed

lemma unat_end: "unat (b + n * 4 :: u32) = (unat b + 4 * unat n) mod 2 ^ 32"
  by (simp add: unat_word_ariths mod_simps mult.commute)

text \<open>A fill whose end does not pass 4 GiB writes the pattern, low byte first, over the requested
  words, clipped to the whole words that fit below the end of the memory; every other byte and the
  registers stay as they were.\<close>

theorem mem_fill_effect:
  assumes "mem_wf m" and "control_regs m ! 1 = b" and "control_regs m ! 2 = n" and "control_regs m ! 3 = f"
    and "unat b < unat (mm_size m)" and "unat b + 4 * unat n < 2 ^ 32"
  defines "cnt \<equiv> 4 * min (unat n) ((unat (mm_size m) - unat b) div 4)"
  shows "\<exists>mem. cmd_fill m = Done (m\<lparr>mm_base := mem\<rparr>) \<and> length mem = length (mm_base m)
    \<and> (\<forall>k. mem ! k = (if unat b \<le> k \<and> k < unat b + cnt then byte_of ((k - unat b) mod 4) f
                      else mm_base m ! k))"
proof (cases "n = 0")
  case True
  then have "cmd_fill m = Done m" using assms(2-4) by (simp add: cmd_fill_def Let_def)
  with True show ?thesis by (intro exI [of _ "mm_base m"]) (auto simp: cnt_def)
next
  case False
  let ?s = "unat (mm_size m)"
  define n' where "n' = (if ucast (b + n * 4) > mm_size m then ucast ((mm_size m - ucast b) div 4) else n)"
  have e: "unat (b + n * 4) = unat b + 4 * unat n" using assms(6) by (simp add: unat_end)
  have n': "unat n' = min (unat n) ((?s - unat b) div 4)"
  proof (cases "?s < unat b + 4 * unat n")
    case True
    then have "?s - unat b < 2 ^ 32" and "(?s - unat b) div 4 \<le> unat n" using assms(6) by simp_all
    with True assms(5) show ?thesis by (simp add: n'_def ucast_gt_size e clipped_words)
  next
    case False
    then show ?thesis using assms(5) by (simp add: n'_def ucast_gt_size e)
  qed
  then have fits: "unat b + 4 * unat n' \<le> length (mm_base m)"
    using assms(1,5) by (simp add: mem_wf_def)
  then have "cmd_fill m = Done (m\<lparr>mm_base := fill_words (unat n') (unat b) f (mm_base m)\<rparr>)"
    using assms(2-5) False by (simp add: cmd_fill_def Let_def ucast_le_size flip: n'_def)
  with nth_fill_words [OF fits] n' show ?thesis by (auto simp: cnt_def)
qed

text \<open>The bound check of a fill is done in 32 bits. When base plus four times the size passes 4 GiB
  and wraps to a value below the memory size, the check does not clip, and the fill runs past the
  mapping.\<close>

lemma mem_fill_wraps:
  assumes "mem_wf m" and "unat (mm_size m) < 2 ^ 32"
    and "unat (control_regs m ! 1) < unat (mm_size m)"
    and "2 ^ 32 \<le> unat (control_regs m ! 1) + 4 * unat (control_regs m ! 2)"
    and "(unat (control_regs m ! 1) + 4 * unat (control_regs m ! 2)) mod 2 ^ 32 \<le> unat (mm_size m)"
  shows "cmd_fill m = Stop Undefined"
proof -
  have "control_regs m ! 2 \<noteq> 0"
  proof
    assume "control_regs m ! 2 = 0"
    with assms(4) show False using unat32_less [of "control_regs m ! 1"] by simp
  qed
  with assms show ?thesis
    by (simp add: cmd_fill_def Let_def ucast_le_size ucast_gt_size unat_end mem_wf_def c_defined_def)
qed

section \<open>Comparing\<close>

lemma count_differences_card:
  "count_differences mem a b n rc = rc + of_nat (card {i. i < n \<and> mem ! (a + i) \<noteq> mem ! (b + i)})"
proof (induction n arbitrary: a b rc)
  case 0
  then show ?case by simp
next
  case (Suc n)
  let ?D = "\<lambda>a b n. {i. i < n \<and> mem ! (a + i) \<noteq> mem ! (b + i)}"
  have "?D a b (Suc n) = (if mem ! a \<noteq> mem ! b then {0} else {}) \<union> Suc ` ?D (Suc a) (Suc b) n"
    by (auto simp: image_iff less_Suc_eq_0_disj)
  then have "card (?D a b (Suc n)) = (if mem ! a \<noteq> mem ! b then 1 else 0) + card (?D (Suc a) (Suc b) n)"
    by (simp add: card_insert_if card_image image_iff)
  then show ?case by (simp add: Suc.IH)
qed

lemma same_slice:
  "a + n \<le> length xs \<Longrightarrow> b + n \<le> length xs \<Longrightarrow>
   take n (drop a xs) = take n (drop b xs) \<longleftrightarrow> (\<forall>i < n. xs ! (a + i) = xs ! (b + i))"
  by (simp add: list_eq_iff_nth_eq)

text \<open>A comparison of two regions inside the memory puts the number of differing bytes into register
  0 and changes nothing else; the register is therefore 0 exactly when the regions are equal.\<close>

theorem mem_compare_counts:
  assumes "mem_wf m" and "control_regs m ! 1 = b1" and "control_regs m ! 2 = n" and "control_regs m ! 3 = b2"
    and "0 < n" and "unat b1 + unat n \<le> unat (mm_size m)" and "unat b2 + unat n \<le> unat (mm_size m)"
    and "unat b1 + unat n < 2 ^ 32"
  shows "\<exists>d. cmd_compare m = Done (put_reg 0 d m)
    \<and> unat d = card {i. i < unat n \<and> mm_base m ! (unat b1 + i) \<noteq> mm_base m ! (unat b2 + i)}
    \<and> (d = 0 \<longleftrightarrow> take (unat n) (drop (unat b1) (mm_base m)) = take (unat n) (drop (unat b2) (mm_base m)))"
proof -
  let ?D = "{i. i < unat n \<and> mm_base m ! (unat b1 + i) \<noteq> mm_base m ! (unat b2 + i)}"
  have n0: "0 < unat n" using assms(5) by (simp add: word_less_nat_alt)
  have e: "unat (b1 + n) = unat b1 + unat n" using assms(8) by (simp add: unat_word_ariths)
  have cmd: "cmd_compare m = Done (put_reg 0 (of_nat (card ?D)) m)"
    using assms(1-7) n0
    by (simp add: cmd_compare_def Let_def ucast_le_size ucast_gt_size e mem_wf_def count_differences_card)
  have "card ?D \<le> unat n" using card_mono [of "{..< unat n}" ?D] by fastforce
  then have u: "unat (of_nat (card ?D) :: u32) = card ?D"
    using unat32_less [of n] by (simp add: unsigned_of_nat take_bit_nat_eq_self)
  have "finite ?D" by simp
  then have "card ?D = 0 \<longleftrightarrow> (\<forall>i < unat n. mm_base m ! (unat b1 + i) = mm_base m ! (unat b2 + i))"
    by (simp only: card_0_eq) blast
  also have "\<dots> \<longleftrightarrow> take (unat n) (drop (unat b1) (mm_base m)) = take (unat n) (drop (unat b2) (mm_base m))"
    by (rule same_slice [symmetric]) (use assms(1,6,7) in \<open>simp_all add: mem_wf_def\<close>)
  finally have z: "card ?D = 0 \<longleftrightarrow>
      take (unat n) (drop (unat b1) (mm_base m)) = take (unat n) (drop (unat b2) (mm_base m))" .
  have "of_nat (card ?D) = (0 :: u32) \<longleftrightarrow> card ?D = 0"
    unfolding unat_eq_zero [symmetric] u ..
  with z have "of_nat (card ?D) = (0 :: u32) \<longleftrightarrow>
      take (unat n) (drop (unat b1) (mm_base m)) = take (unat n) (drop (unat b2) (mm_base m))"
    by (simp only:)
  with cmd u show ?thesis by (intro exI [of _ "of_nat (card ?D)"] conjI)
qed

section \<open>Peek after poke\<close>

lemma bit_byte_of: "bit (byte_of k w) j \<longleftrightarrow> j < 8 \<and> bit w (8 * k + j)"
proof -
  have "bit (0xff :: u32) j \<longleftrightarrow> j < 8" for j
    using bit_mask_iff [of 8 j, where 'a = u32] by (auto simp: mask_eq_exp_minus_1)
  then show ?thesis by (auto simp: byte_of_def bit_simps)
qed

lemma join_bytes:
  "push_bit 0 (ucast (byte_of 0 w)) OR push_bit 8 (ucast (byte_of 1 w))
    OR push_bit 16 (ucast (byte_of 2 w)) OR push_bit 24 (ucast (byte_of 3 w)) = (w :: u32)"
proof (rule bit_word_eqI)
  fix j assume "j < LENGTH(32)"
  then have "j < 8 \<or> 8 \<le> j \<and> j < 16 \<or> 16 \<le> j \<and> j < 24 \<or> 24 \<le> j \<and> j < 32" by auto
  then show "bit (push_bit 0 (ucast (byte_of 0 w)) OR push_bit 8 (ucast (byte_of 1 w))
    OR push_bit 16 (ucast (byte_of 2 w)) OR push_bit 24 (ucast (byte_of 3 w)) :: u32) j = bit w j"
    by (auto simp: bit_simps bit_byte_of)
qed

text \<open>An address below 2 GiB and inside the memory is used as it is.\<close>

lemma mem_address_id:
  assumes "a < 2 ^ 31" and "a < unat (mm_size m)"
  shows "unat (mem_address (of_nat a) m) = a"
proof -
  have "signed_take_bit 31 (int a) = int a"
    by (rule signed_take_bit_int_eq_self) (use assms(1) in auto)
  then have "sint (of_nat a :: u32) = int a"
    by (simp add: signed_of_nat)
  then have "(scast (of_nat a :: u32) :: u64) = of_nat a"
    by (simp add: scast_eq)
  moreover have "unat (of_nat a :: u64) = a"
    using assms(1) by (simp add: unsigned_of_nat take_bit_nat_eq_self)
  ultimately have "unat ((scast (of_nat a :: u32) :: u64) mod mm_size m) = a"
    using assms(2) by (simp add: unat_mod)
  with assms(1) show ?thesis
    by (simp add: mem_address_def unsigned_ucast_eq take_bit_nat_eq_self)
qed

subsection \<open>What a word memory promises\<close>

text \<open>
  The abstract memory is a partial map from byte addresses to bytes.  A word memory implements the
  little-endian word store and load on it; its users get the read-after-write laws.
\<close>

type_synonym store = "nat \<Rightarrow> u8 option"

definition store32 :: "nat \<Rightarrow> u32 \<Rightarrow> store \<Rightarrow> store" where
  "store32 a v s = s(a \<mapsto> byte_of 0 v, a + 1 \<mapsto> byte_of 1 v, a + 2 \<mapsto> byte_of 2 v, a + 3 \<mapsto> byte_of 3 v)"

definition load32 :: "nat \<Rightarrow> store \<Rightarrow> u32" where
  "load32 a s = push_bit 0 (ucast (the (s a))) OR push_bit 8 (ucast (the (s (a + 1))))
     OR push_bit 16 (ucast (the (s (a + 2)))) OR push_bit 24 (ucast (the (s (a + 3))))"

lemma load_store32: "load32 a (store32 a v s) = v"
  using join_bytes [of v] by (simp add: load32_def store32_def)

lemma load_store32_other: "a + 4 \<le> b \<or> b + 4 \<le> a \<Longrightarrow> load32 b (store32 a v s) = load32 b s"
  by (auto simp: load32_def store32_def)

lemma store_store32: "a + 4 \<le> b \<or> b + 4 \<le> a \<Longrightarrow> store32 b w (store32 a v s) = store32 a v (store32 b w s)"
  by (auto simp: store32_def fun_eq_iff)

locale word_memory =
  fixes poke32 :: "nat \<Rightarrow> u32 \<Rightarrow> 's \<Rightarrow> 's outcome"
    and peek32 :: "nat \<Rightarrow> 's \<Rightarrow> u32 outcome"
    and bytes :: "'s \<Rightarrow> store"
    and valid :: "'s \<Rightarrow> nat \<Rightarrow> bool"
  assumes poke_refines: "valid s a \<Longrightarrow>
      \<exists>t. poke32 a v s = Done t \<and> bytes t = store32 a v (bytes s) \<and> (\<forall>b. valid s b \<longrightarrow> valid t b)"
    and peek_refines: "valid s a \<Longrightarrow> peek32 a s = Done (load32 a (bytes s))"
begin

lemma peek_after_poke: "valid s a \<Longrightarrow> obind (poke32 a v s) (peek32 a) = Done v"
  using poke_refines [of s a v] peek_refines by (fastforce simp: load_store32)

lemma peek_elsewhere:
  assumes "valid s a" and "valid s b" and "a + 4 \<le> b \<or> b + 4 \<le> a"
  shows "obind (poke32 a v s) (peek32 b) = peek32 b s"
proof -
  obtain t where "poke32 a v s = Done t" "bytes t = store32 a v (bytes s)" "valid t b"
    using poke_refines [OF assms(1), of v] assms(2) by blast
  with assms show ?thesis by (simp add: peek_refines load_store32_other)
qed

end

definition mem_bytes :: "nat \<Rightarrow> memory_map_t list \<Rightarrow> store" where
  "mem_bytes n maps a = (if a < length (mm_base (maps ! n)) then Some (mm_base (maps ! n) ! a) else None)"

definition mem_valid :: "nat \<Rightarrow> memory_map_t list \<Rightarrow> nat \<Rightarrow> bool" where
  "mem_valid n maps a \<longleftrightarrow> maps_wf maps \<and> n < MEMORY_INSTANCES \<and> a < 2 ^ 31
     \<and> a + 3 < unat (mm_size (maps ! n))"

text \<open>The device as a word memory: pokes and peeks of memory \<open>n\<close> through BAR 0.\<close>

definition vint :: "u32 \<Rightarrow> vpi_arg" where
  "vint v = \<lparr>vpi_str = [], vpi_int = v\<rparr>"

definition mem_poke :: "'w file_os \<Rightarrow> 'w \<Rightarrow> nat \<Rightarrow> nat \<Rightarrow> u32 \<Rightarrow> memory_map_t list \<Rightarrow> memory_map_t list outcome" where
  "mem_poke fs w n a v maps =
     obind (memory_poke_calltf fs w [vint (of_nat n), vint (of_nat a), vint v, vint 0] maps)
       (\<lambda>(maps', w'). Done maps')"

definition mem_peek :: "nat \<Rightarrow> nat \<Rightarrow> memory_map_t list \<Rightarrow> u32 outcome" where
  "mem_peek n a maps = memory_peek_calltf [vint (of_nat n), vint (of_nat a), vint 0] maps"

lemma vint_sel [simp]: "vpi_int (vint v) = v"
  by (simp add: vint_def)

lemma validD:
  assumes "mem_valid n maps a"
  shows "n < length maps" "unat (of_nat n :: u32) = n" "mm_size (maps ! n) \<noteq> 0"
    "unat (mem_address (of_nat a) (maps ! n)) = a" "a + 3 < length (mm_base (maps ! n))"
    "mem_wf (maps ! n)"
proof -
  from assms have n: "n < 4" and l: "length maps = 4"
    by (simp_all add: mem_valid_def MEMORY_INSTANCES_def)
  then show "n < length maps" "unat (of_nat n :: u32) = n"
    by (simp_all add: unsigned_of_nat take_bit_nat_eq_self)
  from assms have "mem_wf (maps ! n)" and s: "a + 3 < unat (mm_size (maps ! n))"
    by (simp_all add: mem_valid_def list_all_length)
  then show "mem_wf (maps ! n)" and "a + 3 < length (mm_base (maps ! n))"
    by (simp_all add: mem_wf_def)
  from s show "mm_size (maps ! n) \<noteq> 0" by auto
  from assms s show "unat (mem_address (of_nat a) (maps ! n)) = a"
    by (intro mem_address_id) (simp_all add: mem_valid_def)
qed

interpretation mem: word_memory "mem_poke fs w n" "mem_peek n" "mem_bytes n" "mem_valid n" for fs w n
proof
  fix maps a v
  assume v: "mem_valid n maps a"
  note D = validD [OF v]
  let ?b = "(mm_base (maps ! n))[a := byte_of 0 v, a + 1 := byte_of 1 v, a + 2 := byte_of 2 v, a + 3 := byte_of 3 v]"
  let ?t = "maps[n := (maps ! n)\<lparr>mm_base := ?b\<rparr>]"
  have "mem_poke fs w n a v maps = Done ?t"
    using D by (simp add: mem_poke_def memory_poke_calltf_def Let_def)
  moreover have "mem_bytes n ?t = store32 a v (mem_bytes n maps)"
    using D(1,5) by (auto simp: mem_bytes_def store32_def fun_eq_iff nth_list_update)
  moreover have "mem_valid n ?t b" if "mem_valid n maps b" for b
  proof -
    have "maps_wf ?t"
      using that D(6) by (intro maps_wf_update) (simp_all add: mem_valid_def mem_wf_def)
    with that D(1) show ?thesis by (simp add: mem_valid_def)
  qed
  ultimately show "\<exists>t. mem_poke fs w n a v maps = Done t \<and> mem_bytes n t = store32 a v (mem_bytes n maps)
      \<and> (\<forall>b. mem_valid n maps b \<longrightarrow> mem_valid n t b)" by blast
next
  fix maps a
  assume v: "mem_valid n maps a"
  note D = validD [OF v]
  show "mem_peek n a maps = Done (load32 a (mem_bytes n maps))"
    using D by (simp add: mem_peek_def memory_peek_calltf_def Let_def load32_def mem_bytes_def)
qed

text \<open>C38: Through BAR 0 the device is a little-endian word memory: a poke inside the memory (below 2 GiB)
  is the store of the four bytes in the abstract byte map and a peek is the load of four bytes, so a
  peek returns the word last poked there, and pokes elsewhere do not disturb it.\<close>

theorem mem_refines_store:
  assumes "mem_valid n maps a"
  shows "(\<exists>maps'. mem_poke fs w n a v maps = Done maps' \<and> mem_bytes n maps' = store32 a v (mem_bytes n maps)
      \<and> mem_valid n maps' a)
    \<and> mem_peek n a maps = Done (load32 a (mem_bytes n maps))
    \<and> obind (mem_poke fs w n a v maps) (mem_peek n a) = Done v
    \<and> (mem_valid n maps b \<and> (a + 4 \<le> b \<or> b + 4 \<le> a)
        \<longrightarrow> obind (mem_poke fs w n a v maps) (mem_peek n b) = mem_peek n b maps)"
proof (intro conjI impI)
  show "\<exists>maps'. mem_poke fs w n a v maps = Done maps' \<and> mem_bytes n maps' = store32 a v (mem_bytes n maps)
      \<and> mem_valid n maps' a"
    using mem.poke_refines [OF assms, of fs w v] assms by metis
  show "mem_peek n a maps = Done (load32 a (mem_bytes n maps))" by (rule mem.peek_refines [OF assms])
  show "obind (mem_poke fs w n a v maps) (mem_peek n a) = Done v" by (rule mem.peek_after_poke [OF assms])
  assume "mem_valid n maps b \<and> (a + 4 \<le> b \<or> b + 4 \<le> a)"
  then show "obind (mem_poke fs w n a v maps) (mem_peek n b) = mem_peek n b maps"
    by (elim conjE) (rule mem.peek_elsewhere [OF assms])
qed

text \<open>The shape of the four descriptors (the size field is the length of the mapping, the register bank has
  1024 registers) is kept, whatever command a poke starts, if \<open>mmap\<close> maps as many bytes as it was
  asked for; what the functions do with the contents is said above.\<close>

lemma mem_functions_keep_wf:
  assumes "maps_wf maps" and "\<And>w n f b. fs_mmap fs w n f = Some b \<Longrightarrow> length b = unat n"
  shows "ret (memory_open_calltf fs w args maps) (\<lambda>(i, maps', w'). i < MEMORY_INSTANCES \<and> maps_wf maps')
    \<and> ret (memory_poke_calltf fs w args maps) (\<lambda>(maps', w'). maps_wf maps')"
proof
  have len: "length maps = MEMORY_INSTANCES" using assms(1) by simp
  have wf: "mem_wf (maps ! i)" if "i < MEMORY_INSTANCES" for i
    by (rule maps_wf_nth [OF assms(1) that])
  have upd: "list_all mem_wf (maps[i := m])" if "mem_wf m" for i m
    using maps_wf_update [OF assms(1) that] by simp
  show "ret (memory_open_calltf fs w args maps) (\<lambda>(i, maps', w'). i < MEMORY_INSTANCES \<and> maps_wf maps')"
    unfolding memory_open_calltf_def Let_def
    by (simp del: ret_obind, intro impI, rule ret_any)
      (auto simp: len mem_wf_def dest!: assms(2) wf split: prod.split option.split intro!: upd)
  have cmd: "ret (memdev_command fs w i (maps[j := m])) (\<lambda>(maps', w'). maps_wf maps')" if "mem_wf m" for i j m
    by (rule command_wf [OF maps_wf_update [OF assms(1) that]])
  have base: "mem_wf (m\<lparr>mm_base := b\<rparr>)" if "mem_wf m" and "length b = length (mm_base m)" for m b
    using that by (simp add: mem_wf_def)
  show "ret (memory_poke_calltf fs w args maps) (\<lambda>(maps', w'). maps_wf maps')"
    unfolding memory_poke_calltf_def Let_def ret_c_assert ret_c_defined ret_if
    using assms(1) len
    by (intro impI conjI, unfold ret_Done prod.case) (auto intro!: cmd upd base wf simp: wf)
qed

section \<open>Concrete runs\<close>

text \<open>A file system that maps zeroes, loads one file and writes everything, and a memory of 16 bytes whose
  registers hold the arguments of a command.\<close>

definition demo_fs :: "unit file_os" where
  "demo_fs = \<lparr>fs_open = (\<lambda>w p. (3, w)), fs_ftruncate = (\<lambda>w f n. w), fs_mmap = (\<lambda>w n f. Some (replicate (unat n) 0)),
     fs_load = (\<lambda>w p n. if p = ''boot'' then Some (take n [7, 8, 9]) else None),
     fs_create = (\<lambda>w p. Some w), fs_write = (\<lambda>w p bs. (length bs, w))\<rparr>"

definition demo_map :: "u32 \<Rightarrow> u32 \<Rightarrow> u32 \<Rightarrow> memory_map_t" where
  "demo_map a b c = \<lparr>mm_fd = 3, mm_path = Some ''ram'', mm_base = replicate 16 0, mm_size = 16,
     control_regs = [0, a, b, c] @ replicate 1020 0\<rparr>"

lemma demo_map_wf: "mem_wf (demo_map a b c)"
  by (simp add: demo_map_def mem_wf_def CONTROL_COUNT_def)

lemma demo_map_sel [simp]:
  "control_regs (demo_map a b c) ! Suc 0 = a" "control_regs (demo_map a b c) ! 2 = b"
  "control_regs (demo_map a b c) ! 3 = c" "mm_size (demo_map a b c) = 16"
  "mm_base (demo_map a b c) = replicate 16 0"
  by (simp_all add: demo_map_def)

theorem mem_fill_effect_witness:
  "\<exists>mem. cmd_fill (demo_map 4 2 0x44332211) = Done ((demo_map 4 2 0x44332211)\<lparr>mm_base := mem\<rparr>)
    \<and> length mem = 16 \<and> mem ! 5 = 0x22 \<and> mem ! 12 = 0"
proof -
  have "byte_of 1 0x44332211 = 0x22" by (simp add: byte_of_def)
  then show ?thesis
    using mem_fill_effect [OF demo_map_wf, of 4 2 "0x44332211" 4 2 "0x44332211"] by auto
qed

theorem mem_compare_counts_witness:
  "\<exists>d. cmd_compare (demo_map 0 4 8) = Done (put_reg 0 d (demo_map 0 4 8)) \<and> d = 0"
  using mem_compare_counts [OF demo_map_wf, of 0 4 8 0 4 8] by auto

lemma demo_maps_wf: "maps_wf (replicate 4 (demo_map 0 0 0))"
  using demo_map_wf [of 0 0 0] by (simp add: MEMORY_INSTANCES_def list_all_length nth_Cons')

theorem mem_refines_store_witness:
  "obind (mem_poke demo_fs () 1 8 0xdeadbeef (replicate 4 (demo_map 0 0 0))) (mem_peek 1 8) = Done 0xdeadbeef"
proof -
  have "mem_valid 1 (replicate 4 (demo_map 0 0 0)) 8"
    using demo_maps_wf by (simp add: mem_valid_def MEMORY_INSTANCES_def)
  from mem_refines_store [OF this, of demo_fs "()" "0xdeadbeef" 0] show ?thesis by blast
qed

end
