(* ===== verification/Sim_AXI4.thy ===== *)
theory Sim_AXI4
  imports Sim_Base
begin

text \<open>
  The AXI4 bus object and its master side: libsimbus/simbus_axi4.c (connection, READY exchange,
  clock, interrupts, reset), simbus_axi4_write.c and simbus_axi4_read.c (single-beat transactions
  of 8 to 64 bits), with the structure of simbus_axi4_priv.h and the response codes of
  simbus_axi4_common.h.  Theory Sim_AXI4_Slave has the slave side, which uses the same object.

  The arrays of the bus object are lists of their C length; the configured widths say how much of
  them is on the wire.  The widths of the ID and IRQ vectors are not checked by the connection, so
  an exchange with a vector wider than its array is \<open>Undefined\<close> here.  The debug log is dropped.
  The device of a slave works on a state of its own, the field \<open>user\<close>.

  The READY function of the master indexes the BID array with the number of the token instead of
  the number of the character.  To follow it, the object has a field \<open>tok_idx\<close> for that loop
  variable, set when the time token is read and stepped by every signal.
\<close>

section \<open>The bus object\<close>

definition AXI4_RESP_TIMELIMIT :: int where "AXI4_RESP_TIMELIMIT = 1024"
definition AXI4_MAX_ADDR :: nat where "AXI4_MAX_ADDR = 64"
definition AXI4_MAX_DATA :: nat where "AXI4_MAX_DATA = 64"
definition AXI4_MAX_ID :: nat where "AXI4_MAX_ID = 64"
definition AXI4_MAX_IRQ :: nat where "AXI4_MAX_IRQ = 32"
definition SIMBUS_AXI4_FINISHED :: int where "SIMBUS_AXI4_FINISHED = -2"

lemmas axi4_limits = AXI4_MAX_ADDR_def AXI4_MAX_DATA_def AXI4_MAX_ID_def AXI4_MAX_IRQ_def

datatype simbus_axi4_resp =
  SIMBUS_AXI4_RESP_OKAY | SIMBUS_AXI4_RESP_EXOKAY | SIMBUS_AXI4_RESP_SLVERR | SIMBUS_AXI4_RESP_DECERR

record 'd simbus_axi4s_slave =
  write64 :: "('d \<Rightarrow> u64 \<Rightarrow> u8 \<Rightarrow> u64 \<Rightarrow> simbus_axi4_resp \<times> 'd) option"
  write32 :: "('d \<Rightarrow> u64 \<Rightarrow> u8 \<Rightarrow> u32 \<Rightarrow> simbus_axi4_resp \<times> 'd) option"
  write16 :: "('d \<Rightarrow> u64 \<Rightarrow> u8 \<Rightarrow> u16 \<Rightarrow> simbus_axi4_resp \<times> 'd) option"
  write8 :: "('d \<Rightarrow> u64 \<Rightarrow> u8 \<Rightarrow> u8 \<Rightarrow> simbus_axi4_resp \<times> 'd) option"
  read64 :: "('d \<Rightarrow> u64 \<Rightarrow> u8 \<Rightarrow> simbus_axi4_resp \<times> u64 \<times> 'd) option"
  read32 :: "('d \<Rightarrow> u64 \<Rightarrow> u8 \<Rightarrow> simbus_axi4_resp \<times> u32 \<times> 'd) option"
  read16 :: "('d \<Rightarrow> u64 \<Rightarrow> u8 \<Rightarrow> simbus_axi4_resp \<times> u16 \<times> 'd) option"
  read8 :: "('d \<Rightarrow> u64 \<Rightarrow> u8 \<Rightarrow> simbus_axi4_resp \<times> u8 \<times> 'd) option"

record axi4_slave_state =
  waddr :: u64
  wsize :: u8
  wlen :: u8
  wprot :: u8
  wburst :: u8
  raddr :: u64
  rsize :: u8
  rlen :: u8
  rprot :: u8
  rburst :: u8

record 'd simbus_axi4 =
  name :: string
  fd :: conn
  ident :: u32
  device :: "'d simbus_axi4s_slave option"
  data_width :: nat
  addr_width :: nat
  wid_width :: nat
  rid_width :: nat
  irq_width :: nat
  axsize_word :: nat
  slave :: axi4_slave_state
  bus_time :: simbus_time
  areset_n :: bitval
  awvalid :: bitval
  awaddr :: "bitval list"
  awlen :: "bitval list"
  awsize :: "bitval list"
  awburst :: "bitval list"
  awlock :: "bitval list"
  awcache :: "bitval list"
  awprot :: "bitval list"
  awqos :: "bitval list"
  awid :: "bitval list"
  wvalid :: bitval
  wdata :: "bitval list"
  wstrb :: "bitval list"
  bready :: bitval
  arvalid :: bitval
  araddr :: "bitval list"
  arlen :: "bitval list"
  arsize :: "bitval list"
  arburst :: "bitval list"
  arlock :: "bitval list"
  arcache :: "bitval list"
  arprot :: "bitval list"
  arqos :: "bitval list"
  arid :: "bitval list"
  rready :: bitval
  aclk :: bitval
  awready :: bitval
  wready :: bitval
  bvalid :: bitval
  bresp :: "bitval list"
  bid :: "bitval list"
  arready :: bitval
  rvalid :: bitval
  rdata :: "bitval list"
  rresp :: "bitval list"
  rid :: "bitval list"
  irq :: "bitval list"
  tok_idx :: nat
  user :: 'd

text \<open>
  \<open>calloc\<close> and \<open>init_simbus_axi4\<close>.  The initialiser also writes \<open>rresp[2]\<close>, one past the array;
  in the structure that is \<open>rid[0]\<close>, which nothing reads.
\<close>

definition init_simbus_axi4 :: "string \<Rightarrow> conn \<Rightarrow> u32 \<Rightarrow> 'd \<Rightarrow> 'd simbus_axi4" where
  "init_simbus_axi4 nm c idn u =
     \<lparr>name = nm, fd = c, ident = idn, device = None,
      data_width = 0, addr_width = 0, wid_width = 0, rid_width = 0, irq_width = 0, axsize_word = 0,
      slave = \<lparr>waddr = 0, wsize = 0, wlen = 0, wprot = 0, wburst = 0,
               raddr = 0, rsize = 0, rlen = 0, rprot = 0, rburst = 0\<rparr>,
      bus_time = init_simbus_time, areset_n = BIT_1,
      awvalid = BIT_0, awaddr = replicate AXI4_MAX_ADDR BIT_X, awlen = replicate 8 BIT_X,
      awsize = replicate 3 BIT_X, awburst = replicate 2 BIT_X, awlock = replicate 2 BIT_X,
      awcache = replicate 4 BIT_X, awprot = replicate 3 BIT_X, awqos = replicate 4 BIT_X,
      awid = replicate AXI4_MAX_ID BIT_X,
      wvalid = BIT_0, wdata = replicate AXI4_MAX_DATA BIT_X, wstrb = replicate (AXI4_MAX_DATA div 8) BIT_X,
      bready = BIT_0,
      arvalid = BIT_0, araddr = replicate AXI4_MAX_ADDR BIT_X, arlen = replicate 8 BIT_X,
      arsize = replicate 3 BIT_X, arburst = replicate 2 BIT_X, arlock = replicate 2 BIT_X,
      arcache = replicate 4 BIT_X, arprot = replicate 3 BIT_X, arqos = replicate 4 BIT_X,
      arid = replicate AXI4_MAX_ID BIT_Z, rready = BIT_0,
      aclk = BIT_X, awready = BIT_Z, wready = BIT_Z, bvalid = BIT_Z, bresp = replicate 2 BIT_Z,
      bid = replicate AXI4_MAX_ID BIT_Z, arready = BIT_Z, rvalid = BIT_Z,
      rdata = replicate AXI4_MAX_DATA BIT_Z, rresp = replicate 2 BIT_Z,
      rid = BIT_Z # replicate (AXI4_MAX_ID - 1) BIT_0, irq = replicate AXI4_MAX_IRQ BIT_0,
      tok_idx = 0, user = u\<rparr>"

text \<open>\<open>while ((8 << bus->axsize_word) < bus->data_width) bus->axsize_word += 1;\<close>\<close>

function axsize_for :: "nat \<Rightarrow> nat \<Rightarrow> nat" where
  "axsize_for w dw = (if 8 * 2 ^ w < dw then axsize_for (Suc w) dw else w)"
  by auto
termination
proof (relation "measure (\<lambda>(w, dw). dw - 2 ^ w)")
  show "wf (measure (\<lambda>(w, dw). dw - 2 ^ w))" by simp
next
  fix w dw :: nat
  assume "8 * 2 ^ w < dw"
  moreover have "dw - 2 * k < dw - k" if "8 * k < dw" and "0 < k" for k :: nat
    using that by simp
  ultimately have "dw - 2 * 2 ^ w < dw - 2 ^ w" by simp
  then show "((Suc w, dw), (w, dw)) \<in> measure (\<lambda>(w, dw). dw - 2 ^ w)" by simp
qed

declare axsize_for.simps [simp del]

definition simbus_axi4_connect ::
  "'a os \<Rightarrow> string \<Rightarrow> string \<Rightarrow> nat \<Rightarrow> nat \<Rightarrow> nat \<Rightarrow> nat \<Rightarrow> nat \<Rightarrow> 'd \<Rightarrow> 'd simbus_axi4 option outcome" where
  "simbus_axi4_connect os server nm dw aw ww rw iw u =
     obind (simbus_server_socket os server) (\<lambda>server_fd.
       case server_fd of
         None \<Rightarrow> Stop Assert_failed
       | Some c \<Rightarrow>
           c_assert (dw \<le> AXI4_MAX_DATA) (c_assert (aw \<le> AXI4_MAX_ADDR)
             (obind (simbus_server_hello c nm
                 [''data_width='' @ dec_nat dw, ''addr_width='' @ dec_nat aw, ''wid_width='' @ dec_nat ww,
                  ''rid_width='' @ dec_nat rw, ''irq_width='' @ dec_nat iw]) (\<lambda>(rc, idn, c').
                if rc < 0 then Done None
                else Done (Some ((init_simbus_axi4 nm c' idn u)\<lparr>data_width := dw, addr_width := aw,
                       wid_width := ww, rid_width := rw, irq_width := iw,
                       axsize_word := axsize_for 0 dw\<rparr>))))))"

definition simbus_axi4_disconnect :: "'d simbus_axi4 \<Rightarrow> conn" where
  "simbus_axi4_disconnect bus = sock_close (fd bus)"

definition simbus_axi4_end_simulation :: "'d simbus_axi4 \<Rightarrow> conn outcome" where
  "simbus_axi4_end_simulation bus =
     obind (simbus_server_finish (fd bus)) (\<lambda>c. Done (simbus_axi4_disconnect (bus\<lparr>fd := c\<rparr>)))"

section \<open>The READY exchange of a master\<close>

definition sig1 :: "string \<Rightarrow> bitval \<Rightarrow> string" where
  "sig1 nm v = '' '' @ nm @ ''='' @ [bitval_to_char v]"

definition ready_message_axi4 :: "'d simbus_axi4 \<Rightarrow> string" where
  "ready_message_axi4 bus =
     ready_prefix (bus_time bus)
     @ sig1 ''ARESETn'' (areset_n bus)
     @ sig1 ''AWVALID'' (awvalid bus)
     @ ready_signal ''AWADDR'' (awaddr bus) (addr_width bus)
     @ ready_signal ''AWLEN'' (awlen bus) 8
     @ ready_signal ''AWSIZE'' (awsize bus) 3
     @ ready_signal ''AWBURST'' (awburst bus) 2
     @ ready_signal ''AWLOCK'' (awlock bus) 2
     @ ready_signal ''AWCACHE'' (awcache bus) 4
     @ ready_signal ''AWPROT'' (awprot bus) 3
     @ ready_signal ''AWQOS'' (awqos bus) 4
     @ ready_signal ''AWID'' (awid bus) (wid_width bus)
     @ sig1 ''WVALID'' (wvalid bus)
     @ ready_signal ''WDATA'' (wdata bus) (data_width bus)
     @ ready_signal ''WSTRB'' (wstrb bus) (data_width bus div 8)
     @ sig1 ''BREADY'' (bready bus)
     @ sig1 ''ARVALID'' (arvalid bus)
     @ ready_signal ''ARADDR'' (araddr bus) (addr_width bus)
     @ ready_signal ''ARLEN'' (arlen bus) 8
     @ ready_signal ''ARSIZE'' (arsize bus) 3
     @ ready_signal ''ARBURST'' (arburst bus) 2
     @ ready_signal ''ARLOCK'' (arlock bus) 2
     @ ready_signal ''ARCACHE'' (arcache bus) 4
     @ ready_signal ''ARPROT'' (arprot bus) 3
     @ ready_signal ''ARQOS'' (arqos bus) 4
     @ ready_signal ''ARID'' (arid bus) (rid_width bus)
     @ sig1 ''RREADY'' (rready bus)
     @ [NL]"

text \<open>The vectors on the wire lie inside their arrays.\<close>

definition axi4_fits :: "'d simbus_axi4 \<Rightarrow> bool" where
  "axi4_fits bus \<longleftrightarrow> data_width bus \<le> AXI4_MAX_DATA \<and> addr_width bus \<le> AXI4_MAX_ADDR
     \<and> wid_width bus \<le> AXI4_MAX_ID \<and> rid_width bus \<le> AXI4_MAX_ID"

text \<open>
  \<open>for (bdx = 0 ; cp[bdx] ; bdx += 1) bus->bid[bus->wid_width-1-idx] = __char_to_bitval(cp[bdx]);\<close>
  with the token number \<open>idx\<close>; outside the array when the token number is not below the width.
\<close>

definition take_bid :: "string \<Rightarrow> nat \<Rightarrow> nat \<Rightarrow> bitval list \<Rightarrow> bitval list outcome" where
  "take_bid cp width idx xs =
     c_assert (length cp = width)
       (if width = 0 then Done xs
        else c_defined (idx < width) (Done (xs[width - 1 - idx := char_to_bitval (last cp)])))"

definition on_signal_axi4 :: "'d simbus_axi4 \<Rightarrow> string \<Rightarrow> string \<Rightarrow> 'd simbus_axi4 outcome" where
  "on_signal_axi4 bus0 nm cp =
     (let v = char_to_bitval (char0 cp); bus = bus0\<lparr>tok_idx := Suc (tok_idx bus0)\<rparr>
      in if nm = ''ACLK'' then Done (bus\<lparr>aclk := v\<rparr>)
         else if nm = ''AWREADY'' then Done (bus\<lparr>awready := v\<rparr>)
         else if nm = ''WREADY'' then Done (bus\<lparr>wready := v\<rparr>)
         else if nm = ''BVALID'' then Done (bus\<lparr>bvalid := v\<rparr>)
         else if nm = ''BRESP'' then obind (until_signal cp (bresp bus) 2) (\<lambda>xs. Done (bus\<lparr>bresp := xs\<rparr>))
         else if nm = ''BID'' then
           obind (take_bid cp (wid_width bus) (tok_idx bus0) (bid bus)) (\<lambda>xs. Done (bus\<lparr>bid := xs\<rparr>))
         else if nm = ''ARREADY'' then Done (bus\<lparr>arready := v\<rparr>)
         else if nm = ''RVALID'' then Done (bus\<lparr>rvalid := v\<rparr>)
         else if nm = ''RDATA'' then obind (until_signal cp (rdata bus) (data_width bus)) (\<lambda>xs. Done (bus\<lparr>rdata := xs\<rparr>))
         else if nm = ''RRESP'' then obind (until_signal cp (rresp bus) 2) (\<lambda>xs. Done (bus\<lparr>rresp := xs\<rparr>))
         else if nm = ''RID'' then obind (until_signal cp (rid bus) (rid_width bus)) (\<lambda>xs. Done (bus\<lparr>rid := xs\<rparr>))
         else if nm = ''IRQ'' then
           c_defined (irq_width bus \<le> AXI4_MAX_IRQ \<or> length cp \<noteq> irq_width bus)
             (obind (until_signal cp (irq bus) (irq_width bus)) (\<lambda>xs. Done (bus\<lparr>irq := xs\<rparr>)))
         else Done bus)"

definition axi4_ready_command :: "'d simbus_axi4 \<Rightarrow> (int \<times> 'd simbus_axi4) outcome" where
  "axi4_ready_command bus =
     c_defined (axi4_fits bus)
       (ready_exchange fd (\<lambda>c b. b\<lparr>fd := c\<rparr>) SIMBUS_AXI4_FINISHED
          (\<lambda>t b. b\<lparr>bus_time := t, tok_idx := 2\<rparr>) on_signal_axi4 (ready_message_axi4 bus) bus)"

section \<open>Clock, interrupts, reset\<close>

definition axi4_next_posedge :: "'d simbus_axi4 \<Rightarrow> 'd simbus_axi4 outcome" where
  "axi4_next_posedge bus =
     obind (spin fd axi4_ready_command (\<lambda>b. aclk b \<noteq> BIT_0) bus)
       (spin fd axi4_ready_command (\<lambda>b. aclk b \<noteq> BIT_1))"

text \<open>\<open>for (idx = 0 ; idx < irq_width ; idx += 1) { if (irq[idx] == BIT_1) continue; rc &= ~(1 << idx); }\<close>\<close>

definition axi4_test_interrupts :: "'d simbus_axi4 \<Rightarrow> u32 option \<Rightarrow> u32 outcome" where
  "axi4_test_interrupts bus irq_mask =
     (case irq_mask of
        None \<Rightarrow> Done 0
      | Some rc \<Rightarrow>
          c_defined (irq_width bus \<le> AXI4_MAX_IRQ)
            (Done (fold (\<lambda>idx r. if irq bus ! idx = BIT_1 then r else r AND NOT (push_bit idx 1))
                     [0..<irq_width bus] rc)))"

fun axi4_wait_clocks ::
  "nat \<Rightarrow> u32 option \<Rightarrow> 'd simbus_axi4 \<Rightarrow> (int \<times> u32 option \<times> 'd simbus_axi4) outcome" where
  "axi4_wait_clocks 0 irq_mask bus = Done (0, map_option (\<lambda>_. 0) irq_mask, bus)"
| "axi4_wait_clocks (Suc clks) irq_mask bus =
     obind (axi4_next_posedge bus) (\<lambda>b.
       obind (axi4_test_interrupts b irq_mask) (\<lambda>t.
         if t \<noteq> 0 then Done (1, Some t, b) else axi4_wait_clocks clks irq_mask b))"

definition simbus_axi4_wait ::
  "'d simbus_axi4 \<Rightarrow> nat \<Rightarrow> u32 option \<Rightarrow> (int \<times> u32 option \<times> 'd simbus_axi4) outcome" where
  "simbus_axi4_wait bus clks irq_mask =
     obind (axi4_test_interrupts bus irq_mask) (\<lambda>t.
       if t \<noteq> 0 then Done (1, Some t, bus)
       else if clks = 0 then Done (0, map_option (\<lambda>_. 0) irq_mask, bus)
       else axi4_wait_clocks clks irq_mask bus)"

definition simbus_axi4_reset :: "'d simbus_axi4 \<Rightarrow> nat \<Rightarrow> nat \<Rightarrow> 'd simbus_axi4 outcome" where
  "simbus_axi4_reset bus width settle =
     c_assert (width > 0) (c_assert (settle > 0)
       (obind (simbus_axi4_wait (bus\<lparr>areset_n := BIT_0\<rparr>) width None) (\<lambda>(rc, m, b).
          obind (simbus_axi4_wait (b\<lparr>areset_n := BIT_1\<rparr>) settle None) (\<lambda>(rc, m, b2). Done b2))))"

section \<open>Writing\<close>

text \<open>The integers \<open>addr\<close>, \<open>write_size\<close> and \<open>prot\<close> are driven low bit first.\<close>

definition waddr_setup :: "u64 \<Rightarrow> int \<Rightarrow> int \<Rightarrow> 'd simbus_axi4 \<Rightarrow> 'd simbus_axi4 outcome" where
  "waddr_setup addr write_size prot bus =
     c_assert (addr_width bus \<le> AXI4_MAX_ADDR)
       (Done (bus\<lparr>awaddr := put_bits 0 (addr_width bus) addr (awaddr bus),
          awlen := fill_bits 0 8 BIT_0 (awlen bus),
          awsize := put_bits 0 3 write_size (awsize bus),
          awburst := (awburst bus)[0 := BIT_1, 1 := BIT_0],
          awlock := fill_bits 0 2 BIT_0 (awlock bus),
          awcache := fill_bits 0 4 BIT_0 (awcache bus),
          awprot := put_bits 0 3 prot (awprot bus),
          awqos := fill_bits 0 4 BIT_0 (awqos bus),
          awid := fill_bits 0 AXI4_MAX_ID BIT_0 (awid bus)\<rparr>))"

definition waddr_clear :: "'d simbus_axi4 \<Rightarrow> 'd simbus_axi4" where
  "waddr_clear bus =
     bus\<lparr>awaddr := fill_bits 0 AXI4_MAX_ADDR BIT_X (awaddr bus),
         awlen := fill_bits 0 8 BIT_X (awlen bus),
         awsize := fill_bits 0 3 BIT_X (awsize bus),
         awburst := fill_bits 0 2 BIT_X (awburst bus),
         awlock := fill_bits 0 2 BIT_X (awlock bus),
         awcache := fill_bits 0 4 BIT_X (awcache bus),
         awprot := fill_bits 0 3 BIT_X (awprot bus),
         awqos := fill_bits 0 4 BIT_X (awqos bus),
         awid := fill_bits 0 AXI4_MAX_ID BIT_X (awid bus)\<rparr>"

text \<open>The response code carried by two response lines.\<close>

definition resp_of_lines :: "bitval list \<Rightarrow> simbus_axi4_resp" where
  "resp_of_lines r =
     (let resp_tmp = ((if r ! 0 = BIT_1 then 1 else 0) OR (if r ! 1 = BIT_1 then 2 else 0) :: nat)
      in if resp_tmp = 0 then SIMBUS_AXI4_RESP_OKAY
         else if resp_tmp = 1 then SIMBUS_AXI4_RESP_EXOKAY
         else if resp_tmp = 2 then SIMBUS_AXI4_RESP_SLVERR
         else SIMBUS_AXI4_RESP_DECERR)"

text \<open>
  The three tests after each clock of \<open>wait_for_resp\<close>.  On a time-out the code tests
  \<open>bus->bready==BIT_0\<close> where it means to assign, so \<open>bready\<close> stays.
\<close>

definition waddr_turn :: "'d simbus_axi4 \<Rightarrow> 'd simbus_axi4" where
  "waddr_turn bus =
     (if awvalid bus = BIT_1 \<and> awready bus = BIT_1 then waddr_clear (bus\<lparr>awvalid := BIT_0\<rparr>) else bus)"

definition wdata_turn :: "'d simbus_axi4 \<Rightarrow> 'd simbus_axi4" where
  "wdata_turn bus =
     (if wvalid bus = BIT_1 \<and> wready bus = BIT_1
      then bus\<lparr>wvalid := BIT_0, wdata := fill_bits 0 AXI4_MAX_DATA BIT_X (wdata bus),
               wstrb := fill_bits 0 (AXI4_MAX_DATA div 8) BIT_X (wstrb bus)\<rparr>
      else bus)"

definition resp_turn ::
  "simbus_axi4_resp \<times> int \<times> 'd simbus_axi4 \<Rightarrow> simbus_axi4_resp \<times> int \<times> 'd simbus_axi4" where
  "resp_turn = (\<lambda>(resp_code, response_timer, bus).
     if bready bus = BIT_1 \<and> bvalid bus = BIT_1
     then (resp_of_lines (bresp bus), response_timer, bus\<lparr>bready := BIT_0\<rparr>)
     else if bready bus = BIT_1
     then if response_timer - 1 < 0
          then (SIMBUS_AXI4_RESP_SLVERR, response_timer - 1, bus)
          else (resp_code, response_timer - 1, bus)
     else (resp_code, response_timer, bus))"

definition wait_for_resp :: "'d simbus_axi4 \<Rightarrow> (simbus_axi4_resp \<times> 'd simbus_axi4) outcome" where
  "wait_for_resp bus =
     obind (while_io (\<lambda>(rc, tm, b). pending (fd b))
         (\<lambda>(rc, tm, b). awvalid b = BIT_1 \<or> wvalid b = BIT_1 \<or> bready b = BIT_1)
         (\<lambda>(rc, tm, b). obind (axi4_next_posedge b) (\<lambda>b'.
            Done (resp_turn (rc, tm, wdata_turn (waddr_turn b')))))
         (SIMBUS_AXI4_RESP_OKAY, AXI4_RESP_TIMELIMIT, bus))
       (\<lambda>(rc, tm, b). Done (rc, b))"

text \<open>
  The data and strobe lines of a write of \<open>n\<close> bits at byte \<open>data_pref\<close>: lines below the datum are
  set to X, then the datum is driven, then the lines from \<open>data_pref * 8 + clr\<close> on are set to X.
\<close>

definition drive_wdata :: "nat \<Rightarrow> nat \<Rightarrow> nat \<Rightarrow> 'w::len word \<Rightarrow> 'd simbus_axi4 \<Rightarrow> 'd simbus_axi4 outcome" where
  "drive_wdata data_pref n clr data bus =
     c_defined (data_pref * 8 + n \<le> AXI4_MAX_DATA)
       (Done (bus\<lparr>wdata := fill_bits (data_pref * 8 + clr) (data_width bus - (data_pref * 8 + clr)) BIT_X
          (put_bits (data_pref * 8) n data (fill_bits 0 (data_pref * 8) BIT_X (wdata bus)))\<rparr>))"

text \<open>\<open>for (idx = 0 ; idx < data_width/8 ; idx += 1) wstrb[idx] = (idx >= data_pref && idx < data_pref+bytes)\<close>\<close>

definition drive_wstrb :: "nat \<Rightarrow> nat \<Rightarrow> 'd simbus_axi4 \<Rightarrow> 'd simbus_axi4" where
  "drive_wstrb data_pref bytes bus =
     bus\<lparr>wstrb := fold (\<lambda>idx s. s[idx := bit01 (data_pref \<le> idx \<and> idx < data_pref + bytes)])
       [0..<data_width bus div 8] (wstrb bus)\<rparr>"

definition write_beat ::
  "u64 \<Rightarrow> int \<Rightarrow> int \<Rightarrow> nat \<Rightarrow> nat \<Rightarrow> nat \<Rightarrow> 'w::len word \<Rightarrow> 'd simbus_axi4 \<Rightarrow> 'd simbus_axi4 outcome" where
  "write_beat addr write_size prot n clr bytes data bus =
     c_defined (data_width bus div 8 \<noteq> 0)
       (let data_pref = unat addr mod (data_width bus div 8)
        in obind (waddr_setup addr write_size prot bus) (\<lambda>b1.
           obind (drive_wdata data_pref n clr data (b1\<lparr>awvalid := BIT_1, wvalid := BIT_1\<rparr>)) (\<lambda>b2.
             Done ((drive_wstrb data_pref bytes b2)\<lparr>bready := BIT_1\<rparr>))))"

definition simbus_axi4_write64 :: "'d simbus_axi4 \<Rightarrow> u64 \<Rightarrow> int \<Rightarrow> u64 \<Rightarrow> (simbus_axi4_resp \<times> 'd simbus_axi4) outcome" where
  "simbus_axi4_write64 bus addr prot data =
     c_assert (data_width bus \<ge> 64) (c_assert (addr mod 8 = 0)
       (obind (write_beat addr 3 prot 64 32 8 data bus) wait_for_resp))"

definition simbus_axi4_write32 :: "'d simbus_axi4 \<Rightarrow> u64 \<Rightarrow> int \<Rightarrow> u32 \<Rightarrow> (simbus_axi4_resp \<times> 'd simbus_axi4) outcome" where
  "simbus_axi4_write32 bus addr prot data =
     c_assert (data_width bus \<ge> 32) (c_assert (addr mod 4 = 0)
       (obind (write_beat addr 2 prot 32 32 4 data bus) wait_for_resp))"

definition simbus_axi4_write16 :: "'d simbus_axi4 \<Rightarrow> u64 \<Rightarrow> int \<Rightarrow> u16 \<Rightarrow> (simbus_axi4_resp \<times> 'd simbus_axi4) outcome" where
  "simbus_axi4_write16 bus addr prot data =
     c_assert (data_width bus \<ge> 16) (c_assert (addr mod 2 = 0)
       (obind (write_beat addr 1 prot 16 16 2 data bus) wait_for_resp))"

definition simbus_axi4_write8 :: "'d simbus_axi4 \<Rightarrow> u64 \<Rightarrow> int \<Rightarrow> u8 \<Rightarrow> (simbus_axi4_resp \<times> 'd simbus_axi4) outcome" where
  "simbus_axi4_write8 bus addr prot data =
     obind (write_beat addr 0 prot 8 8 1 data bus) wait_for_resp"

section \<open>Reading\<close>

definition raddr_setup :: "u64 \<Rightarrow> int \<Rightarrow> int \<Rightarrow> 'd simbus_axi4 \<Rightarrow> 'd simbus_axi4 outcome" where
  "raddr_setup addr axsize prot bus =
     c_defined (addr_width bus \<le> AXI4_MAX_ADDR)
       (Done (bus\<lparr>arvalid := BIT_1,
          araddr := put_bits 0 (addr_width bus) addr (araddr bus),
          arlen := fill_bits 0 8 BIT_0 (arlen bus),
          arsize := put_bits 0 3 axsize (arsize bus),
          arburst := (arburst bus)[0 := BIT_1, 1 := BIT_0],
          arlock := fill_bits 0 2 BIT_0 (arlock bus),
          arcache := fill_bits 0 4 BIT_0 (arcache bus),
          arprot := put_bits 0 3 prot (arprot bus),
          arqos := fill_bits 0 4 BIT_0 (arqos bus),
          arid := fill_bits 0 AXI4_MAX_ID BIT_0 (arid bus)\<rparr>))"

definition raddr_check :: "'d simbus_axi4 \<Rightarrow> 'd simbus_axi4" where
  "raddr_check bus =
     (if arvalid bus = BIT_1 \<and> arready bus = BIT_1
      then bus\<lparr>arvalid := BIT_0,
         araddr := fill_bits 0 AXI4_MAX_ADDR BIT_X (araddr bus),
         arlen := fill_bits 0 8 BIT_X (arlen bus),
         arsize := fill_bits 0 3 BIT_X (arsize bus),
         arburst := fill_bits 0 2 BIT_X (arburst bus),
         arlock := fill_bits 0 2 BIT_X (arlock bus),
         arcache := fill_bits 0 4 BIT_X (arcache bus),
         arprot := fill_bits 0 3 BIT_X (arprot bus),
         arqos := fill_bits 0 4 BIT_X (arqos bus),
         arid := fill_bits 0 AXI4_MAX_ID BIT_X (arid bus)\<rparr>
      else bus)"

definition read_extract_resp :: "'d simbus_axi4 \<Rightarrow> simbus_axi4_resp" where
  "read_extract_resp bus = resp_of_lines (rresp bus)"

text \<open>The wait of the four read functions: \<open>n\<close> data lines from line \<open>data_pref * 8\<close> on.\<close>

definition rdata_turn ::
  "nat \<Rightarrow> nat \<Rightarrow> simbus_axi4_resp \<times> 'w::len word \<times> 'd simbus_axi4
     \<Rightarrow> (simbus_axi4_resp \<times> 'w word \<times> 'd simbus_axi4) outcome" where
  "rdata_turn data_pref n = (\<lambda>(resp_code, data, bus).
     if rready bus = BIT_1 \<and> rvalid bus = BIT_1
     then c_defined (data_pref * 8 + n \<le> AXI4_MAX_DATA)
       (Done (read_extract_resp bus, gather (\<lambda>b. b = BIT_1) (rdata bus) (data_pref * 8) n 1 0,
              bus\<lparr>rready := BIT_0\<rparr>))
     else Done (resp_code, data, bus))"

definition read_beat ::
  "u64 \<Rightarrow> int \<Rightarrow> int \<Rightarrow> nat \<Rightarrow> 'w::len word \<Rightarrow> 'd simbus_axi4 \<Rightarrow> (simbus_axi4_resp \<times> 'w word \<times> 'd simbus_axi4) outcome" where
  "read_beat addr axsize prot n data bus =
     (let data_pref = unat addr mod (data_width bus div 8)
      in obind (raddr_setup addr axsize prot bus) (\<lambda>b1.
           while_io (\<lambda>(rc, d, b). pending (fd b))
             (\<lambda>(rc, d, b). arvalid b = BIT_1 \<or> rready b = BIT_1)
             (\<lambda>(rc, d, b). obind (axi4_next_posedge b) (\<lambda>b'. rdata_turn data_pref n (rc, d, raddr_check b')))
             (SIMBUS_AXI4_RESP_OKAY, data, b1\<lparr>rready := BIT_1\<rparr>)))"

definition simbus_axi4_read64 :: "'d simbus_axi4 \<Rightarrow> u64 \<Rightarrow> int \<Rightarrow> u64 \<Rightarrow> (simbus_axi4_resp \<times> u64 \<times> 'd simbus_axi4) outcome" where
  "simbus_axi4_read64 bus addr prot data =
     c_defined (data_width bus div 8 \<noteq> 0)
       (c_assert (data_width bus \<ge> 64) (c_assert (addr_width bus \<le> 64) (c_assert (addr mod 8 = 0)
         (read_beat addr 3 prot 64 data bus))))"

definition simbus_axi4_read32 :: "'d simbus_axi4 \<Rightarrow> u64 \<Rightarrow> int \<Rightarrow> u32 \<Rightarrow> (simbus_axi4_resp \<times> u32 \<times> 'd simbus_axi4) outcome" where
  "simbus_axi4_read32 bus addr prot data =
     c_defined (data_width bus div 8 \<noteq> 0)
       (c_assert (data_width bus \<ge> 32) (c_assert (addr_width bus \<le> 64) (c_assert (addr mod 4 = 0)
         (read_beat addr 2 prot 32 data bus))))"

definition simbus_axi4_read16 :: "'d simbus_axi4 \<Rightarrow> u64 \<Rightarrow> int \<Rightarrow> u16 \<Rightarrow> (simbus_axi4_resp \<times> u16 \<times> 'd simbus_axi4) outcome" where
  "simbus_axi4_read16 bus addr prot data =
     c_defined (data_width bus div 8 \<noteq> 0)
       (c_assert (data_width bus \<ge> 16) (c_assert (addr_width bus \<le> 64) (c_assert (addr mod 2 = 0)
         (read_beat addr 1 prot 16 data bus))))"

definition simbus_axi4_read8 :: "'d simbus_axi4 \<Rightarrow> u64 \<Rightarrow> int \<Rightarrow> u8 \<Rightarrow> (simbus_axi4_resp \<times> u8 \<times> 'd simbus_axi4) outcome" where
  "simbus_axi4_read8 bus addr prot data =
     c_defined (data_width bus div 8 \<noteq> 0) (read_beat addr 0 prot 8 data bus)"

section \<open>Invariant\<close>

definition axi4_wf :: "'d simbus_axi4 \<Rightarrow> bool" where
  "axi4_wf b \<longleftrightarrow>
     map length [awaddr b, awlen b, awsize b, awburst b, awlock b, awcache b, awprot b, awqos b, awid b]
       = [64, 8, 3, 2, 2, 4, 3, 4, 64]
     \<and> map length [wdata b, wstrb b, bresp b, bid b, rdata b, rresp b, rid b, irq b]
       = [64, 8, 2, 64, 64, 2, 64, 32]
     \<and> map length [araddr b, arlen b, arsize b, arburst b, arlock b, arcache b, arprot b, arqos b, arid b]
       = [64, 8, 3, 2, 2, 4, 3, 4, 64]
     \<and> time_ok (bus_time b)"

text \<open>What an exchange leaves alone: the configuration and everything the master drives.\<close>

definition axi4_own :: "'d simbus_axi4 \<Rightarrow>
    (string \<times> u32 \<times> 'd simbus_axi4s_slave option \<times> nat list \<times> axi4_slave_state \<times> 'd)
    \<times> bitval list \<times> bitval list list" where
  "axi4_own b =
     ((name b, ident b, device b, [data_width b, addr_width b, wid_width b, rid_width b, irq_width b, axsize_word b],
       slave b, user b),
      [areset_n b, awvalid b, wvalid b, bready b, arvalid b, rready b],
      [awaddr b, awlen b, awsize b, awburst b, awlock b, awcache b, awprot b, awqos b, awid b, wdata b, wstrb b,
       araddr b, arlen b, arsize b, arburst b, arlock b, arcache b, arprot b, arqos b, arid b])"

abbreviation axi4_keeps :: "'d simbus_axi4 \<Rightarrow> 'd simbus_axi4 \<Rightarrow> bool" where
  "axi4_keeps p q \<equiv> axi4_wf q \<and> axi4_own q = axi4_own p"

lemma axi4_wf_init: "axi4_wf (init_simbus_axi4 nm c idn u)"
  by (simp add: init_simbus_axi4_def axi4_wf_def axi4_limits)

lemma on_signal_axi4_keeps: "axi4_wf p \<Longrightarrow> ret (on_signal_axi4 p nm cp) (axi4_keeps p)"
  by (simp add: on_signal_axi4_def until_signal_def take_bid_def Let_def axi4_wf_def axi4_own_def)

interpretation axi: signal_bus fd "\<lambda>c b. b\<lparr>fd := c\<rparr>" SIMBUS_AXI4_FINISHED
    "\<lambda>t b. b\<lparr>bus_time := t, tok_idx := 2\<rparr>"
    on_signal_axi4 ready_message_axi4 axi4_fits axi4_ready_command "\<lambda>b. axi4_wf b \<and> axi4_own b = k" for k
proof unfold_locales
  show "ret (on_signal_axi4 s nm cp) (\<lambda>t. fd t = fd s)" for s :: "'a simbus_axi4" and nm cp
    by (simp add: on_signal_axi4_def until_signal_def take_bid_def Let_def)
  show "ret (on_signal_axi4 s nm cp) (\<lambda>b. axi4_wf b \<and> axi4_own b = k)"
    if "axi4_wf s \<and> axi4_own s = k" for s nm cp
    using on_signal_axi4_keeps [of s nm cp] that by simp
  show "on_signal_axi4 s nm cp \<noteq> Stop Out_of_fuel" for s :: "'a simbus_axi4" and nm cp
    by (simp add: on_signal_axi4_def until_signal_def take_bid_def Let_def c_assert_def c_defined_def obind_eq_Stop)
qed (auto simp: axi4_wf_def axi4_own_def axi4_ready_command_def)

section \<open>The clock\<close>

lemma axi_spin_keeps: "axi4_wf p \<Longrightarrow> ret (spin fd axi4_ready_command b p) (axi4_keeps p)"
  by (rule axi.spin_inv) (use axi.exchange_ok [of _ "axi4_own p"] in auto)

lemma axi_posedge_keeps: "axi4_wf p \<Longrightarrow> ret (axi4_next_posedge p) (\<lambda>q. axi4_keeps p q \<and> aclk q = BIT_1)"
  unfolding axi4_next_posedge_def
proof (rule ret_seq [OF axi_spin_keeps])
  fix q assume q: "axi4_wf p" "axi4_keeps p q"
  then show "ret (spin fd axi4_ready_command (\<lambda>b. aclk b \<noteq> BIT_1) q) (\<lambda>q. axi4_keeps p q \<and> aclk q = BIT_1)"
    using axi_spin_keeps [of q] axi.spin_post [of "\<lambda>b. aclk b \<noteq> BIT_1" q] by (auto simp: ret_def)
qed

lemma axi_posedge_consumes: "ret (axi4_next_posedge p) (\<lambda>q. pending (fd q) < pending (fd p))"
  unfolding axi4_next_posedge_def
proof (rule ret_seq [OF ret_conj [OF axi.spin_post axi.spin_pending]])
  fix q :: "'a simbus_axi4"
  assume "\<not> aclk q \<noteq> BIT_0 \<and> pending (fd q) \<le> pending (fd p)"
  then show "ret (spin fd axi4_ready_command (\<lambda>b. aclk b \<noteq> BIT_1) q) (\<lambda>q. pending (fd q) < pending (fd p))"
    by (intro ret_mono [OF axi.spin_pending_less]) auto
qed

lemma axi_posedge_fuel [simp]: "axi4_next_posedge p \<noteq> Stop Out_of_fuel"
  by (simp add: axi4_next_posedge_def obind_eq_Stop axi.spin_fuel)

section \<open>Transactions end with their channels released\<close>

lemma turn_frames [simp]:
  "fd (waddr_turn b) = fd b" "fd (wdata_turn b) = fd b" "fd (raddr_check b) = fd b"
  by (simp_all add: waddr_turn_def waddr_clear_def wdata_turn_def raddr_check_def)

lemma fd_resp_turn: "resp_turn (rc, tm, b) = (rc', tm', b') \<Longrightarrow> fd b' = fd b"
  by (auto simp: resp_turn_def split: if_splits)

lemma fd_rdata_turn: "rdata_turn k n (rc, d, b) = Done (rc', d', b') \<Longrightarrow> fd b' = fd b"
  by (auto simp: rdata_turn_def split: if_splits)

interpretation resp: io_loop "\<lambda>(rc :: simbus_axi4_resp, tm :: int, b). pending (fd b)"
    "\<lambda>(rc, tm, b). obind (axi4_next_posedge b) (\<lambda>b'. Done (resp_turn (rc, tm, wdata_turn (waddr_turn b'))))"
  by unfold_locales (auto dest!: axi_posedge_consumes [THEN retD] fd_resp_turn)

interpretation rdat: io_loop "\<lambda>(rc :: simbus_axi4_resp, d :: 'w::len word, b). pending (fd b)"
    "\<lambda>(rc, d, b). obind (axi4_next_posedge b) (\<lambda>b'. rdata_turn k n (rc, d, raddr_check b'))" for k n
  by unfold_locales (auto dest!: axi_posedge_consumes [THEN retD] fd_rdata_turn)

lemma wf_turns:
  "axi4_wf b \<Longrightarrow> axi4_wf (waddr_turn b)" "axi4_wf b \<Longrightarrow> axi4_wf (wdata_turn b)"
  "axi4_wf b \<Longrightarrow> axi4_wf (raddr_check b)"
  by (simp_all add: waddr_turn_def waddr_clear_def wdata_turn_def raddr_check_def axi4_wf_def)

lemma wf_resp_turn: "axi4_wf b \<Longrightarrow> (case resp_turn (rc, tm, b) of (rc', tm', b') \<Rightarrow> axi4_wf b')"
  by (simp add: resp_turn_def axi4_wf_def)

lemma wf_rdata_turn: "axi4_wf b \<Longrightarrow> ret (rdata_turn k n (rc, d, b)) (\<lambda>(rc', d', b'). axi4_wf b')"
  by (simp add: rdata_turn_def axi4_wf_def)

definition write_idle :: "'d simbus_axi4 \<Rightarrow> bool" where
  "write_idle b \<longleftrightarrow> axi4_wf b \<and> awvalid b \<noteq> BIT_1 \<and> wvalid b \<noteq> BIT_1 \<and> bready b \<noteq> BIT_1"

definition read_idle :: "'d simbus_axi4 \<Rightarrow> bool" where
  "read_idle b \<longleftrightarrow> axi4_wf b \<and> arvalid b \<noteq> BIT_1 \<and> rready b \<noteq> BIT_1"

lemma wait_for_resp_runs: "axi4_wf b \<Longrightarrow> runs (wait_for_resp b) (\<lambda>(rc, b'). write_idle b')"
  unfolding runs_def
proof
  show "wait_for_resp b \<noteq> Stop Out_of_fuel"
    unfolding wait_for_resp_def
    by (auto simp: obind_eq_Stop dest: resp.never_out_of_fuel [THEN notE, rotated])
  assume wf: "axi4_wf b"
  show "ret (wait_for_resp b) (\<lambda>(rc, b'). write_idle b')"
    unfolding wait_for_resp_def
  proof (rule ret_seq [OF ret_while_io [where I = "\<lambda>(rc, tm, b). axi4_wf b"]])
    show "ret (case p of (rc, tm, b) \<Rightarrow> obind (axi4_next_posedge b)
        (\<lambda>b'. Done (resp_turn (rc, tm, wdata_turn (waddr_turn b'))))) (\<lambda>(rc, tm, b). axi4_wf b)"
      if "case p of (rc, tm, b) \<Rightarrow> axi4_wf b" for p :: "simbus_axi4_resp \<times> int \<times> 'a simbus_axi4"
      using that by (cases p) (auto intro!: ret_mono [OF axi_posedge_keeps] wf_resp_turn wf_turns)
  qed (use wf in \<open>auto simp: write_idle_def\<close>)
qed

lemma write_beat_wf: "axi4_wf b \<Longrightarrow> runs (write_beat a z prot n clr k data b) axi4_wf"
  unfolding write_beat_def Let_def
  by (auto simp: waddr_setup_def drive_wdata_def drive_wstrb_def axi4_wf_def runs_def obind_eq_Stop
      c_assert_def c_defined_def)

lemma write_runs:
  "axi4_wf b \<Longrightarrow> runs (obind (write_beat a z prot n clr k data b) wait_for_resp) (\<lambda>(rc, b'). write_idle b')"
  by (rule runs_seq [OF write_beat_wf wait_for_resp_runs])

lemma read_runs: "axi4_wf b \<Longrightarrow> runs (read_beat a z prot n (d :: 'w::len word) b) (\<lambda>(rc, d, b'). read_idle b')"
  unfolding read_beat_def Let_def
proof (rule runs_seq [where Q = axi4_wf])
  show "axi4_wf b \<Longrightarrow> runs (raddr_setup a z prot b) axi4_wf"
    by (simp add: raddr_setup_def axi4_wf_def)
  fix b1 :: "'a simbus_axi4"
  let ?k = "unat a mod (data_width b div 8)"
  let ?body = "\<lambda>(rc, d :: 'w word, b). obind (axi4_next_posedge b) (\<lambda>b'. rdata_turn ?k n (rc, d, raddr_check b'))"
  assume wf: "axi4_wf b1"
  have fuel: "?body s \<noteq> Stop Out_of_fuel" for s
    by (auto simp: obind_eq_Stop rdata_turn_def c_defined_def split: prod.splits if_splits)
  have "ret (?body s) (\<lambda>(rc, d, b). axi4_wf b)" if "case s of (rc, d, b) \<Rightarrow> axi4_wf b" for s
    using that by (cases s) (auto intro!: ret_mono [OF axi_posedge_keeps] wf_rdata_turn wf_turns)
  note inv = this
  have wf1: "axi4_wf (b1\<lparr>rready := BIT_1\<rparr>)" using wf by (simp add: axi4_wf_def)
  show "runs (while_io (\<lambda>(rc, d, b). pending (fd b)) (\<lambda>(rc, d, b). arvalid b = BIT_1 \<or> rready b = BIT_1) ?body
      (SIMBUS_AXI4_RESP_OKAY, d, b1\<lparr>rready := BIT_1\<rparr>)) (\<lambda>(rc, d, b'). read_idle b')"
    unfolding runs_def
  proof (rule conjI [OF rdat.never_out_of_fuel [of ?k n, OF fuel]], rule ret_mono [OF ret_while_io])
    show "case (SIMBUS_AXI4_RESP_OKAY, d, b1\<lparr>rready := BIT_1\<rparr>) of (rc, d, b) \<Rightarrow> axi4_wf b"
      using wf1 by simp
  qed (use inv in \<open>auto simp: read_idle_def\<close>)
qed

text \<open>Every transaction of the master returns only with its channels idle, and the budget of the model's loops is never
  what stops it.\<close>

lemma axi4_channels_idle:
  assumes "axi4_wf b"
  shows "runs (simbus_axi4_write64 b a prot w64) (\<lambda>(rc, b'). write_idle b')
    \<and> runs (simbus_axi4_write32 b a prot w32) (\<lambda>(rc, b'). write_idle b')
    \<and> runs (simbus_axi4_write16 b a prot w16) (\<lambda>(rc, b'). write_idle b')
    \<and> runs (simbus_axi4_write8 b a prot w8) (\<lambda>(rc, b'). write_idle b')
    \<and> runs (simbus_axi4_read64 b a prot w64) (\<lambda>(rc, d, b'). read_idle b')
    \<and> runs (simbus_axi4_read32 b a prot w32) (\<lambda>(rc, d, b'). read_idle b')
    \<and> runs (simbus_axi4_read16 b a prot w16) (\<lambda>(rc, d, b'). read_idle b')
    \<and> runs (simbus_axi4_read8 b a prot w8) (\<lambda>(rc, d, b'). read_idle b')"
  by (simp add: write_runs [OF assms] read_runs [OF assms]
      simbus_axi4_write64_def simbus_axi4_write32_def simbus_axi4_write16_def simbus_axi4_write8_def
      simbus_axi4_read64_def simbus_axi4_read32_def simbus_axi4_read16_def simbus_axi4_read8_def)

section \<open>A server that answers\<close>

lemma length_sig1 [simp]: "length (sig1 nm v) = length nm + 3"
  by (simp add: sig1_def)

lemma length_ready_signal [simp]: "length (ready_signal nm v n) = length nm + 2 + n"
  by (simp add: ready_signal_def)

lemma ready_message_axi4_fits:
  "axi4_fits b \<Longrightarrow> time_ok (bus_time b) \<Longrightarrow> length (ready_message_axi4 b) + 1 \<le> buf_size"
  using length_time_token [of "bus_time b"]
  by (auto simp: ready_message_axi4_def ready_prefix_def axi4_fits_def axi4_limits buf_size_def)

definition axi_answer :: "string list \<Rightarrow> read_event" where
  "axi_answer sigs = answer (''UNTIL'' # time_token init_simbus_time # sigs)"

lemma axi_exchange:
  assumes "axi4_fits b" and "axi4_wf b" and "wr (fd b) = []" and "rx (fd b) = axi_answer sigs # es"
    and "list_all plain_token sigs" and "length sigs < 100" and "length (join_tokens sigs) < 1000"
  shows "axi4_ready_command b =
    obind (each_signal on_signal_axi4 sigs
        (b\<lparr>fd := (fd b)\<lparr>rx := es, tx := tx (fd b) @ [ready_message_axi4 b]\<rparr>,
           bus_time := init_simbus_time, tok_idx := 2\<rparr>)) (\<lambda>s'. Done (0, s'))"
proof -
  have t: "time_ok (bus_time b)" using assms(2) by (simp add: axi4_wf_def)
  have j: "length (join_tokens (''UNTIL'' # time_token init_simbus_time # sigs)) + 1 < buf_size"
    using assms(7) by (cases sigs) (simp_all add: buf_size_def init_token)
  have p: "list_all plain_token (''UNTIL'' # time_token init_simbus_time # sigs)"
    using assms(5) by (simp add: init_token plain_token_def NUL_def NL_def)
  have "ready_exchange fd (\<lambda>c b. b\<lparr>fd := c\<rparr>) SIMBUS_AXI4_FINISHED (\<lambda>t b. b\<lparr>bus_time := t, tok_idx := 2\<rparr>)
      on_signal_axi4 (ready_message_axi4 b) b =
    obind (each_signal on_signal_axi4 sigs
        (b\<lparr>fd := (fd b)\<lparr>rx := es, tx := tx (fd b) @ [ready_message_axi4 b]\<rparr>,
           bus_time := init_simbus_time, tok_idx := 2\<rparr>)) (\<lambda>s'. Done (0, s'))"
    by (subst ready_exchange_answer [where t = init_simbus_time and sigs = sigs and es = es])
      (use assms(3,4,6) ready_message_axi4_fits [OF assms(1) t] j p in
        \<open>simp_all add: axi_answer_def max_argc_def\<close>)
  with assms(1) show ?thesis by (simp add: axi4_ready_command_def)
qed

text \<open>The state after an answer that lowers or raises the clock, with the other signals of the answer.\<close>

definition axi_turn :: "read_event list \<Rightarrow> 'd simbus_axi4 \<Rightarrow> 'd simbus_axi4" where
  "axi_turn es b = b\<lparr>fd := (fd b)\<lparr>rx := es, tx := tx (fd b) @ [ready_message_axi4 b]\<rparr>,
     bus_time := init_simbus_time, tok_idx := 2\<rparr>"

lemma axi_turn_wf: "axi4_wf b \<Longrightarrow> axi4_wf (axi_turn es b)"
  by (simp add: axi_turn_def axi4_wf_def)

lemma axi_turn_fits: "axi4_fits b \<Longrightarrow> axi4_fits (axi_turn es b)"
  by (simp add: axi_turn_def axi4_fits_def)

text \<open>One clock: an answer that lowers it, then one that raises it and carries signals.\<close>

lemma axi_clock:
  assumes "axi4_fits b" and "axi4_wf b" and "wr (fd b) = []" and "aclk b = BIT_1"
    and "rx (fd b) = axi_answer [''ACLK=0''] # axi_answer (''ACLK=1'' # sigs) # es"
    and "list_all plain_token sigs" and "length sigs < 90" and "length (join_tokens (''ACLK=1'' # sigs)) < 1000"
    and "each_signal on_signal_axi4 (''ACLK=1'' # sigs)
        (axi_turn es ((axi_turn (axi_answer (''ACLK=1'' # sigs) # es) b)\<lparr>tok_idx := 3, aclk := BIT_0\<rparr>)) = Done b2"
    and "aclk b2 = BIT_1"
  shows "axi4_next_posedge b = Done b2"
proof -
  let ?b1 = "(axi_turn (axi_answer (''ACLK=1'' # sigs) # es) b)\<lparr>tok_idx := 3, aclk := BIT_0\<rparr>"
  have e1: "axi4_ready_command b = Done (0, ?b1)"
    by (subst axi_exchange [OF assms(1-3,5)])
      (simp_all add: plain_token_def NUL_def NL_def axi_turn_def on_signal_axi4_def char0_def char_to_bitval_def
        Let_def)
  have b1: "axi4_fits ?b1" "axi4_wf ?b1" "wr (fd ?b1) = []" "rx (fd ?b1) = axi_answer (''ACLK=1'' # sigs) # es"
    using assms(1-3) by (simp_all add: axi_turn_def axi4_fits_def axi4_wf_def)
  have e2: "axi4_ready_command ?b1 = Done (0, b2)"
    by (subst axi_exchange [OF b1], use assms(6-8) in \<open>simp add: plain_token_def NUL_def NL_def\<close>, use assms(7) in simp,
        rule assms(8)) (use assms(9) in \<open>simp add: axi_turn_def [abs_def] del: each_signal.simps\<close>)
  have s1: "spin fd axi4_ready_command (\<lambda>b. aclk b \<noteq> BIT_0) b = Done ?b1"
    by (subst axi.spin_unfold, simp add: e1 assms(4), subst axi.spin_unfold, simp)
  have s2: "spin fd axi4_ready_command (\<lambda>b. aclk b \<noteq> BIT_1) ?b1 = Done b2"
    by (subst axi.spin_unfold, simp add: e2, subst axi.spin_unfold, simp add: assms(10))
  show ?thesis by (simp only: axi4_next_posedge_def s1 obind.simps s2)
qed

text \<open>The answer of a server whose slave accepts address and data at once and responds in the same clock.\<close>

definition write_accept :: "char \<Rightarrow> char \<Rightarrow> string list" where
  "write_accept c1 c0 = [''AWREADY=1'', ''WREADY=1'', ''BVALID=1'', ''BRESP='' @ [c1, c0]]"

lemma write_accept_signals:
  "length (bresp b) = 2 \<Longrightarrow> each_signal on_signal_axi4 (''ACLK=1'' # write_accept c1 c0) b = Done
    (b\<lparr>tok_idx := tok_idx b + 5, aclk := BIT_1, awready := BIT_1, wready := BIT_1, bvalid := BIT_1,
       bresp := [char_to_bitval c0, char_to_bitval c1]\<rparr>)"
proof -
  have load: "load_msb 2 [c1, c0] r = [char_to_bitval c0, char_to_bitval c1]" if "length r = 2" for r
    using that by (intro nth_equalityI) (auto simp: nth_load_msb less_Suc_eq numeral_2_eq_2)
  assume "length (bresp b) = 2"
  with load show ?thesis
    by (simp add: write_accept_def on_signal_axi4_def until_signal_def Let_def char0_def char_to_bitval_def)
qed

lemma write_beat_lines:
  assumes "write_beat a z prot n clr k data b = Done b1"
  shows "awvalid b1 = BIT_1" "wvalid b1 = BIT_1" "bready b1 = BIT_1" "fd b1 = fd b" "aclk b1 = aclk b"
    "axi4_fits b1 = axi4_fits b"
  using assms
  by (auto simp: write_beat_def Let_def waddr_setup_def drive_wdata_def drive_wstrb_def axi4_fits_def)

lemma wait_one_clock:
  assumes "awvalid b = BIT_1" and "axi4_next_posedge b = Done b'"
    and "resp_turn (SIMBUS_AXI4_RESP_OKAY, AXI4_RESP_TIMELIMIT, wdata_turn (waddr_turn b')) = (rc, tm, b2)"
    and "write_idle b2"
  shows "wait_for_resp b = Done (rc, b2)"
proof -
  have "\<not> (awvalid b2 = BIT_1 \<or> wvalid b2 = BIT_1 \<or> bready b2 = BIT_1)"
    using assms(4) by (simp add: write_idle_def)
  moreover have "wait_for_resp b = obind (while_io (\<lambda>(rc, tm, b). pending (fd b))
      (\<lambda>(rc, tm, b). awvalid b = BIT_1 \<or> wvalid b = BIT_1 \<or> bready b = BIT_1)
      (\<lambda>(rc, tm, b). obind (axi4_next_posedge b) (\<lambda>b'. Done (resp_turn (rc, tm, wdata_turn (waddr_turn b')))))
      (rc, tm, b2)) (\<lambda>(rc, tm, b). Done (rc, b))"
    unfolding wait_for_resp_def
    by (simp add: assms(1-3) resp.unfold [where s = "(SIMBUS_AXI4_RESP_OKAY, AXI4_RESP_TIMELIMIT, b)"])
  ultimately show ?thesis by simp
qed

text \<open>C29: A write of 32 bits against a slave that takes address and data in the next clock and answers at
  once: the transaction returns after exactly one clock (one low and one high answer of the server),
  with the response code that the two BRESP characters encode and all its channels idle.\<close>

theorem axi4_write_live:
  assumes "axi4_wf b" and "axi4_fits b" and "data_width b = 32 \<or> data_width b = 64" and "addr mod 4 = 0"
    and "wr (fd b) = []" and "aclk b = BIT_1" and "c0 \<in> {CHR ''0'', CHR ''1''}" and "c1 \<in> {CHR ''0'', CHR ''1''}"
    and "rx (fd b) = axi_answer [''ACLK=0''] # axi_answer (''ACLK=1'' # write_accept c1 c0) # es"
  shows "\<exists>b'. simbus_axi4_write32 b addr prot data =
      Done (resp_of_lines [char_to_bitval c0, char_to_bitval c1], b') \<and> write_idle b' \<and> rx (fd b') = es"
proof -
  let ?k = "unat addr mod (data_width b div 8)"
  have "unat addr mod 4 = 0" using assms(4) by (simp add: unat_eq_zero unat_mod flip: unat_eq_zero)
  then have "?k * 8 + 32 \<le> 64" using assms(3) by (elim disjE) (simp, simp, presburger)
  then obtain b1 where b1: "write_beat addr 2 prot 32 32 4 data b = Done b1"
    using assms(2,3)
    by (auto simp: write_beat_def waddr_setup_def drive_wdata_def Let_def axi4_limits axi4_fits_def c_defined_def c_assert_def)
  note lines = write_beat_lines [OF b1]
  have wf1: "axi4_wf b1" using write_beat_wf [OF assms(1), of addr 2 prot 32 32 4 data] b1 by (simp add: runs_def)
  define b2 where "b2 = axi_turn es ((axi_turn (axi_answer (''ACLK=1'' # write_accept c1 c0) # es) b1)\<lparr>tok_idx := 3, aclk := BIT_0\<rparr>)"
  let ?b3 = "b2\<lparr>tok_idx := tok_idx b2 + 5, aclk := BIT_1, awready := BIT_1, wready := BIT_1, bvalid := BIT_1,
      bresp := [char_to_bitval c0, char_to_bitval c1]\<rparr>"
  have b2: "length (bresp b2) = 2" "awvalid b2 = BIT_1" "wvalid b2 = BIT_1" "bready b2 = BIT_1" "axi4_wf b2" "rx (fd b2) = es"
    using wf1 lines by (simp_all add: b2_def axi_turn_def axi4_wf_def)
  have plain: "list_all plain_token (write_accept c1 c0)"
    using assms(7,8) by (auto simp: write_accept_def plain_token_def NUL_def NL_def)
  have edge: "axi4_next_posedge b1 = Done ?b3"
  proof (rule axi_clock)
    show "each_signal on_signal_axi4 (''ACLK=1'' # write_accept c1 c0)
        (axi_turn es ((axi_turn (axi_answer (''ACLK=1'' # write_accept c1 c0) # es) b1)\<lparr>tok_idx := 3, aclk := BIT_0\<rparr>)) = Done ?b3"
      unfolding b2_def [symmetric] by (rule write_accept_signals [OF b2(1)])
  qed (use assms lines wf1 plain in \<open>simp_all add: write_accept_def\<close>)
  have turn: "resp_turn (SIMBUS_AXI4_RESP_OKAY, AXI4_RESP_TIMELIMIT, wdata_turn (waddr_turn ?b3)) =
      (resp_of_lines [char_to_bitval c0, char_to_bitval c1], AXI4_RESP_TIMELIMIT,
       (wdata_turn (waddr_turn ?b3))\<lparr>bready := BIT_0\<rparr>)"
    using b2 by (simp add: resp_turn_def wdata_turn_def waddr_turn_def waddr_clear_def)
  have idle: "write_idle ((wdata_turn (waddr_turn ?b3))\<lparr>bready := BIT_0\<rparr>)"
    using b2 by (simp add: write_idle_def wdata_turn_def waddr_turn_def waddr_clear_def axi4_wf_def)
  have "wait_for_resp b1 = Done (resp_of_lines [char_to_bitval c0, char_to_bitval c1],
      (wdata_turn (waddr_turn ?b3))\<lparr>bready := BIT_0\<rparr>)"
    by (rule wait_one_clock [OF lines(1) edge turn idle])
  then have "simbus_axi4_write32 b addr prot data = Done (resp_of_lines [char_to_bitval c0, char_to_bitval c1],
      (wdata_turn (waddr_turn ?b3))\<lparr>bready := BIT_0\<rparr>)"
    using assms(3,4) b1 by (auto simp: simbus_axi4_write32_def)
  with idle b2(6) show ?thesis by (intro exI conjI) (assumption, assumption, simp)
qed

section \<open>The response timer\<close>

text \<open>The time limit of a write does not end it. As long as BVALID is not 1, any number of turns of the
  waiting loop leaves BREADY at 1, so the loop goes on; after more than 1024 of them the code that
  would be returned is SLVERR, but it never is.\<close>

theorem axi4_timeout_ineffective:
  assumes "bready b = BIT_1" and "bvalid b \<noteq> BIT_1"
  shows "(resp_turn ^^ n) (SIMBUS_AXI4_RESP_OKAY, AXI4_RESP_TIMELIMIT, b) =
    (if n \<le> 1024 then SIMBUS_AXI4_RESP_OKAY else SIMBUS_AXI4_RESP_SLVERR, AXI4_RESP_TIMELIMIT - int n, b)"
proof (induction n)
  case (Suc n)
  then show ?case using assms by (simp add: resp_turn_def AXI4_RESP_TIMELIMIT_def)
qed simp

section \<open>Waiting for interrupts\<close>

lemma bit_test_interrupts:
  "bit (fold (\<lambda>idx r. if xs ! idx = BIT_1 then r else r AND NOT (push_bit idx 1)) [0..<n] (m :: u32)) j
    \<longleftrightarrow> bit m j \<and> (j < n \<longrightarrow> xs ! j = BIT_1)"
proof (induction n)
  case (Suc n)
  then show ?case by (auto simp: bit_simps less_Suc_eq dest: bit_imp_le_length)
qed simp

definition irq_enabled :: "'d simbus_axi4 \<Rightarrow> u32 \<Rightarrow> u32 \<Rightarrow> bool" where
  "irq_enabled b m t \<longleftrightarrow> (\<forall>j. bit t j \<longleftrightarrow> bit m j \<and> (irq_width b \<le> j \<or> irq b ! j = BIT_1))"

lemma test_interrupts_spec:
  "ret (axi4_test_interrupts b mk) (\<lambda>t. case mk of None \<Rightarrow> t = 0 | Some m \<Rightarrow> irq_enabled b m t)"
  by (cases mk) (auto simp: axi4_test_interrupts_def irq_enabled_def bit_test_interrupts not_less)

definition axi4_wait_report :: "u32 option \<Rightarrow> int \<times> u32 option \<times> 'd simbus_axi4 \<Rightarrow> bool" where
  "axi4_wait_report mk = (\<lambda>(rc, irq', b).
     rc = 0 \<and> irq' = map_option (\<lambda>_. 0) mk
     \<or> rc = 1 \<and> (\<exists>m t. mk = Some m \<and> irq' = Some t \<and> t \<noteq> 0 \<and> irq_enabled b m t))"

lemma test_then_report:
  assumes "ret k (axi4_wait_report mk)"
  shows "ret (obind (axi4_test_interrupts b mk) (\<lambda>t. if t \<noteq> 0 then Done (1, Some t, b) else k))
    (axi4_wait_report mk)"
  by (rule ret_seq [OF test_interrupts_spec]) (use assms in \<open>auto simp: axi4_wait_report_def split: option.splits\<close>)

lemma wait_clocks_axi_report: "ret (axi4_wait_clocks n mk b) (axi4_wait_report mk)"
proof (induction n arbitrary: b)
  case 0
  then show ?case by (simp add: axi4_wait_report_def)
next
  case (Suc n)
  then show ?case by (simp del: ret_obind, intro ret_any test_then_report)
qed

text \<open>Waiting reports an interrupt or nothing: it returns 1 with the enabled interrupts that are active
  (a bit of the mask above the width of the IRQ vector counts as active), or 0 with the mask cleared.
  There is no other result, so the end of the simulation is never reported.\<close>

theorem axi4_wait_result:
  "ret (simbus_axi4_wait b clks irq_mask) (\<lambda>(rc, irq', b').
     rc = 0 \<and> irq' = map_option (\<lambda>_. 0) irq_mask
     \<or> rc = 1 \<and> (\<exists>m t. irq_mask = Some m \<and> irq' = Some t \<and> t \<noteq> 0
          \<and> (\<forall>j. bit t j \<longleftrightarrow> bit m j \<and> (irq_width b' \<le> j \<or> irq b' ! j = BIT_1))))"
proof -
  have "ret (simbus_axi4_wait b clks irq_mask) (axi4_wait_report irq_mask)"
    unfolding simbus_axi4_wait_def
    by (rule test_then_report) (simp add: wait_clocks_axi_report, simp add: axi4_wait_report_def)
  then show ?thesis by (simp add: axi4_wait_report_def [abs_def] irq_enabled_def)
qed

section \<open>Concrete runs\<close>

definition demo_axi :: "read_event list \<Rightarrow> unit simbus_axi4" where
  "demo_axi es = (init_simbus_axi4 ''cpu'' (script es) 0 ())
     \<lparr>data_width := 32, addr_width := 32, wid_width := 4, rid_width := 4, aclk := BIT_1\<rparr>"

lemma demo_axi_wf: "axi4_wf (demo_axi es)" "axi4_fits (demo_axi es)"
  using axi4_wf_init [of "''cpu''" "script es" 0 "()"]
  by (simp_all add: demo_axi_def axi4_wf_def axi4_fits_def axi4_limits)

lemma demo_axi_sel [simp]:
  "fd (demo_axi es) = script es" "aclk (demo_axi es) = BIT_1" "data_width (demo_axi es) = 32"
  by (simp_all add: demo_axi_def init_simbus_axi4_def)

theorem axi4_write_live_witness:
  "\<exists>b'. simbus_axi4_write32 (demo_axi [axi_answer [''ACLK=0''],
       axi_answer (''ACLK=1'' # write_accept CHR ''1'' CHR ''0'')]) 8 0 5 = Done (SIMBUS_AXI4_RESP_SLVERR, b')
     \<and> write_idle b' \<and> rx (fd b') = []"
proof -
  have "resp_of_lines [char_to_bitval CHR ''0'', char_to_bitval CHR ''1''] = SIMBUS_AXI4_RESP_SLVERR"
    by (simp add: resp_of_lines_def char_to_bitval_def)
  with axi4_write_live [OF demo_axi_wf, of _ 8 "CHR ''0''" "CHR ''1''" "[]" 0 5] show ?thesis by simp
qed

theorem axi4_timeout_ineffective_witness:
  "(resp_turn ^^ 2000) (SIMBUS_AXI4_RESP_OKAY, AXI4_RESP_TIMELIMIT, (demo_axi [])\<lparr>bready := BIT_1\<rparr>)
     = (SIMBUS_AXI4_RESP_SLVERR, AXI4_RESP_TIMELIMIT - 2000, (demo_axi [])\<lparr>bready := BIT_1\<rparr>)"
proof -
  have "bvalid (demo_axi []) = BIT_Z" by (simp add: demo_axi_def init_simbus_axi4_def)
  then show ?thesis using axi4_timeout_ineffective [of "(demo_axi [])\<lparr>bready := BIT_1\<rparr>" 2000] by simp
qed

end
