(* ===== verification/Sim_AXI4_Slave.thy ===== *)
theory Sim_AXI4_Slave
  imports Sim_AXI4
begin

text \<open>
  The AXI4 slave of libsimbus/simbus_axi4_slave.c: its READY exchange, the decoding of the lines, the
  calls of the device functions, and the state machine that runs once per clock.  The object is that
  of Sim_AXI4; here the fields of the master are inputs and those of the slave are driven.

  The main function is an endless loop and never returns, so the model states what one turn does
  (\<open>slave_cycle\<close>) and that running turns ends only where the server stops answering.
\<close>

section \<open>The READY exchange of a slave\<close>

text \<open>The code sends the lines of \<open>bid\<close> under the name RID.\<close>

definition ready_message_axi4s :: "'d simbus_axi4 \<Rightarrow> string" where
  "ready_message_axi4s bus =
     ready_prefix (bus_time bus)
     @ sig1 ''AWREADY'' (awready bus)
     @ sig1 ''WREADY'' (wready bus)
     @ sig1 ''BVALID'' (bvalid bus)
     @ ready_signal ''BRESP'' (bresp bus) 2
     @ ready_signal ''BID'' (bid bus) (wid_width bus)
     @ sig1 ''ARREADY'' (arready bus)
     @ sig1 ''RVALID'' (rvalid bus)
     @ ready_signal ''RDATA'' (rdata bus) (data_width bus)
     @ ready_signal ''RRESP'' (rresp bus) 2
     @ ready_signal ''RID'' (bid bus) (rid_width bus)
     @ (if irq_width bus > 0 then ready_signal ''IRQ'' (irq bus) (irq_width bus) else [])
     @ [NL]"

definition axi4s_fits :: "'d simbus_axi4 \<Rightarrow> bool" where
  "axi4s_fits bus \<longleftrightarrow> axi4_fits bus \<and> irq_width bus \<le> AXI4_MAX_IRQ"

definition on_signal_axi4s :: "'d simbus_axi4 \<Rightarrow> string \<Rightarrow> string \<Rightarrow> 'd simbus_axi4 outcome" where
  "on_signal_axi4s bus nm cp =
     (let v = char_to_bitval (char0 cp)
      in if nm = ''ACLK'' then Done (bus\<lparr>aclk := v\<rparr>)
         else if nm = ''ARESETn'' then Done (bus\<lparr>areset_n := v\<rparr>)
         else if nm = ''AWVALID'' then Done (bus\<lparr>awvalid := v\<rparr>)
         else if nm = ''AWADDR'' then obind (until_signal cp (awaddr bus) (addr_width bus)) (\<lambda>xs. Done (bus\<lparr>awaddr := xs\<rparr>))
         else if nm = ''AWLEN'' then obind (until_signal cp (awlen bus) 8) (\<lambda>xs. Done (bus\<lparr>awlen := xs\<rparr>))
         else if nm = ''AWSIZE'' then obind (until_signal cp (awsize bus) 3) (\<lambda>xs. Done (bus\<lparr>awsize := xs\<rparr>))
         else if nm = ''AWBURST'' then obind (until_signal cp (awburst bus) 2) (\<lambda>xs. Done (bus\<lparr>awburst := xs\<rparr>))
         else if nm = ''AWLOCK'' then obind (until_signal cp (awlock bus) 2) (\<lambda>xs. Done (bus\<lparr>awlock := xs\<rparr>))
         else if nm = ''AWCACHE'' then obind (until_signal cp (awcache bus) 4) (\<lambda>xs. Done (bus\<lparr>awcache := xs\<rparr>))
         else if nm = ''AWPROT'' then obind (until_signal cp (awprot bus) 3) (\<lambda>xs. Done (bus\<lparr>awprot := xs\<rparr>))
         else if nm = ''AWQOS'' then obind (until_signal cp (awqos bus) 4) (\<lambda>xs. Done (bus\<lparr>awqos := xs\<rparr>))
         else if nm = ''AWID'' then obind (until_signal cp (awid bus) (wid_width bus)) (\<lambda>xs. Done (bus\<lparr>awid := xs\<rparr>))
         else if nm = ''WVALID'' then Done (bus\<lparr>wvalid := v\<rparr>)
         else if nm = ''WDATA'' then obind (until_signal cp (wdata bus) (data_width bus)) (\<lambda>xs. Done (bus\<lparr>wdata := xs\<rparr>))
         else if nm = ''WSTRB'' then obind (until_signal cp (wstrb bus) (data_width bus div 8)) (\<lambda>xs. Done (bus\<lparr>wstrb := xs\<rparr>))
         else if nm = ''BREADY'' then Done (bus\<lparr>bready := v\<rparr>)
         else if nm = ''ARVALID'' then Done (bus\<lparr>arvalid := v\<rparr>)
         else if nm = ''ARADDR'' then obind (until_signal cp (araddr bus) (addr_width bus)) (\<lambda>xs. Done (bus\<lparr>araddr := xs\<rparr>))
         else if nm = ''ARLEN'' then obind (until_signal cp (arlen bus) 8) (\<lambda>xs. Done (bus\<lparr>arlen := xs\<rparr>))
         else if nm = ''ARSIZE'' then obind (until_signal cp (arsize bus) 3) (\<lambda>xs. Done (bus\<lparr>arsize := xs\<rparr>))
         else if nm = ''ARBURST'' then obind (until_signal cp (arburst bus) 2) (\<lambda>xs. Done (bus\<lparr>arburst := xs\<rparr>))
         else if nm = ''ARLOCK'' then obind (until_signal cp (arlock bus) 2) (\<lambda>xs. Done (bus\<lparr>arlock := xs\<rparr>))
         else if nm = ''ARCACHE'' then obind (until_signal cp (arcache bus) 4) (\<lambda>xs. Done (bus\<lparr>arcache := xs\<rparr>))
         else if nm = ''ARPROT'' then obind (until_signal cp (arprot bus) 3) (\<lambda>xs. Done (bus\<lparr>arprot := xs\<rparr>))
         else if nm = ''ARQOS'' then obind (until_signal cp (arqos bus) 4) (\<lambda>xs. Done (bus\<lparr>arqos := xs\<rparr>))
         else if nm = ''ARID'' then obind (until_signal cp (arid bus) (rid_width bus)) (\<lambda>xs. Done (bus\<lparr>arid := xs\<rparr>))
         else if nm = ''RREADY'' then Done (bus\<lparr>rready := v\<rparr>)
         else Done bus)"

definition axi4s_ready_command :: "'d simbus_axi4 \<Rightarrow> (int \<times> 'd simbus_axi4) outcome" where
  "axi4s_ready_command bus =
     c_defined (axi4s_fits bus)
       (ready_exchange fd (\<lambda>c b. b\<lparr>fd := c\<rparr>) SIMBUS_AXI4_FINISHED (\<lambda>t b. b\<lparr>bus_time := t\<rparr>)
          on_signal_axi4s (ready_message_axi4s bus) bus)"

section \<open>Decoding\<close>

definition bits_to_addr :: "'d simbus_axi4 \<Rightarrow> bitval list \<Rightarrow> u64" where
  "bits_to_addr bus bits = horner bits 0 (addr_width bus) 0"

definition bits_to_uint32 :: "bitval list \<Rightarrow> nat \<Rightarrow> nat \<Rightarrow> u32" where
  "bits_to_uint32 bits off nbits = horner bits off nbits 0"

definition bits_to_uint8 :: "bitval list \<Rightarrow> nat \<Rightarrow> nat \<Rightarrow> u8" where
  "bits_to_uint8 bits off nbits = horner bits off nbits 0"

definition do_reset :: "'d simbus_axi4 \<Rightarrow> 'd simbus_axi4" where
  "do_reset bus =
     bus\<lparr>awready := BIT_1, wready := BIT_0, bvalid := BIT_0, bresp := fill_bits 0 2 BIT_0 (bresp bus),
         bid := fill_bits 0 AXI4_MAX_ID BIT_0 (bid bus), arready := BIT_1, rvalid := BIT_0,
         rdata := fill_bits 0 AXI4_MAX_DATA BIT_0 (rdata bus), rresp := fill_bits 0 2 BIT_0 (rresp bus),
         rid := fill_bits 0 AXI4_MAX_ID BIT_0 (rid bus), irq := fill_bits 0 AXI4_MAX_IRQ BIT_0 (irq bus)\<rparr>"

section \<open>Calling the device\<close>

text \<open>
  The width of a beat is \<open>8 * (1 << size)\<close>.  Reading outside the data lines is \<open>Undefined\<close>; it needs
  a bus width that is not a power of two, or for a read an address that is not aligned.
\<close>

definition beat_width :: "u8 \<Rightarrow> nat" where
  "beat_width sz = 8 * 2 ^ unat sz"

definition bit_offset :: "u64 \<Rightarrow> nat \<Rightarrow> nat" where
  "bit_offset addr dw = 8 * (unat addr mod (dw div 8))"

definition write_data :: "'d simbus_axi4 \<Rightarrow> (simbus_axi4_resp \<times> 'd simbus_axi4) outcome" where
  "write_data bus =
     (let use_wid = beat_width (wsize (slave bus)); addr = waddr (slave bus); prot = wprot (slave bus);
          off = bit_offset addr (data_width bus)
      in c_assert (use_wid \<le> data_width bus) (c_assert (unat addr mod (use_wid div 8) = 0)
          (if use_wid = 32 then
             (case device bus of
                None \<Rightarrow> Stop Assert_failed
              | Some dev \<Rightarrow>
                  (case write32 dev of
                     None \<Rightarrow> Stop Assert_failed
                   | Some f \<Rightarrow> c_defined (off + 32 \<le> AXI4_MAX_DATA)
                       (case f (user bus) addr prot (bits_to_uint32 (wdata bus) off 32) of
                          (resp, u) \<Rightarrow> Done (resp, bus\<lparr>user := u\<rparr>))))
           else if use_wid = 8 then
             (case device bus of
                None \<Rightarrow> Stop Assert_failed
              | Some dev \<Rightarrow>
                  (case write8 dev of
                     None \<Rightarrow> Stop Assert_failed
                   | Some f \<Rightarrow> c_defined (off + 8 \<le> AXI4_MAX_DATA)
                       (case f (user bus) addr prot (bits_to_uint8 (wdata bus) off 8) of
                          (resp, u) \<Rightarrow> Done (resp, bus\<lparr>user := u\<rparr>))))
           else Done (SIMBUS_AXI4_RESP_SLVERR, bus))))"

text \<open>\<open>for (idx = 0 ; idx < n ; idx += 1) { rdata[idx+bit_offset] = v&1; v /= 2; }\<close> after all lines
  of the bus width were set to X.\<close>

definition drive_rdata :: "nat \<Rightarrow> nat \<Rightarrow> 'w::len word \<Rightarrow> 'd simbus_axi4 \<Rightarrow> 'd simbus_axi4 outcome" where
  "drive_rdata off n v bus =
     c_defined (off + n \<le> AXI4_MAX_DATA) (Done (bus\<lparr>rdata := put_bits off n v (rdata bus)\<rparr>))"

definition read_data :: "'d simbus_axi4 \<Rightarrow> (simbus_axi4_resp \<times> 'd simbus_axi4) outcome" where
  "read_data bus0 =
     (let use_wid = beat_width (rsize (slave bus0)); addr = raddr (slave bus0); prot = rprot (slave bus0);
          off = bit_offset addr (data_width bus0);
          bus = bus0\<lparr>rdata := fill_bits 0 (data_width bus0) BIT_X (rdata bus0)\<rparr>
      in c_assert (use_wid \<le> data_width bus0)
          (if use_wid = 32 then
             (case device bus of
                None \<Rightarrow> Stop Assert_failed
              | Some dev \<Rightarrow>
                  (case read32 dev of
                     None \<Rightarrow> Stop Assert_failed
                   | Some f \<Rightarrow>
                       (case f (user bus) addr prot of (resp, data32, u) \<Rightarrow>
                          obind (drive_rdata off 32 data32 (bus\<lparr>user := u\<rparr>)) (\<lambda>b. Done (resp, b)))))
           else if use_wid = 16 then
             (case device bus of
                None \<Rightarrow> Stop Assert_failed
              | Some dev \<Rightarrow>
                  (case read16 dev of
                     None \<Rightarrow> Stop Assert_failed
                   | Some f \<Rightarrow>
                       (case f (user bus) addr prot of (resp, data16, u) \<Rightarrow>
                          obind (drive_rdata off 16 data16 (bus\<lparr>user := u\<rparr>)) (\<lambda>b. Done (resp, b)))))
           else if use_wid = 8 then
             (case device bus of
                None \<Rightarrow> Stop Assert_failed
              | Some dev \<Rightarrow>
                  (case read8 dev of
                     None \<Rightarrow> Stop Assert_failed
                   | Some f \<Rightarrow>
                       (case f (user bus) addr prot of (resp, data8, u) \<Rightarrow>
                          obind (drive_rdata off 8 data8 (bus\<lparr>user := u\<rparr>)) (\<lambda>b. Done (resp, b)))))
           else Done (SIMBUS_AXI4_RESP_SLVERR, bus)))"

section \<open>The state machine\<close>

definition resp_code :: "simbus_axi4_resp \<Rightarrow> int" where
  "resp_code r = (case r of SIMBUS_AXI4_RESP_OKAY \<Rightarrow> 0 | SIMBUS_AXI4_RESP_EXOKAY \<Rightarrow> 1
     | SIMBUS_AXI4_RESP_SLVERR \<Rightarrow> 2 | SIMBUS_AXI4_RESP_DECERR \<Rightarrow> 3)"

text \<open>The \<open>next_...\<close> variables of \<open>do_slave_machine\<close>: the write side and the read side.\<close>

record next_lines =
  n_awready :: bitval
  n_wready :: bitval
  n_bvalid :: bitval
  n_bresp :: "bitval \<times> bitval"
  n_arready :: bitval
  n_rvalid :: bitval
  n_rresp :: "bitval \<times> bitval"

definition current_lines :: "'d simbus_axi4 \<Rightarrow> next_lines" where
  "current_lines bus = \<lparr>n_awready = awready bus, n_wready = wready bus, n_bvalid = bvalid bus,
     n_bresp = (bresp bus ! 0, bresp bus ! 1), n_arready = arready bus, n_rvalid = rvalid bus,
     n_rresp = (rresp bus ! 0, rresp bus ! 1)\<rparr>"

text \<open>\<open>next_resp0 = resp&1; next_resp1 = resp&2;\<close> the second assignment converts 2 to the enumerator
  \<open>BIT_X\<close>.\<close>

definition resp_lines :: "simbus_axi4_resp \<Rightarrow> bitval \<times> bitval" where
  "resp_lines resp = (enum_bitval_of (resp_code resp AND 1), enum_bitval_of (resp_code resp AND 2))"

definition write_address_step :: "'d simbus_axi4 \<times> next_lines \<Rightarrow> 'd simbus_axi4 \<times> next_lines" where
  "write_address_step = (\<lambda>(bus, n).
     if awvalid bus = BIT_1 \<and> awready bus = BIT_1
     then (bus\<lparr>slave := (slave bus)\<lparr>waddr := bits_to_addr bus (awaddr bus),
                 wsize := bits_to_uint8 (awsize bus) 0 3, wlen := bits_to_uint8 (awlen bus) 0 8\<rparr>\<rparr>,
           n\<lparr>n_awready := BIT_0, n_wready := BIT_1\<rparr>)
     else if awready bus = BIT_0 \<and> wready bus = BIT_0 then (bus, n\<lparr>n_awready := BIT_1\<rparr>)
     else (bus, n))"

definition write_data_step :: "'d simbus_axi4 \<times> next_lines \<Rightarrow> ('d simbus_axi4 \<times> next_lines) outcome" where
  "write_data_step = (\<lambda>(bus, n).
     if wvalid bus = BIT_1 \<and> wready bus = BIT_1
     then obind (write_data bus) (\<lambda>(resp, b).
            Done (b, n\<lparr>n_wready := BIT_0, n_bvalid := BIT_1, n_bresp := resp_lines resp\<rparr>))
     else Done (bus, n))"

definition bresp_step :: "'d simbus_axi4 \<times> next_lines \<Rightarrow> 'd simbus_axi4 \<times> next_lines" where
  "bresp_step = (\<lambda>(bus, n).
     if bvalid bus = BIT_1 \<and> bready bus = BIT_1
     then (bus, n\<lparr>n_awready := BIT_1, n_bvalid := BIT_0, n_bresp := (BIT_X, BIT_X)\<rparr>)
     else (bus, n))"

text \<open>The read request tests \<open>arready\<close> as an integer: any value but \<open>BIT_0\<close> counts as ready.\<close>

definition read_request_step :: "'d simbus_axi4 \<times> next_lines \<Rightarrow> ('d simbus_axi4 \<times> next_lines) outcome" where
  "read_request_step = (\<lambda>(bus, n).
     if arvalid bus = BIT_1 \<and> arready bus \<noteq> BIT_0
     then obind (read_data (bus\<lparr>slave := (slave bus)\<lparr>raddr := bits_to_addr bus (araddr bus),
                   rsize := bits_to_uint8 (arsize bus) 0 3, rlen := bits_to_uint8 (arlen bus) 0 8\<rparr>\<rparr>))
            (\<lambda>(resp, b). Done (b, n\<lparr>n_arready := BIT_0, n_rvalid := BIT_1, n_rresp := resp_lines resp\<rparr>))
     else Done (bus, n))"

definition read_done_step :: "'d simbus_axi4 \<times> next_lines \<Rightarrow> 'd simbus_axi4 \<times> next_lines" where
  "read_done_step = (\<lambda>(bus, n).
     if rvalid bus = BIT_1 \<and> rready bus = BIT_1
     then (bus, n\<lparr>n_rvalid := BIT_0, n_arready := BIT_1\<rparr>)
     else (bus, n))"

definition commit_lines :: "'d simbus_axi4 \<times> next_lines \<Rightarrow> 'd simbus_axi4" where
  "commit_lines = (\<lambda>(bus, n).
     bus\<lparr>awready := n_awready n, wready := n_wready n, bvalid := n_bvalid n,
         bresp := (bresp bus)[0 := fst (n_bresp n), 1 := snd (n_bresp n)],
         arready := n_arready n, rvalid := n_rvalid n,
         rresp := (rresp bus)[0 := fst (n_rresp n), 1 := snd (n_rresp n)]\<rparr>)"

definition do_slave_machine :: "'d simbus_axi4 \<Rightarrow> 'd simbus_axi4 outcome" where
  "do_slave_machine bus =
     obind (write_data_step (write_address_step (bus, current_lines bus))) (\<lambda>s1.
       obind (read_request_step (bresp_step s1)) (\<lambda>s2. Done (commit_lines (read_done_step s2))))"

text \<open>One turn of the endless loop, and the loop.\<close>

definition slave_cycle :: "'d simbus_axi4 \<Rightarrow> 'd simbus_axi4 outcome" where
  "slave_cycle bus =
     obind (spin fd axi4s_ready_command (\<lambda>b. aclk b \<noteq> BIT_0) bus) (\<lambda>b1.
       let b2 = (if areset_n b1 = BIT_0 then do_reset b1 else b1)
       in obind (spin fd axi4s_ready_command (\<lambda>b. aclk b \<noteq> BIT_1) b2) (\<lambda>b3.
            if areset_n b3 = BIT_0 then Done (do_reset b3) else do_slave_machine b3))"

definition simbus_axi4_slave :: "'d simbus_axi4 \<Rightarrow> 'd simbus_axi4s_slave option \<Rightarrow> 'd simbus_axi4 outcome" where
  "simbus_axi4_slave bus dev =
     c_assert (dev \<noteq> None \<and> device bus = None)
       (while_io (\<lambda>b. pending (fd b)) (\<lambda>b. True) slave_cycle (bus\<lparr>device := dev\<rparr>))"

section \<open>Invariant and clock\<close>

definition axi4s_own :: "'d simbus_axi4 \<Rightarrow>
    (string \<times> u32 \<times> 'd simbus_axi4s_slave option \<times> nat list \<times> axi4_slave_state \<times> 'd)
    \<times> bitval list \<times> bitval list list" where
  "axi4s_own b =
     ((name b, ident b, device b, [data_width b, addr_width b, wid_width b, rid_width b, irq_width b, axsize_word b],
       slave b, user b),
      [awready b, wready b, bvalid b, arready b, rvalid b],
      [bresp b, bid b, rdata b, rresp b, rid b, irq b])"

abbreviation axi4s_keeps :: "'d simbus_axi4 \<Rightarrow> 'd simbus_axi4 \<Rightarrow> bool" where
  "axi4s_keeps p q \<equiv> axi4_wf q \<and> axi4s_own q = axi4s_own p"

lemma on_signal_axi4s_keeps: "axi4_wf p \<Longrightarrow> ret (on_signal_axi4s p nm cp) (axi4s_keeps p)"
  by (simp add: on_signal_axi4s_def until_signal_def Let_def axi4_wf_def axi4s_own_def)

interpretation axis: signal_bus fd "\<lambda>c b. b\<lparr>fd := c\<rparr>" SIMBUS_AXI4_FINISHED "\<lambda>t b. b\<lparr>bus_time := t\<rparr>"
    on_signal_axi4s ready_message_axi4s axi4s_fits axi4s_ready_command "\<lambda>b. axi4_wf b \<and> axi4s_own b = k" for k
proof unfold_locales
  show "ret (on_signal_axi4s s nm cp) (\<lambda>t. fd t = fd s)" for s :: "'a simbus_axi4" and nm cp
    by (simp add: on_signal_axi4s_def until_signal_def Let_def)
  show "ret (on_signal_axi4s s nm cp) (\<lambda>b. axi4_wf b \<and> axi4s_own b = k)"
    if "axi4_wf s \<and> axi4s_own s = k" for s nm cp
    using on_signal_axi4s_keeps [of s nm cp] that by simp
  show "on_signal_axi4s s nm cp \<noteq> Stop Out_of_fuel" for s :: "'a simbus_axi4" and nm cp
    by (simp add: on_signal_axi4s_def until_signal_def Let_def c_assert_def obind_eq_Stop)
qed (auto simp: axi4_wf_def axi4s_own_def axi4s_ready_command_def)

lemma axis_spin_keeps: "axi4_wf p \<Longrightarrow> ret (spin fd axi4s_ready_command b p) (axi4s_keeps p)"
  by (rule axis.spin_inv) (use axis.exchange_ok [of _ "axi4s_own p"] in auto)

lemma fd_do_reset [simp]: "fd (do_reset b) = fd b"
  by (simp add: do_reset_def)

lemma fd_write_data: "ret (write_data b) (\<lambda>(r, b'). fd b' = fd b)"
  by (auto simp: write_data_def Let_def split: option.splits prod.splits)

lemma fd_read_data: "ret (read_data b) (\<lambda>(r, b'). fd b' = fd b)"
  by (auto simp: read_data_def drive_rdata_def Let_def split: option.splits prod.splits)

lemma fd_slave_machine: "ret (do_slave_machine b) (\<lambda>b'. fd b' = fd b)"
proof -
  have w: "ret (write_data_step (write_address_step (b, n))) (\<lambda>(b1, n1). fd b1 = fd b)" for n
    by (auto simp: write_data_step_def write_address_step_def case_prod_unfold
        intro!: ret_mono [OF fd_write_data] split: if_splits)
  have r: "ret (read_request_step (bresp_step (b1, n))) (\<lambda>(b2, n2). fd b2 = fd b1)" for b1 :: "'a simbus_axi4" and n
    by (auto simp: read_request_step_def bresp_step_def case_prod_unfold
        intro!: ret_mono [OF fd_read_data] split: if_splits)
  show ?thesis
    unfolding do_slave_machine_def
  proof (rule ret_seq2 [OF w])
    fix b1 :: "'a simbus_axi4" and n1 assume "fd b1 = fd b"
    then show "ret (obind (read_request_step (bresp_step (b1, n1))) (\<lambda>s2. Done (commit_lines (read_done_step s2))))
        (\<lambda>b'. fd b' = fd b)"
      by (intro ret_seq2 [OF r]) (auto simp: commit_lines_def read_done_step_def)
  qed
qed

lemma write_data_fuel [simp]: "write_data b \<noteq> Stop Out_of_fuel"
  by (auto simp: write_data_def Let_def c_assert_def c_defined_def split: option.splits prod.splits)

lemma read_data_fuel [simp]: "read_data b \<noteq> Stop Out_of_fuel"
  by (auto simp: read_data_def drive_rdata_def Let_def c_assert_def c_defined_def obind_eq_Stop
      split: option.splits prod.splits)

lemma slave_machine_fuel [simp]: "do_slave_machine b \<noteq> Stop Out_of_fuel"
  by (auto simp: do_slave_machine_def obind_eq_Stop write_data_step_def read_request_step_def bresp_step_def
      split: prod.splits if_splits)

lemma slave_cycle_consumes: "ret (slave_cycle b) (\<lambda>b'. pending (fd b') < pending (fd b))"
  unfolding slave_cycle_def Let_def
proof (rule ret_seq [OF ret_conj [OF axis.spin_post axis.spin_pending]])
  fix q :: "'a simbus_axi4"
  let ?q = "if areset_n q = BIT_0 then do_reset q else q"
  assume q: "\<not> aclk q \<noteq> BIT_0 \<and> pending (fd q) \<le> pending (fd b)"
  then have clk: "aclk ?q \<noteq> BIT_1" and fd: "fd ?q = fd q" by (auto simp: do_reset_def)
  from q show "ret (obind (spin fd axi4s_ready_command (\<lambda>b. aclk b \<noteq> BIT_1) ?q)
      (\<lambda>b3. if areset_n b3 = BIT_0 then Done (do_reset b3) else do_slave_machine b3))
      (\<lambda>b'. pending (fd b') < pending (fd b))"
    using axis.spin_pending_less [of "\<lambda>b. aclk b \<noteq> BIT_1" ?q] clk unfolding fd
    by (intro ret_seq [where Q = "\<lambda>t. pending (fd t) < pending (fd q)"]) (auto intro!: ret_mono [OF fd_slave_machine])
qed

lemma slave_cycle_fuel [simp]: "slave_cycle b \<noteq> Stop Out_of_fuel"
  by (auto simp: slave_cycle_def obind_eq_Stop Let_def axis.spin_fuel split: if_splits)

interpretation sloop: io_loop "\<lambda>b. pending (fd b)" slave_cycle
  by unfold_locales (auto dest: slave_cycle_consumes [THEN retD])

text \<open>The slave function has no end: it never returns a value, not even when the server ends the
  simulation (its documentation promises an error code), and its loop needs no budget; it stops only
  where the server says nothing more or a check of the code fails.\<close>

theorem slave_never_returns:
  "simbus_axi4_slave bus dev \<noteq> Done b \<and> simbus_axi4_slave bus dev \<noteq> Stop Out_of_fuel"
proof
  have "ret (while_io (\<lambda>b. pending (fd b)) (\<lambda>b. True) slave_cycle s) (\<lambda>b. False)" for s :: "'a simbus_axi4"
    by (rule ret_mono [OF ret_while_io [where I = "\<lambda>b. True"]]) (auto intro: retI)
  then show "simbus_axi4_slave bus dev \<noteq> Done b" by (auto simp: simbus_axi4_slave_def ret_def)
  show "simbus_axi4_slave bus dev \<noteq> Stop Out_of_fuel"
    by (auto simp: simbus_axi4_slave_def c_assert_def sloop.never_out_of_fuel)
qed

section \<open>The handshakes as a specification\<close>

text \<open>
  A slave with one write and one read outstanding is a pair of small machines.  The write machine
  takes an address, then the data, then waits until the response is taken; the read machine takes
  an address and waits until the data are taken.
\<close>

datatype wphase = W_address | W_data | W_response
datatype rphase = R_address | R_data

fun next_wphase :: "bool \<Rightarrow> bool \<Rightarrow> bool \<Rightarrow> wphase \<Rightarrow> wphase" where
  "next_wphase av wv br W_address = (if av then W_data else W_address)"
| "next_wphase av wv br W_data = (if wv then W_response else W_data)"
| "next_wphase av wv br W_response = (if br then W_address else W_response)"

fun next_rphase :: "bool \<Rightarrow> bool \<Rightarrow> rphase \<Rightarrow> rphase" where
  "next_rphase av rr R_address = (if av then R_data else R_address)"
| "next_rphase av rr R_data = (if rr then R_address else R_data)"

text \<open>The lines that stand for a phase; in the response phase the address may already be accepted
  again.\<close>

fun in_wphase :: "wphase \<Rightarrow> 'd simbus_axi4 \<Rightarrow> bool" where
  "in_wphase W_address b \<longleftrightarrow> awready b = BIT_1 \<and> wready b = BIT_0 \<and> bvalid b = BIT_0"
| "in_wphase W_data b \<longleftrightarrow> awready b = BIT_0 \<and> wready b = BIT_1 \<and> bvalid b = BIT_0"
| "in_wphase W_response b \<longleftrightarrow> (awready b = BIT_0 \<or> awready b = BIT_1) \<and> wready b = BIT_0 \<and> bvalid b = BIT_1"

fun in_rphase :: "rphase \<Rightarrow> 'd simbus_axi4 \<Rightarrow> bool" where
  "in_rphase R_address b \<longleftrightarrow> arready b = BIT_1 \<and> rvalid b = BIT_0"
| "in_rphase R_data b \<longleftrightarrow> arready b = BIT_0 \<and> rvalid b = BIT_1"

definition handshakes :: "'d simbus_axi4 \<Rightarrow> bitval list" where
  "handshakes b = [awready b, wready b, bvalid b, arready b, rvalid b, arvalid b, bready b, rready b]"

lemma write_data_frame: "ret (write_data b) (\<lambda>(r, b'). handshakes b' = handshakes b)"
  by (auto simp: write_data_def Let_def handshakes_def split: option.splits prod.splits)

lemma read_data_frame: "ret (read_data b) (\<lambda>(r, b'). handshakes b' = handshakes b)"
  by (auto simp: read_data_def drive_rdata_def Let_def handshakes_def split: option.splits prod.splits)

text \<open>What the machine does to its handshake lines, whatever the device does.\<close>

lemma write_data_step_frame:
  "ret (write_data_step (b, n)) (\<lambda>(b1, n1). handshakes b1 = handshakes b
     \<and> (\<exists>r. n1 = (if wvalid b = BIT_1 \<and> wready b = BIT_1
                 then n\<lparr>n_wready := BIT_0, n_bvalid := BIT_1, n_bresp := resp_lines r\<rparr> else n)))"
  using write_data_frame [of b] unfolding write_data_step_def ret_def by (auto split: prod.splits)

lemma read_request_step_frame:
  "ret (read_request_step (b, n)) (\<lambda>(b1, n1). handshakes b1 = handshakes b
     \<and> (\<exists>r. n1 = (if arvalid b = BIT_1 \<and> arready b \<noteq> BIT_0
                 then n\<lparr>n_arready := BIT_0, n_rvalid := BIT_1, n_rresp := resp_lines r\<rparr> else n)))"
proof -
  have "handshakes (b\<lparr>slave := x\<rparr>) = handshakes b" for x by (simp add: handshakes_def)
  then show ?thesis
    using read_data_frame [of "b\<lparr>slave := x\<rparr>" for x] unfolding read_request_step_def ret_def
    by (auto split: prod.splits)
qed

definition slave_lines :: "'d simbus_axi4 \<Rightarrow> 'd simbus_axi4 \<Rightarrow> bool" where
  "slave_lines b b' \<longleftrightarrow>
    (let aw = awvalid b = BIT_1 \<and> awready b = BIT_1; w = wvalid b = BIT_1 \<and> wready b = BIT_1;
         br = bvalid b = BIT_1 \<and> bready b = BIT_1; ar = arvalid b = BIT_1 \<and> arready b \<noteq> BIT_0;
         rd = rvalid b = BIT_1 \<and> rready b = BIT_1
     in awready b' = (if br then BIT_1 else if aw then BIT_0
          else if awready b = BIT_0 \<and> wready b = BIT_0 then BIT_1 else awready b)
        \<and> wready b' = (if w then BIT_0 else if aw then BIT_1 else wready b)
        \<and> bvalid b' = (if br then BIT_0 else if w then BIT_1 else bvalid b)
        \<and> arready b' = (if rd then BIT_1 else if ar then BIT_0 else arready b)
        \<and> rvalid b' = (if rd then BIT_0 else if ar then BIT_1 else rvalid b))"

lemma slave_machine_lines: "ret (do_slave_machine b) (slave_lines b)"
proof -
  obtain a n where s: "write_address_step (b, current_lines b) = (a, n)" by (rule prod.exhaust)
  have a: "handshakes a = handshakes b" "wvalid a = wvalid b"
    and n: "n = (if awvalid b = BIT_1 \<and> awready b = BIT_1 then (current_lines b)\<lparr>n_awready := BIT_0, n_wready := BIT_1\<rparr>
      else if awready b = BIT_0 \<and> wready b = BIT_0 then (current_lines b)\<lparr>n_awready := BIT_1\<rparr> else current_lines b)"
    using s by (auto simp: write_address_step_def handshakes_def split: if_splits)
  have h: "handshakes (fst (bresp_step (x, n))) = handshakes x" for x :: "'a simbus_axi4" and n
    by (auto simp: bresp_step_def)
  show ?thesis
    unfolding do_slave_machine_def s
  proof (rule ret_seq2 [OF write_data_step_frame], rule ret_seq2, subst surjective_pairing, rule read_request_step_frame)
    fix b1 b2 :: "'a simbus_axi4" and n1 n2
    assume "handshakes b1 = handshakes a \<and> (\<exists>r. n1 = (if wvalid a = BIT_1 \<and> wready a = BIT_1
                 then n\<lparr>n_wready := BIT_0, n_bvalid := BIT_1, n_bresp := resp_lines r\<rparr> else n))"
      and "handshakes b2 = handshakes (fst (bresp_step (b1, n1))) \<and> (\<exists>r. n2 =
         (if arvalid (fst (bresp_step (b1, n1))) = BIT_1 \<and> arready (fst (bresp_step (b1, n1))) \<noteq> BIT_0
          then snd (bresp_step (b1, n1))\<lparr>n_arready := BIT_0, n_rvalid := BIT_1, n_rresp := resp_lines r\<rparr>
          else snd (bresp_step (b1, n1))))"
    then obtain r q where n1: "handshakes b1 = handshakes b"
        "n1 = (if wvalid b = BIT_1 \<and> wready b = BIT_1
               then n\<lparr>n_wready := BIT_0, n_bvalid := BIT_1, n_bresp := resp_lines r\<rparr> else n)"
      and n2: "handshakes b2 = handshakes b"
        "n2 = (if arvalid b = BIT_1 \<and> arready b \<noteq> BIT_0
               then snd (bresp_step (b1, n1))\<lparr>n_arready := BIT_0, n_rvalid := BIT_1, n_rresp := resp_lines q\<rparr>
               else snd (bresp_step (b1, n1)))"
      using a h [of b1 n1] by (auto simp: handshakes_def)
    let ?n3 = "snd (read_done_step (b2, n2))"
    have "n_awready ?n3 = n_awready (snd (bresp_step (b1, n1)))" "n_wready ?n3 = n_wready n1"
      "n_bvalid ?n3 = n_bvalid (snd (bresp_step (b1, n1)))"
      by (simp_all add: read_done_step_def bresp_step_def n2(2))
    moreover have "n_arready ?n3 = (if rvalid b = BIT_1 \<and> rready b = BIT_1 then BIT_1
        else if arvalid b = BIT_1 \<and> arready b \<noteq> BIT_0 then BIT_0 else n_arready n1)"
      "n_rvalid ?n3 = (if rvalid b = BIT_1 \<and> rready b = BIT_1 then BIT_0
        else if arvalid b = BIT_1 \<and> arready b \<noteq> BIT_0 then BIT_1 else n_rvalid n1)"
      using n2(1) by (simp_all add: read_done_step_def bresp_step_def n2(2) handshakes_def)
    moreover have "n_awready (snd (bresp_step (b1, n1))) =
        (if bvalid b = BIT_1 \<and> bready b = BIT_1 then BIT_1 else n_awready n)"
      "n_bvalid (snd (bresp_step (b1, n1))) = (if bvalid b = BIT_1 \<and> bready b = BIT_1 then BIT_0
        else if wvalid b = BIT_1 \<and> wready b = BIT_1 then BIT_1 else n_bvalid n)"
      "n_wready n1 = (if wvalid b = BIT_1 \<and> wready b = BIT_1 then BIT_0 else n_wready n)"
      "n_arready n1 = n_arready n" "n_rvalid n1 = n_rvalid n"
      using n1(1) by (simp_all add: bresp_step_def n1(2) handshakes_def)
    moreover have "n_awready n = (if awvalid b = BIT_1 \<and> awready b = BIT_1 then BIT_0
        else if awready b = BIT_0 \<and> wready b = BIT_0 then BIT_1 else awready b)"
      "n_wready n = (if awvalid b = BIT_1 \<and> awready b = BIT_1 then BIT_1 else wready b)"
      "n_bvalid n = bvalid b" "n_arready n = arready b" "n_rvalid n = rvalid b"
      by (simp_all add: n current_lines_def)
    ultimately show "ret (Done (commit_lines (read_done_step (b2, n2)))) (slave_lines b)"
      by (simp add: slave_lines_def commit_lines_def case_prod_unfold Let_def)
  qed
qed

text \<open>The address of a write is taken with its handshake, whatever else happens in the clock.\<close>

lemma write_data_slave: "ret (write_data b) (\<lambda>(r, b'). slave b' = slave b)"
  by (auto simp: write_data_def Let_def split: option.splits prod.splits)

lemma read_data_slave: "ret (read_data b) (\<lambda>(r, b'). slave b' = slave b)"
  by (auto simp: read_data_def drive_rdata_def Let_def split: option.splits prod.splits)

lemma slave_machine_address:
  assumes "awvalid b = BIT_1" and "awready b = BIT_1"
  shows "ret (do_slave_machine b) (\<lambda>b'. waddr (slave b') = bits_to_addr b (awaddr b))"
proof -
  have w: "ret (write_data_step (x, n)) (\<lambda>(b1, n1). slave b1 = slave x)" for x :: "'a simbus_axi4" and n
    using write_data_slave [of x] unfolding write_data_step_def ret_def by (auto split: prod.splits)
  have r: "ret (read_request_step (x, n)) (\<lambda>(b1, n1). waddr (slave b1) = waddr (slave x))" for x :: "'a simbus_axi4" and n
    using read_data_slave [of "x\<lparr>slave := y\<rparr>" for y] unfolding read_request_step_def ret_def
    by (auto split: prod.splits)
  have b: "slave (fst (bresp_step s)) = slave (fst s)" for s :: "'a simbus_axi4 \<times> next_lines"
    by (auto simp: bresp_step_def split: prod.split)
  have d: "slave (commit_lines (read_done_step s)) = slave (fst s)" for s :: "'a simbus_axi4 \<times> next_lines"
    by (auto simp: read_done_step_def commit_lines_def split: prod.split)
  let ?a = "write_address_step (b, current_lines b)"
  have a: "waddr (slave (fst ?a)) = bits_to_addr b (awaddr b)"
    using assms by (simp add: write_address_step_def)
  have "ret (write_data_step ?a) (\<lambda>s. slave (fst s) = slave (fst ?a))"
    using w [of "fst ?a" "snd ?a"] by (simp add: case_prod_unfold)
  then show ?thesis
    unfolding do_slave_machine_def
  proof (rule ret_seq)
    fix s1 :: "'a simbus_axi4 \<times> next_lines" assume s1: "slave (fst s1) = slave (fst ?a)"
    have "ret (read_request_step (bresp_step s1)) (\<lambda>s. waddr (slave (fst s)) = waddr (slave (fst (bresp_step s1))))"
      using r [of "fst (bresp_step s1)" "snd (bresp_step s1)"] by (simp add: case_prod_unfold)
    then show "ret (obind (read_request_step (bresp_step s1)) (\<lambda>s2. Done (commit_lines (read_done_step s2))))
        (\<lambda>b'. waddr (slave b') = bits_to_addr b (awaddr b))"
      by (rule ret_seq) (simp add: d b s1 a)
  qed
qed

text \<open>C14: The slave's machine implements the handshake specification, whatever its device does, in every clock but
  one kind.  From the lines of a write phase and a read phase, one clock reaches the lines of the
  specified next phases, and a reset reaches the first phases of both.  The exception is the clock in
  which the master offers a new write address while the response to the last write is still
  pending and AWREADY, which the code raises again without waiting for the response to be taken, is
  up: there the read side goes on as specified, but the write side takes the address over the one
  it has and is then in no phase of the specification.\<close>

theorem slave_refines_handshake:
  assumes "in_wphase wp b" and "in_rphase rp b"
  shows "ret (do_slave_machine b) (\<lambda>b'.
      in_rphase (next_rphase (arvalid b = BIT_1) (rready b = BIT_1) rp) b'
      \<and> (if bvalid b = BIT_1 \<and> awready b = BIT_1 \<and> awvalid b = BIT_1
         then waddr (slave b') = bits_to_addr b (awaddr b) \<and> wready b' = BIT_1 \<and> (\<forall>w. \<not> in_wphase w b')
         else in_wphase (next_wphase (awvalid b = BIT_1) (wvalid b = BIT_1) (bready b = BIT_1) wp) b'))
    \<and> in_wphase W_address (do_reset b) \<and> in_rphase R_address (do_reset b)"
proof (rule conjI)
  have addr: "ret (do_slave_machine b) (\<lambda>b'. awvalid b = BIT_1 \<and> awready b = BIT_1 \<longrightarrow>
      waddr (slave b') = bits_to_addr b (awaddr b))"
    using slave_machine_address [of b] by (auto simp: ret_def)
  show "ret (do_slave_machine b) (\<lambda>b'.
      in_rphase (next_rphase (arvalid b = BIT_1) (rready b = BIT_1) rp) b'
      \<and> (if bvalid b = BIT_1 \<and> awready b = BIT_1 \<and> awvalid b = BIT_1
         then waddr (slave b') = bits_to_addr b (awaddr b) \<and> wready b' = BIT_1 \<and> (\<forall>w. \<not> in_wphase w b')
         else in_wphase (next_wphase (awvalid b = BIT_1) (wvalid b = BIT_1) (bready b = BIT_1) wp) b'))"
  proof (rule ret_mono [OF ret_conj [OF slave_machine_lines addr]], elim conjE, intro conjI)
    fix b' assume l: "slave_lines b b'"
    with assms show "in_rphase (next_rphase (arvalid b = BIT_1) (rready b = BIT_1) rp) b'"
      by (cases rp) (auto simp: slave_lines_def Let_def)
    assume a: "awvalid b = BIT_1 \<and> awready b = BIT_1 \<longrightarrow> waddr (slave b') = bits_to_addr b (awaddr b)"
    have phase: "\<not> in_wphase w b'" if "bvalid b = BIT_1" "awready b = BIT_1" "awvalid b = BIT_1" for w
      using l assms(1) that by (cases wp; cases w) (auto simp: slave_lines_def Let_def split: if_split_asm)
    show "if bvalid b = BIT_1 \<and> awready b = BIT_1 \<and> awvalid b = BIT_1
         then waddr (slave b') = bits_to_addr b (awaddr b) \<and> wready b' = BIT_1 \<and> (\<forall>w. \<not> in_wphase w b')
         else in_wphase (next_wphase (awvalid b = BIT_1) (wvalid b = BIT_1) (bready b = BIT_1) wp) b'"
      using l a phase assms(1) by (cases wp) (auto simp: slave_lines_def Let_def)
  qed
qed (simp add: do_reset_def)

text \<open>After that clock the data of the second write are taken with the first response still pending: one
  response answers both writes.\<close>

lemma response_answers_two:
  assumes "bvalid b = BIT_1" and "wready b = BIT_1" and "wvalid b = BIT_1" and "awready b = BIT_0" and "bready b \<noteq> BIT_1"
  shows "ret (do_slave_machine b) (in_wphase W_response)"
  by (rule ret_mono [OF slave_machine_lines]) (use assms in \<open>simp add: slave_lines_def Let_def\<close>)

section \<open>Master and slave on one bus\<close>

text \<open>
  What a server does for a master and a slave of the same widths: every line reaches the other side.
  In a clock both sample the lines as they are and then drive their own.
\<close>

definition wires_up :: "'e simbus_axi4 \<Rightarrow> 'd simbus_axi4 \<Rightarrow> 'd simbus_axi4" where
  "wires_up m s =
     s\<lparr>awvalid := awvalid m, awaddr := awaddr m, awlen := awlen m, awsize := awsize m, awprot := awprot m,
       wvalid := wvalid m, wdata := wdata m, wstrb := wstrb m, bready := bready m,
       arvalid := arvalid m, araddr := araddr m, arlen := arlen m, arsize := arsize m, arprot := arprot m,
       rready := rready m\<rparr>"

definition wires_down :: "'d simbus_axi4 \<Rightarrow> 'e simbus_axi4 \<Rightarrow> 'e simbus_axi4" where
  "wires_down s m =
     m\<lparr>awready := awready s, wready := wready s, bvalid := bvalid s, bresp := bresp s,
       arready := arready s, rvalid := rvalid s, rdata := rdata s, rresp := rresp s\<rparr>"

definition write_cycle ::
  "(simbus_axi4_resp \<times> int \<times> 'e simbus_axi4) \<times> 'd simbus_axi4
     \<Rightarrow> ((simbus_axi4_resp \<times> int \<times> 'e simbus_axi4) \<times> 'd simbus_axi4) outcome" where
  "write_cycle = (\<lambda>((rc, tm, m), s).
     obind (do_slave_machine (wires_up m s)) (\<lambda>s'.
       Done (resp_turn (rc, tm, wdata_turn (waddr_turn (wires_down s m))), s')))"

definition read_cycle ::
  "nat \<Rightarrow> nat \<Rightarrow> (simbus_axi4_resp \<times> 'w::len word \<times> 'e simbus_axi4) \<times> 'd simbus_axi4
     \<Rightarrow> ((simbus_axi4_resp \<times> 'w word \<times> 'e simbus_axi4) \<times> 'd simbus_axi4) outcome" where
  "read_cycle k n = (\<lambda>((rc, d, m), s).
     obind (do_slave_machine (wires_up m s)) (\<lambda>s'.
     obind (rdata_turn k n (rc, d, raddr_check (wires_down s m))) (\<lambda>t. Done (t, s'))))"

text \<open>The response code that arrives: the conversion of \<open>resp&2\<close> loses the error bit.\<close>

definition response_seen :: "simbus_axi4_resp \<Rightarrow> simbus_axi4_resp" where
  "response_seen r = (if r = SIMBUS_AXI4_RESP_OKAY \<or> r = SIMBUS_AXI4_RESP_SLVERR
     then SIMBUS_AXI4_RESP_OKAY else SIMBUS_AXI4_RESP_EXOKAY)"

lemma resp_of_resp_lines:
  "resp_of_lines [fst (resp_lines r), snd (resp_lines r)] = response_seen r"
  by (cases r) (simp_all add: resp_lines_def resp_code_def response_seen_def resp_of_lines_def enum_bitval_of_def)

text \<open>The slave in the clocks of a transfer.\<close>

lemmas machine_defs = do_slave_machine_def write_data_step_def write_address_step_def current_lines_def
  bresp_step_def read_request_step_def read_done_step_def commit_lines_def

lemma accept_address:
  assumes "awvalid b = BIT_1" and "in_wphase W_address b" and "in_rphase R_address b" and "arvalid b \<noteq> BIT_1"
  shows "do_slave_machine b = Done (b\<lparr>slave := (slave b)\<lparr>waddr := bits_to_addr b (awaddr b),
      wsize := bits_to_uint8 (awsize b) 0 3, wlen := bits_to_uint8 (awlen b) 0 8\<rparr>,
      awready := BIT_0, wready := BIT_1\<rparr>)"
  using assms by (simp add: machine_defs)

lemma take_data:
  assumes "wvalid b = BIT_1" and "in_wphase W_data b" and "in_rphase R_address b" and "arvalid b \<noteq> BIT_1"
    and "write_data b = Done (r, b\<lparr>user := u\<rparr>)" and "length (bresp b) = 2"
  shows "do_slave_machine b = Done (b\<lparr>user := u, wready := BIT_0, bvalid := BIT_1,
      bresp := [fst (resp_lines r), snd (resp_lines r)]\<rparr>)"
  using assms by (auto simp: machine_defs length_Suc_conv numeral_2_eq_2)

lemma finish_write:
  assumes "bready b = BIT_1" and "in_wphase W_response b" and "in_rphase R_address b" and "arvalid b \<noteq> BIT_1"
    and "awready b = BIT_0" and "awvalid b \<noteq> BIT_1" and "wvalid b \<noteq> BIT_1"
  shows "\<exists>b'. do_slave_machine b = Done b' \<and> user b' = user b \<and> in_wphase W_address b' \<and> in_rphase R_address b'"
  using assms by (simp add: machine_defs)

text \<open>Decoding what the master drove.\<close>

lemma decode_addr:
  "addr_width b \<le> length xs \<Longrightarrow> length xs \<le> 64 \<Longrightarrow> take_bit (addr_width b) a = a \<Longrightarrow>
     bits_to_addr b (put_bits 0 (addr_width b) a xs) = a"
  unfolding bits_to_addr_def by (rule horner_value) (simp_all add: nth_put_bits)

lemma decode_size: "length xs = 3 \<Longrightarrow> bits_to_uint8 (put_bits 0 3 (2 :: int) xs) 0 3 = 2"
  unfolding bits_to_uint8_def
  by (rule horner_value) (auto simp: nth_put_bits less_Suc_eq numeral_3_eq_3 bit_simps)

lemma decode_word:
  "off + 32 \<le> length xs \<Longrightarrow> bits_to_uint32 (fill_bits (off + 32) k BIT_X (put_bits off 32 v xs)) off 32 = v"
  unfolding bits_to_uint32_def by (rule horner_value) (simp_all add: nth_put_bits nth_fill_bits take_bit_word_eq_self)

text \<open>What the master drives once it has started a write of a word.\<close>

definition offers_word :: "u64 \<Rightarrow> u32 \<Rightarrow> 'e simbus_axi4 \<Rightarrow> bool" where
  "offers_word addr data m \<longleftrightarrow>
     awvalid m = BIT_1 \<and> wvalid m = BIT_1 \<and> bready m = BIT_1
     \<and> bits_to_addr m (awaddr m) = addr \<and> bits_to_uint8 (awsize m) 0 3 = 2
     \<and> bits_to_uint32 (wdata m) (bit_offset addr (data_width m)) 32 = data
     \<and> bit_offset addr (data_width m) + 32 \<le> 64"

lemma offset_fits:
  "addr mod 4 = 0 \<Longrightarrow> dw = 32 \<or> dw = 64 \<Longrightarrow> bit_offset addr dw + 32 \<le> 64" for addr :: u64
proof -
  assume "addr mod 4 = 0"
  then have "unat addr mod 4 = 0" by (simp add: unat_eq_zero unat_mod flip: unat_eq_zero)
  moreover assume "dw = 32 \<or> dw = 64"
  ultimately show ?thesis by (elim disjE) (simp add: bit_offset_def, simp add: bit_offset_def, presburger)
qed

lemma write_beat_offers:
  assumes "axi4_wf m" and "data_width m = 32 \<or> data_width m = 64" and "addr mod 4 = 0"
    and "take_bit (addr_width m) addr = addr" and "addr_width m \<le> 64"
  shows "\<exists>m1. write_beat addr 2 prot 32 32 4 data m = Done m1 \<and> offers_word addr data m1 \<and> axi4_wf m1
    \<and> data_width m1 = data_width m \<and> addr_width m1 = addr_width m \<and> arvalid m1 = arvalid m"
proof -
  let ?k = "unat addr mod (data_width m div 8)"
  have k: "?k * 8 = bit_offset addr (data_width m)" by (simp add: bit_offset_def)
  have le: "bit_offset addr (data_width m) + 32 \<le> 64" by (rule offset_fits [OF assms(3,2)])
  obtain m1 where m1: "write_beat addr 2 prot 32 32 4 data m = Done m1"
    using assms(2,5) le k
    by (auto simp: write_beat_def waddr_setup_def drive_wdata_def Let_def axi4_limits c_defined_def c_assert_def)
  then have v: "awaddr m1 = put_bits 0 (addr_width m) addr (awaddr m)" "awsize m1 = put_bits 0 3 (2 :: int) (awsize m)"
    "wdata m1 = fill_bits (bit_offset addr (data_width m) + 32) (data_width m - (bit_offset addr (data_width m) + 32)) BIT_X
       (put_bits (bit_offset addr (data_width m)) 32 data (fill_bits 0 (bit_offset addr (data_width m)) BIT_X (wdata m)))"
    "data_width m1 = data_width m" "addr_width m1 = addr_width m" "arvalid m1 = arvalid m"
    by (auto simp: write_beat_def Let_def waddr_setup_def drive_wdata_def drive_wstrb_def k)
  have len: "length (awaddr m) = 64" "length (awsize m) = 3" "length (wdata m) = 64"
    using assms(1) by (simp_all add: axi4_wf_def)
  have "bits_to_addr m1 (awaddr m1) = addr"
    using decode_addr [of m1 "awaddr m" addr] assms(4,5) by (simp add: v len)
  moreover have "bits_to_uint8 (awsize m1) 0 3 = 2" by (simp add: v decode_size len)
  moreover have "bits_to_uint32 (wdata m1) (bit_offset addr (data_width m1)) 32 = data"
    using le by (simp add: v decode_word len)
  ultimately have "offers_word addr data m1" using write_beat_lines [OF m1] le by (simp add: offers_word_def v(4))
  moreover have "axi4_wf m1"
    using write_beat_wf [OF assms(1), of addr 2 prot 32 32 4 data] m1 by (simp add: runs_def)
  ultimately show ?thesis using m1 v by (intro exI conjI)
qed

lemma write_word:
  assumes "wsize (slave b) = 2" and "data_width b = 32 \<or> data_width b = 64" and "waddr (slave b) mod 4 = 0"
    and "device b = Some dev" and "write32 dev = Some f"
    and "f (user b) (waddr (slave b)) (wprot (slave b))
           (bits_to_uint32 (wdata b) (bit_offset (waddr (slave b)) (data_width b)) 32) = (r, u)"
  shows "write_data b = Done (r, b\<lparr>user := u\<rparr>)"
proof -
  have "unat (waddr (slave b)) mod 4 = 0"
    using assms(3) by (simp add: unat_eq_zero unat_mod flip: unat_eq_zero)
  moreover have "bit_offset (waddr (slave b)) (data_width b) + 32 \<le> 64" by (rule offset_fits [OF assms(3,2)])
  ultimately show ?thesis
    using assms(2) by (auto simp: write_data_def beat_width_def Let_def assms(1,4-6) axi4_limits)
qed

text \<open>The master after each of the three clocks.\<close>

lemma master_address_taken:
  assumes "axi4_wf m" and "awvalid m = BIT_1" and "wvalid m = BIT_1" and "bready m = BIT_1" and "in_wphase W_address s"
    and "axi4_wf s"
  shows "\<exists>m'. resp_turn (SIMBUS_AXI4_RESP_OKAY, AXI4_RESP_TIMELIMIT, wdata_turn (waddr_turn (wires_down s m)))
      = (SIMBUS_AXI4_RESP_OKAY, AXI4_RESP_TIMELIMIT - 1, m') \<and> axi4_wf m'
      \<and> awvalid m' = BIT_0 \<and> wvalid m' = BIT_1 \<and> bready m' = BIT_1 \<and> wdata m' = wdata m \<and> arvalid m' = arvalid m"
  using assms
  by (simp add: resp_turn_def wdata_turn_def waddr_turn_def waddr_clear_def wires_down_def axi4_wf_def AXI4_RESP_TIMELIMIT_def)

lemma master_data_taken:
  assumes "axi4_wf m" and "awvalid m = BIT_0" and "wvalid m = BIT_1" and "bready m = BIT_1" and "wready s = BIT_1"
    and "bvalid s = BIT_0" and "axi4_wf s" and "tm > 0"
  shows "\<exists>m'. resp_turn (SIMBUS_AXI4_RESP_OKAY, tm, wdata_turn (waddr_turn (wires_down s m)))
      = (SIMBUS_AXI4_RESP_OKAY, tm - 1, m') \<and> axi4_wf m'
      \<and> awvalid m' = BIT_0 \<and> wvalid m' = BIT_0 \<and> bready m' = BIT_1 \<and> arvalid m' = arvalid m"
  using assms by (simp add: resp_turn_def wdata_turn_def waddr_turn_def wires_down_def axi4_wf_def)

lemma master_response_taken:
  assumes "axi4_wf m" and "awvalid m = BIT_0" and "wvalid m = BIT_0" and "bready m = BIT_1" and "bvalid s = BIT_1"
    and "axi4_wf s"
  shows "\<exists>m'. resp_turn (rc, tm, wdata_turn (waddr_turn (wires_down s m))) = (resp_of_lines (bresp s), tm, m')
      \<and> write_idle m'"
  using assms by (simp add: resp_turn_def wdata_turn_def waddr_turn_def wires_down_def axi4_wf_def write_idle_def)

text \<open>C10: A word written by the master arrives at the slave's device: on a bus of 32 or 64 data lines, with
  an idle slave, the transaction is over after three clocks. The device's function was called once,
  with the address and the datum of the master and the protection code the slave was left with (the
  one on the bus is not stored), the slave waits for the next address, and the master gets the
  device's response with its error bit lost: SLVERR arrives as OKAY and DECERR as EXOKAY.\<close>

theorem axi4_write_reaches_device:
  assumes "axi4_wf m" and "data_width m = 32 \<or> data_width m = 64" and "addr mod 4 = 0"
    and "addr_width m \<le> 64" and "take_bit (addr_width m) addr = addr" and "arvalid m = BIT_0"
    and "axi4_wf s" and "data_width s = data_width m" and "addr_width s = addr_width m"
    and "in_wphase W_address s" and "in_rphase R_address s"
    and "device s = Some dev" and "write32 dev = Some f" and "f (user s) addr (wprot (slave s)) data = (r, u)"
  shows "\<exists>tm m' s'. obind (write_beat addr 2 prot 32 32 4 data m) (\<lambda>m1.
        obind (write_cycle ((SIMBUS_AXI4_RESP_OKAY, AXI4_RESP_TIMELIMIT, m1), s)) (\<lambda>c.
        obind (write_cycle c) write_cycle)) = Done ((response_seen r, tm, m'), s')
    \<and> write_idle m' \<and> user s' = u \<and> in_wphase W_address s' \<and> in_rphase R_address s'"
proof -
  obtain m1 where m1: "write_beat addr 2 prot 32 32 4 data m = Done m1" "offers_word addr data m1" "axi4_wf m1"
      "data_width m1 = data_width m" "addr_width m1 = addr_width m" "arvalid m1 = BIT_0"
    using write_beat_offers assms(1-6) by metis
  let ?s1 = "(wires_up m1 s)\<lparr>slave := (slave s)\<lparr>waddr := addr, wsize := 2, wlen := bits_to_uint8 (awlen m1) 0 8\<rparr>,
      awready := BIT_0, wready := BIT_1\<rparr>"
  have a: "bits_to_addr (wires_up m1 s) (awaddr m1) = addr"
    using m1 assms(9) by (simp add: offers_word_def bits_to_addr_def wires_up_def)
  have s1: "do_slave_machine (wires_up m1 s) = Done ?s1"
    using m1 a assms(10,11)
    by (subst accept_address) (simp_all add: wires_up_def offers_word_def)
  obtain m2 where m2: "resp_turn (SIMBUS_AXI4_RESP_OKAY, AXI4_RESP_TIMELIMIT, wdata_turn (waddr_turn (wires_down s m1)))
        = (SIMBUS_AXI4_RESP_OKAY, AXI4_RESP_TIMELIMIT - 1, m2)" "axi4_wf m2" "awvalid m2 = BIT_0" "wvalid m2 = BIT_1"
      "bready m2 = BIT_1" "wdata m2 = wdata m1" "arvalid m2 = BIT_0"
    using master_address_taken [of m1 s] m1 assms(7,10) by (auto simp: offers_word_def)
  let ?s2 = "(wires_up m2 ?s1)\<lparr>user := u, wready := BIT_0, bvalid := BIT_1,
      bresp := [fst (resp_lines r), snd (resp_lines r)]\<rparr>"
  have "write_data (wires_up m2 ?s1) = Done (r, (wires_up m2 ?s1)\<lparr>user := u\<rparr>)"
    using assms(2,3,8,12-14) m1 m2(6)
    by (intro write_word [where dev = dev and f = f]) (simp_all add: wires_up_def offers_word_def)
  then have s2: "do_slave_machine (wires_up m2 ?s1) = Done ?s2"
    using m2 assms(7,10,11) by (intro take_data) (simp_all add: wires_up_def axi4_wf_def)
  obtain m3 where m3: "resp_turn (SIMBUS_AXI4_RESP_OKAY, AXI4_RESP_TIMELIMIT - 1, wdata_turn (waddr_turn (wires_down ?s1 m2)))
        = (SIMBUS_AXI4_RESP_OKAY, AXI4_RESP_TIMELIMIT - 1 - 1, m3)" "axi4_wf m3" "awvalid m3 = BIT_0"
      "wvalid m3 = BIT_0" "bready m3 = BIT_1" "arvalid m3 = BIT_0"
    using master_data_taken [of m2 ?s1 "AXI4_RESP_TIMELIMIT - 1"] m1 m2 assms(7,10)
    by (auto simp: wires_up_def axi4_wf_def AXI4_RESP_TIMELIMIT_def)
  obtain s3 where s3: "do_slave_machine (wires_up m3 ?s2) = Done s3" "user s3 = u" "in_wphase W_address s3" "in_rphase R_address s3"
    using finish_write [of "wires_up m3 ?s2"] m3 assms(11) by (auto simp: wires_up_def)
  obtain m4 where m4: "resp_turn (SIMBUS_AXI4_RESP_OKAY, AXI4_RESP_TIMELIMIT - 1 - 1, wdata_turn (waddr_turn (wires_down ?s2 m3)))
        = (response_seen r, AXI4_RESP_TIMELIMIT - 1 - 1, m4)" "write_idle m4"
    using master_response_taken [of m3 ?s2] m1 m2 m3 assms(7)
    by (auto simp: wires_up_def axi4_wf_def resp_of_resp_lines)
  show ?thesis
    by (intro exI conjI) (simp only: m1(1) obind.simps write_cycle_def prod.case s1 s2 s3 m2 m3 m4, rule m4(2), (rule s3)+)
qed

lemma read_word:
  assumes "rsize (slave b) = 2" and "data_width b = 32 \<or> data_width b = 64" and "raddr (slave b) mod 4 = 0"
    and "device b = Some dev" and "read32 dev = Some f"
    and "f (user b) (raddr (slave b)) (rprot (slave b)) = (r, d, u)" and "length (rdata b) = 64"
  shows "\<exists>xs. read_data b = Done (r, b\<lparr>user := u, rdata := xs\<rparr>) \<and> length xs = 64
    \<and> gather (\<lambda>v. v = BIT_1) xs (bit_offset (raddr (slave b)) (data_width b)) 32 1 0 = d"
proof -
  have le: "bit_offset (raddr (slave b)) (data_width b) + 32 \<le> 64" by (rule offset_fits [OF assms(3,2)])
  then have "read_data b = Done (r, b\<lparr>user := u, rdata := put_bits (bit_offset (raddr (slave b)) (data_width b)) 32 d
      (fill_bits 0 (data_width b) BIT_X (rdata b))\<rparr>)"
    using assms(2) by (auto simp: read_data_def beat_width_def drive_rdata_def Let_def assms(1,4-6) axi4_limits)
  with le assms(7) show ?thesis by (intro exI conjI) (assumption, simp_all add: gather_put_bits)
qed

lemma accept_read:
  assumes "arvalid b = BIT_1" and "in_rphase R_address b" and "in_wphase W_address b" and "awvalid b \<noteq> BIT_1"
    and "read_data (b\<lparr>slave := sl\<rparr>) = Done (r, b\<lparr>slave := sl, user := u, rdata := xs\<rparr>)" and "length (rresp b) = 2"
    and "sl = (slave b)\<lparr>raddr := bits_to_addr b (araddr b), rsize := bits_to_uint8 (arsize b) 0 3,
      rlen := bits_to_uint8 (arlen b) 0 8\<rparr>"
  shows "do_slave_machine b = Done (b\<lparr>slave := sl, user := u, rdata := xs, arready := BIT_0, rvalid := BIT_1,
      rresp := [fst (resp_lines r), snd (resp_lines r)]\<rparr>)"
  using assms(1-6) unfolding assms(7) by (auto simp: machine_defs length_Suc_conv numeral_2_eq_2)

lemma finish_read:
  assumes "rready b = BIT_1" and "in_rphase R_data b" and "in_wphase W_address b" and "awvalid b \<noteq> BIT_1"
  shows "\<exists>b'. do_slave_machine b = Done b' \<and> user b' = user b \<and> in_wphase W_address b' \<and> in_rphase R_address b'"
  using assms by (simp add: machine_defs)

text \<open>C11: A read of a word by the master returns the word of the slave's device: on a bus of 32 or 64 data
  lines, with an idle slave, the transfer is over after two clocks. The device's function was called
  once with the master's address, the master has its datum, bit for bit, and its response with the
  error bit lost, and both channels are idle again.\<close>

theorem axi4_read_returns_device_word:
  assumes "axi4_wf m" and "data_width m = 32 \<or> data_width m = 64" and "addr mod 4 = 0"
    and "addr_width m \<le> 64" and "take_bit (addr_width m) addr = addr" and "awvalid m = BIT_0"
    and "axi4_wf s" and "data_width s = data_width m" and "addr_width s = addr_width m"
    and "in_wphase W_address s" and "in_rphase R_address s"
    and "device s = Some dev" and "read32 dev = Some f" and "f (user s) addr (rprot (slave s)) = (r, d, u)"
  shows "\<exists>m' s'. obind (raddr_setup addr 2 prot m) (\<lambda>m1.
        obind (read_cycle (unat addr mod (data_width m div 8)) 32 ((SIMBUS_AXI4_RESP_OKAY, dat, m1\<lparr>rready := BIT_1\<rparr>), s))
          (read_cycle (unat addr mod (data_width m div 8)) 32)) = Done ((response_seen r, d, m'), s')
    \<and> read_idle m' \<and> user s' = u \<and> in_wphase W_address s' \<and> in_rphase R_address s'"
proof -
  let ?k = "unat addr mod (data_width m div 8)"
  have k: "?k * 8 = bit_offset addr (data_width m)" by (simp add: bit_offset_def)
  have le: "bit_offset addr (data_width m) + 32 \<le> 64" by (rule offset_fits [OF assms(3,2)])
  obtain m0 where m0: "raddr_setup addr 2 prot m = Done m0" using assms(4) by (simp add: raddr_setup_def axi4_limits)
  let ?m1 = "m0\<lparr>rready := BIT_1\<rparr>"
  have m1: "arvalid ?m1 = BIT_1" "awvalid ?m1 = BIT_0" "rready ?m1 = BIT_1" "axi4_wf ?m1"
    "bits_to_addr (wires_up ?m1 s) (araddr ?m1) = addr" "bits_to_uint8 (arsize ?m1) 0 3 = 2"
    using m0 assms(1,4,5,6,9) decode_addr [of s "araddr m" addr]
    by (auto simp: raddr_setup_def axi4_wf_def wires_up_def bits_to_addr_def decode_size)
  define sl where "sl = (slave s)\<lparr>raddr := addr, rsize := 2, rlen := bits_to_uint8 (arlen ?m1) 0 8\<rparr>"
  obtain xs where xs: "read_data ((wires_up ?m1 s)\<lparr>slave := sl\<rparr>) =
        Done (r, (wires_up ?m1 s)\<lparr>slave := sl, user := u, rdata := xs\<rparr>)"
      "length xs = 64" "gather (\<lambda>v. v = BIT_1) xs (bit_offset addr (data_width m)) 32 1 0 = d"
    using read_word [of "(wires_up ?m1 s)\<lparr>slave := sl\<rparr>" dev f r d u] assms(2,3,7,8,12-14)
    by (auto simp: sl_def wires_up_def axi4_wf_def)
  let ?s1 = "(wires_up ?m1 s)\<lparr>slave := sl, user := u, rdata := xs, arready := BIT_0, rvalid := BIT_1,
      rresp := [fst (resp_lines r), snd (resp_lines r)]\<rparr>"
  have s1: "do_slave_machine (wires_up ?m1 s) = Done ?s1"
    using m1 assms(7,10,11) xs(1)
    by (intro accept_read) (simp_all add: wires_up_def axi4_wf_def sl_def)
  obtain m2 where m2: "rdata_turn ?k 32 (SIMBUS_AXI4_RESP_OKAY, dat, raddr_check (wires_down s ?m1))
        = Done (SIMBUS_AXI4_RESP_OKAY, dat, m2)" "axi4_wf m2" "arvalid m2 = BIT_0" "rready m2 = BIT_1" "awvalid m2 = BIT_0"
    using m1 assms(7,11) by (simp add: rdata_turn_def raddr_check_def wires_down_def axi4_wf_def)
  obtain s2 where s2: "do_slave_machine (wires_up m2 ?s1) = Done s2" "user s2 = u" "in_wphase W_address s2" "in_rphase R_address s2"
    using finish_read [of "wires_up m2 ?s1"] m2 assms(10) by (auto simp: wires_up_def)
  obtain m3 where m3: "rdata_turn ?k 32 (SIMBUS_AXI4_RESP_OKAY, dat, raddr_check (wires_down ?s1 m2))
        = Done (response_seen r, d, m3)" "read_idle m3"
    using m1 m2 le xs assms(7)
    by (simp add: rdata_turn_def raddr_check_def wires_down_def wires_up_def axi4_wf_def read_idle_def k axi4_limits
        read_extract_resp_def resp_of_resp_lines)
  show ?thesis
    by (intro exI conjI) (simp only: m0 obind.simps read_cycle_def prod.case s1 s2 m2 m3, rule m3(2), (rule s2)+)
qed

section \<open>Concrete transfers\<close>

text \<open>A device of one register, which refuses every other address.\<close>

definition register_device :: "u32 simbus_axi4s_slave" where
  "register_device =
     \<lparr>write64 = None,
      write32 = Some (\<lambda>r a p v. if a = 8 then (SIMBUS_AXI4_RESP_OKAY, v) else (SIMBUS_AXI4_RESP_SLVERR, r)),
      write16 = None, write8 = None, read64 = None,
      read32 = Some (\<lambda>r a p. if a = 8 then (SIMBUS_AXI4_RESP_OKAY, r, r) else (SIMBUS_AXI4_RESP_DECERR, 0, r)),
      read16 = None, read8 = None\<rparr>"

definition demo_axis :: "u32 \<Rightarrow> u32 simbus_axi4" where
  "demo_axis r = do_reset ((init_simbus_axi4 ''ram'' (script []) 0 r)
     \<lparr>data_width := 32, addr_width := 32, wid_width := 4, rid_width := 4, device := Some register_device\<rparr>)"

lemma demo_axis_sel:
  "axi4_wf (demo_axis r)" "data_width (demo_axis r) = 32" "addr_width (demo_axis r) = 32"
  "in_wphase W_address (demo_axis r)" "in_rphase R_address (demo_axis r)"
  "device (demo_axis r) = Some register_device" "user (demo_axis r) = r"
  "bvalid (demo_axis r) = BIT_0" "arvalid (demo_axis r) = BIT_0"
  using axi4_wf_init [of "''ram''" "script []" 0 r]
  by (simp_all add: demo_axis_def do_reset_def axi4_wf_def init_simbus_axi4_def)

lemma demo_axi_more: "addr_width (demo_axi es) = 32" "arvalid (demo_axi es) = BIT_0" "awvalid (demo_axi es) = BIT_0"
  by (simp_all add: demo_axi_def init_simbus_axi4_def)

lemma small_addr: "take_bit 32 (8 :: u64) = 8" "(8 :: u64) mod 4 = 0"
  "take_bit 32 (16 :: u64) = 16" "(16 :: u64) mod 4 = 0"
  by (simp_all add: take_bit_eq_mod)

theorem slave_refines_handshake_witness:
  "ret (do_slave_machine ((demo_axis 7)\<lparr>awvalid := BIT_1\<rparr>)) (\<lambda>b'. in_wphase W_data b' \<and> in_rphase R_address b')
   \<and> ret (do_slave_machine ((demo_axis 7)\<lparr>bvalid := BIT_1, awvalid := BIT_1\<rparr>)) (\<lambda>b'. \<forall>w. \<not> in_wphase w b')"
proof
  have "in_wphase W_address ((demo_axis 7)\<lparr>awvalid := BIT_1\<rparr>)" "in_rphase R_address ((demo_axis 7)\<lparr>awvalid := BIT_1\<rparr>)"
    using demo_axis_sel(4,5) [of 7] by simp_all
  from slave_refines_handshake [OF this, THEN conjunct1]
  show "ret (do_slave_machine ((demo_axis 7)\<lparr>awvalid := BIT_1\<rparr>)) (\<lambda>b'. in_wphase W_data b' \<and> in_rphase R_address b')"
    by (rule ret_mono) (simp add: demo_axis_sel)
  have "in_wphase W_response ((demo_axis 7)\<lparr>bvalid := BIT_1, awvalid := BIT_1\<rparr>)"
    "in_rphase R_address ((demo_axis 7)\<lparr>bvalid := BIT_1, awvalid := BIT_1\<rparr>)"
    using demo_axis_sel(4,5) [of 7] by simp_all
  from slave_refines_handshake [OF this, THEN conjunct1]
  show "ret (do_slave_machine ((demo_axis 7)\<lparr>bvalid := BIT_1, awvalid := BIT_1\<rparr>)) (\<lambda>b'. \<forall>w. \<not> in_wphase w b')"
    by (rule ret_mono) (use demo_axis_sel(4) [of 7] in simp)
qed

theorem axi4_write_reaches_device_witness:
  "\<exists>tm m' s'. obind (write_beat 8 2 0 32 32 4 (77 :: u32) (demo_axi [])) (\<lambda>m1.
        obind (write_cycle ((SIMBUS_AXI4_RESP_OKAY, AXI4_RESP_TIMELIMIT, m1), demo_axis 5)) (\<lambda>c.
        obind (write_cycle c) write_cycle)) = Done ((SIMBUS_AXI4_RESP_OKAY, tm, m'), s')
    \<and> write_idle m' \<and> user s' = 77 \<and> in_wphase W_address s' \<and> in_rphase R_address s'"
proof -
  let ?f = "the (write32 register_device)"
  have f: "write32 register_device = Some ?f" "?f (user (demo_axis 5)) 8 p 77 = (SIMBUS_AXI4_RESP_OKAY, 77)" for p
    by (simp_all add: register_device_def)
  have o: "response_seen SIMBUS_AXI4_RESP_OKAY = SIMBUS_AXI4_RESP_OKAY" by (simp add: response_seen_def)
  from axi4_write_reaches_device [OF demo_axi_wf(1), where s = "demo_axis 5" and addr = 8 and prot = 0,
      OF _ _ _ _ _ demo_axis_sel(1) _ _ demo_axis_sel(4,5,6) f]
  show ?thesis by (simp add: demo_axi_sel demo_axi_more demo_axis_sel small_addr o)
qed

text \<open>Here the device's DECERR arrives as EXOKAY.\<close>

theorem axi4_read_returns_device_word_witness:
  "\<exists>m' s'. obind (raddr_setup 16 2 0 (demo_axi [])) (\<lambda>m1.
        obind (read_cycle 0 32 ((SIMBUS_AXI4_RESP_OKAY, 9 :: u32, m1\<lparr>rready := BIT_1\<rparr>), demo_axis 5))
          (read_cycle 0 32)) = Done ((SIMBUS_AXI4_RESP_EXOKAY, 0, m'), s')
    \<and> read_idle m' \<and> user s' = 5 \<and> in_wphase W_address s' \<and> in_rphase R_address s'"
proof -
  let ?f = "the (read32 register_device)"
  have f: "read32 register_device = Some ?f" "?f (user (demo_axis 5)) 16 p = (SIMBUS_AXI4_RESP_DECERR, 0, 5)" for p
    by (simp_all add: register_device_def demo_axis_sel)
  have o: "response_seen SIMBUS_AXI4_RESP_DECERR = SIMBUS_AXI4_RESP_EXOKAY" by (simp add: response_seen_def)
  from axi4_read_returns_device_word [OF demo_axi_wf(1), where s = "demo_axis 5" and addr = 16 and prot = 0 and dat = 9,
      OF _ _ _ _ _ demo_axis_sel(1) _ _ demo_axis_sel(4,5,6) f]
  show ?thesis by (simp add: demo_axi_sel demo_axi_more demo_axis_sel small_addr o)
qed

end
