(* ===== verification/Sim_TLP_Queue.thy ===== *)
theory Sim_TLP_Queue
  imports Sim_Base
begin

text \<open>
  The queue of outgoing packets of the PCIe library (\<open>tlp_out_list\<close> in simbus_pcie_tlp_priv.h, the
  list operations of \<open>__pcie_tlp_send_tlp\<close> in simbus_pcie_tlp_tlp.c).  It is a circular linked list
  reached through its last cell.  The cells live in an explicit store from addresses to cells;
  \<open>calloc\<close> takes the next unused address and \<open>free\<close> removes a cell, so that a dangling pointer is
  \<open>Undefined\<close>.

  The locale \<open>fifo\<close> is the interface the send function relies on: push, front and pop against an
  abstract list.  The ring of cells implements it.
\<close>

section \<open>Cells and the ring\<close>

record tlp_cell =
  cell_data :: "u32 list"
  cell_next :: nat

record tlp_ring =
  cells :: "nat \<rightharpoonup> tlp_cell"
  fresh :: nat
  last_cell :: "nat option"

definition empty_ring :: tlp_ring where
  "empty_ring = \<lparr>cells = Map.empty, fresh = 0, last_cell = None\<rparr>"

text \<open>A new cell, then either the start of the list or the push onto its end.\<close>

definition push_cell :: "u32 list \<Rightarrow> tlp_ring \<Rightarrow> tlp_ring outcome" where
  "push_cell data q =
     (let cell = fresh q
      in case last_cell q of
           None \<Rightarrow> Done (q\<lparr>cells := (cells q)(cell \<mapsto> \<lparr>cell_data = data, cell_next = cell\<rparr>),
                          fresh := Suc cell, last_cell := Some cell\<rparr>)
         | Some l \<Rightarrow>
             (case cells q l of
                None \<Rightarrow> Stop Undefined
              | Some c \<Rightarrow>
                  Done (q\<lparr>cells := (cells q)(cell \<mapsto> \<lparr>cell_data = data, cell_next = cell_next c\<rparr>,
                                          l \<mapsto> c\<lparr>cell_next := cell\<rparr>),
                         fresh := Suc cell, last_cell := Some cell\<rparr>)))"

text \<open>\<open>cur = bus->tlp_out_list->next\<close> with its data.\<close>

definition front_cell :: "tlp_ring \<Rightarrow> (nat \<times> u32 list) outcome" where
  "front_cell q =
     (case last_cell q of
        None \<Rightarrow> Stop Undefined
      | Some l \<Rightarrow>
          (case cells q l of
             None \<Rightarrow> Stop Undefined
           | Some c \<Rightarrow>
               (case cells q (cell_next c) of
                  None \<Rightarrow> Stop Undefined
                | Some d \<Rightarrow> Done (cell_next c, cell_data d))))"

text \<open>Unlinking and freeing \<open>cur\<close> after it was sent.\<close>

definition pop_cell :: "nat \<Rightarrow> tlp_ring \<Rightarrow> tlp_ring outcome" where
  "pop_cell cur q =
     (if last_cell q = Some cur
      then Done (q\<lparr>last_cell := None, cells := (cells q)(cur := None)\<rparr>)
      else
        (case last_cell q of
           None \<Rightarrow> Stop Undefined
         | Some l \<Rightarrow>
             (case (cells q l, cells q cur) of
                (Some c, Some d) \<Rightarrow>
                  c_assert (cell_next c = cur)
                    (Done (q\<lparr>cells := ((cells q)(l \<mapsto> c\<lparr>cell_next := cell_next d\<rparr>))(cur := None)\<rparr>))
              | _ \<Rightarrow> Stop Undefined)))"

section \<open>The interface\<close>

locale fifo =
  fixes is_empty :: "'q \<Rightarrow> bool" and push :: "'a \<Rightarrow> 'q \<Rightarrow> 'q outcome"
    and front :: "'q \<Rightarrow> ('k \<times> 'a) outcome" and pop :: "'k \<Rightarrow> 'q \<Rightarrow> 'q outcome"
    and holds :: "'q \<Rightarrow> 'a list \<Rightarrow> bool"
  assumes empty_iff: "holds q xs \<Longrightarrow> is_empty q \<longleftrightarrow> xs = []"
    and push_ok: "holds q xs \<Longrightarrow> \<exists>q'. push x q = Done q' \<and> holds q' (xs @ [x])"
    and front_ok: "holds q (x # xs) \<Longrightarrow> \<exists>k. front q = Done (k, x)"
    and pop_ok: "holds q (x # xs) \<Longrightarrow> front q = Done (k, y) \<Longrightarrow> \<exists>q'. pop k q = Done q' \<and> holds q' xs"
    and front_push: "holds q (x # xs) \<Longrightarrow> push y q = Done q' \<Longrightarrow> front q' = front q"
begin

text \<open>A whole batch of pushes, and taking packets off until none is left.\<close>

fun push_all :: "'a list \<Rightarrow> 'q \<Rightarrow> 'q outcome" where
  "push_all [] q = Done q"
| "push_all (x # xs) q = obind (push x q) (push_all xs)"

fun take_all :: "nat \<Rightarrow> 'q \<Rightarrow> ('a list \<times> 'q) outcome" where
  "take_all 0 q = Done ([], q)"
| "take_all (Suc n) q =
     (if is_empty q then Done ([], q)
      else obind (front q) (\<lambda>(k, x). obind (pop k q) (\<lambda>q'. obind (take_all n q') (\<lambda>(ys, r). Done (x # ys, r)))))"

lemma push_all_ok: "holds q xs \<Longrightarrow> \<exists>q'. push_all ys q = Done q' \<and> holds q' (xs @ ys)"
proof (induction ys arbitrary: q xs)
  case (Cons y ys)
  from push_ok [OF Cons.prems] obtain q1 where q1: "push y q = Done q1" "holds q1 (xs @ [y])" by blast
  from Cons.IH [OF q1(2)] q1(1) show ?case by simp
qed simp

lemma take_all_ok: "holds q xs \<Longrightarrow> length xs \<le> n \<Longrightarrow> \<exists>q'. take_all n q = Done (xs, q') \<and> holds q' []"
proof (induction n arbitrary: q xs)
  case (Suc n)
  show ?case
  proof (cases xs)
    case Nil
    with Suc.prems empty_iff [of q xs] show ?thesis by simp
  next
    case (Cons x ys)
    with Suc.prems obtain k where k: "front q = Done (k, x)" using front_ok by blast
    with Suc.prems Cons obtain q1 where q1: "pop k q = Done q1" "holds q1 ys" using pop_ok by blast
    from Suc.IH [OF q1(2)] Suc.prems(2) Cons obtain q' where "take_all n q1 = Done (ys, q')" "holds q' []" by auto
    with k q1 Suc.prems(1) empty_iff [of q xs] Cons show ?thesis by simp
  qed
qed auto

lemma first_in_first_out:
  assumes "holds q []"
  shows "\<exists>q1 q2. push_all xs q = Done q1 \<and> take_all (length xs) q1 = Done (xs, q2) \<and> holds q2 []"
proof -
  from push_all_ok [OF assms, of xs] obtain q1 where "push_all xs q = Done q1" "holds q1 xs" by auto
  with take_all_ok [of q1 xs "length xs"] show ?thesis by auto
qed

end

section \<open>The ring implements the interface\<close>

text \<open>\<open>chain h x as y\<close>: following the links from \<open>x\<close> passes the cells \<open>as\<close> and arrives at \<open>y\<close>.\<close>

fun chain :: "(nat \<rightharpoonup> tlp_cell) \<Rightarrow> nat \<Rightarrow> nat list \<Rightarrow> nat \<Rightarrow> bool" where
  "chain h x [] y \<longleftrightarrow> x = y"
| "chain h x (a # as) y \<longleftrightarrow> x = a \<and> (\<exists>c. h a = Some c \<and> chain h (cell_next c) as y)"

lemma chain_append [simp]: "chain h x (as @ bs) y \<longleftrightarrow> (\<exists>z. chain h x as z \<and> chain h z bs y)"
  by (induction as arbitrary: x) auto

lemma chain_upd [simp]: "a \<notin> set as \<Longrightarrow> chain (h(a := v)) x as y = chain h x as y"
  by (induction as arbitrary: x) auto

lemma chain_dom: "chain h x as y \<Longrightarrow> a \<in> set as \<Longrightarrow> \<exists>c. h a = Some c"
  by (induction as arbitrary: x) auto

definition stored :: "(nat \<rightharpoonup> tlp_cell) \<Rightarrow> nat \<Rightarrow> u32 list" where
  "stored h a = (case h a of None \<Rightarrow> [] | Some c \<Rightarrow> cell_data c)"

definition ring_addrs :: "tlp_ring \<Rightarrow> nat list \<Rightarrow> bool" where
  "ring_addrs q as \<longleftrightarrow>
     (\<forall>a \<in> dom (cells q). a < fresh q) \<and> distinct as
     \<and> (case last_cell q of None \<Rightarrow> as = []
        | Some l \<Rightarrow> as \<noteq> [] \<and> last as = l \<and> chain (cells q) (hd as) as (hd as))"

definition ring_holds :: "tlp_ring \<Rightarrow> u32 list list \<Rightarrow> bool" where
  "ring_holds q xs \<longleftrightarrow> (\<exists>as. ring_addrs q as \<and> xs = map (stored (cells q)) as)"

lemma ring_addrs_last:
  assumes "ring_addrs q as" and "as \<noteq> []"
  obtains bs l c where "as = bs @ [l]" "last_cell q = Some l" "cells q l = Some c" "cell_next c = hd as"
    "chain (cells q) (hd as) bs l" "l \<notin> set bs" "distinct bs" "\<forall>a \<in> dom (cells q). a < fresh q"
proof -
  from assms(2) obtain bs l where as: "as = bs @ [l]" by (metis append_butlast_last_id)
  from assms have q: "last_cell q = Some (last as)" "chain (cells q) (hd as) as (hd as)" "distinct as"
      "\<forall>a \<in> dom (cells q). a < fresh q"
    by (auto simp: ring_addrs_def split: option.splits)
  then obtain c where "chain (cells q) (hd as) bs l" "cells q l = Some c" "cell_next c = hd as"
    unfolding as by auto
  with q as show ?thesis by (intro that [of bs l c]) auto
qed

lemma stored_upd [simp]: "stored (h(a \<mapsto> c)) b = (if b = a then cell_data c else stored h b)"
  by (simp add: stored_def)

lemma stored_del [simp]: "b \<noteq> a \<Longrightarrow> stored (h(a := None)) b = stored h b"
  by (simp add: stored_def)

lemma ring_push:
  assumes "ring_addrs q as"
  shows "\<exists>q'. push_cell x q = Done q' \<and> ring_addrs q' (as @ [fresh q])
    \<and> map (stored (cells q')) (as @ [fresh q]) = map (stored (cells q)) as @ [x]"
proof (cases "as = []")
  case True
  with assms have q: "last_cell q = None" "\<forall>a \<in> dom (cells q). a < fresh q"
    by (auto simp: ring_addrs_def split: option.splits)
  have "ring_addrs (q\<lparr>cells := (cells q)(fresh q \<mapsto> \<lparr>cell_data = x, cell_next = fresh q\<rparr>),
      fresh := Suc (fresh q), last_cell := Some (fresh q)\<rparr>) [fresh q]"
    using q(2) by (auto simp: ring_addrs_def less_Suc_eq)
  with True show ?thesis by (simp add: push_cell_def Let_def q(1))
next
  case False
  with assms obtain bs l c where q: "as = bs @ [l]" "last_cell q = Some l" "cells q l = Some c" "cell_next c = hd as"
      "chain (cells q) (hd as) bs l" "l \<notin> set bs" "distinct bs" "\<forall>a \<in> dom (cells q). a < fresh q"
    by (rule ring_addrs_last)
  have new: "fresh q \<notin> set bs" "fresh q \<noteq> l" using q(3,5,8) chain_dom [OF q(5)] by force+
  have hd: "hd (as @ [fresh q]) = hd as" using False by simp
  have "ring_addrs (q\<lparr>cells := (cells q)(fresh q \<mapsto> \<lparr>cell_data = x, cell_next = cell_next c\<rparr>,
        l \<mapsto> c\<lparr>cell_next := fresh q\<rparr>), fresh := Suc (fresh q), last_cell := Some (fresh q)\<rparr>) (as @ [fresh q])"
    unfolding ring_addrs_def hd using q new by (auto simp: less_Suc_eq)
  moreover have "map (stored ((cells q)(fresh q \<mapsto> \<lparr>cell_data = x, cell_next = cell_next c\<rparr>,
        l \<mapsto> c\<lparr>cell_next := fresh q\<rparr>))) (as @ [fresh q]) = map (stored (cells q)) as @ [x]"
    using q(1,3) new by (auto simp: stored_def)
  ultimately show ?thesis by (simp add: push_cell_def Let_def q(2,3))
qed

lemma ring_front:
  assumes "ring_addrs q (a # as)"
  shows "front_cell q = Done (a, stored (cells q) a)"
proof -
  from assms list.distinct(2) obtain bs l c where "a # as = bs @ [l]" "last_cell q = Some l" "cells q l = Some c"
      "cell_next c = hd (a # as)" "chain (cells q) (hd (a # as)) bs l"
    by (rule ring_addrs_last)
  note q = this [unfolded list.sel]
  then obtain d where "cells q a = Some d" by (cases bs) auto
  with q show ?thesis by (simp add: front_cell_def stored_def)
qed

lemma ring_pop:
  assumes "ring_addrs q (a # as)"
  shows "\<exists>q'. pop_cell a q = Done q' \<and> ring_addrs q' as \<and> map (stored (cells q')) as = map (stored (cells q)) as"
proof -
  from assms list.distinct(2) obtain bs l c where "a # as = bs @ [l]" "last_cell q = Some l" "cells q l = Some c"
      "cell_next c = hd (a # as)" "chain (cells q) (hd (a # as)) bs l" "l \<notin> set bs" "distinct bs"
      "\<forall>a \<in> dom (cells q). a < fresh q"
    by (rule ring_addrs_last)
  note q = this [unfolded list.sel]
  show ?thesis
  proof (cases bs)
    case Nil
    with q have "l = a" "as = []" by auto
    with q show ?thesis by (auto simp: pop_cell_def ring_addrs_def)
  next
    case (Cons b cs)
    with q have b: "b = a" "as = cs @ [l]" by auto
    from q(5) Cons b obtain d where d: "cells q a = Some d" "chain (cells q) (cell_next d) cs l" by auto
    have ne: "a \<noteq> l" "a \<notin> set cs" "l \<notin> set cs" "distinct cs" using q(6,7) Cons b by auto
    have hd: "hd as = cell_next d" using d(2) b by (cases cs) auto
    let ?h = "((cells q)(l \<mapsto> c\<lparr>cell_next := cell_next d\<rparr>))(a := None)"
    have "ring_addrs (q\<lparr>cells := ?h\<rparr>) as"
      unfolding ring_addrs_def hd using q(2,3,8) ne d b by (auto simp: dom_def)
    moreover have "map (stored ?h) as = map (stored (cells q)) as"
      using ne b q(3) by (auto simp: stored_def)
    ultimately show ?thesis using q(2,3,4) ne d by (simp add: pop_cell_def)
  qed
qed

interpretation ring: fifo "\<lambda>q. last_cell q = None" push_cell front_cell pop_cell ring_holds
proof unfold_locales
  fix q xs x y k and q' :: tlp_ring
  show "ring_holds q xs \<Longrightarrow> (last_cell q = None) = (xs = [])"
    by (auto simp: ring_holds_def ring_addrs_def split: option.splits)
  show "\<exists>q'. push_cell x q = Done q' \<and> ring_holds q' (xs @ [x])" if "ring_holds q xs"
  proof -
    from that obtain as where "ring_addrs q as" "xs = map (stored (cells q)) as" by (auto simp: ring_holds_def)
    with ring_push [of q as x] obtain q' where "push_cell x q = Done q'" "ring_addrs q' (as @ [fresh q])"
        "xs @ [x] = map (stored (cells q')) (as @ [fresh q])" by auto
    then show ?thesis unfolding ring_holds_def by blast
  qed
  show "ring_holds q (x # xs) \<Longrightarrow> \<exists>k. front_cell q = Done (k, x)"
    by (auto simp: ring_holds_def ring_front)
  show "\<exists>q'. pop_cell k q = Done q' \<and> ring_holds q' xs" if "ring_holds q (x # xs)" and "front_cell q = Done (k, y)"
  proof -
    from that(1) obtain a as where as: "ring_addrs q (a # as)" "xs = map (stored (cells q)) as"
      by (auto simp: ring_holds_def)
    from ring_pop [OF as(1)] obtain q' where "pop_cell a q = Done q'" "ring_addrs q' as"
        "xs = map (stored (cells q')) as" using as(2) by metis
    with that(2) ring_front [OF as(1)] show ?thesis unfolding ring_holds_def by auto
  qed
  show "front_cell q' = front_cell q" if "ring_holds q (x # xs)" and "push_cell y q = Done q'"
  proof -
    from that(1) obtain a as where as: "ring_addrs q (a # as)" by (auto simp: ring_holds_def)
    with that(2) ring_push [OF as, of y] have "ring_addrs q' (a # as @ [fresh q])"
      "stored (cells q') a = stored (cells q) a" by auto
    with as show ?thesis by (simp add: ring_front)
  qed
qed

lemma ring_holds_empty [simp]: "ring_holds empty_ring []"
  by (simp add: ring_holds_def ring_addrs_def empty_ring_def)

text \<open>C31: The circular list of pending packets is a first-in first-out queue: on a ring that holds some
  packets, the front cell is the oldest one, a push adds at the end and leaves the front alone,
  unlinking the front cell leaves the others in order, and the list pointer is null exactly when
  nothing is pending. No operation follows a dangling pointer.\<close>

theorem tlp_ring_is_fifo:
  assumes "ring_holds q xs"
  shows "(last_cell q = None \<longleftrightarrow> xs = [])
    \<and> (\<exists>q'. push_cell p q = Done q' \<and> ring_holds q' (xs @ [p]))
    \<and> (xs = [] \<or> (\<exists>cur q'. front_cell q = Done (cur, hd xs) \<and> pop_cell cur q = Done q' \<and> ring_holds q' (tl xs)))"
proof -
  have "\<exists>cur q'. front_cell q = Done (cur, hd xs) \<and> pop_cell cur q = Done q' \<and> ring_holds q' (tl xs)" if "xs \<noteq> []"
    using that assms ring.front_ok [of q "hd xs" "tl xs"] ring.pop_ok [of q "hd xs" "tl xs"] by (metis list.collapse)
  then show ?thesis using ring.empty_iff [OF assms] ring.push_ok [OF assms] by blast
qed

text \<open>A ring of two packets.\<close>

definition demo_ring :: tlp_ring where
  "demo_ring = \<lparr>cells = [0 \<mapsto> \<lparr>cell_data = [1], cell_next = 1\<rparr>, 1 \<mapsto> \<lparr>cell_data = [2, 3], cell_next = 0\<rparr>],
     fresh = 2, last_cell = Some 1\<rparr>"

lemma demo_ring_holds: "ring_holds demo_ring [[1], [2, 3]]"
  unfolding ring_holds_def
  by (rule exI [of _ "[0, 1]"]) (auto simp: demo_ring_def ring_addrs_def stored_def)

theorem tlp_ring_is_fifo_witness:
  "(\<exists>q'. push_cell [9] demo_ring = Done q' \<and> ring_holds q' [[1], [2, 3], [9]])
    \<and> (\<exists>cur q'. front_cell demo_ring = Done (cur, [1]) \<and> pop_cell cur demo_ring = Done q' \<and> ring_holds q' [[2, 3]])"
  using tlp_ring_is_fifo [OF demo_ring_holds, of "[9]"] by simp

end
