(* ===== verification/Sim_PCIe.thy ===== *)
theory Sim_PCIe
  imports Sim_TLP_Queue
begin

text \<open>
  The PCIe transaction-layer bus of libsimbus (simbus_pcie_tlp.c, _tlp.c, _cfg.c, _read.c, _write.c,
  _reset.c with simbus_pcie_tlp.h and _priv.h): the READY exchange, the AXI stream on which packets
  go out and come in, dispatch of received packets, and the requests of the host.

  A received read request is answered from inside the clock function, which sends a packet, which
  clocks the bus, which may receive another packet.  The code breaks this recursion with its queue:
  while a packet is being sent, further ones are only queued.  The model has the two levels that
  result.  \<open>send_queued\<close> is the send function as called while the queue is not empty, and would
  stop for want of depth on an empty one; a theorem shows that it is never called so.

  The callbacks of the user work on a state of their own, the field \<open>user\<close>; callbacks that call the
  library again are not modelled, and a read callback that does not fill exactly its words is
  \<open>Undefined\<close>.  Shifts of signed integers past the sign bit are taken to wrap.  The debug log is
  dropped.  When the clock line is unknown, \<open>__pcie_tlp_next_posedge\<close> returns without an exchange;
  a loop that can only go on that way stops with \<open>Diverges\<close>.
\<close>

section \<open>The bus object\<close>

definition MAX_TLP :: nat where "MAX_TLP = 1032"
definition DEFAULT_ROOT_ID :: u16 where "DEFAULT_ROOT_ID = 0x01f8"
definition SIMBUS_PCIE_TLP_FINISHED :: int where "SIMBUS_PCIE_TLP_FINISHED = -2"

type_synonym cookie = nat
type_synonym 'd tlp_write_fun = "cookie \<Rightarrow> 'd \<Rightarrow> u64 \<Rightarrow> u32 list \<Rightarrow> u32 \<Rightarrow> u32 \<Rightarrow> 'd"
type_synonym 'd tlp_read_fun = "cookie \<Rightarrow> 'd \<Rightarrow> u64 \<Rightarrow> nat \<Rightarrow> u32 \<Rightarrow> u32 \<Rightarrow> u32 list \<times> 'd"

record 'd simbus_pcie_tlp =
  name :: string
  fd :: conn
  ident :: u32
  intx_mask :: u32
  s_tlp_buf :: "u32 list"
  s_tlp_cnt :: nat
  write_fun :: "'d tlp_write_fun option"
  write_cookie :: cookie
  read_fun :: "'d tlp_read_fun option"
  read_cookie :: cookie
  request_id :: u16
  tlp_next_tag :: u8
  completions :: "u32 list option list"
  bus_time :: simbus_time
  tlp_out :: tlp_ring
  user_clk :: bitval
  user_reset_out :: bitval
  user_lnk_up :: bitval
  tx_buf_av :: "bitval list"
  m_axis_rx_tdata :: "bitval list"
  m_axis_rx_tkeep :: "bitval list"
  m_axis_rx_tlast :: bitval
  m_axis_rx_tvalid :: bitval
  m_axis_rx_tready :: bitval
  s_axis_tx_tready :: bitval
  s_axis_tx_tdata :: "bitval list"
  s_axis_tx_tkeep :: "bitval list"
  s_axis_tx_tlast :: bitval
  s_axis_tx_tvalid :: bitval
  s_axis_tx_tuser :: "bitval list"
  user :: 'd

text \<open>\<open>calloc\<close>, \<open>init_simbus_pcie_tlp\<close> and the assignments of the connect function.\<close>

definition init_simbus_pcie_tlp :: "string \<Rightarrow> conn \<Rightarrow> u32 \<Rightarrow> 'd \<Rightarrow> 'd simbus_pcie_tlp" where
  "init_simbus_pcie_tlp nm c idn u =
     \<lparr>name = nm, fd = c, ident = idn, intx_mask = 0, s_tlp_buf = replicate MAX_TLP 0, s_tlp_cnt = 0,
      write_fun = None, write_cookie = 0, read_fun = None, read_cookie = 0,
      request_id = DEFAULT_ROOT_ID, tlp_next_tag = 0, completions = replicate 256 None,
      bus_time = init_simbus_time, tlp_out = empty_ring,
      user_clk = BIT_1, user_reset_out = BIT_0, user_lnk_up = BIT_1,
      tx_buf_av = [BIT_0, BIT_0, BIT_0, BIT_0, BIT_1, BIT_0],
      m_axis_rx_tdata = replicate 64 BIT_X, m_axis_rx_tkeep = replicate 8 BIT_X,
      m_axis_rx_tlast = BIT_0, m_axis_rx_tvalid = BIT_0, m_axis_rx_tready = BIT_0,
      s_axis_tx_tready = BIT_1, s_axis_tx_tdata = replicate 64 BIT_0, s_axis_tx_tkeep = replicate 8 BIT_0,
      s_axis_tx_tlast = BIT_0, s_axis_tx_tvalid = BIT_0, s_axis_tx_tuser = replicate 4 BIT_0, user = u\<rparr>"

definition simbus_pcie_tlp_connect ::
  "'a os \<Rightarrow> string \<Rightarrow> string \<Rightarrow> 'd \<Rightarrow> 'd simbus_pcie_tlp option outcome" where
  "simbus_pcie_tlp_connect os server nm u =
     obind (simbus_server_socket os server) (\<lambda>server_fd.
       case server_fd of
         None \<Rightarrow> Done None
       | Some c \<Rightarrow>
           obind (simbus_server_hello c nm []) (\<lambda>(rc, idn, c').
             if rc < 0 then Done None else Done (Some (init_simbus_pcie_tlp nm c' idn u))))"

definition simbus_pcie_tlp_disconnect :: "'d simbus_pcie_tlp \<Rightarrow> conn" where
  "simbus_pcie_tlp_disconnect bus = sock_close (fd bus)"

definition simbus_pcie_tlp_end_simulation :: "'d simbus_pcie_tlp \<Rightarrow> conn outcome" where
  "simbus_pcie_tlp_end_simulation bus =
     obind (simbus_server_finish (fd bus)) (\<lambda>c. Done (simbus_pcie_tlp_disconnect (bus\<lparr>fd := c\<rparr>)))"

definition simbus_pcie_tlp_write_handle ::
  "'d simbus_pcie_tlp \<Rightarrow> 'd tlp_write_fun option \<Rightarrow> cookie \<Rightarrow> 'd simbus_pcie_tlp" where
  "simbus_pcie_tlp_write_handle bus f c = bus\<lparr>write_fun := f, write_cookie := c\<rparr>"

definition simbus_pcie_tlp_read_handle ::
  "'d simbus_pcie_tlp \<Rightarrow> 'd tlp_read_fun option \<Rightarrow> cookie \<Rightarrow> 'd simbus_pcie_tlp" where
  "simbus_pcie_tlp_read_handle bus f c = bus\<lparr>read_fun := f, read_cookie := c\<rparr>"

definition simbus_pcie_tlp_buf_avail :: "'d simbus_pcie_tlp \<Rightarrow> int \<Rightarrow> (int \<times> 'd simbus_pcie_tlp) outcome" where
  "simbus_pcie_tlp_buf_avail bus nbuf =
     c_assert (0 \<le> nbuf)
       (let n = (if nbuf > 0x3f then 0x3f else nbuf)
        in Done (n, bus\<lparr>tx_buf_av := put_bits 0 6 n (tx_buf_av bus)\<rparr>))"

section \<open>The READY exchange\<close>

definition ready_message_pcie :: "'d simbus_pcie_tlp \<Rightarrow> string" where
  "ready_message_pcie bus =
     ready_prefix (bus_time bus)
     @ ready_signal ''user_reset'' [user_reset_out bus] 1
     @ ready_signal ''user_lnk_up'' [user_lnk_up bus] 1
     @ ready_signal ''tx_buf_av'' (tx_buf_av bus) 6
     @ ready_signal ''m_axis_rx_tdata'' (m_axis_rx_tdata bus) 64
     @ ready_signal ''m_axis_rx_tkeep'' (m_axis_rx_tkeep bus) 8
     @ ready_signal ''m_axis_rx_tlast'' [m_axis_rx_tlast bus] 1
     @ ready_signal ''m_axis_rx_tvalid'' [m_axis_rx_tvalid bus] 1
     @ ready_signal ''s_axis_tx_tready'' [s_axis_tx_tready bus] 1
     @ [NL]"

text \<open>\<open>__until_signal(cp, &x, 1)\<close>\<close>

definition until_bit :: "string \<Rightarrow> bitval \<Rightarrow> bitval outcome" where
  "until_bit cp b = obind (until_signal cp [b] 1) (\<lambda>xs. Done (xs ! 0))"

definition on_signal_pcie :: "'d simbus_pcie_tlp \<Rightarrow> string \<Rightarrow> string \<Rightarrow> 'd simbus_pcie_tlp outcome" where
  "on_signal_pcie bus nm cp =
     (if nm = ''user_clk'' then obind (until_bit cp (user_clk bus)) (\<lambda>v. Done (bus\<lparr>user_clk := v\<rparr>))
      else if nm = ''m_axis_rx_tready'' then
        obind (until_bit cp (m_axis_rx_tready bus)) (\<lambda>v. Done (bus\<lparr>m_axis_rx_tready := v\<rparr>))
      else if nm = ''s_axis_tx_tdata'' then
        obind (until_signal cp (s_axis_tx_tdata bus) 64) (\<lambda>xs. Done (bus\<lparr>s_axis_tx_tdata := xs\<rparr>))
      else if nm = ''s_axis_tx_tkeep'' then
        obind (until_signal cp (s_axis_tx_tkeep bus) 8) (\<lambda>xs. Done (bus\<lparr>s_axis_tx_tkeep := xs\<rparr>))
      else if nm = ''s_axis_tx_tlast'' then
        obind (until_bit cp (s_axis_tx_tlast bus)) (\<lambda>v. Done (bus\<lparr>s_axis_tx_tlast := v\<rparr>))
      else if nm = ''s_axis_tx_tvalid'' then
        obind (until_bit cp (s_axis_tx_tvalid bus)) (\<lambda>v. Done (bus\<lparr>s_axis_tx_tvalid := v\<rparr>))
      else if nm = ''s_axis_tx_tuser'' then
        obind (until_signal cp (s_axis_tx_tuser bus) 4) (\<lambda>xs. Done (bus\<lparr>s_axis_tx_tuser := xs\<rparr>))
      else Done bus)"

definition send_ready_command :: "'d simbus_pcie_tlp \<Rightarrow> (int \<times> 'd simbus_pcie_tlp) outcome" where
  "send_ready_command bus =
     ready_exchange fd (\<lambda>c b. b\<lparr>fd := c\<rparr>) SIMBUS_PCIE_TLP_FINISHED (\<lambda>t b. b\<lparr>bus_time := t\<rparr>)
       on_signal_pcie (ready_message_pcie bus) bus"

section \<open>Receiving packets\<close>

definition byte_swap32 :: "u32 \<Rightarrow> u32" where
  "byte_swap32 src =
     (let dst = src AND 0xff;
          src1 = drop_bit 8 src; dst1 = push_bit 8 dst OR (src1 AND 0xff);
          src2 = drop_bit 8 src1; dst2 = push_bit 8 dst1 OR (src2 AND 0xff);
          src3 = drop_bit 8 src2
      in push_bit 8 dst2 OR (src3 AND 0xff))"

definition crank_recv_tlp :: "u32 \<Rightarrow> 'd simbus_pcie_tlp \<Rightarrow> 'd simbus_pcie_tlp outcome" where
  "crank_recv_tlp val bus =
     c_assert (s_tlp_cnt bus < MAX_TLP)
       (Done (bus\<lparr>s_tlp_buf := (s_tlp_buf bus)[s_tlp_cnt bus := val], s_tlp_cnt := Suc (s_tlp_cnt bus)\<rparr>))"

definition copy_tlp_to_completion :: "nat \<Rightarrow> nat \<Rightarrow> 'd simbus_pcie_tlp \<Rightarrow> 'd simbus_pcie_tlp outcome" where
  "copy_tlp_to_completion tag words bus =
     c_assert (completions bus ! tag = None)
       (c_assert (3 \<le> words \<and> words \<le> s_tlp_cnt bus)
         (Done (bus\<lparr>completions := (completions bus)[tag := Some (take words (s_tlp_buf bus))]\<rparr>)))"

definition process_Assert_INTx :: "'d simbus_pcie_tlp \<Rightarrow> 'd simbus_pcie_tlp" where
  "process_Assert_INTx bus =
     bus\<lparr>intx_mask := intx_mask bus OR push_bit (unat (s_tlp_buf bus ! 1 AND 3)) 1\<rparr>"

definition process_Deassert_INTx :: "'d simbus_pcie_tlp \<Rightarrow> 'd simbus_pcie_tlp" where
  "process_Deassert_INTx bus =
     bus\<lparr>intx_mask := intx_mask bus AND NOT (push_bit (unat (s_tlp_buf bus ! 1 AND 3)) 1)\<rparr>"

text \<open>A write request whose data start at word \<open>k\<close> of the buffer.\<close>

definition receive_write :: "nat \<Rightarrow> u64 \<Rightarrow> 'd simbus_pcie_tlp \<Rightarrow> 'd simbus_pcie_tlp" where
  "receive_write k addr bus =
     (let ndata = unat (s_tlp_buf bus ! 0 AND 0x03ff);
          be0 = s_tlp_buf bus ! 1 AND 0x0f;
          beN = drop_bit 4 (s_tlp_buf bus ! 1 AND 0xf0)
      in case write_fun bus of
           None \<Rightarrow> bus
         | Some f \<Rightarrow>
             (let buf = take k (s_tlp_buf bus) @ map byte_swap32 (take ndata (drop k (s_tlp_buf bus)))
                          @ drop (k + ndata) (s_tlp_buf bus)
              in bus\<lparr>s_tlp_buf := buf,
                     user := f (write_cookie bus) (user bus) addr (take ndata (drop k buf)) be0 beN\<rparr>))"

text \<open>A read request: the completion with its data.\<close>

definition receive_read :: "u64 \<Rightarrow> 'd simbus_pcie_tlp \<Rightarrow> (u32 list \<times> 'd simbus_pcie_tlp) outcome" where
  "receive_read addr bus =
     (let ndata = unat (s_tlp_buf bus ! 0 AND 0x03ff);
          be0 = s_tlp_buf bus ! 1 AND 0x0f;
          beN = drop_bit 4 (s_tlp_buf bus ! 1 AND 0xf0);
          byte_count = of_nat (ndata * 4) AND 0x0fff;
          header = [0x4a000000 OR of_nat ndata, push_bit 16 (ucast (request_id bus)) OR byte_count,
                    (s_tlp_buf bus ! 1 AND 0xffffff00) OR ucast (addr AND 0x0000007f)]
      in case read_fun bus of
           None \<Rightarrow> Done (header @ replicate ndata 0, bus)
         | Some f \<Rightarrow>
             (case f (read_cookie bus) (user bus) addr ndata be0 beN of (words, u) \<Rightarrow>
                c_defined (length words = ndata)
                  (Done (header @ map byte_swap32 words, bus\<lparr>user := u\<rparr>))))"

definition addr64 :: "'d simbus_pcie_tlp \<Rightarrow> u64" where
  "addr64 bus = push_bit 32 (ucast (s_tlp_buf bus ! 2)) OR ucast (s_tlp_buf bus ! 3)"

text \<open>The dispatch on the type of a packet, and the completion it has to send, if any.\<close>

definition dispatch_tlp :: "'d simbus_pcie_tlp \<Rightarrow> (u32 list option \<times> 'd simbus_pcie_tlp) outcome" where
  "dispatch_tlp bus =
     c_assert (1 \<le> s_tlp_cnt bus)
       (let tmp = s_tlp_buf bus ! 0 AND 0xff000000; tag = unat (drop_bit 8 (s_tlp_buf bus ! 2) AND 0xff);
            words = unat (s_tlp_buf bus ! 0 AND 0x03ff)
        in if tmp = 0x0a000000 then obind (copy_tlp_to_completion tag 3 bus) (\<lambda>b. Done (None, b))
           else if tmp = 0x4a000000 then obind (copy_tlp_to_completion tag (3 + words) bus) (\<lambda>b. Done (None, b))
           else if tmp = 0x40000000 then Done (None, receive_write 3 (ucast (s_tlp_buf bus ! 2)) bus)
           else if tmp = 0x60000000 then Done (None, receive_write 4 (addr64 bus) bus)
           else if tmp = 0x00000000 then
             obind (receive_read (ucast (s_tlp_buf bus ! 2)) bus) (\<lambda>(tlp, b). Done (Some tlp, b))
           else if tmp = 0x20000000 then
             obind (receive_read (addr64 bus) bus) (\<lambda>(tlp, b). Done (Some tlp, b))
           else if tmp = 0x30000000 then
             Done (None, if s_tlp_buf bus ! 1 AND 0xfc = 0x20 then process_Assert_INTx bus
                         else if s_tlp_buf bus ! 1 AND 0xfc = 0x24 then process_Deassert_INTx bus
                         else bus)
           else Done (None, bus))"

type_synonym 'd sender = "u32 list \<Rightarrow> 'd simbus_pcie_tlp \<Rightarrow> 'd simbus_pcie_tlp outcome"

definition complete_recv_tlp :: "'d sender \<Rightarrow> 'd simbus_pcie_tlp \<Rightarrow> 'd simbus_pcie_tlp outcome" where
  "complete_recv_tlp send bus =
     obind (dispatch_tlp bus) (\<lambda>(tlp, b).
       case tlp of None \<Rightarrow> Done (b\<lparr>s_tlp_cnt := 0\<rparr>) | Some t \<Rightarrow> send t (b\<lparr>s_tlp_cnt := 0\<rparr>))"

text \<open>The bytes of a stream word: within each half the highest byte lane comes first.\<close>

definition keep_bit :: "nat \<Rightarrow> nat" where
  "keep_bit idx = (idx AND 4) OR (3 - (idx AND 3))"

fun recv_bytes :: "nat list \<Rightarrow> u32 \<Rightarrow> nat \<Rightarrow> 'd simbus_pcie_tlp \<Rightarrow> (nat \<times> 'd simbus_pcie_tlp) outcome" where
  "recv_bytes [] val bytes bus = Done (bytes, bus)"
| "recv_bytes (idx # rest) val bytes bus =
     (if s_axis_tx_tkeep bus ! keep_bit idx \<noteq> BIT_1 then recv_bytes rest val bytes bus
      else let val' = horner (s_axis_tx_tdata bus) (8 * keep_bit idx) 8 val
           in if Suc bytes = 4 then obind (crank_recv_tlp val' bus) (recv_bytes rest 0 0)
              else recv_bytes rest val' (Suc bytes) bus)"

definition pcie_tlp_recv_tlp :: "'d sender \<Rightarrow> 'd simbus_pcie_tlp \<Rightarrow> 'd simbus_pcie_tlp outcome" where
  "pcie_tlp_recv_tlp send bus =
     (if s_axis_tx_tvalid bus \<noteq> BIT_1 \<or> s_axis_tx_tready bus \<noteq> BIT_1 then Done bus
      else obind (recv_bytes [0..<8] 0 0 bus) (\<lambda>(bytes, b).
             c_assert (bytes = 0)
               (if s_axis_tx_tlast b = BIT_1 then complete_recv_tlp send b else Done b)))"

section \<open>The clock\<close>

definition next_posedge_with :: "'d sender \<Rightarrow> 'd simbus_pcie_tlp \<Rightarrow> 'd simbus_pcie_tlp outcome" where
  "next_posedge_with send bus =
     obind (spin fd send_ready_command (\<lambda>b. user_clk b = BIT_1) bus) (\<lambda>b1.
     obind (spin fd send_ready_command (\<lambda>b. user_clk b = BIT_0) b1) (pcie_tlp_recv_tlp send))"

section \<open>Sending packets\<close>

text \<open>One stream word: the first two words of what is left of the packet.\<close>

definition drive_beat :: "u32 list \<Rightarrow> 'd simbus_pcie_tlp \<Rightarrow> 'd simbus_pcie_tlp" where
  "drive_beat data bus =
     (let td = put_bits 0 32 (data ! 0) (m_axis_rx_tdata bus); tk = fill_bits 0 4 BIT_1 (m_axis_rx_tkeep bus)
      in bus\<lparr>m_axis_rx_tdata := (if 2 \<le> length data then put_bits 32 32 (data ! 1) td else fill_bits 32 32 BIT_0 td),
             m_axis_rx_tkeep := fill_bits 4 4 (bit01 (2 \<le> length data)) tk,
             m_axis_rx_tlast := bit01 (length data \<le> 2),
             m_axis_rx_tvalid := BIT_1\<rparr>)"

definition idle_stream :: "'d simbus_pcie_tlp \<Rightarrow> 'd simbus_pcie_tlp" where
  "idle_stream bus =
     bus\<lparr>m_axis_rx_tvalid := BIT_0, m_axis_rx_tlast := BIT_0,
         m_axis_rx_tkeep := fill_bits 0 8 BIT_X (m_axis_rx_tkeep bus),
         m_axis_rx_tdata := fill_bits 0 64 BIT_X (m_axis_rx_tdata bus)\<rparr>"

text \<open>While a packet is being sent, a further one is only queued.\<close>

definition send_queued :: "'d sender" where
  "send_queued data bus =
     (if last_cell (tlp_out bus) = None then Stop Out_of_fuel
      else obind (push_cell data (tlp_out bus)) (\<lambda>q. Done (bus\<lparr>tlp_out := q\<rparr>)))"

definition send_beat :: "u32 list \<times> 'd simbus_pcie_tlp \<Rightarrow> (u32 list \<times> 'd simbus_pcie_tlp) outcome" where
  "send_beat = (\<lambda>(data, bus).
     obind (next_posedge_with send_queued (drive_beat data bus)) (\<lambda>b.
       if m_axis_rx_tready b = BIT_1
       then let rest = drop 2 data in Done (rest, if rest = [] then idle_stream b else b)
       else Done (data, b)))"

text \<open>
  The loop of \<open>do_send_tlp_raw\<close>.  With the clock unknown and the receiver not ready it goes on for
  ever, because neither line can change any more.
\<close>

definition do_send_tlp_raw :: "u32 list \<Rightarrow> 'd simbus_pcie_tlp \<Rightarrow> 'd simbus_pcie_tlp outcome" where
  "do_send_tlp_raw data bus =
     obind (while_io (\<lambda>(d, b). pending (fd b) + length d)
              (\<lambda>(d, b). d \<noteq> [] \<and> (known (user_clk b) \<or> m_axis_rx_tready b = BIT_1)) send_beat (data, bus))
       (\<lambda>(d, b). if d = [] then Done b else Stop Diverges)"

text \<open>One turn of the loop over the queue.\<close>

definition send_front :: "'d simbus_pcie_tlp \<Rightarrow> 'd simbus_pcie_tlp outcome" where
  "send_front bus =
     obind (front_cell (tlp_out bus)) (\<lambda>(cur, data).
     obind (do_send_tlp_raw data bus) (\<lambda>b.
     obind (pop_cell cur (tlp_out b)) (\<lambda>q. Done (b\<lparr>tlp_out := q\<rparr>))))"

text \<open>The send function.  The loop over the queue goes on only with a clock: the model stops where
  packets are left and the clock is unknown.\<close>

definition pcie_tlp_send_tlp :: "'d sender" where
  "pcie_tlp_send_tlp data bus =
     (if last_cell (tlp_out bus) = None
      then obind (push_cell data (tlp_out bus)) (\<lambda>q.
           obind (send_front (bus\<lparr>tlp_out := q\<rparr>)) (\<lambda>b1.
           obind (while_io (\<lambda>b. pending (fd b)) (\<lambda>b. last_cell (tlp_out b) \<noteq> None \<and> known (user_clk b)) send_front b1)
             (\<lambda>b2. if last_cell (tlp_out b2) = None then Done b2 else Stop Diverges)))
      else obind (push_cell data (tlp_out bus)) (\<lambda>q. Done (bus\<lparr>tlp_out := q\<rparr>)))"

definition pcie_tlp_next_posedge :: "'d simbus_pcie_tlp \<Rightarrow> 'd simbus_pcie_tlp outcome" where
  "pcie_tlp_next_posedge = next_posedge_with pcie_tlp_send_tlp"

section \<open>Waiting and reset\<close>

text \<open>The counter and the mask are those of the C code: \<open>clks\<close> is what remains.\<close>

fun pcie_wait_clocks :: "nat \<Rightarrow> u32 \<Rightarrow> u32 \<Rightarrow> 'd simbus_pcie_tlp \<Rightarrow> (nat \<times> u32 \<times> 'd simbus_pcie_tlp) outcome" where
  "pcie_wait_clocks 0 enable_mask return_mask bus = Done (0, return_mask, bus)"
| "pcie_wait_clocks (Suc clks) enable_mask return_mask bus =
     (if return_mask = 0
      then obind (pcie_tlp_next_posedge bus) (\<lambda>b. pcie_wait_clocks clks enable_mask (enable_mask AND intx_mask b) b)
      else Done (Suc clks, return_mask, bus))"

definition simbus_pcie_tlp_wait ::
  "'d simbus_pcie_tlp \<Rightarrow> nat \<Rightarrow> u32 option \<Rightarrow> (nat \<times> u32 option \<times> 'd simbus_pcie_tlp) outcome" where
  "simbus_pcie_tlp_wait bus clks irq_mask =
     (let enable_mask = (case irq_mask of None \<Rightarrow> 0 | Some m \<Rightarrow> m)
      in if clks = 0 then Done (0, map_option (\<lambda>_. enable_mask AND intx_mask bus) irq_mask, bus)
         else obind (pcie_wait_clocks clks enable_mask 0 bus) (\<lambda>(clks', return_mask, b).
                Done (clks', map_option (\<lambda>_. return_mask) irq_mask, b)))"

definition simbus_pcie_tlp_reset :: "'d simbus_pcie_tlp \<Rightarrow> nat \<Rightarrow> nat \<Rightarrow> 'd simbus_pcie_tlp outcome" where
  "simbus_pcie_tlp_reset bus width settle =
     c_assert (width > 0)
       (obind (simbus_pcie_tlp_wait (bus\<lparr>user_reset_out := BIT_1\<rparr>) width None) (\<lambda>(rc, m, b).
          let b1 = b\<lparr>user_reset_out := BIT_0\<rparr>
          in if settle > 0 then obind (simbus_pcie_tlp_wait b1 settle None) (\<lambda>(rc, m, b2). Done b2) else Done b1))"

section \<open>Requests\<close>

definition pcie_tlp_choose_tag :: "'d simbus_pcie_tlp \<Rightarrow> u8 \<times> 'd simbus_pcie_tlp" where
  "pcie_tlp_choose_tag bus = (tlp_next_tag bus, bus\<lparr>tlp_next_tag := (tlp_next_tag bus + 1) mod 32\<rparr>)"

text \<open>\<open>while (bus->completions[use_tag] == 0) __pcie_tlp_next_posedge(bus);\<close> With the clock unknown
  one more turn may still find the end of a packet; after that the lines never change again.\<close>

definition await_completion :: "u8 \<Rightarrow> 'd simbus_pcie_tlp \<Rightarrow> (u32 list \<times> 'd simbus_pcie_tlp) outcome" where
  "await_completion use_tag bus =
     (let finish = (\<lambda>b stuck. case completions b ! unat use_tag of
            Some ctlp \<Rightarrow> Done (ctlp, b\<lparr>completions := (completions b)[unat use_tag := None]\<rparr>)
          | None \<Rightarrow> stuck b)
      in obind (while_io (\<lambda>b. pending (fd b))
                 (\<lambda>b. completions b ! unat use_tag = None \<and> known (user_clk b)) pcie_tlp_next_posedge bus)
           (\<lambda>b1. finish b1 (\<lambda>b. obind (pcie_tlp_next_posedge b) (\<lambda>b2. finish b2 (\<lambda>_. Stop Diverges)))))"

definition tlp_request_word :: "u8 \<Rightarrow> u32 \<Rightarrow> 'd simbus_pcie_tlp \<Rightarrow> u32" where
  "tlp_request_word use_tag be bus = (be OR push_bit 8 (ucast use_tag)) OR push_bit 16 (ucast (request_id bus))"

text \<open>The three configuration writes: byte enables \<open>be\<close> and the shifted value.\<close>

definition cfg_write :: "'d simbus_pcie_tlp \<Rightarrow> u16 \<Rightarrow> u16 \<Rightarrow> u32 \<Rightarrow> u32 \<Rightarrow> 'd simbus_pcie_tlp outcome" where
  "cfg_write bus bus_devfn addr be val =
     (let (use_tag, b) = pcie_tlp_choose_tag bus;
          tlp = [0x44000001, tlp_request_word use_tag be bus,
                 push_bit 16 (ucast bus_devfn) OR ucast (addr AND 0x0ffc), val]
      in obind (pcie_tlp_send_tlp tlp b) (\<lambda>b1. obind (await_completion use_tag b1) (\<lambda>(ctlp, b2). Done b2)))"

definition simbus_pcie_tlp_cfg_write32 :: "'d simbus_pcie_tlp \<Rightarrow> u16 \<Rightarrow> u16 \<Rightarrow> u32 \<Rightarrow> 'd simbus_pcie_tlp outcome" where
  "simbus_pcie_tlp_cfg_write32 bus bus_devfn addr val = cfg_write bus bus_devfn addr 0xf val"

definition simbus_pcie_tlp_cfg_write16 :: "'d simbus_pcie_tlp \<Rightarrow> u16 \<Rightarrow> u16 \<Rightarrow> u16 \<Rightarrow> 'd simbus_pcie_tlp outcome" where
  "simbus_pcie_tlp_cfg_write16 bus bus_devfn addr val =
     (let shift = unat (addr mod 4)
      in cfg_write bus bus_devfn addr (push_bit shift 3) (push_bit (8 * shift) (ucast val)))"

definition simbus_pcie_tlp_cfg_write8 :: "'d simbus_pcie_tlp \<Rightarrow> u16 \<Rightarrow> u16 \<Rightarrow> u8 \<Rightarrow> 'd simbus_pcie_tlp outcome" where
  "simbus_pcie_tlp_cfg_write8 bus bus_devfn addr val =
     (let shift = unat (addr mod 4)
      in cfg_write bus bus_devfn addr (push_bit shift 1) (push_bit (8 * shift) (ucast val)))"

text \<open>Three words are sent and the completion is read at fixed places; a completion that is shorter
  was allocated shorter.\<close>

definition completion_status :: "u32 list \<Rightarrow> u32" where
  "completion_status ctlp = drop_bit 13 (ctlp ! 1) AND 0x07"

definition simbus_pcie_tlp_cfg_read32 :: "'d simbus_pcie_tlp \<Rightarrow> u16 \<Rightarrow> u16 \<Rightarrow> (u32 \<times> 'd simbus_pcie_tlp) outcome" where
  "simbus_pcie_tlp_cfg_read32 bus bus_devfn addr =
     (let (use_tag, b) = pcie_tlp_choose_tag bus;
          tlp = [0x04000001, tlp_request_word use_tag 0xf bus,
                 push_bit 16 (ucast bus_devfn) OR ucast (addr AND 0x0ffc)]
      in obind (pcie_tlp_send_tlp tlp b) (\<lambda>b1.
         obind (await_completion use_tag b1) (\<lambda>(ctlp, b2).
           if completion_status ctlp = 0
           then c_assert (ctlp ! 0 AND 0x03ff = 1) (c_defined (3 < length ctlp) (Done (ctlp ! 3, b2)))
           else Done (0xffffffff, b2))))"

text \<open>\<open>val = (val<<8) | (tmp & 0xff); tmp >>= 8;\<close> four times.\<close>

definition swap_loop :: "u32 \<Rightarrow> u32" where
  "swap_loop w = snd (((\<lambda>(tmp, val). (drop_bit 8 tmp, push_bit 8 val OR (tmp AND 0xff))) ^^ 4) (w, 0))"

definition addr_words :: "u64 \<Rightarrow> u32 list" where
  "addr_words addr =
     (let addr_h = ucast (drop_bit 32 addr); addr_l = ucast addr
      in if addr_h \<noteq> 0 then [addr_h, addr_l] else [addr_l])"

definition read_tlp :: "'d simbus_pcie_tlp \<Rightarrow> u8 \<Rightarrow> u64 \<Rightarrow> nat \<Rightarrow> u32 list" where
  "read_tlp bus use_tag addr ndata =
     [(if (ucast (drop_bit 32 addr) :: u32) = 0 then 0x00000000 else 0x20000000) OR of_nat ndata,
      tlp_request_word use_tag (if ndata = 1 then 0x0f else 0xff) bus] @ addr_words addr"

definition read_words :: "nat \<Rightarrow> u32 list \<times> 'd simbus_pcie_tlp \<Rightarrow> (u32 list \<times> 'd simbus_pcie_tlp) outcome" where
  "read_words ndata = (\<lambda>(ctlp, b).
     if completion_status ctlp = 0
     then c_assert (ndata = unat (ctlp ! 0 AND 0x03ff))
            (c_defined (3 + ndata \<le> length ctlp) (Done (map swap_loop (take ndata (drop 3 ctlp)), b)))
     else Done (replicate ndata 0xffffffff, b))"

definition simbus_pcie_tlp_read ::
  "'d simbus_pcie_tlp \<Rightarrow> u64 \<Rightarrow> nat \<Rightarrow> int \<Rightarrow> u64 \<Rightarrow> (u32 list \<times> 'd simbus_pcie_tlp) outcome" where
  "simbus_pcie_tlp_read bus addr ndata off len =
     c_assert (ndata \<le> 0x3ff \<and> 1 \<le> ndata) (c_assert (off \<le> 3)
      (c_assert (word_of_int off + len \<le> 4 * of_nat ndata) (c_assert (off = 0 \<and> len = of_nat ndata * 4)
       (let (use_tag, b) = pcie_tlp_choose_tag bus
        in obind (pcie_tlp_send_tlp (read_tlp bus use_tag addr ndata) b) (\<lambda>b1.
           obind (await_completion use_tag b1) (read_words ndata))))))"

text \<open>The byte enables of a write; a shift by more than the width of an integer is undefined.\<close>

definition write_enables :: "nat \<Rightarrow> int \<Rightarrow> u64 \<Rightarrow> u32 outcome" where
  "write_enables ndata off len =
     (if ndata = 1
      then c_defined (0 \<le> off \<and> unat len < 32)
        (Done ((0x0f AND NOT (push_bit (unat len) 0xf)) AND (0x0f AND push_bit (nat off) 0xf)))
      else c_defined (0 \<le> off)
        (let omask = 0xf AND push_bit (nat off) 0xf;
             r = unat ((word_of_int off + len) mod 4); olen = (if r = 0 then 4 else r)
         in Done ((0xf0 AND NOT (push_bit olen 0xf0)) OR omask)))"

definition write_tlp :: "'d simbus_pcie_tlp \<Rightarrow> u64 \<Rightarrow> u32 list \<Rightarrow> int \<Rightarrow> u64 \<Rightarrow> u32 list outcome" where
  "write_tlp bus addr data off len =
     (let ndata = length data
      in c_assert (ndata \<le> 0x3ff \<and> 1 \<le> ndata) (c_assert (off \<le> 3)
          (c_assert (word_of_int off + len \<le> 4 * of_nat ndata)
            (obind (write_enables ndata off len) (\<lambda>be.
              Done ([(if (ucast (drop_bit 32 addr) :: u32) = 0 then 0x40000000 else 0x60000000) OR of_nat ndata,
                     tlp_request_word 0 be bus] @ addr_words addr @ map swap_loop data))))))"

definition simbus_pcie_tlp_write ::
  "'d simbus_pcie_tlp \<Rightarrow> u64 \<Rightarrow> u32 list \<Rightarrow> int \<Rightarrow> u64 \<Rightarrow> 'd simbus_pcie_tlp outcome" where
  "simbus_pcie_tlp_write bus addr data off len =
     obind (write_tlp bus addr data off len) (\<lambda>tlp. pcie_tlp_send_tlp tlp bus)"

section \<open>Invariant\<close>

definition pcie_wf :: "'d simbus_pcie_tlp \<Rightarrow> bool" where
  "pcie_wf b \<longleftrightarrow>
     length (s_tlp_buf b) = MAX_TLP \<and> s_tlp_cnt b \<le> MAX_TLP \<and> length (completions b) = 256
     \<and> map length [tx_buf_av b, m_axis_rx_tdata b, m_axis_rx_tkeep b, s_axis_tx_tdata b, s_axis_tx_tkeep b, s_axis_tx_tuser b]
       = [6, 64, 8, 64, 8, 4]
     \<and> time_ok (bus_time b)"

text \<open>What an exchange leaves alone: everything but the input lines, the time and the connection.\<close>

definition pcie_own :: "'d simbus_pcie_tlp \<Rightarrow> 'd simbus_pcie_tlp" where
  "pcie_own b = b\<lparr>fd := script [], bus_time := init_simbus_time, user_clk := BIT_0, m_axis_rx_tready := BIT_0,
     s_axis_tx_tdata := [], s_axis_tx_tkeep := [], s_axis_tx_tlast := BIT_0, s_axis_tx_tvalid := BIT_0,
     s_axis_tx_tuser := []\<rparr>"

lemma pcie_wf_init: "pcie_wf (init_simbus_pcie_tlp nm c idn u)"
  by (simp add: init_simbus_pcie_tlp_def pcie_wf_def)

lemma on_signal_pcie_keeps:
  "pcie_wf p \<Longrightarrow> ret (on_signal_pcie p nm cp) (\<lambda>q. pcie_wf q \<and> pcie_own q = pcie_own p)"
  by (simp add: on_signal_pcie_def until_bit_def until_signal_def pcie_wf_def pcie_own_def)

interpretation pcie: signal_bus fd "\<lambda>c b. b\<lparr>fd := c\<rparr>" SIMBUS_PCIE_TLP_FINISHED "\<lambda>t b. b\<lparr>bus_time := t\<rparr>"
    on_signal_pcie ready_message_pcie "\<lambda>_. True" send_ready_command "\<lambda>b. pcie_wf b \<and> pcie_own b = k" for k
proof unfold_locales
  show "ret (on_signal_pcie s nm cp) (\<lambda>t. fd t = fd s)" for s :: "'a simbus_pcie_tlp" and nm cp
    by (simp add: on_signal_pcie_def until_bit_def until_signal_def)
  show "ret (on_signal_pcie s nm cp) (\<lambda>b. pcie_wf b \<and> pcie_own b = k)"
    if "pcie_wf s \<and> pcie_own s = k" for s nm cp
    using on_signal_pcie_keeps [of s nm cp] that by simp
  show "on_signal_pcie s nm cp \<noteq> Stop Out_of_fuel" for s :: "'a simbus_pcie_tlp" and nm cp
    by (simp add: on_signal_pcie_def until_bit_def until_signal_def c_assert_def obind_eq_Stop)
qed (auto simp: pcie_wf_def pcie_own_def send_ready_command_def)

section \<open>The clock\<close>

lemma pcie_spin:
  assumes "pcie_wf p"
  shows "runs (spin fd send_ready_command c p) (\<lambda>q. pcie_wf q \<and> pcie_own q = pcie_own p
    \<and> pending (fd q) \<le> pending (fd p) \<and> \<not> c q \<and> (c p \<longrightarrow> pending (fd q) < pending (fd p)))"
proof -
  have "ret (spin fd send_ready_command c p) (\<lambda>q. pcie_wf q \<and> pcie_own q = pcie_own p)"
    by (rule pcie.spin_inv) (use assms pcie.exchange_ok [of _ "pcie_own p"] in auto)
  then show ?thesis
    using pcie.spin_pending [of c p] pcie.spin_post [of c p] pcie.spin_pending_less [of c p] pcie.spin_fuel [of c p]
    by (auto simp: runs_def ret_def)
qed

text \<open>One clock: an unknown clock line means no exchange at all.\<close>

definition clocked_to :: "'d simbus_pcie_tlp \<Rightarrow> 'd simbus_pcie_tlp \<Rightarrow> bool" where
  "clocked_to p q \<longleftrightarrow> pcie_wf q \<and> pcie_own q = pcie_own p \<and> pending (fd q) \<le> pending (fd p)
     \<and> (if known (user_clk p) then pending (fd q) < pending (fd p) else q = p)"

lemma pcie_clock:
  assumes "pcie_wf p"
  shows "runs (obind (spin fd send_ready_command (\<lambda>b. user_clk b = BIT_1) p)
      (spin fd send_ready_command (\<lambda>b. user_clk b = BIT_0))) (clocked_to p)"
proof (cases "user_clk p = BIT_1")
  case True
  then have "known (user_clk p)" by (simp add: known_def)
  then show ?thesis
    by (intro runs_seq [OF pcie_spin [OF assms]])
      (use True in \<open>auto simp: clocked_to_def intro!: runs_mono [OF pcie_spin]\<close>)
next
  case False
  then have first: "spin fd send_ready_command (\<lambda>b. user_clk b = BIT_1) p = Done p" by (simp add: spin_def)
  show ?thesis
  proof (cases "user_clk p = BIT_0")
    case True
    then show ?thesis
      by (simp add: first) (rule runs_mono [OF pcie_spin [OF assms]], auto simp: clocked_to_def known_def)
  next
    case unknown: False
    with False have "\<not> known (user_clk p)" by (simp add: known_def)
    moreover have "spin fd send_ready_command (\<lambda>b. user_clk b = BIT_0) p = Done p"
      using unknown by (simp add: spin_def)
    ultimately show ?thesis using assms by (simp add: first clocked_to_def)
  qed
qed

section \<open>Receiving\<close>

text \<open>The part of the state that sending works on.\<close>

definition core :: "'d simbus_pcie_tlp \<Rightarrow> tlp_ring \<times> conn \<times> bitval \<times> bitval" where
  "core b = (tlp_out b, fd b, user_clk b, m_axis_rx_tready b)"

lemma recv_bytes_ok:
  "pcie_wf b \<Longrightarrow> runs (recv_bytes idxs val bytes b) (\<lambda>(n, b'). pcie_wf b' \<and> core b' = core b)"
proof (induction idxs arbitrary: val bytes b)
  case (Cons idx idxs)
  have "runs (obind (crank_recv_tlp v b) (recv_bytes idxs 0 0)) (\<lambda>(n, b'). pcie_wf b' \<and> core b' = core b)" for v
  proof (rule runs_seq [where Q = "\<lambda>b'. pcie_wf b' \<and> core b' = core b"])
    show "runs (crank_recv_tlp v b) (\<lambda>b'. pcie_wf b' \<and> core b' = core b)"
      using Cons.prems by (simp add: crank_recv_tlp_def pcie_wf_def core_def)
  qed (metis Cons.IH)
  with Cons show ?case by (simp add: Let_def)
qed simp

lemma dispatch_ok:
  assumes "pcie_wf b"
  shows "runs (dispatch_tlp b) (\<lambda>(t, b'). pcie_wf b' \<and> core b' = core b \<and> t \<noteq> Some [])"
proof -
  have len: "length (s_tlp_buf b) = MAX_TLP" "length (completions b) = 256" using assms by (simp_all add: pcie_wf_def)
  have copy: "runs (obind (copy_tlp_to_completion g n b) (\<lambda>b. Done (None :: u32 list option, b)))
      (\<lambda>(t, b'). pcie_wf b' \<and> core b' = core b \<and> t \<noteq> Some [])" for g n
    using assms by (auto simp: copy_tlp_to_completion_def pcie_wf_def core_def c_assert_def runs_def)
  have wr: "pcie_wf (receive_write k a b) \<and> core (receive_write k a b) = core b" if "k \<le> 4" for k a
  proof -
    have "unat (s_tlp_buf b ! 0 AND 0x3ff) \<le> 1023"
      using word_and_le1 [of "s_tlp_buf b ! 0" "0x3ff"] by (simp add: word_le_nat_alt)
    then show ?thesis
      using assms that by (auto simp: receive_write_def Let_def pcie_wf_def core_def MAX_TLP_def split: option.splits)
  qed
  have rd: "runs (obind (receive_read a b) (\<lambda>(tlp, b). Done (Some tlp, b)))
      (\<lambda>(t, b'). pcie_wf b' \<and> core b' = core b \<and> t \<noteq> Some [])" for a
    using assms by (auto simp: receive_read_def Let_def pcie_wf_def core_def runs_def c_defined_def
        split: option.splits prod.splits)
  have msg: "pcie_wf (process_Assert_INTx b)" "core (process_Assert_INTx b) = core b"
    "pcie_wf (process_Deassert_INTx b)" "core (process_Deassert_INTx b) = core b"
    using assms by (simp_all add: process_Assert_INTx_def process_Deassert_INTx_def pcie_wf_def core_def)
  show ?thesis
    unfolding dispatch_tlp_def Let_def using copy wr rd msg assms by simp
qed

lemma recv_ok:
  assumes "pcie_wf b" and "F (core b)"
    and send: "\<And>t b. pcie_wf b \<Longrightarrow> F (core b) \<Longrightarrow> t \<noteq> [] \<Longrightarrow> runs (send t b) (\<lambda>b'. pcie_wf b' \<and> F (core b'))"
  shows "runs (pcie_tlp_recv_tlp send b) (\<lambda>b'. pcie_wf b' \<and> F (core b'))"
proof -
  have complete: "runs (complete_recv_tlp send p) (\<lambda>b'. pcie_wf b' \<and> F (core b'))" if "pcie_wf p" "F (core p)" for p
    unfolding complete_recv_tlp_def
  proof (rule runs_seq2 [OF dispatch_ok [OF that(1)]])
    fix t :: "u32 list option" and q :: "'a simbus_pcie_tlp" assume q: "pcie_wf q \<and> core q = core p \<and> t \<noteq> Some []"
    have "pcie_wf (q\<lparr>s_tlp_cnt := 0\<rparr>)" "F (core (q\<lparr>s_tlp_cnt := 0\<rparr>))"
      using q that(2) by (simp_all add: pcie_wf_def core_def)
    with q send show "runs (case (t, q) of (tlp, b) \<Rightarrow> (case tlp of None \<Rightarrow> Done (b\<lparr>s_tlp_cnt := 0\<rparr>)
        | Some t \<Rightarrow> send t (b\<lparr>s_tlp_cnt := 0\<rparr>))) (\<lambda>b'. pcie_wf b' \<and> F (core b'))"
      by (cases t) auto
  qed
  show ?thesis
    unfolding pcie_tlp_recv_tlp_def
    using assms(1,2) complete by (auto intro!: runs_seq2 [OF recv_bytes_ok [OF assms(1)]])
qed

section \<open>Sending\<close>

text \<open>The queue while its front packet is on the wire, and the queue between packets.  No packet is
  empty.\<close>

definition sending :: "nat \<Rightarrow> u32 list \<Rightarrow> tlp_ring \<Rightarrow> bool" where
  "sending cur x q \<longleftrightarrow> front_cell q = Done (cur, x) \<and> (\<exists>xs. ring_holds q (x # xs) \<and> [] \<notin> set (x # xs))"

definition queued :: "tlp_ring \<Rightarrow> bool" where
  "queued q \<longleftrightarrow> (\<exists>xs. ring_holds q xs \<and> [] \<notin> set xs)"

lemma queued_push: "queued q \<Longrightarrow> t \<noteq> [] \<Longrightarrow> runs (push_cell t q) (\<lambda>q'. queued q' \<and> last_cell q' \<noteq> None)"
proof -
  assume "queued q" "t \<noteq> []"
  then obtain xs q' where q: "push_cell t q = Done q'" "ring_holds q' (xs @ [t])" "[] \<notin> set (xs @ [t])"
    unfolding queued_def using ring.push_ok by fastforce
  with ring.empty_iff [OF q(2)] have "queued q'" "last_cell q' \<noteq> None" by (auto simp: queued_def)
  with q(1) show ?thesis by simp
qed

lemma sending_push: "sending cur x q \<Longrightarrow> t \<noteq> [] \<Longrightarrow> runs (push_cell t q) (sending cur x)"
proof -
  assume a: "sending cur x q" "t \<noteq> []"
  then obtain xs where xs: "ring_holds q (x # xs)" "[] \<notin> set (x # xs)" "front_cell q = Done (cur, x)"
    by (auto simp: sending_def)
  from ring.push_ok [OF xs(1), of t] obtain q' where q': "push_cell t q = Done q'" "ring_holds q' (x # (xs @ [t]))"
    by auto
  have "sending cur x q'"
    unfolding sending_def using ring.front_push [OF xs(1) q'(1)] xs(2,3) q'(2) a(2)
    by (auto intro!: exI [of _ "xs @ [t]"])
  with q'(1) show ?thesis by simp
qed

lemma sending_last: "sending cur x q \<Longrightarrow> last_cell q \<noteq> None"
  unfolding sending_def using ring.empty_iff by blast

lemma send_queued_ok:
  assumes "pcie_wf b" and "sending cur x (tlp_out b)" and "t \<noteq> []"
  shows "runs (send_queued t b) (\<lambda>b'. pcie_wf b' \<and> sending cur x (tlp_out b') \<and> (fd b', user_clk b', m_axis_rx_tready b') = (fd b, user_clk b, m_axis_rx_tready b))"
  using sending_last [OF assms(2)] assms(1)
  by (auto simp: send_queued_def pcie_wf_def intro!: runs_seq [OF sending_push [OF assms(2,3)]])

text \<open>One clock in the middle of a packet.\<close>

lemma posedge_sending:
  assumes "pcie_wf b" and "sending cur x (tlp_out b)"
  shows "runs (next_posedge_with send_queued b) (\<lambda>b'. pcie_wf b' \<and> sending cur x (tlp_out b')
    \<and> pending (fd b') \<le> pending (fd b)
    \<and> (if known (user_clk b) then pending (fd b') < pending (fd b)
       else user_clk b' = user_clk b \<and> m_axis_rx_tready b' = m_axis_rx_tready b))"
proof -
  have split: "next_posedge_with send_queued b = obind (obind (spin fd send_ready_command (\<lambda>b. user_clk b = BIT_1) b)
      (spin fd send_ready_command (\<lambda>b. user_clk b = BIT_0))) (pcie_tlp_recv_tlp send_queued)"
    by (simp add: next_posedge_with_def obind_assoc)
  show ?thesis
    unfolding split
  proof (rule runs_seq [OF pcie_clock [OF assms(1)]])
    fix q assume q: "clocked_to b q"
    have t: "tlp_out q = tlp_out b" using q by (auto simp: clocked_to_def pcie_own_def dest!: arg_cong [where f = tlp_out])
    let ?F = "\<lambda>(r, c, k, v). sending cur x r \<and> (c, k, v) = (fd q, user_clk q, m_axis_rx_tready q)"
    have "runs (pcie_tlp_recv_tlp send_queued q) (\<lambda>b'. pcie_wf b' \<and> ?F (core b'))"
    proof (rule recv_ok)
      show "pcie_wf q" "?F (core q)" using q t assms(2) by (auto simp: clocked_to_def core_def)
      show "runs (send_queued t p) (\<lambda>b'. pcie_wf b' \<and> ?F (core b'))" if "pcie_wf p" "?F (core p)" "t \<noteq> []" for t p
        by (rule runs_mono [OF send_queued_ok [OF that(1) _ that(3)]]) (use that(2) in \<open>auto simp: core_def\<close>)
    qed
    then show "runs (pcie_tlp_recv_tlp send_queued q) (\<lambda>b'. pcie_wf b' \<and> sending cur x (tlp_out b')
        \<and> pending (fd b') \<le> pending (fd b) \<and> (if known (user_clk b) then pending (fd b') < pending (fd b)
           else user_clk b' = user_clk b \<and> m_axis_rx_tready b' = m_axis_rx_tready b))"
      by (rule runs_mono) (use q in \<open>auto simp: core_def clocked_to_def split: if_splits\<close>)
  qed
qed

lemma drive_beat_frame:
  "pcie_wf b \<Longrightarrow> pcie_wf (drive_beat d b)" "core (drive_beat d b) = core b"
  "pcie_wf b \<Longrightarrow> pcie_wf (idle_stream b)" "core (idle_stream b) = core b"
  by (simp_all add: drive_beat_def idle_stream_def Let_def pcie_wf_def core_def)

lemmas core_eqs = drive_beat_frame(2,4) [unfolded core_def prod.inject]

text \<open>The state of a transfer: the words still to send and the bus.\<close>

definition in_transfer :: "nat \<Rightarrow> u32 list \<Rightarrow> 'd simbus_pcie_tlp \<Rightarrow> bool" where
  "in_transfer cur x b \<longleftrightarrow> pcie_wf b \<and> sending cur x (tlp_out b)"

lemma send_beat_ok:
  assumes "in_transfer cur x b" and "d \<noteq> []" and "known (user_clk b) \<or> m_axis_rx_tready b = BIT_1"
  shows "runs (send_beat (d, b)) (\<lambda>(d', b'). in_transfer cur x b' \<and> pending (fd b') \<le> pending (fd b)
    \<and> pending (fd b') + length d' < pending (fd b) + length d
    \<and> (known (user_clk b) \<longrightarrow> pending (fd b') < pending (fd b)))"
proof -
  let ?b = "drive_beat d b"
  have b: "pcie_wf ?b" "sending cur x (tlp_out ?b)" using assms(1) by (simp_all add: in_transfer_def drive_beat_frame core_eqs)
  have len: "length (drop 2 d) < length d" using assms(2) by simp
  show ?thesis
    unfolding send_beat_def prod.case
    by (rule runs_seq [OF posedge_sending [OF b]])
      (use assms(3) len in \<open>auto simp: Let_def in_transfer_def drive_beat_frame core_eqs split: if_splits\<close>)
qed

lemma do_send_ok:
  assumes "in_transfer cur x b" and "d \<noteq> []"
  shows "runs (do_send_tlp_raw d b) (\<lambda>b'. in_transfer cur x b' \<and> pending (fd b') \<le> pending (fd b)
    \<and> (known (user_clk b) \<longrightarrow> pending (fd b') < pending (fd b)))"
proof -
  let ?I = "\<lambda>(d', b'). in_transfer cur x b' \<and> pending (fd b') \<le> pending (fd b)
    \<and> ((d', b') = (d, b) \<or> (known (user_clk b) \<longrightarrow> pending (fd b') < pending (fd b)))"
  let ?c = "\<lambda>(d, b). d \<noteq> [] \<and> (known (user_clk b) \<or> m_axis_rx_tready b = BIT_1)"
  have step: "runs (send_beat s) (\<lambda>t. ?I t \<and> (\<lambda>(d, b). pending (fd b) + length d) t < (\<lambda>(d, b). pending (fd b) + length d) s)"
    if "?I s" "?c s" for s
  proof -
    obtain d' b' where s: "s = (d', b')" by (cases s)
    from that have "runs (send_beat (d', b')) (\<lambda>(d2, b2). in_transfer cur x b2 \<and> pending (fd b2) \<le> pending (fd b')
        \<and> pending (fd b2) + length d2 < pending (fd b') + length d'
        \<and> (known (user_clk b') \<longrightarrow> pending (fd b2) < pending (fd b')))"
      unfolding s by (intro send_beat_ok) auto
    then show ?thesis unfolding s by (rule runs_mono) (use that in \<open>auto simp: s\<close>)
  qed
  have "runs (while_io (\<lambda>(d, b). pending (fd b) + length d) ?c send_beat (d, b))
      (\<lambda>t. ?I t \<and> \<not> ?c t \<and> (\<lambda>(d, b). pending (fd b) + length d) t \<le> (\<lambda>(d, b). pending (fd b) + length d) (d, b))"
    by (rule runs_while_io [where I = ?I]) (use assms step in auto)
  then show ?thesis
    unfolding do_send_tlp_raw_def by (rule runs_seq) (use assms(2) in auto)
qed

lemma send_front_ok:
  assumes "pcie_wf b" and "queued (tlp_out b)" and "last_cell (tlp_out b) \<noteq> None"
  shows "runs (send_front b) (\<lambda>b'. pcie_wf b' \<and> queued (tlp_out b') \<and> pending (fd b') \<le> pending (fd b)
    \<and> (known (user_clk b) \<longrightarrow> pending (fd b') < pending (fd b)))"
proof -
  from assms(2) obtain ys where ys: "ring_holds (tlp_out b) ys" "[] \<notin> set ys" by (auto simp: queued_def)
  with assms(3) ring.empty_iff [OF ys(1)] obtain x xs where xs: "ys = x # xs" by (cases ys) auto
  from ring.front_ok ys(1) xs obtain cur where cur: "front_cell (tlp_out b) = Done (cur, x)" by blast
  have t: "in_transfer cur x b" "x \<noteq> []" using assms(1) cur ys xs by (auto simp: in_transfer_def sending_def)
  have pop: "runs (obind (pop_cell cur (tlp_out b1)) (\<lambda>q. Done (b1\<lparr>tlp_out := q\<rparr>)))
      (\<lambda>b'. pcie_wf b' \<and> queued (tlp_out b') \<and> fd b' = fd b1)" if "in_transfer cur x b1" for b1
  proof -
    from that obtain zs where zs: "ring_holds (tlp_out b1) (x # zs)" "[] \<notin> set (x # zs)"
        "front_cell (tlp_out b1) = Done (cur, x)" "pcie_wf b1" by (auto simp: in_transfer_def sending_def)
    from ring.pop_ok [OF zs(1,3)] obtain q where "pop_cell cur (tlp_out b1) = Done q" "ring_holds q zs" by blast
    with zs(2,4) show ?thesis by (auto simp: queued_def pcie_wf_def)
  qed
  show ?thesis
    unfolding send_front_def cur obind.simps prod.case
    by (rule runs_seq [OF do_send_ok [OF t]], rule runs_mono [OF pop]) auto
qed

definition idle_bus :: "'d simbus_pcie_tlp \<Rightarrow> bool" where
  "idle_bus b \<longleftrightarrow> pcie_wf b \<and> ring_holds (tlp_out b) []"

lemma queued_empty: "queued q \<Longrightarrow> last_cell q = None \<Longrightarrow> ring_holds q []"
  unfolding queued_def using ring.empty_iff by blast

lemma send_tlp_ok:
  assumes "idle_bus b" and "t \<noteq> []"
  shows "runs (pcie_tlp_send_tlp t b) (\<lambda>b'. idle_bus b' \<and> pending (fd b') \<le> pending (fd b))"
proof -
  let ?I = "\<lambda>b'. pcie_wf b' \<and> queued (tlp_out b') \<and> pending (fd b') \<le> pending (fd b)"
  let ?c = "\<lambda>b :: 'a simbus_pcie_tlp. last_cell (tlp_out b) \<noteq> None \<and> known (user_clk b)"
  from assms have b: "pcie_wf b" "queued (tlp_out b)" "last_cell (tlp_out b) = None"
    using ring.empty_iff [of "tlp_out b" "[]"] by (auto simp: idle_bus_def queued_def)
  have loop: "runs (while_io (\<lambda>b. pending (fd b)) ?c send_front b1) (\<lambda>b'. ?I b' \<and> \<not> ?c b')" if "?I b1" for b1
    by (rule runs_mono [OF runs_while_io [where I = ?I and pend = "\<lambda>b. pending (fd b)"]])
      (use that in \<open>auto intro!: runs_mono [OF send_front_ok]\<close>)
  have rest: "runs (obind (while_io (\<lambda>b. pending (fd b)) ?c send_front b1)
      (\<lambda>b2. if last_cell (tlp_out b2) = None then Done b2 else Stop Diverges))
      (\<lambda>b'. idle_bus b' \<and> pending (fd b') \<le> pending (fd b))" if "?I b1" for b1
    by (rule runs_seq [OF loop [OF that]]) (auto simp: idle_bus_def queued_empty)
  show ?thesis
    unfolding pcie_tlp_send_tlp_def if_P [OF b(3)]
  proof (rule runs_seq [OF queued_push [OF b(2) assms(2)]], rule runs_seq [OF send_front_ok])
    fix q and b1 :: "'a simbus_pcie_tlp"
    assume q: "queued q \<and> last_cell q \<noteq> None"
    from q b(1) show "pcie_wf (b\<lparr>tlp_out := q\<rparr>)" "queued (tlp_out (b\<lparr>tlp_out := q\<rparr>))"
      "last_cell (tlp_out (b\<lparr>tlp_out := q\<rparr>)) \<noteq> None" by (simp_all add: pcie_wf_def)
    assume "pcie_wf b1 \<and> queued (tlp_out b1) \<and> pending (fd b1) \<le> pending (fd (b\<lparr>tlp_out := q\<rparr>))
      \<and> (known (user_clk (b\<lparr>tlp_out := q\<rparr>)) \<longrightarrow> pending (fd b1) < pending (fd (b\<lparr>tlp_out := q\<rparr>)))"
    then show "runs (obind (while_io (\<lambda>b. pending (fd b)) ?c send_front b1)
      (\<lambda>b2. if last_cell (tlp_out b2) = None then Done b2 else Stop Diverges))
      (\<lambda>b'. idle_bus b' \<and> pending (fd b') \<le> pending (fd b))"
      by (intro rest) simp
  qed
qed

lemma posedge_ok:
  assumes "idle_bus b"
  shows "runs (pcie_tlp_next_posedge b) (\<lambda>b'. idle_bus b' \<and> pending (fd b') \<le> pending (fd b)
    \<and> (known (user_clk b) \<longrightarrow> pending (fd b') < pending (fd b)))"
proof -
  have split: "pcie_tlp_next_posedge b = obind (obind (spin fd send_ready_command (\<lambda>b. user_clk b = BIT_1) b)
      (spin fd send_ready_command (\<lambda>b. user_clk b = BIT_0))) (pcie_tlp_recv_tlp pcie_tlp_send_tlp)"
    by (simp add: pcie_tlp_next_posedge_def next_posedge_with_def obind_assoc)
  have wf: "pcie_wf b" using assms by (simp add: idle_bus_def)
  show ?thesis
    unfolding split
  proof (rule runs_seq [OF pcie_clock [OF wf]])
    fix q assume q: "clocked_to b q"
    have t: "tlp_out q = tlp_out b" using q by (auto simp: clocked_to_def pcie_own_def dest!: arg_cong [where f = tlp_out])
    let ?F = "\<lambda>(r, c, k, v). ring_holds r [] \<and> pending c \<le> pending (fd q)"
    have "runs (pcie_tlp_recv_tlp pcie_tlp_send_tlp q) (\<lambda>b'. pcie_wf b' \<and> ?F (core b'))"
    proof (rule recv_ok)
      show "pcie_wf q" "?F (core q)" using q t assms by (auto simp: clocked_to_def core_def idle_bus_def)
      show "runs (pcie_tlp_send_tlp t p) (\<lambda>b'. pcie_wf b' \<and> ?F (core b'))" if "pcie_wf p" "?F (core p)" "t \<noteq> []" for t p
        by (rule runs_mono [OF send_tlp_ok [OF _ that(3)]]) (use that(1,2) in \<open>auto simp: core_def idle_bus_def\<close>)
    qed
    then show "runs (pcie_tlp_recv_tlp pcie_tlp_send_tlp q) (\<lambda>b'. idle_bus b' \<and> pending (fd b') \<le> pending (fd b)
        \<and> (known (user_clk b) \<longrightarrow> pending (fd b') < pending (fd b)))"
      by (rule runs_mono) (use q in \<open>auto simp: core_def clocked_to_def idle_bus_def\<close>)
  qed
qed

section \<open>The functions of the host\<close>

lemma await_ok:
  assumes "idle_bus b"
  shows "runs (await_completion g b) (\<lambda>(c, b'). idle_bus b')"
proof -
  let ?c = "\<lambda>b :: 'a simbus_pcie_tlp. completions b ! unat g = None \<and> known (user_clk b)"
  let ?take = "\<lambda>b stuck. case completions b ! unat g of
      Some ctlp \<Rightarrow> Done (ctlp, b\<lparr>completions := (completions b)[unat g := None]\<rparr>) | None \<Rightarrow> stuck b"
  have take: "runs (?take p k) (\<lambda>(c, b'). idle_bus b')" if "idle_bus p" "runs (k p) (\<lambda>(c, b'). idle_bus b')"
    for p :: "'a simbus_pcie_tlp" and k
    using that by (auto simp: idle_bus_def pcie_wf_def split: option.splits)
  have more: "runs (obind (pcie_tlp_next_posedge p) (\<lambda>b2. ?take b2 (\<lambda>_. Stop Diverges))) (\<lambda>(c, b'). idle_bus b')"
    if "idle_bus p" for p :: "'a simbus_pcie_tlp"
    by (rule runs_seq [OF posedge_ok [OF that]], rule take) auto
  have loop: "runs (while_io (\<lambda>b. pending (fd b)) ?c pcie_tlp_next_posedge b) idle_bus"
    by (rule runs_mono [OF runs_while_io [where I = idle_bus]]) (use assms in \<open>auto intro!: runs_mono [OF posedge_ok]\<close>)
  show ?thesis
    unfolding await_completion_def Let_def
    by (rule runs_seq [OF loop], rule take) (auto intro: more)
qed

lemma send_then_await:
  assumes "idle_bus b" and "t \<noteq> []" and "\<And>c b'. idle_bus b' \<Longrightarrow> runs (k (c, b')) P"
  shows "runs (obind (pcie_tlp_send_tlp t b) (\<lambda>b1. obind (await_completion g b1) k)) P"
  by (rule runs_seq [OF send_tlp_ok [OF assms(1,2)]], rule runs_seq2 [OF await_ok]) (use assms(3) in auto)

lemma idle_choose_tag: "idle_bus b \<Longrightarrow> idle_bus (snd (pcie_tlp_choose_tag b))"
  by (simp add: pcie_tlp_choose_tag_def idle_bus_def pcie_wf_def)

lemma cfg_write_ok: "idle_bus b \<Longrightarrow> runs (cfg_write b f a be v) idle_bus"
  unfolding cfg_write_def Let_def case_prod_unfold
  by (rule send_then_await [OF idle_choose_tag]) auto

lemma wait_clocks_ok: "idle_bus b \<Longrightarrow> runs (pcie_wait_clocks n e r b) (\<lambda>(c, m, b'). idle_bus b')"
proof (induction n arbitrary: r b)
  case (Suc n)
  then show ?case by (auto intro!: runs_seq [OF posedge_ok])
qed simp

lemma wait_ok: "idle_bus b \<Longrightarrow> runs (simbus_pcie_tlp_wait b n mk) (\<lambda>(c, m, b'). idle_bus b')"
  unfolding simbus_pcie_tlp_wait_def Let_def
  by (auto intro!: runs_seq [OF wait_clocks_ok])



section \<open>Byte order\<close>

lemma and_ff: "w AND 0xff = take_bit 8 w" for w :: u32
  by (simp add: take_bit_eq_mask mask_eq_exp_minus_1)

definition swap_index :: "nat \<Rightarrow> nat" where
  "swap_index j = (if j < 8 then j + 24 else if j < 16 then j + 8 else if j < 24 then j - 8 else j - 24)"

lemma swap_index_twice: "j < 32 \<Longrightarrow> swap_index (swap_index j) = j" "j < 32 \<Longrightarrow> swap_index j < 32"
  by (auto simp: swap_index_def)

lemma bit_byte_swap32: "j < 32 \<Longrightarrow> bit (byte_swap32 w) j = bit w (swap_index j)"
  unfolding byte_swap32_def Let_def and_ff swap_index_def
  by (auto simp: bit_simps add.commute)

lemma swap_loop_eq: "swap_loop w = byte_swap32 w"
  by (simp add: swap_loop_def byte_swap32_def Let_def numeral_eq_Suc)

lemma swap_twice [simp]: "swap_loop (byte_swap32 w) = w" "byte_swap32 (swap_loop w) = w"
  unfolding swap_loop_eq by (rule bit_word_eqI; simp add: bit_byte_swap32 swap_index_twice)+

section \<open>A packet on the stream\<close>

text \<open>
  What one side drives, received by another bus object: the lines of a stream word, and the words of
  a whole packet clocked over with both sides ready.
\<close>

definition loopback :: "'e simbus_pcie_tlp \<Rightarrow> 'd simbus_pcie_tlp \<Rightarrow> 'd simbus_pcie_tlp" where
  "loopback src dst =
     dst\<lparr>s_axis_tx_tdata := m_axis_rx_tdata src, s_axis_tx_tkeep := m_axis_rx_tkeep src,
         s_axis_tx_tlast := m_axis_rx_tlast src, s_axis_tx_tvalid := m_axis_rx_tvalid src\<rparr>"

fun play :: "u32 list \<Rightarrow> 'e simbus_pcie_tlp \<Rightarrow> 'd sender \<Rightarrow> 'd simbus_pcie_tlp \<Rightarrow> 'd simbus_pcie_tlp outcome" where
  "play [] src send dst = Done dst"
| "play [w] src send dst = pcie_tlp_recv_tlp send (loopback (drive_beat [w] src) dst)"
| "play (v # w # rest) src send dst =
     obind (pcie_tlp_recv_tlp send (loopback (drive_beat (v # w # rest) src) dst)) (play rest src send)"

lemma upt_8: "[0..<8] = [0, 1, 2, 3, 4, 5, 6, 7]"
  by (simp add: upt_rec)

lemma keep_bits: "map keep_bit [0..<8] = [3, 2, 1, 0, 7, 6, 5, 4]"
  by (simp add: upt_8 keep_bit_def)

lemma four_bytes: "horner xs i 8 (horner xs (8 + i) 8 (horner xs (16 + i) 8 (horner xs (24 + i) 8 r))) = horner xs i 32 r"
  using horner_split [of xs i 8 24 r] horner_split [of xs "8 + i" 8 16 r] horner_split [of xs "16 + i" 8 8 r]
  by (simp add: add.assoc add.commute [of i])

definition pushed :: "u32 list \<Rightarrow> 'd simbus_pcie_tlp \<Rightarrow> 'd simbus_pcie_tlp" where
  "pushed ws b = b\<lparr>s_tlp_buf := take (s_tlp_cnt b) (s_tlp_buf b) @ ws @ drop (s_tlp_cnt b + length ws) (s_tlp_buf b),
     s_tlp_cnt := s_tlp_cnt b + length ws\<rparr>"

lemma crank_pushed:
  "s_tlp_cnt b < MAX_TLP \<Longrightarrow> length (s_tlp_buf b) = MAX_TLP \<Longrightarrow> crank_recv_tlp w b = Done (pushed [w] b)"
  by (simp add: crank_recv_tlp_def pushed_def upd_conv_take_nth_drop)

lemma pushed_pushed:
  "s_tlp_cnt b + length vs \<le> length (s_tlp_buf b) \<Longrightarrow> pushed ws (pushed vs b) = pushed (vs @ ws) b"
  by (simp add: pushed_def ac_simps)

lemma recv_four:
  assumes "map keep_bit [n0, n1, n2, n3] = [k + 3, k + 2, k + 1, k]" and "\<forall>j \<in> {k..<k + 4}. s_axis_tx_tkeep b ! j = BIT_1"
    and "length (s_tlp_buf b) = MAX_TLP" and "s_tlp_cnt b < MAX_TLP"
  shows "recv_bytes (n0 # n1 # n2 # n3 # rest) 0 0 b =
    recv_bytes rest 0 0 (pushed [horner (s_axis_tx_tdata b) (8 * k) 32 0] b)"
proof -
  have k: "8 * (k + 3) = 24 + 8 * k" "8 * (k + 2) = 16 + 8 * k" "8 * (k + 1) = 8 + 8 * k" by simp_all
  have "keep_bit n0 = k + 3" "keep_bit n1 = k + 2" "keep_bit n2 = k + 1" "keep_bit n3 = k" using assms(1) by simp_all
  then show ?thesis
    using assms(2-4) by (simp only: recv_bytes.simps k Let_def) (simp add: four_bytes crank_pushed)
qed

lemma recv_pair:
  assumes "length (m_axis_rx_tdata src) = 64" and "length (m_axis_rx_tkeep src) = 8"
    and "length (s_tlp_buf dst) = MAX_TLP" and "s_tlp_cnt dst + 2 \<le> MAX_TLP" and "s_axis_tx_tready dst = BIT_1"
  shows "pcie_tlp_recv_tlp send (loopback (drive_beat (v # w # rest) src) dst) =
    (let b = pushed [v, w] (loopback (drive_beat (v # w # rest) src) dst)
     in if rest = [] then complete_recv_tlp send b else Done b)"
proof -
  let ?b = "loopback (drive_beat (v # w # rest) src) dst"
  have keep: "s_axis_tx_tkeep ?b ! j = BIT_1" if "j < 8" for j
    using that assms(2) by (simp add: loopback_def drive_beat_def Let_def nth_fill_bits)
  have lo: "horner (s_axis_tx_tdata ?b) 0 32 0 = v" and hi: "horner (s_axis_tx_tdata ?b) 32 32 0 = w"
    by (rule horner_value; use assms(1) in \<open>simp add: loopback_def drive_beat_def Let_def nth_put_bits take_bit_word_eq_self\<close>)+
  have len: "length (s_tlp_buf ?b) = MAX_TLP" "s_tlp_cnt ?b = s_tlp_cnt dst"
    using assms(3) by (simp_all add: loopback_def)
  have p: "s_axis_tx_tkeep (pushed ws ?b) = s_axis_tx_tkeep ?b" "s_axis_tx_tdata (pushed ws ?b) = s_axis_tx_tdata ?b" for ws
    by (simp_all add: pushed_def)
  have "recv_bytes [0..<8] 0 0 ?b = recv_bytes [4, 5, 6, 7] 0 0 (pushed [v] ?b)"
    unfolding upt_8 by (subst recv_four [where k = 0]) (use keep len assms(4) in \<open>simp_all add: keep_bit_def lo\<close>)
  also have "\<dots> = Done (0, pushed [w] (pushed [v] ?b))"
    by (subst recv_four [where k = 4]) (use keep len assms(4) in \<open>simp_all add: keep_bit_def p hi, simp_all add: pushed_def\<close>)
  also have "\<dots> = Done (0, pushed [v, w] ?b)" using len assms(4) by (simp add: pushed_pushed)
  finally have "recv_bytes [0..<8] 0 0 ?b = Done (0, pushed [v, w] ?b)" .
  then show ?thesis
    using assms(5) by (simp add: pcie_tlp_recv_tlp_def loopback_def drive_beat_def Let_def pushed_def)
qed

lemma recv_single:
  assumes "length (m_axis_rx_tdata src) = 64" and "length (m_axis_rx_tkeep src) = 8"
    and "length (s_tlp_buf dst) = MAX_TLP" and "s_tlp_cnt dst < MAX_TLP" and "s_axis_tx_tready dst = BIT_1"
  shows "pcie_tlp_recv_tlp send (loopback (drive_beat [w] src) dst) =
    complete_recv_tlp send (pushed [w] (loopback (drive_beat [w] src) dst))"
proof -
  let ?b = "loopback (drive_beat [w] src) dst"
  have keep: "s_axis_tx_tkeep ?b ! j = (if j < 4 then BIT_1 else BIT_0)" if "j < 8" for j
    using that assms(2) by (simp add: loopback_def drive_beat_def Let_def nth_fill_bits bit01_def)
  have lo: "horner (s_axis_tx_tdata ?b) 0 32 0 = w"
    by (rule horner_value)
      (use assms(1) in \<open>simp_all add: loopback_def drive_beat_def Let_def nth_put_bits nth_fill_bits take_bit_word_eq_self\<close>)
  have len: "length (s_tlp_buf ?b) = MAX_TLP" "s_tlp_cnt ?b = s_tlp_cnt dst"
    using assms(3) by (simp_all add: loopback_def)
  have p: "s_axis_tx_tkeep (pushed ws ?b) = s_axis_tx_tkeep ?b" for ws by (simp add: pushed_def)
  have "recv_bytes [0..<8] 0 0 ?b = recv_bytes [4, 5, 6, 7] 0 0 (pushed [w] ?b)"
    unfolding upt_8 by (subst recv_four [where k = 0]) (use keep len assms(4) in \<open>simp_all add: keep_bit_def lo\<close>)
  also have "\<dots> = Done (0, pushed [w] ?b)"
    using keep by (simp add: keep_bit_def p)
  finally show ?thesis
    using assms(5) by (simp add: pcie_tlp_recv_tlp_def loopback_def drive_beat_def Let_def pushed_def)
qed

lemma play_delivers:
  "length (m_axis_rx_tdata src) = 64 \<Longrightarrow> length (m_axis_rx_tkeep src) = 8
    \<Longrightarrow> data \<noteq> [] \<Longrightarrow> length (s_tlp_buf dst) = MAX_TLP \<Longrightarrow> s_tlp_cnt dst + length data \<le> MAX_TLP
    \<Longrightarrow> s_axis_tx_tready dst = BIT_1
    \<Longrightarrow> \<exists>m :: 'e simbus_pcie_tlp. play data src send dst = complete_recv_tlp send (pushed data (loopback m dst))"
  for src :: "'e simbus_pcie_tlp"
proof (induction data src send dst rule: play.induct)
  case (2 w src send dst)
  then show ?case by (intro exI) (simp add: recv_single)
next
  case (3 v w rest src send dst)
  let ?m = "drive_beat (v # w # rest) src"
  let ?b = "pushed [v, w] (loopback ?m dst)"
  have beat: "pcie_tlp_recv_tlp send (loopback ?m dst) = (if rest = [] then complete_recv_tlp send ?b else Done ?b)"
    using 3(2-7) by (simp add: recv_pair Let_def)
  show ?case
  proof (cases "rest = []")
    case True
    moreover have "play [] src send = Done" by (rule ext) simp
    ultimately show ?thesis using beat by (intro exI [of _ ?m]) simp
  next
    case False
    have b: "length (s_tlp_buf ?b) = MAX_TLP" "s_tlp_cnt ?b + length rest \<le> MAX_TLP" "s_axis_tx_tready ?b = BIT_1"
      using 3(5-7) by (simp_all add: pushed_def loopback_def)
    have "pcie_tlp_recv_tlp send (loopback ?m dst) = Done ?b" using beat False by simp
    from 3(1) [OF this 3(2,3) False b]
    obtain m :: "'e simbus_pcie_tlp" where "play rest src send ?b = complete_recv_tlp send (pushed rest (loopback m ?b))" by blast
    moreover have "pushed rest (loopback m ?b) = pushed (v # w # rest) (loopback m dst)"
      using 3(5,6) pushed_pushed [of "loopback m dst" "[v, w]" rest]
      by (simp add: loopback_def pushed_def)
    ultimately show ?thesis using beat False by auto
  qed
qed simp

section \<open>A write request and its receiver\<close>

text \<open>The header words of a request.\<close>

lemma masks:
  "w AND 0x3ff = take_bit 10 w" "w AND 0xf = take_bit 4 w" "w AND 0xff = take_bit 8 w" "w AND 7 = take_bit 3 w"
  "w AND 0xf0 = push_bit 4 (take_bit 4 (drop_bit 4 w))" "w AND 0xff000000 = push_bit 24 (take_bit 8 (drop_bit 24 w))"
  "w AND 0xffffff00 = push_bit 8 (take_bit 24 (drop_bit 8 w))" "w AND 0xfff = take_bit 12 w" for w :: u32
proof -
  have m: "(0x3ff :: u32) = mask 10" "(0xf :: u32) = mask 4" "(0xff :: u32) = mask 8" "(7 :: u32) = mask 3"
    "(0xf0 :: u32) = push_bit 4 (mask 4)" "(0xff000000 :: u32) = push_bit 24 (mask 8)"
    "(0xffffff00 :: u32) = push_bit 8 (mask 24)" "(0xfff :: u32) = mask 12"
    by (simp_all add: mask_eq_exp_minus_1 push_bit_eq_mult)
  show "w AND 0x3ff = take_bit 10 w" "w AND 0xf = take_bit 4 w" "w AND 0xff = take_bit 8 w" "w AND 7 = take_bit 3 w"
    "w AND 0xf0 = push_bit 4 (take_bit 4 (drop_bit 4 w))" "w AND 0xff000000 = push_bit 24 (take_bit 8 (drop_bit 24 w))"
    "w AND 0xffffff00 = push_bit 8 (take_bit 24 (drop_bit 8 w))" "w AND 0xfff = take_bit 12 w"
    unfolding m by (rule bit_word_eqI; auto simp: bit_simps)+
qed

lemma type_and_count:
  fixes c :: u32
  assumes "n < 1024" and "k = push_bit 24 c"
  shows "(k OR of_nat n) AND 0xff000000 = k" "unat ((k OR of_nat n) AND 0x3ff) = n"
proof -
  have n: "take_bit 10 (of_nat n :: u32) = of_nat n" and "take_bit 10 n = n"
    using assms(1) by (simp_all add: take_bit_of_nat take_bit_nat_eq_self)
  then have high: "\<not> bit n j" if "10 \<le> j" for j by (metis bit_take_bit_iff not_le that)
  show "(k OR of_nat n) AND 0xff000000 = k"
    unfolding masks assms(2) by (rule bit_word_eqI) (auto simp: bit_simps high)
  have "(k OR of_nat n) AND 0x3ff = of_nat n"
    unfolding masks assms(2) by (subst (2) n [symmetric], rule bit_word_eqI) (auto simp: bit_simps)
  then show "unat ((k OR of_nat n) AND 0x3ff) = n" using assms(1) by (simp add: unat_of_nat)
qed

lemma addr64_words:
  "push_bit 32 (ucast (ucast (drop_bit 32 addr) :: u32)) OR ucast (ucast addr :: u32) = addr"
  "(ucast (drop_bit 32 addr) :: u32) = 0 \<Longrightarrow> ucast (ucast addr :: u32) = addr" for addr :: u64
proof -
  show full: "push_bit 32 (ucast (ucast (drop_bit 32 addr) :: u32)) OR ucast (ucast addr :: u32) = addr"
    by (rule bit_word_eqI) (auto simp: bit_simps)
  show "(ucast (drop_bit 32 addr) :: u32) = 0 \<Longrightarrow> ucast (ucast addr :: u32) = addr"
    using full by simp
qed

text \<open>Receiving a write request of \<open>n\<close> words.\<close>

lemma receive_write_data:
  assumes "write_fun b = Some f" and "s_tlp_buf b = hdr @ map swap_loop data @ rest" and "length hdr = k"
    and "unat (hdr ! 0 AND 0x3ff) = length data" and "0 < k"
  shows "user (receive_write k addr b) = f (write_cookie b) (user b) addr data (s_tlp_buf b ! 1 AND 0xf)
      (drop_bit 4 (s_tlp_buf b ! 1 AND 0xf0))"
proof -
  have z: "s_tlp_buf b ! 0 = hdr ! 0" using assms(2,3,5) by (simp add: nth_append)
  have parts: "take k (s_tlp_buf b) = hdr" "take (length data) (drop k (s_tlp_buf b)) = map swap_loop data"
    using assms(2,3) by simp_all
  have "min (length (s_tlp_buf b) - k) (length data) = length data" using assms(2,3) by simp
  then show ?thesis
    using assms(1,3,4) by (simp add: receive_write_def z Let_def parts comp_def)
qed

definition enables_ok :: "nat \<Rightarrow> nat \<Rightarrow> nat \<Rightarrow> u32 \<Rightarrow> u32 \<Rightarrow> bool" where
  "enables_ok ndata off len be0 beN \<longleftrightarrow>
     (if ndata = 1 then beN = 0 \<and> (\<forall>i < 4. bit be0 i \<longleftrightarrow> off \<le> i \<and> i < len)
      else (\<forall>i < 4. bit be0 i \<longleftrightarrow> off \<le> i) \<and> (\<forall>i < 4. bit beN i \<longleftrightarrow> 4 * (ndata - 1) + i < off + len))"

lemma write_enables_one:
  assumes "off \<le> 3" and "off + unat len \<le> 4"
  shows "\<exists>be. write_enables 1 (int off) len = Done be
    \<and> enables_ok 1 off (unat len) (take_bit 4 be) (take_bit 4 (drop_bit 4 be)) \<and> take_bit 8 be = be"
proof -
  have m: "(0xf :: u32) = mask 4" by (simp add: mask_eq_exp_minus_1)
  let ?be = "(0xf AND NOT (push_bit (unat len) 0xf)) AND (0xf AND push_bit off 0xf) :: u32"
  have "write_enables 1 (int off) len = Done ?be" using assms by (simp add: write_enables_def)
  moreover have "enables_ok 1 off (unat len) (take_bit 4 ?be) (take_bit 4 (drop_bit 4 ?be))"
    unfolding enables_ok_def m using assms
    by (auto simp: bit_simps intro!: bit_word_eqI)
  moreover have "take_bit 8 ?be = ?be" unfolding m by (rule bit_word_eqI) (auto simp: bit_simps)
  ultimately show ?thesis by blast
qed

lemma write_enables_more:
  assumes "off \<le> 3" and "2 \<le> ndata" and "ndata \<le> 1023" and "4 * (ndata - 1) < off + unat len" and "off + unat len \<le> 4 * ndata"
  shows "\<exists>be. write_enables ndata (int off) len = Done be
    \<and> enables_ok ndata off (unat len) (take_bit 4 be) (take_bit 4 (drop_bit 4 be)) \<and> take_bit 8 be = be"
proof -
  have m: "(0xf :: u32) = mask 4" "(0xf0 :: u32) = push_bit 4 (mask 4)"
    by (simp_all add: mask_eq_exp_minus_1 push_bit_eq_mult)
  define olen where "olen = off + unat len - 4 * (ndata - 1)"
  have "unat ((word_of_int (int off) + len) mod 4) = (off + unat len) mod 4"
    using assms(1,3,5) by (simp add: unat_mod unat_word_ariths unat_of_nat)
  moreover have o: "off + unat len = 4 * (ndata - 1) + olen" "1 \<le> olen" "olen \<le> 4"
    using assms(2,4,5) by (auto simp: olen_def)
  then have "(off + unat len) mod 4 = olen mod 4" by (simp only: mod_mult_self4)
  with o(2,3) have "(if (off + unat len) mod 4 = 0 then 4 else (off + unat len) mod 4) = olen"
    by (cases "olen = 4") auto
  ultimately have r: "(if unat ((word_of_int (int off) + len) mod 4) = 0 then 4
      else unat ((word_of_int (int off) + len) mod 4)) = olen" by (simp only:)
  let ?be = "(0xf0 AND NOT (push_bit olen 0xf0)) OR (0xf AND push_bit off 0xf) :: u32"
  have "write_enables ndata (int off) len = Done ?be"
    using assms(2) unfolding write_enables_def Let_def r by simp
  moreover have "enables_ok ndata off (unat len) (take_bit 4 ?be) (take_bit 4 (drop_bit 4 ?be))"
    unfolding enables_ok_def m using assms
    by (auto simp: bit_simps olen_def)
  moreover have "take_bit 8 ?be = ?be" unfolding m by (rule bit_word_eqI) (auto simp: bit_simps)
  ultimately show ?thesis by blast
qed

lemma write_enables_ok:
  assumes "off \<le> 3" and "1 \<le> ndata" and "ndata \<le> 1023" and "4 * (ndata - 1) < off + unat len" and "off + unat len \<le> 4 * ndata"
  shows "\<exists>be. write_enables ndata (int off) len = Done be
    \<and> enables_ok ndata off (unat len) (take_bit 4 be) (take_bit 4 (drop_bit 4 be)) \<and> take_bit 8 be = be"
  using assms write_enables_one [of off len] write_enables_more [of off ndata len]
  by (cases "ndata = 1") auto

lemma request_word_enables:
  assumes "take_bit 8 be = be"
  shows "tlp_request_word g be b AND 0xf = take_bit 4 be" "drop_bit 4 (tlp_request_word g be b AND 0xf0) = take_bit 4 (drop_bit 4 be)"
  unfolding masks tlp_request_word_def by (rule bit_word_eqI; auto simp: bit_simps)+

text \<open>The words of a write request, split into header and data.\<close>

lemma write_tlp_shape:
  assumes "off \<le> 3" and "data \<noteq> []" and "length data \<le> 1023"
    and "4 * (length data - 1) < off + unat len" and "off + unat len \<le> 4 * length data"
  shows "\<exists>be. write_tlp src addr data (int off) len =
      Done ([(if (ucast (drop_bit 32 addr) :: u32) = 0 then 0x40000000 else 0x60000000) OR of_nat (length data),
             tlp_request_word 0 be src] @ addr_words addr @ map swap_loop data)
    \<and> enables_ok (length data) off (unat len) (take_bit 4 be) (take_bit 4 (drop_bit 4 be)) \<and> take_bit 8 be = be"
proof -
  have one: "1 \<le> length data" using assms(2) by (cases data) auto
  obtain be where be: "write_enables (length data) (int off) len = Done be"
      "enables_ok (length data) off (unat len) (take_bit 4 be) (take_bit 4 (drop_bit 4 be))" "take_bit 8 be = be"
    using write_enables_ok [OF assms(1) one assms(3-5)] by blast
  have "word_of_int (int off) + len \<le> 4 * of_nat (length data)"
    using assms(3,5) by (simp add: word_le_nat_alt unat_word_ariths unat_of_nat)
  with be one assms(1,3) show ?thesis by (intro exI [of _ be]) (simp add: write_tlp_def Let_def)
qed

lemma dispatch_write:
  assumes "write_fun b = Some f" and "s_tlp_cnt b \<noteq> 0" and "length data \<le> 1023" and "take_bit 8 be = be"
    and "s_tlp_buf b = ([(if (ucast (drop_bit 32 addr) :: u32) = 0 then 0x40000000 else 0x60000000) OR of_nat (length data),
             tlp_request_word 0 be src] @ addr_words addr) @ map swap_loop data @ rest"
  shows "\<exists>b'. dispatch_tlp b = Done (None, b')
    \<and> user b' = f (write_cookie b) (user b) addr data (take_bit 4 be) (take_bit 4 (drop_bit 4 be))"
proof (cases "(ucast (drop_bit 32 addr) :: u32) = 0")
  case True
  let ?w0 = "0x40000000 OR of_nat (length data) :: u32"
  have w0: "?w0 AND 0xff000000 = 0x40000000" "unat (?w0 AND 0x3ff) = length data"
    using assms(3) by (intro type_and_count [where c = "0x40"]; simp add: push_bit_eq_mult)+
  have buf: "s_tlp_buf b = [?w0, tlp_request_word 0 be src, ucast addr] @ map swap_loop data @ rest"
    using assms(5) True by (simp add: addr_words_def Let_def)
  have "dispatch_tlp b = Done (None, receive_write 3 (ucast (ucast addr :: u32)) b)"
    using assms(2) w0(1) by (simp add: dispatch_tlp_def buf Let_def)
  moreover have "user (receive_write 3 addr b) = f (write_cookie b) (user b) addr data (take_bit 4 be) (take_bit 4 (drop_bit 4 be))"
    using receive_write_data [OF assms(1) buf, of 3] w0(2) request_word_enables [OF assms(4), of 0 src] by (simp add: buf)
  ultimately show ?thesis using addr64_words(2) [OF True] by simp
next
  case False
  let ?w0 = "0x60000000 OR of_nat (length data) :: u32"
  have w0: "?w0 AND 0xff000000 = 0x60000000" "unat (?w0 AND 0x3ff) = length data"
    using assms(3) by (intro type_and_count [where c = "0x60"]; simp add: push_bit_eq_mult)+
  have buf: "s_tlp_buf b = [?w0, tlp_request_word 0 be src, ucast (drop_bit 32 addr), ucast addr] @ map swap_loop data @ rest"
    using assms(5) False by (simp add: addr_words_def Let_def)
  have "dispatch_tlp b = Done (None, receive_write 4 (addr64 b) b)"
    using assms(2) w0(1) by (simp add: dispatch_tlp_def buf Let_def)
  moreover have "addr64 b = addr" using addr64_words(1) [of addr] by (simp add: addr64_def buf)
  moreover have "user (receive_write 4 addr b) = f (write_cookie b) (user b) addr data (take_bit 4 be) (take_bit 4 (drop_bit 4 be))"
    using receive_write_data [OF assms(1) buf, of 4] w0(2) request_word_enables [OF assms(4), of 0 src] by (simp add: buf)
  ultimately show ?thesis by simp
qed

text \<open>C13: A memory write arrives as it was asked for. Take the packet that \<open>simbus_pcie_tlp_write\<close> builds
  for a block of words, with any 64-bit address and the documented offset and length, and clock it
  word pair by word pair over the stream into another bus object: at the end the receiver has called
  its write function exactly once, with the same address (whether the header has three words or
  four), the same words in the same order, and byte enables that mark the bytes from the offset on
  in the first word and up to the end in the last one; its buffer is empty again. For a single word
  the enables end at the length and do not add the offset.\<close>

theorem pcie_write_reaches_remote:
  fixes src :: "'e simbus_pcie_tlp" and dst :: "'d simbus_pcie_tlp"
  assumes "off \<le> 3" and "data \<noteq> []" and "length data \<le> 1023"
    and "4 * (length data - 1) < off + unat len" and "off + unat len \<le> 4 * length data"
    and "pcie_wf src" and "pcie_wf dst" and "s_tlp_cnt dst = 0" and "s_axis_tx_tready dst = BIT_1"
    and "write_fun dst = Some f"
  shows "\<exists>tlp dst' be0 beN. write_tlp src addr data (int off) len = Done tlp \<and> play tlp src send dst = Done dst'
    \<and> user dst' = f (write_cookie dst) (user dst) addr data be0 beN
    \<and> enables_ok (length data) off (unat len) be0 beN \<and> s_tlp_cnt dst' = 0"
proof -
  obtain be where be: "write_tlp src addr data (int off) len =
      Done ([(if (ucast (drop_bit 32 addr) :: u32) = 0 then 0x40000000 else 0x60000000) OR of_nat (length data),
             tlp_request_word 0 be src] @ addr_words addr @ map swap_loop data)" (is "_ = Done ?t")
      "enables_ok (length data) off (unat len) (take_bit 4 be) (take_bit 4 (drop_bit 4 be))" "take_bit 8 be = be"
    using write_tlp_shape [OF assms(1-5)] by blast
  have len: "length ?t \<le> MAX_TLP" using assms(3) by (simp add: addr_words_def Let_def MAX_TLP_def)
  have src: "length (m_axis_rx_tdata src) = 64" "length (m_axis_rx_tkeep src) = 8" and dst: "length (s_tlp_buf dst) = MAX_TLP"
    using assms(6,7) by (simp_all add: pcie_wf_def)
  have "?t \<noteq> []" "s_tlp_cnt dst + length ?t \<le> MAX_TLP" using len assms(8) by simp_all
  from play_delivers [OF src this(1) dst this(2) assms(9)]
  obtain m :: "'e simbus_pcie_tlp" where play: "play ?t src send dst = complete_recv_tlp send (pushed ?t (loopback m dst))" by blast
  let ?b = "pushed ?t (loopback m dst)"
  have b: "write_fun ?b = Some f" "s_tlp_cnt ?b \<noteq> 0" "write_cookie ?b = write_cookie dst" "user ?b = user dst"
    using assms(8,10) by (simp_all add: pushed_def loopback_def)
  have "s_tlp_buf ?b = ([(if (ucast (drop_bit 32 addr) :: u32) = 0 then 0x40000000 else 0x60000000) OR of_nat (length data),
      tlp_request_word 0 be src] @ addr_words addr) @ map swap_loop data @ drop (length ?t) (s_tlp_buf dst)"
    using assms(8) by (simp add: pushed_def loopback_def)
  from dispatch_write [OF b(1,2) assms(3) be(3) this] obtain b' where "dispatch_tlp ?b = Done (None, b')"
      "user b' = f (write_cookie dst) (user dst) addr data (take_bit 4 be) (take_bit 4 (drop_bit 4 be))"
    unfolding b by blast
  with play have "play ?t src send dst = Done (b'\<lparr>s_tlp_cnt := 0\<rparr>)" by (simp add: complete_recv_tlp_def)
  with be \<open>user b' = _\<close> show ?thesis by (intro exI conjI) (assumption, assumption, simp_all)
qed

section \<open>A read request and its completion\<close>

definition completion_tlp :: "'d simbus_pcie_tlp \<Rightarrow> u32 \<Rightarrow> u64 \<Rightarrow> u32 list \<Rightarrow> u32 list" where
  "completion_tlp b req addr ws =
     [0x4a000000 OR of_nat (length ws), push_bit 16 (ucast (request_id b)) OR (of_nat (length ws * 4) AND 0x0fff),
      (req AND 0xffffff00) OR ucast (addr AND 0x0000007f)] @ map byte_swap32 ws"

lemma receive_read_data:
  assumes "read_fun b = Some g" and "unat (s_tlp_buf b ! 0 AND 0x3ff) = length ws" and "s_tlp_buf b ! 1 = req"
    and "g (read_cookie b) (user b) addr (length ws) (req AND 0xf) (drop_bit 4 (req AND 0xf0)) = (ws, u)"
  shows "receive_read addr b = Done (completion_tlp b req addr ws, b\<lparr>user := u\<rparr>)"
  using assms by (simp add: receive_read_def Let_def completion_tlp_def)

lemma dispatch_read:
  assumes "read_fun b = Some g" and "s_tlp_cnt b \<noteq> 0" and "1 \<le> length ws" and "length ws \<le> 1023"
    and "s_tlp_buf b = read_tlp src g' addr (length ws) @ rest"
    and "g (read_cookie b) (user b) addr (length ws) 0xf (if length ws = 1 then 0 else 0xf) = (ws, u)"
  shows "dispatch_tlp b = Done (Some (completion_tlp b
    (tlp_request_word g' (if length ws = 1 then 0x0f else 0xff) src) addr ws), b\<lparr>user := u\<rparr>)"
proof -
  define be :: u32 where "be = (if length ws = 1 then 0x0f else 0xff)"
  have be8: "take_bit 8 be = be" and be0: "take_bit 4 be = 0xf"
    and beN: "take_bit 4 (drop_bit 4 be) = (if length ws = 1 then 0 else 0xf)"
    by (simp_all add: be_def)
  let ?r = "tlp_request_word g' be src"
  have g: "g (read_cookie b) (user b) addr (length ws) (?r AND 0xf) (drop_bit 4 (?r AND 0xf0)) = (ws, u)"
    using assms(6) unfolding request_word_enables [OF be8] be0 beN .
  show ?thesis
  proof (cases "(ucast (drop_bit 32 addr) :: u32) = 0")
    case True
    let ?w0 = "0 OR of_nat (length ws) :: u32"
    have w0: "?w0 AND 0xff000000 = 0" "unat (?w0 AND 0x3ff) = length ws"
      using assms(4) by (intro type_and_count [where c = 0]; simp)+
    have buf: "s_tlp_buf b = [?w0, ?r, ucast addr] @ rest"
      using assms(5) True by (simp add: read_tlp_def addr_words_def Let_def be_def)
    have a: "ucast (s_tlp_buf b ! 2) = addr" using addr64_words(2) [OF True] by (simp add: buf)
    have "receive_read addr b = Done (completion_tlp b ?r addr ws, b\<lparr>user := u\<rparr>)"
      using w0(2) by (intro receive_read_data [OF assms(1) _ _ g]) (simp_all add: buf)
    then have "dispatch_tlp b = Done (Some (completion_tlp b ?r addr ws), b\<lparr>user := u\<rparr>)"
      using assms(2) w0(1) unfolding dispatch_tlp_def Let_def a by (simp add: buf)
    then show ?thesis unfolding be_def .
  next
    case False
    let ?w0 = "0x20000000 OR of_nat (length ws) :: u32"
    have w0: "?w0 AND 0xff000000 = 0x20000000" "unat (?w0 AND 0x3ff) = length ws"
      using assms(4) by (intro type_and_count [where c = "0x20"]; simp add: push_bit_eq_mult)+
    have buf: "s_tlp_buf b = [?w0, ?r, ucast (drop_bit 32 addr), ucast addr] @ rest"
      using assms(5) False by (simp add: read_tlp_def addr_words_def Let_def be_def)
    have a: "addr64 b = addr" using addr64_words(1) [of addr] by (simp add: addr64_def buf)
    have "receive_read addr b = Done (completion_tlp b ?r addr ws, b\<lparr>user := u\<rparr>)"
      using w0(2) by (intro receive_read_data [OF assms(1) _ _ g]) (simp_all add: buf)
    then have "dispatch_tlp b = Done (Some (completion_tlp b ?r addr ws), b\<lparr>user := u\<rparr>)"
      using assms(2) w0(1) unfolding dispatch_tlp_def Let_def a by (simp add: buf)
    then show ?thesis unfolding be_def .
  qed
qed

lemma completion_count:
  assumes "length ws \<le> 1023"
  shows "completion_tlp b req addr ws ! 0 AND 0xff000000 = 0x4a000000"
    "unat (completion_tlp b req addr ws ! 0 AND 0x3ff) = length ws"
  using assms type_and_count [of "length ws" "0x4a000000" "0x4a"] by (simp_all add: completion_tlp_def push_bit_eq_mult)

lemma completion_success: "completion_status (completion_tlp b req addr ws) = 0"
proof -
  have "drop_bit 13 (push_bit 16 (ucast (request_id b)) OR (of_nat (length ws * 4) AND 0xfff)) AND 7 = (0 :: u32)"
    unfolding masks by (rule bit_word_eqI) (auto simp: bit_simps)
  then show ?thesis by (simp add: completion_status_def completion_tlp_def)
qed

lemma completion_tag:
  assumes "take_bit 8 be = be"
  shows "unat (drop_bit 8 (completion_tlp b (tlp_request_word g be src) addr ws ! 2) AND 0xff) = unat g"
proof -
  have m: "(0x7f :: u64) = mask 7" by (simp add: mask_eq_exp_minus_1)
  have be: "\<not> bit be j" if "8 \<le> j" for j using assms that by (metis bit_take_bit_iff not_le)
  have "drop_bit 8 ((tlp_request_word g be src AND 0xffffff00) OR ucast (addr AND 0x7f)) AND 0xff = ucast g"
    unfolding masks tlp_request_word_def m by (rule bit_word_eqI) (auto simp: bit_simps be dest: bit_imp_le_length)
  moreover have "unat (ucast g :: u32) = unat g"
    using unsigned_less [of g, where 'a = nat] by (simp add: unsigned_ucast_eq take_bit_nat_eq_self)
  ultimately show ?thesis by (simp add: completion_tlp_def)
qed

lemma completion_data:
  "map swap_loop (take (length ws) (drop 3 (completion_tlp b req addr ws))) = ws"
  by (simp add: completion_tlp_def comp_def)

lemma length_completion [simp]: "length (completion_tlp b req addr ws) = length ws + 3"
  by (simp add: completion_tlp_def)

lemma dispatch_completion:
  assumes "length ws \<le> 1023" and "take_bit 8 be = be" and "c = completion_tlp b (tlp_request_word g be src) addr ws"
    and "s_tlp_buf a = c @ rest" and "s_tlp_cnt a = length c" and "completions a ! unat g = None"
  shows "dispatch_tlp a = Done (None, a\<lparr>completions := (completions a)[unat g := Some c]\<rparr>)"
proof -
  have c: "s_tlp_buf a ! 0 AND 0xff000000 = 0x4a000000" "unat (s_tlp_buf a ! 0 AND 0x3ff) = length ws"
    "unat (drop_bit 8 (s_tlp_buf a ! 2) AND 0xff) = unat g"
    using completion_count [OF assms(1)] completion_tag [OF assms(2)] unfolding assms(3,4) by (simp_all add: nth_append)
  have t: "take (3 + length ws) (s_tlp_buf a) = c" "length c = length ws + 3" using assms(3,4) by simp_all
  have "copy_tlp_to_completion (unat g) (3 + length ws) a = Done (a\<lparr>completions := (completions a)[unat g := Some c]\<rparr>)"
    unfolding copy_tlp_to_completion_def t(1) using assms(5,6) t(2) by simp
  then show ?thesis unfolding dispatch_tlp_def Let_def c using assms(5) t(2) by simp
qed

text \<open>Feeding a packet into an object whose buffer is empty.\<close>

lemma play_from_empty:
  fixes src :: "'e simbus_pcie_tlp" and dst :: "'d simbus_pcie_tlp"
  assumes "pcie_wf src" and "pcie_wf dst" and "s_tlp_cnt dst = 0" and "s_axis_tx_tready dst = BIT_1"
    and "t \<noteq> []" and "length t \<le> MAX_TLP"
  shows "\<exists>b. play t src send dst = complete_recv_tlp send b \<and> s_tlp_buf b = t @ drop (length t) (s_tlp_buf dst)
    \<and> s_tlp_cnt b = length t \<and> read_fun b = read_fun dst \<and> read_cookie b = read_cookie dst \<and> user b = user dst
    \<and> completions b = completions dst \<and> request_id b = request_id dst"
proof -
  have src: "length (m_axis_rx_tdata src) = 64" "length (m_axis_rx_tkeep src) = 8" and dst: "length (s_tlp_buf dst) = MAX_TLP"
    using assms(1,2) by (simp_all add: pcie_wf_def)
  have "s_tlp_cnt dst + length t \<le> MAX_TLP" using assms(3,6) by simp
  from play_delivers [OF src assms(5) dst this assms(4)]
  obtain m :: "'e simbus_pcie_tlp" where "play t src send dst = complete_recv_tlp send (pushed t (loopback m dst))" by blast
  then show ?thesis using assms(3) by (intro exI conjI) (assumption, simp_all add: pushed_def loopback_def)
qed

text \<open>C12: A memory read returns the words of the remote side. The request packet that \<open>simbus_pcie_tlp_read\<close>
  sends, for any 64-bit address and 1 to 1023 words, makes the receiver call its read function once
  with that address and that number of words and hand one completion packet to its send function;
  that packet, clocked back into the requester, is filed under the request's tag, ends the wait at
  once, is successful, and gives the caller exactly the words the remote function returned, in order;
  the tag is free again.\<close>

theorem pcie_read_returns_remote_words:
  fixes a :: "'e simbus_pcie_tlp" and b :: "'d simbus_pcie_tlp"
  assumes "1 \<le> length ws" and "length ws \<le> 1023"
    and "pcie_wf a" and "s_tlp_cnt a = 0" and "s_axis_tx_tready a = BIT_1" and "completions a ! unat g = None"
    and "pcie_wf b" and "s_tlp_cnt b = 0" and "s_axis_tx_tready b = BIT_1" and "read_fun b = Some f"
    and "f (read_cookie b) (user b) addr (length ws) 0xf (if length ws = 1 then 0 else 0xf) = (ws, u)"
  shows "\<exists>c b' a' a''. play (read_tlp a g addr (length ws)) a send b = send c b' \<and> user b' = u
    \<and> play c b send' a = Done a'
    \<and> obind (await_completion g a') (read_words (length ws)) = Done (ws, a'') \<and> completions a'' ! unat g = None"
proof -
  let ?q = "read_tlp a g addr (length ws)" and ?be = "if length ws = 1 then 0x0f else 0xff :: u32"
  have "?q \<noteq> []" "length ?q \<le> MAX_TLP" by (simp_all add: read_tlp_def addr_words_def Let_def MAX_TLP_def)
  from play_from_empty [OF assms(3,7-9) this]
  obtain b1 where b1: "play ?q a send b = complete_recv_tlp send b1" "s_tlp_buf b1 = ?q @ drop (length ?q) (s_tlp_buf b)"
      "s_tlp_cnt b1 = length ?q" "read_fun b1 = read_fun b" "read_cookie b1 = read_cookie b" "user b1 = user b"
    by blast
  have r: "read_fun b1 = Some f" "s_tlp_cnt b1 \<noteq> 0" using b1(3,4) assms(10) \<open>?q \<noteq> []\<close> by simp_all
  let ?c = "completion_tlp b1 (tlp_request_word g ?be a) addr ws"
  have "dispatch_tlp b1 = Done (Some ?c, b1\<lparr>user := u\<rparr>)"
    using assms(11) b1(5,6) by (intro dispatch_read [OF r assms(1,2) b1(2)]) simp
  then have sent: "play ?q a send b = send ?c (b1\<lparr>user := u, s_tlp_cnt := 0\<rparr>)"
    by (simp add: b1(1) complete_recv_tlp_def)
  have "?c \<noteq> []" "length ?c \<le> MAX_TLP" using assms(2) by (auto simp: MAX_TLP_def completion_tlp_def)
  from play_from_empty [OF assms(7,3-5) this]
  obtain a1 where a1: "play ?c b send' a = complete_recv_tlp send' a1" "s_tlp_buf a1 = ?c @ drop (length ?c) (s_tlp_buf a)"
      "s_tlp_cnt a1 = length ?c" "completions a1 = completions a" by blast
  have be: "take_bit 8 ?be = ?be" by simp
  have none: "completions a1 ! unat g = None" using a1(4) assms(6) by simp
  define a2 where "a2 = a1\<lparr>completions := (completions a1)[unat g := Some ?c], s_tlp_cnt := 0\<rparr>"
  have filed: "play ?c b send' a = Done a2"
    unfolding a1(1) complete_recv_tlp_def dispatch_completion [OF assms(2) be refl a1(2,3) none] a2_def by simp
  have g: "unat g < length (completions a1)"
    using a1(4) assms(3) unsigned_less [of g, where 'a = nat] by (simp add: pcie_wf_def)
  then have "await_completion g a2 = Done (?c, a2\<lparr>completions := (completions a2)[unat g := None]\<rparr>)"
    by (simp add: await_completion_def a2_def Let_def)
  moreover have "read_words (length ws) (completion_tlp b1 req addr ws, a3) = Done (ws, a3)"
    for req and a3 :: "'e simbus_pcie_tlp"
    unfolding read_words_def prod.case completion_count(2) [OF assms(2)]
    by (simp add: completion_success completion_data del: length_drop take_all_iff)
  ultimately have "obind (await_completion g a2) (read_words (length ws)) =
      Done (ws, a2\<lparr>completions := (completions a2)[unat g := None]\<rparr>)" by (simp split del: if_split)
  with sent filed g show ?thesis by (intro exI conjI) (assumption, simp, assumption, assumption, simp add: a2_def)
qed

section \<open>Concrete packets\<close>

text \<open>A remote memory that is a list of words at address 0, and two bus objects.\<close>

definition demo_root :: "u32 list \<Rightarrow> u32 list simbus_pcie_tlp" where
  "demo_root mem = (init_simbus_pcie_tlp ''root'' (script []) 0 mem)
     \<lparr>write_fun := Some (\<lambda>c m a ws be0 beN. m @ ws),
      read_fun := Some (\<lambda>c m a n be0 beN. (take n m, m))\<rparr>"

lemma demo_root_sel:
  "pcie_wf (demo_root mem)" "s_tlp_cnt (demo_root mem) = 0" "s_axis_tx_tready (demo_root mem) = BIT_1"
  "user (demo_root mem) = mem" "write_fun (demo_root mem) = Some (\<lambda>c m a ws be0 beN. m @ ws)"
  "read_fun (demo_root mem) = Some (\<lambda>c m a n be0 beN. (take n m, m))"
  "unat (g :: u8) < 256 \<Longrightarrow> completions (demo_root mem) ! unat g = None"
  using pcie_wf_init [of "''root''" "script []" 0 mem]
  by (simp_all add: demo_root_def init_simbus_pcie_tlp_def pcie_wf_def)

theorem pcie_write_reaches_remote_witness:
  "\<exists>tlp dst' be0 beN. write_tlp (demo_root []) 0x100000040 [7, 8] 1 7 = Done tlp
    \<and> play tlp (demo_root []) send_queued (demo_root [5]) = Done dst'
    \<and> user dst' = [5, 7, 8] \<and> enables_ok (Suc (Suc 0)) 1 7 be0 beN \<and> s_tlp_cnt dst' = 0"
  using pcie_write_reaches_remote [of 1 "[7, 8]" 7 "demo_root []" "demo_root [5]", OF _ _ _ _ _ demo_root_sel(1,1,2,3,5),
      where addr = "0x100000040" and send = send_queued]
  by (simp add: demo_root_sel)

theorem pcie_read_returns_remote_words_witness:
  "\<exists>c b' a' a''. play (read_tlp (demo_root []) 3 64 2) (demo_root []) send_queued (demo_root [5, 6, 7]) = send_queued c b'
    \<and> play c (demo_root [5, 6, 7]) send_queued (demo_root []) = Done a'
    \<and> obind (await_completion 3 a') (read_words 2) = Done ([5, 6], a'')"
proof -
  have t: "completions (demo_root []) ! unat (3 :: u8) = None" by (rule demo_root_sel(7)) simp
  have "(\<lambda>c m a n be0 beN. (take n m, m)) (read_cookie (demo_root [5, 6, 7])) (user (demo_root [5, 6, 7])) 64 (length [5, 6 :: u32]) 0xf
      (if length [5, 6 :: u32] = 1 then 0 else 0xf) = ([5, 6], [5, 6, 7])"
    by (simp add: demo_root_sel)
  from pcie_read_returns_remote_words [OF _ _ demo_root_sel(1,2,3) t demo_root_sel(1,2,3,6) this]
  show ?thesis by (simp add: numeral_2_eq_2) blast
qed

end
