(* ===== verification/Sim_Server_Bus.thy ===== *)
theory Sim_Server_Bus
  imports Sim_Base Sim_MT "HOL-Library.List_Lexorder" "HOL-Library.Char_ord"
begin

text \<open>
  The state of the bus server and the part of a protocol that all busses share: server/priv.h,
  server/simtime.h, server/protocol.h and server/protocol.cc.

  A \<open>std::map\<close> keyed by strings is an association list in key order; the order shows in the
  UNTIL messages and in every loop over devices.  The interface of such a map is the locale
  \<open>string_map\<close>.  A pointer to a device plug is the plug's key in the device map, which owns
  it.  The fields of \<open>protocol_t\<close> are kept in the record of the one bus that owns the
  protocol object, and \<open>engine\<close> is the state of the derived class; the virtual functions are a
  record of functions.

  The waveform writer is third-party code without influence on the busses, so the trace calls
  are dropped, as are the messages to the terminal and the protocol log.
\<close>

section \<open>Maps with string keys\<close>

type_synonym 'a smap = "(string \<times> 'a) list"

fun smap_put :: "string \<Rightarrow> 'a \<Rightarrow> 'a smap \<Rightarrow> 'a smap" where
  "smap_put k v [] = [(k, v)]"
| "smap_put k v ((k', v') # m) =
     (if k < k' then (k, v) # (k', v') # m else if k = k' then (k, v) # m else (k', v') # smap_put k v m)"

text \<open>Changing the value at a key that is there, and all values.\<close>

definition smap_at :: "string \<Rightarrow> ('a \<Rightarrow> 'a) \<Rightarrow> 'a smap \<Rightarrow> 'a smap" where
  "smap_at k f m = map (\<lambda>(k', v). (k', if k' = k then f v else v)) m"

definition smap_all :: "('a \<Rightarrow> 'b) \<Rightarrow> 'a smap \<Rightarrow> 'b smap" where
  "smap_all f m = map (\<lambda>(k, v). (k, f v)) m"

abbreviation smap_ok :: "'a smap \<Rightarrow> bool" where
  "smap_ok m \<equiv> sorted_wrt (<) (map fst m)"

lemma map_of_put [simp]: "map_of (smap_put k v m) = (map_of m)(k \<mapsto> v)"
  by (induction k v m rule: smap_put.induct) auto

lemma set_keys_put [simp]: "fst ` set (smap_put k v m) = insert k (fst ` set m)"
  by (induction k v m rule: smap_put.induct) auto

lemma put_ok: "smap_ok m \<Longrightarrow> smap_ok (smap_put k v m)"
proof (induction k v m rule: smap_put.induct)
  case (2 k v k' v' m)
  then have m: "\<forall>x \<in> fst ` set m. k' < x" and IH: "k' < k \<Longrightarrow> smap_ok (smap_put k v m)" by auto
  consider "k < k'" | "k = k'" | "k' < k" by (rule linorder_cases)
  then show ?case
  proof cases
    case 1
    then show ?thesis using m 2(2) by auto
  next
    case 3
    then have "\<not> k < k'" "k \<noteq> k'" by auto
    moreover have "\<forall>x \<in> fst ` set (smap_put k v m). k' < x" using m 3 by simp
    ultimately show ?thesis using IH [OF 3] by simp
  qed (use 2 in simp)
qed simp

lemma map_of_at: "map_of (smap_at k f m) = (map_of m)(k := map_option f (map_of m k))"
  by (induction m) (auto simp: smap_at_def)

lemma map_of_all: "map_of (smap_all f m) k = map_option f (map_of m k)"
  by (induction m) (auto simp: smap_all_def)

lemma keys_at [simp]: "map fst (smap_at k f m) = map fst m"
  by (induction m) (auto simp: smap_at_def)

lemma keys_all [simp]: "map fst (smap_all f m) = map fst m"
  by (induction m) (auto simp: smap_all_def)

locale string_map =
  fixes get :: "'m \<Rightarrow> string \<Rightarrow> 'a option" and put :: "string \<Rightarrow> 'a \<Rightarrow> 'm \<Rightarrow> 'm" and wf :: "'m \<Rightarrow> bool"
  assumes get_put: "get (put k v m) = (get m)(k \<mapsto> v)" and wf_put: "wf m \<Longrightarrow> wf (put k v m)"
begin

text \<open>Storing a list of assignments with distinct keys.\<close>

lemma fold_get:
  "distinct (map fst kvs) \<Longrightarrow> (k, v) \<in> set kvs \<Longrightarrow> get (fold (\<lambda>(k, v). put k v) kvs m) k = Some v"
proof (induction kvs arbitrary: m rule: rev_induct)
  case (snoc kv kvs)
  obtain k' v' where kv: "kv = (k', v')" by (cases kv)
  show ?case
  proof (cases "(k, v) = kv")
    case True
    then show ?thesis by (simp add: kv get_put)
  next
    case False
    with snoc.prems have "(k, v) \<in> set kvs" "k \<noteq> k'" by (auto simp: kv image_iff rev_image_eqI)
    with snoc show ?thesis by (simp add: kv get_put)
  qed
qed simp

lemma fold_other: "k \<notin> fst ` set kvs \<Longrightarrow> get (fold (\<lambda>(k, v). put k v) kvs m) k = get m k"
  by (induction kvs arbitrary: m) (auto simp: get_put)

lemma fold_wf: "wf m \<Longrightarrow> wf (fold (\<lambda>(k, v). put k v) kvs m)"
  by (induction kvs arbitrary: m) (auto simp: wf_put)

end

interpretation sm: string_map map_of smap_put smap_ok
  by unfold_locales (simp_all add: put_ok)

text \<open>\<open>m[k]\<close> of a map of vectors or strings: a missing entry reads as empty.\<close>

definition entry :: "'a list smap \<Rightarrow> string \<Rightarrow> 'a list" where
  "entry m k = (case map_of m k of None \<Rightarrow> [] | Some v \<Rightarrow> v)"

lemma entry_put [simp]: "entry (smap_put k v m) k' = (if k' = k then v else entry m k')"
  by (simp add: entry_def)

section \<open>Simulation time\<close>

record simtime =
  st_mant :: u64
  st_exp :: int

definition zero_time :: simtime where
  "zero_time = \<lparr>st_mant = 0, st_exp = 0\<rparr>"

text \<open>\<open>while (e' < e) { mant *= 10; e -= 1; }\<close>\<close>

definition rescale :: "u64 \<Rightarrow> int \<Rightarrow> int \<Rightarrow> u64" where
  "rescale m e e' = ((\<lambda>x. x * 10) ^^ nat (e - e')) m"

definition simtime_add :: "simtime \<Rightarrow> simtime \<Rightarrow> simtime" where
  "simtime_add this that =
     (let m = rescale (st_mant this) (st_exp this) (st_exp that);
          e = min (st_exp this) (st_exp that)
      in \<lparr>st_mant = m + rescale (st_mant that) (st_exp that) e, st_exp = e\<rparr>)"

definition simtime_less :: "simtime \<Rightarrow> simtime \<Rightarrow> bool" where
  "simtime_less l r = (rescale (st_mant l) (st_exp l) (st_exp r) < rescale (st_mant r) (st_exp r) (st_exp l))"

definition units_value :: "simtime \<Rightarrow> int \<Rightarrow> u64" where
  "units_value t use_units =
     rescale (((\<lambda>x. (x + 5) div 10) ^^ nat (use_units - st_exp t)) (st_mant t)) (st_exp t) use_units"

lemma rescale_power: "rescale m e e' = m * 10 ^ nat (e - e')"
proof -
  have "((\<lambda>x. x * 10) ^^ n) m = m * 10 ^ n" for n by (induction n) (simp_all add: ac_simps)
  then show ?thesis by (simp add: rescale_def)
qed

section \<open>Devices and busses\<close>

record bus_device_plug =
  plug_name :: string
  host_flag :: bool
  plug_ident :: u32
  plug_fd :: int
  ready_flag :: bool
  exited_flag :: bool
  ready_time :: u64
  ready_scale :: int
  client_signals :: "bitval list smap"
  send_signals :: "bitval list smap"

definition new_plug :: "string \<Rightarrow> bool \<Rightarrow> u32 \<Rightarrow> bus_device_plug" where
  "new_plug nm host idn =
     \<lparr>plug_name = nm, host_flag = host, plug_ident = idn, plug_fd = -1, ready_flag = False, exited_flag = False,
      ready_time = 0, ready_scale = 0, client_signals = [], send_signals = []\<rparr>"

record 'e bus_state =
  bus_name :: string
  engine :: 'e
  cur_time :: simtime
  rand_state :: mt_context
  options :: "string smap"
  bus_fd :: int
  unlink_on_initialization :: "string list"
  finished :: bool
  device_map :: "bus_device_plug smap"

text \<open>What the server does to its sockets and files.\<close>

datatype io = Sent int string | Closed int | Unlinked string

text \<open>The virtual functions of \<open>protocol_t\<close>; \<open>wrap_up_configuration\<close> also returns its flag.\<close>

record 'e vtable =
  vt_wrap_up :: "'e bus_state \<Rightarrow> (bool \<times> 'e bus_state) outcome"
  vt_run_init :: "'e bus_state \<Rightarrow> 'e bus_state outcome"
  vt_run_run :: "'e bus_state \<Rightarrow> 'e bus_state outcome"

text \<open>The constructor of \<open>protocol_t\<close> in the record \<open>service_add_bus\<close> fills.\<close>

definition new_bus :: "string \<Rightarrow> 'e \<Rightarrow> bus_device_plug smap \<Rightarrow> string smap \<Rightarrow> 'e bus_state" where
  "new_bus nm e devs opts =
     \<lparr>bus_name = nm, engine = e, cur_time = zero_time,
      rand_state = simbus_mt_sgenrand 1 \<lparr>mti = 0, mt = replicate 1023 0\<rparr>, options = opts,
      bus_fd = -1, unlink_on_initialization = [], finished = False, device_map = devs\<rparr>"

text \<open>\<open>options[key]\<close>: a missing key is entered with an empty value.\<close>

definition get_option :: "string \<Rightarrow> 'e bus_state \<Rightarrow> string \<times> 'e bus_state" where
  "get_option key b =
     (case map_of (options b) key of
        Some v \<Rightarrow> (v, b)
      | None \<Rightarrow> ([], b\<lparr>options := smap_put key [] (options b)\<rparr>))"

definition advance_time :: "u64 \<Rightarrow> int \<Rightarrow> 'e bus_state \<Rightarrow> 'e bus_state" where
  "advance_time m e b = b\<lparr>cur_time := simtime_add (cur_time b) \<lparr>st_mant = m, st_exp = e\<rparr>\<rparr>"

definition lrand :: "'e bus_state \<Rightarrow> (u64 \<times> 'e bus_state) outcome" where
  "lrand b = obind (simbus_mt_genrand (rand_state b)) (\<lambda>(r, c). Done (r, b\<lparr>rand_state := c\<rparr>))"

subsection \<open>Signals of a device\<close>

text \<open>\<open>send_signals[nm] = v\<close> and \<open>client_signals[nm] = v\<close>, and \<open>send_signals[nm][0] = x\<close>, which needs
  an element to be there.\<close>

definition put_send :: "string \<Rightarrow> bitval list \<Rightarrow> bus_device_plug \<Rightarrow> bus_device_plug" where
  "put_send nm v p = p\<lparr>send_signals := smap_put nm v (send_signals p)\<rparr>"

definition put_client :: "string \<Rightarrow> bitval list \<Rightarrow> bus_device_plug \<Rightarrow> bus_device_plug" where
  "put_client nm v p = p\<lparr>client_signals := smap_put nm v (client_signals p)\<rparr>"

definition drive0 :: "string \<Rightarrow> bitval \<Rightarrow> bus_device_plug \<Rightarrow> bus_device_plug outcome" where
  "drive0 nm x p =
     (case entry (send_signals p) nm of
        [] \<Rightarrow> Stop Undefined
      | _ # xs \<Rightarrow> Done (put_send nm (x # xs) p))"

abbreviation in_sig :: "bus_device_plug \<Rightarrow> string \<Rightarrow> bitval list" where
  "in_sig p nm \<equiv> entry (client_signals p) nm"

abbreviation out_sig :: "bus_device_plug \<Rightarrow> string \<Rightarrow> bitval list" where
  "out_sig p nm \<equiv> entry (send_signals p) nm"

definition at_plug :: "string \<Rightarrow> (bus_device_plug \<Rightarrow> bus_device_plug) \<Rightarrow> 'e bus_state \<Rightarrow> 'e bus_state" where
  "at_plug k f b = b\<lparr>device_map := smap_at k f (device_map b)\<rparr>"

definition all_plugs :: "(bus_device_plug \<Rightarrow> bus_device_plug) \<Rightarrow> 'e bus_state \<Rightarrow> 'e bus_state" where
  "all_plugs f b = b\<lparr>device_map := smap_all f (device_map b)\<rparr>"

section \<open>One step of a bus\<close>

text \<open>\<open>snprintf(buf, sizeof buf, "UNTIL %" PRIu64 "e%d", mant, exp)\<close> and the loop over the signals.\<close>

definition until_line :: "simtime \<Rightarrow> bitval list smap \<Rightarrow> string" where
  "until_line t sigs =
     ''UNTIL '' @ dec_nat (unat (st_mant t)) @ ''e'' @ dec_int (st_exp t)
     @ concat (map (\<lambda>(nm, v). '' '' @ nm @ ''='' @ msb_first (length v) v) sigs)"

text \<open>The buffer has 4097 bytes; \<open>os_write\<close> is what \<open>write\<close> returns.\<close>

fun send_until :: "(int \<Rightarrow> string \<Rightarrow> int) \<Rightarrow> simtime \<Rightarrow> bus_device_plug smap \<Rightarrow> io list outcome" where
  "send_until os_write t [] = Done []"
| "send_until os_write t ((k, p) # ds) =
     (let line = until_line t (send_signals p)
      in c_defined (length line < 4097)
           (c_assert (os_write (plug_fd p) (line @ [NL]) = int (length line + 1))
             (obind (send_until os_write t ds) (\<lambda>out. Done (Sent (plug_fd p) (line @ [NL]) # out)))))"

definition bus_ready :: "'e vtable \<Rightarrow> (int \<Rightarrow> string \<Rightarrow> int) \<Rightarrow> 'e bus_state \<Rightarrow> ('e bus_state \<times> io list) outcome" where
  "bus_ready vt os_write bus =
     obind (vt_run_run vt (all_plugs (\<lambda>p. p\<lparr>ready_flag := False\<rparr>) bus)) (\<lambda>b.
       if finished b
       then Done ((all_plugs (\<lambda>p. p\<lparr>exited_flag := True\<rparr>) b)\<lparr>bus_fd := -1\<rparr>,
              concat (map (\<lambda>(k, p). [Sent (plug_fd p) (''FINISH'' @ [NL]), Closed (plug_fd p)]) (device_map b))
              @ [Closed (bus_fd b)])
       else obind (send_until os_write (cur_time b) (device_map b)) (\<lambda>out. Done (b, out)))"

end
