(* ===== verification/Sim_Server_Client.thy ===== *)
theory Sim_Server_Client
  imports Sim_Server_Bus
begin

text \<open>
  The server's side of one connection: server/client.h and server/client.cc.

  A client collects the bytes of its socket in a buffer of 4096 bytes and obeys one line per
  \<open>read\<close>: HELLO binds it to a device plug of its bus, READY stores its time and signals, FINISH
  detaches it.  \<open>read\<close> is an event of the environment; \<open>os_write\<close> is what \<open>write\<close>
  returns.  The bus of a client is found by its key once, by the caller.
\<close>

section \<open>Commands\<close>

record client_state =
  cl_bus :: string
  cl_dev_name :: string
  cl_interface :: "string option"
  cl_buffer :: string

definition new_client :: "string \<Rightarrow> client_state" where
  "new_client key = \<lparr>cl_bus = key, cl_dev_name = [], cl_interface = None, cl_buffer = []\<rparr>"

definition is_exited :: "client_state \<Rightarrow> 'e bus_state \<Rightarrow> bool" where
  "is_exited c b =
     (case cl_interface c of
        None \<Rightarrow> False
      | Some k \<Rightarrow> (case map_of (device_map b) k of None \<Rightarrow> False | Some p \<Rightarrow> exited_flag p))"

text \<open>The arguments of a line: words between blanks and carriage returns; the word before a leading
  blank is empty.\<close>

definition white :: "char \<Rightarrow> bool" where
  "white c \<longleftrightarrow> c = CHR '' '' \<or> c = CHR 0x0D"

function split_argv :: "string \<Rightarrow> string list" where
  "split_argv [] = []"
| "split_argv (c # s) =
     takeWhile (\<lambda>x. \<not> white x) (c # s)
     # (case dropWhile (\<lambda>x. \<not> white x) (c # s) of [] \<Rightarrow> [] | _ # r \<Rightarrow> split_argv (dropWhile white r))"
  by pat_completeness auto
termination
proof (relation "measure length")
  fix c :: char and s r :: string and x
  assume "dropWhile (\<lambda>x. \<not> white x) (c # s) = x # r"
  then have "length (x # r) \<le> length (c # s)" by (metis length_dropWhile_le)
  then show "(dropWhile white r, c # s) \<in> measure length"
    using length_dropWhile_le [of white r] by (simp add: le_imp_less_Suc order_trans)
qed simp

text \<open>One \<open>name=value\<close> argument of HELLO and the loop over them: the first value of an option stays.\<close>

definition name_of :: "string \<Rightarrow> string" where
  "name_of tok = takeWhile (\<lambda>c. c \<noteq> CHR ''='') tok"

definition value_of :: "string \<Rightarrow> string" where
  "value_of tok = tl (dropWhile (\<lambda>c. c \<noteq> CHR ''='') tok)"

definition hello_option :: "string \<Rightarrow> string smap \<Rightarrow> string smap" where
  "hello_option tok opts =
     (if CHR ''='' \<in> set tok \<and> map_of opts (name_of tok) = None
      then smap_put (name_of tok) (value_of tok) opts else opts)"

definition process_client_hello ::
  "(int \<Rightarrow> string \<Rightarrow> int) \<Rightarrow> int \<Rightarrow> string list \<Rightarrow> client_state \<Rightarrow> 'e bus_state
    \<Rightarrow> (client_state \<times> 'e bus_state \<times> io list) outcome" where
  "process_client_hello os_write fd argv c bus =
     (if argv ! 0 \<noteq> ''HELLO'' then Done (c, bus, [])
      else c_assert (1 < length argv)
        (case map_of (device_map bus) (argv ! 1) of
           None \<Rightarrow> Done (c, bus, [Sent fd (''NAK'' @ [NL])])
         | Some p \<Rightarrow>
             (let c1 = c\<lparr>cl_dev_name := argv ! 1, cl_interface := Some (argv ! 1)\<rparr>;
                  b1 = at_plug (argv ! 1) (\<lambda>p. p\<lparr>plug_fd := fd, ready_flag := False\<rparr>) bus;
                  b2 = b1\<lparr>options := fold hello_option (drop 2 argv) (options b1)\<rparr>;
                  outbuf = ''YOU-ARE '' @ dec_nat (unat (plug_ident p)) @ [NL]
              in c_assert (os_write fd outbuf = int (length outbuf)) (Done (c1, b2, [Sent fd outbuf])))))"

text \<open>The characters of a vector, most significant first; anything else than the four fails an
  \<open>assert\<close>.\<close>

fun bit_values :: "string \<Rightarrow> bitval list outcome" where
  "bit_values [] = Done []"
| "bit_values (c # cs) =
     c_assert (c \<in> {CHR ''0'', CHR ''1'', CHR ''z'', CHR ''x''})
       (obind (bit_values cs) (\<lambda>bs. Done (bs @ [char_to_bitval c])))"

fun store_signals :: "string list \<Rightarrow> bitval list smap \<Rightarrow> bitval list smap outcome" where
  "store_signals [] sigs = Done sigs"
| "store_signals (tok # toks) sigs =
     c_assert (CHR ''='' \<in> set tok)
       (obind (bit_values (value_of tok)) (\<lambda>v. store_signals toks (smap_put (name_of tok) v sigs)))"

text \<open>\<open>strtol\<close> and where it ends.\<close>

definition strtol_end :: "string \<Rightarrow> int \<times> string" where
  "strtol_end s = (strtol s, case scan_number s of None \<Rightarrow> s | Some (neg, m, rest) \<Rightarrow> rest)"

definition process_client_ready :: "string list \<Rightarrow> bus_device_plug \<Rightarrow> bus_device_plug outcome" where
  "process_client_ready argv p =
     c_assert (2 \<le> length argv)
       (let (m, ep) = strtoul (argv ! 1)
        in c_assert (ep \<noteq> [] \<and> hd ep = CHR ''e'' \<and> tl ep \<noteq> [])
          (let (s, rest) = strtol_end (tl ep)
           in c_assert (rest = [])
                (obind (store_signals (drop 2 argv) (client_signals p)) (\<lambda>sigs.
                  Done (p\<lparr>ready_time := m, ready_scale := to_int32 s, client_signals := sigs, ready_flag := True\<rparr>)))))"

definition detach :: "string \<Rightarrow> 'e bus_state \<Rightarrow> 'e bus_state" where
  "detach k b = at_plug k (\<lambda>p. p\<lparr>ready_flag := True, exited_flag := True\<rparr>) b"

definition process_client_command ::
  "(int \<Rightarrow> string \<Rightarrow> int) \<Rightarrow> int \<Rightarrow> string list \<Rightarrow> client_state \<Rightarrow> 'e bus_state
    \<Rightarrow> (client_state \<times> 'e bus_state \<times> io list) outcome" where
  "process_client_command os_write fd argv c bus =
     c_defined (argv \<noteq> [])
       (if cl_dev_name c = [] then process_client_hello os_write fd argv c bus
        else if argv ! 0 = ''READY'' then
          (case cl_interface c of
             None \<Rightarrow> Stop Undefined
           | Some k \<Rightarrow>
               (case map_of (device_map bus) k of
                  None \<Rightarrow> Stop Undefined
                | Some p \<Rightarrow> obind (process_client_ready argv p) (\<lambda>p'. Done (c, at_plug k (\<lambda>_. p') bus, []))))
        else if argv ! 0 = ''FINISH'' then
          (case cl_interface c of None \<Rightarrow> Stop Undefined | Some k \<Rightarrow> Done (c, detach k bus, []))
        else Done (c, bus, []))"

section \<open>The socket\<close>

text \<open>Data of at least one byte, the end of the stream (or a reset, which counts as that), an error.\<close>

datatype sock_event = Data string | Hang_up | Read_failed

text \<open>\<open>strchr(buffer_, '\n')\<close> looks no further than the first zero byte.\<close>

definition take_line :: "string \<Rightarrow> (string \<times> string) option" where
  "take_line buf =
     (if NL \<in> set (takeWhile (\<lambda>c. c \<noteq> NUL) buf)
      then Some (takeWhile (\<lambda>c. c \<noteq> NL) buf, tl (dropWhile (\<lambda>c. c \<noteq> NL) buf)) else None)"

definition max_args :: nat where "max_args = 2048"

definition read_from_socket ::
  "(int \<Rightarrow> string \<Rightarrow> int) \<Rightarrow> int \<Rightarrow> sock_event \<Rightarrow> client_state \<Rightarrow> 'e bus_state
    \<Rightarrow> (client_state \<times> 'e bus_state \<times> io list) outcome" where
  "read_from_socket os_write fd ev c bus =
     (let trans = buf_size - length (cl_buffer c) - 1
      in c_assert (0 < trans)
        (case ev of
           Read_failed \<Rightarrow>
             (case cl_interface c of None \<Rightarrow> Stop Undefined | Some k \<Rightarrow> Done (c, detach k bus, []))
         | Hang_up \<Rightarrow>
             (case cl_interface c of None \<Rightarrow> Stop Assert_failed | Some k \<Rightarrow> Done (c, detach k bus, []))
         | Data s \<Rightarrow>
             c_defined (s \<noteq> [] \<and> length s \<le> trans)
               (case take_line (cl_buffer c @ s) of
                  None \<Rightarrow> Done (c\<lparr>cl_buffer := cl_buffer c @ s\<rparr>, bus, [])
                | Some (line, rest) \<Rightarrow>
                    c_defined (length (split_argv line) < max_args)
                      (obind (process_client_command os_write fd (split_argv line) c bus) (\<lambda>(c', b', out).
                        Done (c'\<lparr>cl_buffer := rest\<rparr>, b', out))))))"

section \<open>Lines and arguments\<close>

definition argument :: "string \<Rightarrow> bool" where
  "argument t \<longleftrightarrow> t \<noteq> [] \<and> (\<forall>c \<in> set t. \<not> white c \<and> c \<noteq> NUL \<and> c \<noteq> NL)"

lemma split_one:
  assumes "argument t" and "white w"
  shows "split_argv (t @ w # rest) = t # split_argv (dropWhile white rest)"
proof -
  from assms(1) obtain c cs where t: "t = c # cs" by (cases t) (auto simp: argument_def)
  have "takeWhile (\<lambda>x. \<not> white x) (t @ w # rest) = t" "dropWhile (\<lambda>x. \<not> white x) (t @ w # rest) = w # rest"
    using assms by (auto simp: argument_def takeWhile_append2 dropWhile_append2)
  then show ?thesis unfolding t append_Cons split_argv.simps by simp
qed

lemma split_last: "argument t \<Longrightarrow> split_argv t = [t]"
proof -
  assume a: "argument t"
  then obtain c cs where t: "t = c # cs" by (cases t) (auto simp: argument_def)
  have "takeWhile (\<lambda>x. \<not> white x) t = t" "dropWhile (\<lambda>x. \<not> white x) t = []"
    using a by (simp_all add: argument_def takeWhile_eq_all_conv dropWhile_eq_Nil_conv)
  then show ?thesis unfolding t split_argv.simps by simp
qed

definition spaced :: "string list \<Rightarrow> string" where
  "spaced toks = concat (map (\<lambda>u. '' '' @ u) toks)"

lemma spaced_simps [simp]: "spaced [] = []" "spaced (u # us) = CHR '' '' # u @ spaced us"
  by (simp_all add: spaced_def)

lemma argument_not_white: "argument u \<Longrightarrow> dropWhile white (u @ xs) = u @ xs"
  by (cases u) (auto simp: argument_def)

lemma split_words: "argument t \<Longrightarrow> list_all argument us \<Longrightarrow> split_argv (t @ spaced us) = t # us"
proof (induction us arbitrary: t)
  case Nil
  then show ?case by (simp add: split_last)
next
  case (Cons u us)
  then have "split_argv (t @ spaced (u # us)) = t # split_argv (dropWhile white (u @ spaced us))"
    by (simp add: split_one white_def)
  also have "\<dots> = t # u # us" using Cons by (simp add: argument_not_white)
  finally show ?case .
qed

lemma spaced_plain: "list_all argument us \<Longrightarrow> c \<in> set (spaced us) \<Longrightarrow> c \<noteq> NL \<and> c \<noteq> NUL"
  by (induction us) (auto simp: argument_def NL_def NUL_def)

lemma take_line_plain:
  assumes "\<forall>c \<in> set l. c \<noteq> NL \<and> c \<noteq> NUL"
  shows "take_line (l @ NL # rest) = Some (l, rest)" and "take_line l = None"
proof -
  have n: "NUL \<noteq> NL" by (simp add: NUL_def NL_def)
  have "takeWhile (\<lambda>c. c \<noteq> NUL) (l @ NL # rest) = l @ NL # takeWhile (\<lambda>c. c \<noteq> NUL) rest"
    using assms n by (subst takeWhile_append2) auto
  moreover have "takeWhile (\<lambda>c. c \<noteq> NL) (l @ NL # rest) = l" "dropWhile (\<lambda>c. c \<noteq> NL) (l @ NL # rest) = NL # rest"
    using assms by (simp_all add: takeWhile_append2 dropWhile_append2)
  ultimately show "take_line (l @ NL # rest) = Some (l, rest)" by (simp add: take_line_def)
  show "take_line l = None" using assms by (auto simp: take_line_def dest: set_takeWhileD)
qed

text \<open>How many arguments a line has: one more when it starts with a blank.\<close>

lemma split_argv_length: "2 * length (split_argv s) \<le> (if s \<noteq> [] \<and> white (hd s) then 2 else 1) + length s"
proof (induction s rule: split_argv.induct)
  case (2 c s)
  let ?p = "\<lambda>x. \<not> white x"
  show ?case
  proof (cases "dropWhile ?p (c # s)")
    case Nil
    then show ?thesis by auto
  next
    case (Cons x r)
    let ?r = "dropWhile white r"
    have "\<not> (?r \<noteq> [] \<and> white (hd ?r))" using hd_dropWhile [of white r] by blast
    then have "2 * length (split_argv ?r) \<le> 1 + length ?r" using 2 [OF Cons] by (simp only: if_False)
    also have "length ?r \<le> length r" by (rule length_dropWhile_le)
    finally have r: "2 * length (split_argv ?r) \<le> 1 + length r" by simp
    have "length (c # s) = length (takeWhile ?p (c # s)) + length (x # r)"
      unfolding Cons [symmetric] by (metis length_append takeWhile_dropWhile_id)
    moreover have "white c \<or> 0 < length (takeWhile ?p (c # s))" by simp
    ultimately show ?thesis using r Cons by auto
  qed
qed simp

section \<open>Lines arrive in pieces\<close>

text \<open>The stream of one client, read piece by piece.\<close>

fun feed ::
  "(int \<Rightarrow> string \<Rightarrow> int) \<Rightarrow> int \<Rightarrow> string list \<Rightarrow> client_state \<Rightarrow> 'e bus_state
    \<Rightarrow> (client_state \<times> 'e bus_state \<times> io list) outcome" where
  "feed os_write fd [] c bus = Done (c, bus, [])"
| "feed os_write fd (s # ss) c bus =
     obind (read_from_socket os_write fd (Data s) c bus) (\<lambda>(c1, b1, out1).
     obind (feed os_write fd ss c1 b1) (\<lambda>(c2, b2, out2). Done (c2, b2, out1 @ out2)))"

lemma process_buffer:
  assumes "process_client_command os_write fd argv c bus = Done (c', b', out)"
  shows "process_client_command os_write fd argv (c\<lparr>cl_buffer := x\<rparr>) bus = Done (c'\<lparr>cl_buffer := x\<rparr>, b', out)"
  using assms
  by (auto simp: process_client_command_def process_client_hello_def Let_def split: option.splits if_splits)

text \<open>C36: A line is obeyed exactly once, however the network cuts it up. For every way to deliver
  a line of fewer than 4095 characters and its newline in non-empty pieces to a connection whose buffer is empty,
  reading all pieces has the effect of the one command the line stands for, and the buffer is empty
  again.\<close>

theorem line_reassembly:
  assumes "concat pieces = line @ [NL]" and "\<forall>s \<in> set pieces. s \<noteq> []"
    and "\<forall>c \<in> set line. c \<noteq> NL \<and> c \<noteq> NUL" and "length line < buf_size - 1"
    and "length (split_argv line) < max_args" and "cl_buffer c = []"
    and "process_client_command os_write fd (split_argv line) c bus = Done (c', b', out)"
  shows "feed os_write fd pieces c bus = Done (c'\<lparr>cl_buffer := []\<rparr>, b', out)"
proof -
  have "feed os_write fd ps (c\<lparr>cl_buffer := pre\<rparr>) bus = Done (c'\<lparr>cl_buffer := []\<rparr>, b', out)"
    if "pre @ concat ps = line @ [NL]" and "\<forall>s \<in> set ps. s \<noteq> []" and "ps \<noteq> []" for pre ps
    using that
  proof (induction ps arbitrary: pre)
    case (Cons s ps)
    show ?case
    proof (cases ps)
      case Nil
      with Cons.prems have all: "pre @ s = line @ [NL]" and "s \<noteq> []" by simp_all
      then have "length pre + length s = length line + 1" by (metis length_append length_Cons list.size(3) One_nat_def)
      then have "0 < buf_size - length pre - 1" "length s \<le> buf_size - length pre - 1"
        using assms(4) \<open>s \<noteq> []\<close> by (auto simp: buf_size_def simp flip: length_greater_0_conv)
      moreover have "take_line (pre @ s) = Some (line, [])" using take_line_plain(1) [OF assms(3), of "[]"] by (simp add: all)
      ultimately show ?thesis
        using assms(5) \<open>s \<noteq> []\<close> process_buffer [OF assms(7), of pre] by (simp add: Nil read_from_socket_def Let_def)
    next
      case (Cons s' ps')
      have ne: "concat ps \<noteq> []" using Cons Cons.prems(2) by simp
      have l: "(pre @ s) @ butlast (concat ps) = line"
        using Cons.prems(1) ne by (metis append.assoc butlast_append butlast_snoc concat.simps(2))
      then have "length pre + length s \<le> length line" by (metis length_append le_add1)
      moreover have "s \<noteq> []" using Cons.prems(2) by simp
      ultimately have "0 < buf_size - length pre - 1" "length s \<le> buf_size - length pre - 1"
        using assms(4) by (auto simp: buf_size_def simp flip: length_greater_0_conv)
      moreover have "take_line (pre @ s) = None" using l assms(3) by (intro take_line_plain(2)) auto
      ultimately have "read_from_socket os_write fd (Data s) (c\<lparr>cl_buffer := pre\<rparr>) bus = Done (c\<lparr>cl_buffer := pre @ s\<rparr>, bus, [])"
        using \<open>s \<noteq> []\<close> by (simp add: read_from_socket_def Let_def)
      moreover have "feed os_write fd ps (c\<lparr>cl_buffer := pre @ s\<rparr>) bus = Done (c'\<lparr>cl_buffer := []\<rparr>, b', out)"
        using Cons.prems(1,2) Cons by (intro Cons.IH) simp_all
      ultimately show ?thesis by simp
    qed
  qed simp
  moreover have "pieces \<noteq> []" using assms(1) by auto
  moreover have "c\<lparr>cl_buffer := []\<rparr> = c" using assms(6) by simp
  ultimately show ?thesis using assms(1,2) by (metis append_Nil)
qed

theorem line_reassembly_witness:
  "let c = (new_client ''tcp:1'')\<lparr>cl_dev_name := ''h'', cl_interface := Some ''h''\<rparr>; bus = new_bus ''b'' () [] []
   in feed (\<lambda>_ s. int (length s)) 4 [''FIN'', ''ISH'' @ [NL]] c bus = Done (c\<lparr>cl_buffer := []\<rparr>, detach ''h'' bus, [])"
  unfolding Let_def
  by (rule line_reassembly [where line = "''FINISH''"])
    (auto simp: NL_def NUL_def buf_size_def max_args_def white_def new_client_def process_client_command_def)

section \<open>The READY command of the client library\<close>

lemma bit_values_printed: "bit_values (map bitval_to_char ys) = Done (rev ys)"
proof (induction ys)
  case (Cons y ys)
  then show ?case by (cases y) (simp_all add: char_to_bitval_def)
qed simp

lemma bit_values_msb_first: "length xs = n \<Longrightarrow> bit_values (msb_first n xs) = Done xs"
  by (simp add: msb_first_rev bit_values_printed)

definition signal_name :: "string \<Rightarrow> bool" where
  "signal_name nm \<longleftrightarrow> (\<forall>c \<in> set nm. c \<noteq> CHR ''='' \<and> \<not> white c \<and> c \<noteq> NUL \<and> c \<noteq> NL)"

lemma split_token [simp]:
  assumes "CHR ''='' \<notin> set nm"
  shows "name_of (nm @ CHR ''='' # v) = nm" and "value_of (nm @ CHR ''='' # v) = v"
proof -
  have "\<forall>c \<in> set nm. c \<noteq> CHR ''=''" using assms by auto
  then show "name_of (nm @ CHR ''='' # v) = nm" "value_of (nm @ CHR ''='' # v) = v"
    by (simp_all add: name_of_def value_of_def takeWhile_append2 dropWhile_append2)
qed

text \<open>\<open>sigs\<close> lists the vectors of a message by name; each is printed in full.\<close>

abbreviation signal_token :: "string \<times> bitval list \<Rightarrow> string" where
  "signal_token \<equiv> \<lambda>(nm, v). nm @ CHR ''='' # msb_first (length v) v"

lemma signal_name_eq: "signal_name nm \<Longrightarrow> CHR ''='' \<notin> set nm"
  by (auto simp: signal_name_def)

lemma msb_first_argument: "c \<in> set (msb_first n xs) \<Longrightarrow> \<not> white c \<and> c \<noteq> NUL \<and> c \<noteq> NL"
proof -
  have "\<not> white (bitval_to_char b) \<and> bitval_to_char b \<noteq> NUL \<and> bitval_to_char b \<noteq> NL" for b
    by (cases b) (simp_all add: white_def NUL_def NL_def)
  then show "c \<in> set (msb_first n xs) \<Longrightarrow> \<not> white c \<and> c \<noteq> NUL \<and> c \<noteq> NL"
    by (auto simp: msb_first_def)
qed

lemma plain_equals: "\<not> white (CHR ''='') \<and> CHR ''='' \<noteq> NUL \<and> CHR ''='' \<noteq> NL"
  by (simp add: white_def NUL_def NL_def)

lemma signal_token_argument: "signal_name nm \<Longrightarrow> argument (nm @ CHR ''='' # msb_first n v)"
proof -
  let ?p = "\<lambda>c. \<not> white c \<and> c \<noteq> NUL \<and> c \<noteq> NL"
  assume "signal_name nm"
  then have "\<forall>c \<in> set nm. ?p c" by (simp add: signal_name_def)
  moreover have "\<forall>c \<in> set (msb_first n v). ?p c" by (intro ballI msb_first_argument)
  ultimately show ?thesis using plain_equals by (simp add: argument_def ball_Un)
qed

lemma store_tokens:
  "\<forall>(nm, v) \<in> set sigs. signal_name nm \<Longrightarrow>
   store_signals (map signal_token sigs) m = Done (fold (\<lambda>(k, v). smap_put k v) sigs m)"
proof (induction sigs arbitrary: m)
  case (Cons x sigs)
  obtain nm v where x: "x = (nm, v)" by (cases x)
  with Cons.prems have "CHR ''='' \<notin> set nm" by (auto dest: signal_name_eq)
  with Cons x show ?case by (simp add: bit_values_msb_first)
qed simp

lemma digit_char_argument: "is_digit c \<Longrightarrow> \<not> white c \<and> c \<noteq> NUL \<and> c \<noteq> NL"
  by (auto simp: white_def is_digit_def NUL_def NL_def)

lemma argument_append: "argument u \<Longrightarrow> argument v \<Longrightarrow> argument (u @ v)"
  by (auto simp: argument_def)

lemma argument_char: "argument [c] \<longleftrightarrow> \<not> white c \<and> c \<noteq> NUL \<and> c \<noteq> NL"
  by (simp add: argument_def)

lemma number_argument: "argument (dec_nat n)" "argument (dec_int i)"
proof -
  show n: "argument (dec_nat n)" for n
    using dec_nat_digits [of n] digit_char_argument by (simp add: argument_def list_all_iff)
  have "argument [CHR ''-'']" by (simp add: argument_char white_def NUL_def NL_def)
  from argument_append [OF this n] show "argument (dec_int i)" using n by (simp add: dec_int_def)
qed

lemma time_argument: "argument (time_token t)"
proof -
  have "argument ''e''" by (simp add: argument_char white_def NUL_def NL_def)
  then show ?thesis unfolding time_token_def by (intro argument_append number_argument)
qed

lemma strtol_end_dec:
  assumes "- (2 ^ 63) \<le> i" and "i < 2 ^ 63"
  shows "strtol_end (dec_int i) = (i, [])"
proof -
  have "scan_number (dec_nat n) = Some (False, n, [])" for n using scan_dec_nat [of "[]"] by simp
  moreover have "scan_number (CHR ''-'' # dec_nat n) = Some (True, n, [])" for n using scan_minus [of "[]"] by simp
  ultimately have "scan_number (dec_int i) = Some (i < 0, nat \<bar>i\<bar>, [])" by (simp add: dec_int_def)
  then show ?thesis using strtol_dec_int [OF assms] by (simp add: strtol_end_def)
qed

lemma ready_stores:
  assumes "time_ok t" and "\<forall>(nm, v) \<in> set sigs. signal_name nm"
  shows "process_client_ready (''READY'' # time_token t # map signal_token sigs) p =
    Done (p\<lparr>ready_time := time_mant t, ready_scale := time_exp t,
            client_signals := fold (\<lambda>(k, v). smap_put k v) sigs (client_signals p), ready_flag := True\<rparr>)"
proof -
  have "scan_number (time_token t) = Some (False, unat (time_mant t), ''e'' @ dec_int (time_exp t))"
    unfolding time_token_def by (rule scan_dec_nat) (simp add: is_digit_def)
  moreover have "unat (time_mant t) < 2 ^ 64" using unsigned_less [of "time_mant t"] by simp
  ultimately have "strtoul (time_token t) = (time_mant t, ''e'' @ dec_int (time_exp t))"
    by (simp add: strtoul_def)
  moreover have "dec_int (time_exp t) \<noteq> []" by (simp add: dec_int_def)
  moreover have "strtol_end (dec_int (time_exp t)) = (time_exp t, [])"
    using assms(1) by (intro strtol_end_dec) (simp_all add: time_ok_def)
  ultimately show ?thesis
    using assms(1) store_tokens [OF assms(2)] by (simp add: process_client_ready_def to_int32_id time_ok_def)
qed

text \<open>The command the library functions build, as the line the server sees.\<close>

definition ready_message :: "simbus_time \<Rightarrow> (string \<times> bitval list) list \<Rightarrow> string" where
  "ready_message t sigs = ready_prefix t @ concat (map (\<lambda>(nm, v). ready_signal nm v (length v)) sigs) @ [NL]"

lemma ready_message_line:
  "ready_message t sigs = (''READY'' @ spaced (time_token t # map signal_token sigs)) @ [NL]"
  by (induction sigs) (auto simp: ready_message_def ready_prefix_def ready_signal_def)

lemma length_spaced: "list_all argument us \<Longrightarrow> 2 * length us \<le> length (spaced us)"
proof (induction us)
  case (Cons u us)
  then obtain c cs where "u = c # cs" by (cases u) (auto simp: argument_def)
  with Cons show ?case by simp
qed simp

text \<open>What a client reports is what the server stores. A READY command that the library builds from
  a time and any list of named vectors, read by the server from the connection of a device, makes the
  device ready, gives it exactly that time, and stores every vector under its name bit for bit;
  signals not named keep their values, and nothing is sent.\<close>

theorem ready_command_stored:
  assumes "time_ok t" and "distinct (map fst sigs)" and "\<forall>(nm, v) \<in> set sigs. signal_name nm"
    and "length (ready_message t sigs) < buf_size" and "cl_buffer c = []" and "cl_dev_name c \<noteq> []"
    and "cl_interface c = Some k" and "map_of (device_map b) k = Some p"
  shows "\<exists>p'. read_from_socket os_write fd (Data (ready_message t sigs)) c b = Done (c, at_plug k (\<lambda>_. p') b, [])
    \<and> ready_flag p' \<and> ready_time p' = time_mant t \<and> ready_scale p' = time_exp t
    \<and> (\<forall>(nm, v) \<in> set sigs. in_sig p' nm = v)
    \<and> (\<forall>nm. nm \<notin> fst ` set sigs \<longrightarrow> in_sig p' nm = in_sig p nm)
    \<and> send_signals p' = send_signals p \<and> exited_flag p' = exited_flag p"
proof -
  let ?args = "time_token t # map signal_token sigs" and ?m = "fold (\<lambda>(k, v). smap_put k v) sigs (client_signals p)"
  have args: "list_all argument ?args"
    using assms(3) by (auto simp: list_all_iff time_argument signal_token_argument)
  have r: "argument ''READY''" by (simp add: argument_def white_def NUL_def NL_def)
  have split: "split_argv (''READY'' @ spaced ?args) = ''READY'' # ?args" using r args by (rule split_words)
  have line: "\<forall>c \<in> set (''READY'' @ spaced ?args). c \<noteq> NL \<and> c \<noteq> NUL"
    using spaced_plain [OF args] by (auto simp: NL_def NUL_def)
  have "length (''READY'' # ?args) < max_args"
    using length_spaced [OF args] assms(4) unfolding ready_message_line by (simp add: buf_size_def max_args_def)
  moreover have "process_client_command os_write fd (''READY'' # ?args) c b =
      Done (c, at_plug k (\<lambda>_. p\<lparr>ready_time := time_mant t, ready_scale := time_exp t, client_signals := ?m, ready_flag := True\<rparr>) b, [])"
    using assms(6-8) ready_stores [OF assms(1,3)] by (simp add: process_client_command_def)
  ultimately have "read_from_socket os_write fd (Data (ready_message t sigs)) c b =
      Done (c, at_plug k (\<lambda>_. p\<lparr>ready_time := time_mant t, ready_scale := time_exp t, client_signals := ?m, ready_flag := True\<rparr>) b, [])"
    using assms(4,5) take_line_plain(1) [OF line, of "[]"] split unfolding ready_message_line
    by (simp add: read_from_socket_def Let_def buf_size_def)
  moreover have "entry ?m nm = v" if "(nm, v) \<in> set sigs" for nm v
    using sm.fold_get [OF assms(2) that] by (simp add: entry_def)
  moreover have "entry ?m nm = in_sig p nm" if "nm \<notin> fst ` set sigs" for nm
    using sm.fold_other [OF that] by (simp add: entry_def)
  ultimately show ?thesis by (intro exI conjI) (assumption, auto)
qed

section \<open>The UNTIL message of the server\<close>

lemma join_spaced: "join_tokens (t # us) = t @ spaced us"
  by (induction us arbitrary: t) simp_all

lemma argument_plain: "argument t \<Longrightarrow> plain_token t"
  by (auto simp: argument_def plain_token_def white_def)

lemma until_line_tokens:
  "until_line t sigs = join_tokens (''UNTIL'' # time_token \<lparr>time_mant = st_mant t, time_exp = st_exp t\<rparr> # map signal_token sigs)"
  unfolding join_spaced by (induction sigs) (auto simp: until_line_def time_token_def)

text \<open>The signals handed to the bus object of a client, in the order of the message.\<close>

fun deliver ::
  "('s \<Rightarrow> string \<Rightarrow> string \<Rightarrow> 's outcome) \<Rightarrow> (string \<times> bitval list) list \<Rightarrow> 's \<Rightarrow> 's outcome" where
  "deliver f [] s = Done s"
| "deliver f ((nm, v) # sigs) s = obind (f s nm (msb_first (length v) v)) (deliver f sigs)"

lemma each_signal_deliver:
  "\<forall>(nm, v) \<in> set sigs. signal_name nm \<Longrightarrow> each_signal f (map signal_token sigs) s = deliver f sigs s"
proof (induction sigs arbitrary: s)
  case (Cons x sigs)
  obtain nm v where x: "x = (nm, v)" by (cases x)
  with Cons.prems have "CHR ''='' \<notin> set nm" by (auto dest: signal_name_eq)
  with split_token [OF this] Cons x show ?case by (simp add: name_of_def value_of_def cong: obind_cong)
qed simp

text \<open>What the server sends is what the client takes in. When the answer to a READY command is the
  UNTIL line the server builds from a time and a device's signals, the client's exchange succeeds
  with that time and hands exactly these signals, in this order and bit for bit, to the handler of its bus;
  this holds for every bus of the library, since the handler is arbitrary.\<close>

theorem until_line_received:
  assumes "- (2 ^ 31) \<le> st_exp t" and "st_exp t < 2 ^ 31" and "\<forall>(nm, v) \<in> set sigs. signal_name nm"
    and "length (until_line t sigs) + 1 < buf_size" and "length buf < buf_size"
    and "wr (fd_of s) = []" and "rx (fd_of s) = Rd_data (until_line t sigs @ [NL]) # es"
  shows "ready_exchange fd_of set_fd fin set_time on_signal buf s =
    obind (deliver on_signal sigs
            (set_time \<lparr>time_mant = st_mant t, time_exp = st_exp t\<rparr>
              (set_fd ((fd_of s)\<lparr>rx := es, tx := tx (fd_of s) @ [buf]\<rparr>) s)))
      (\<lambda>s'. Done (0, s'))"
proof -
  let ?t = "\<lparr>time_mant = st_mant t, time_exp = st_exp t\<rparr>"
  let ?args = "time_token ?t # map signal_token sigs"
  have args: "list_all argument ?args"
    using assms(3) by (auto simp: list_all_iff time_argument signal_token_argument)
  moreover have "argument ''UNTIL''" by (simp add: argument_def white_def NUL_def NL_def)
  ultimately have plain: "list_all plain_token (''UNTIL'' # ?args)"
    by (auto simp: list_all_iff argument_plain)
  have "length (''UNTIL'' # ?args) < max_argc"
    using length_spaced [OF args] assms(4) unfolding until_line_tokens join_spaced by (simp add: buf_size_def max_argc_def)
  then have "simbus_server_send_recv (fd_of s) buf buf_size max_argc =
      Done (''UNTIL'' # ?args, (fd_of s)\<lparr>rx := es, tx := tx (fd_of s) @ [buf]\<rparr>)"
    using plain assms(4,6,7) unfolding until_line_tokens by (intro send_recv_join) simp_all
  moreover have "parse_time_token (time_token ?t) = Done ?t" using assms(1,2) by (intro time_roundtrip) (simp add: time_ok_def)
  ultimately show ?thesis
    using assms(5) by (simp add: ready_exchange_def handle_until_def each_signal_deliver [OF assms(3)])
qed

end
