(* ===== verification/Sim_Server.thy ===== *)
theory Sim_Server
  imports Sim_Server_Client
begin

text \<open>
  server/service.cc: the busses, the connections and the loop that serves them.

  One turn of the loop takes what \<open>select\<close> reports: connections accepted on the bus sockets,
  then data, in the order of the file descriptors, then it assembles busses whose devices have all
  come, then it steps every bus whose devices are all ready, in the order of their times.  The
  operating system is a parameter: \<open>select_result\<close>, the value of \<open>write\<close>, the sockets.
  \<open>need_init\<close> lists the busses that wait for assembly; the code keeps them in a set of
  pointers, whose order is that of the allocator.  The virtual functions of the protocols are the
  argument \<open>vt\<close>, and what the loop relies on is the locale \<open>protocol_engine\<close>.
\<close>

section \<open>State\<close>

record 'e server =
  bus_map :: "'e bus_state smap"
  client_map :: "(int \<times> client_state) list"
  need_init :: "string list"
  interrupted :: bool

definition empty_server :: "'e server" where
  "empty_server = \<lparr>bus_map = [], client_map = [], need_init = [], interrupted = False\<rparr>"

fun imap_put :: "int \<Rightarrow> 'a \<Rightarrow> (int \<times> 'a) list \<Rightarrow> (int \<times> 'a) list" where
  "imap_put k v [] = [(k, v)]"
| "imap_put k v ((k', v') # m) =
     (if k < k' then (k, v) # (k', v') # m else if k = k' then (k, v) # m else (k', v') # imap_put k v m)"

text \<open>A new bus; \<open>ctor\<close> is the constructor of the named protocol.\<close>

definition service_add_bus ::
  "(string \<Rightarrow> 'e bus_state \<Rightarrow> 'e bus_state outcome) \<Rightarrow> 'e \<Rightarrow> string \<Rightarrow> string \<Rightarrow> string \<Rightarrow> bus_device_plug smap
    \<Rightarrow> string smap \<Rightarrow> 'e server \<Rightarrow> 'e server outcome" where
  "service_add_bus ctor blank port nm proto devs opts st =
     c_assert (map_of (bus_map st) port = None)
       (obind (ctor proto (new_bus nm blank devs opts)) (\<lambda>b.
          Done (st\<lparr>bus_map := smap_put port b (bus_map st), need_init := need_init st @ [port]\<rparr>)))"

section \<open>Sockets\<close>

record os_sockets =
  os_socket :: "string \<Rightarrow> int"
  os_bind_tcp :: "u16 \<Rightarrow> int"
  os_bind_pipe :: "string \<Rightarrow> int"
  os_listen :: "int \<Rightarrow> int"

definition socket_from_string :: "os_sockets \<Rightarrow> string \<Rightarrow> 'e bus_state \<Rightarrow> (int \<times> 'e bus_state) outcome" where
  "socket_from_string os astr b =
     (if take 4 astr = ''tcp:'' then
        Done (if os_socket os astr < 0 then os_socket os astr
              else if \<not> list_all is_digit (drop 4 astr) then -1
              else if os_bind_tcp os (ucast (fst (strtoul (drop 4 astr)))) < 0 then -1
              else os_socket os astr, b)
      else if take 5 astr = ''pipe:'' then
        (if os_socket os astr < 0 then Done (os_socket os astr, b)
         else c_assert (length (drop 5 astr) < sun_path_size)
           (if os_bind_pipe os (drop 5 astr) < 0 then Done (-1, b)
            else Done (os_socket os astr,
                   b\<lparr>unlink_on_initialization := unlink_on_initialization b @ [drop 5 astr]\<rparr>)))
      else Stop Assert_failed)"

fun setup_busses :: "os_sockets \<Rightarrow> 'e bus_state smap \<Rightarrow> (int \<times> 'e bus_state smap) outcome" where
  "setup_busses os [] = Done (0, [])"
| "setup_busses os ((port, b) # bs) =
     obind (socket_from_string os port b) (\<lambda>(fd, b').
       let b1 = b'\<lparr>bus_fd := fd\<rparr>
       in if fd < 0 \<or> os_listen os fd < 0 then Done (-1, (port, b1) # bs)
          else obind (setup_busses os bs) (\<lambda>(rc, bs'). Done (rc, (port, b1) # bs')))"

definition service_setup :: "os_sockets \<Rightarrow> 'e server \<Rightarrow> (int \<times> 'e server) outcome" where
  "service_setup os st =
     obind (setup_busses os (bus_map st)) (\<lambda>(rc, bm). Done (rc, st\<lparr>bus_map := bm\<rparr>))"

section \<open>One turn\<close>

text \<open>\<open>select\<close> again (timeout, or interrupted, with or without the signal of the server), failed, or
  with the new connection per bus port and the event per descriptor.\<close>

datatype select_result =
  Sel_again bool | Sel_failed | Selected "string \<Rightarrow> int option" "int \<Rightarrow> sock_event option"

definition bus_of :: "'e server \<Rightarrow> client_state \<Rightarrow> 'e bus_state option" where
  "bus_of st c = map_of (bus_map st) (cl_bus c)"

text \<open>The descriptors in the set that is passed to \<open>select\<close>.\<close>

definition watched :: "'e server \<Rightarrow> int list" where
  "watched st =
     filter (\<lambda>fd. 0 \<le> fd) (map (\<lambda>(port, b). bus_fd b) (bus_map st))
     @ map fst (filter (\<lambda>(fd, c). case bus_of st c of None \<Rightarrow> True | Some b \<Rightarrow> \<not> is_exited c b) (client_map st))"

fun listen_all :: "(string \<Rightarrow> int option) \<Rightarrow> 'e bus_state smap \<Rightarrow> (int \<times> client_state) list
    \<Rightarrow> (int \<times> client_state) list outcome" where
  "listen_all acc [] cm = Done cm"
| "listen_all acc ((port, b) # bs) cm =
     (case (if 0 \<le> bus_fd b then acc port else None) of
        None \<Rightarrow> listen_all acc bs cm
      | Some fd \<Rightarrow> c_assert (0 \<le> fd) (listen_all acc bs (imap_put fd (new_client port) cm)))"

fun read_clients :: "(int \<Rightarrow> string \<Rightarrow> int) \<Rightarrow> (int \<Rightarrow> sock_event option) \<Rightarrow> (int \<times> client_state) list
    \<Rightarrow> 'e bus_state smap \<Rightarrow> ((int \<times> client_state) list \<times> 'e bus_state smap \<times> io list) outcome" where
  "read_clients os_write evs [] bm = Done ([], bm, [])"
| "read_clients os_write evs ((fd, c) # cs) bm =
     (case evs fd of
        None \<Rightarrow> obind (read_clients os_write evs cs bm) (\<lambda>(cs', bm', out). Done ((fd, c) # cs', bm', out))
      | Some ev \<Rightarrow>
          (case map_of bm (cl_bus c) of
             None \<Rightarrow> Stop Assert_failed
           | Some b \<Rightarrow>
               obind (read_from_socket os_write fd ev c b) (\<lambda>(c', b', out1).
               obind (read_clients os_write evs cs (smap_at (cl_bus c) (\<lambda>_. b') bm)) (\<lambda>(cs', bm', out2).
                 Done ((fd, c') # cs', bm', out1 @ out2)))))"

text \<open>The scan of the devices: it stops at the first that is not ready, and notices those that are gone.\<close>

fun scan_ready :: "bus_device_plug smap \<Rightarrow> bool \<Rightarrow> bool \<times> bool" where
  "scan_ready [] fin = (True, fin)"
| "scan_ready ((k, p) # ds) fin =
     (if \<not> ready_flag p then (False, fin) else scan_ready ds (fin \<or> exited_flag p))"

definition check_bus :: "'e bus_state \<Rightarrow> bool \<times> 'e bus_state" where
  "check_bus b = (let (flag, fin) = scan_ready (device_map b) (finished b) in (flag, b\<lparr>finished := fin\<rparr>))"

definition assembly_complete :: "'e vtable \<Rightarrow> 'e bus_state \<Rightarrow> ('e bus_state \<times> io list) outcome" where
  "assembly_complete vt b =
     obind (vt_wrap_up vt b) (\<lambda>(config_flag, b1). c_assert config_flag
       (obind (vt_run_init vt b1) (\<lambda>b2.
         Done (b2\<lparr>unlink_on_initialization := []\<rparr>, map Unlinked (unlink_on_initialization b2)))))"

fun init_busses :: "'e vtable \<Rightarrow> string list \<Rightarrow> 'e bus_state smap \<Rightarrow> (string list \<times> 'e bus_state smap \<times> io list) outcome" where
  "init_busses vt [] bm = Done ([], bm, [])"
| "init_busses vt (port # ports) bm =
     (case map_of bm port of
        None \<Rightarrow> Stop Undefined
      | Some b \<Rightarrow>
          (let (flag, b1) = check_bus b
           in if flag
              then obind (assembly_complete vt b1) (\<lambda>(b2, out1).
                   obind (init_busses vt ports (smap_at port (\<lambda>_. b2) bm)) (\<lambda>(still, bm', out2).
                     Done (still, bm', out1 @ out2)))
              else obind (init_busses vt ports (smap_at port (\<lambda>_. b1) bm)) (\<lambda>(still, bm', out).
                     Done (port # still, bm', out))))"

text \<open>The run list is a multimap by time: an entry goes behind those that are not later.\<close>

fun insert_run :: "simtime \<Rightarrow> string \<Rightarrow> (simtime \<times> string) list \<Rightarrow> (simtime \<times> string) list" where
  "insert_run t port [] = [(t, port)]"
| "insert_run t port ((t', q) # run) =
     (if simtime_less t t' then (t, port) # (t', q) # run else (t', q) # insert_run t port run)"

fun collect_run :: "string list \<Rightarrow> 'e bus_state smap \<Rightarrow> (simtime \<times> string) list
    \<Rightarrow> 'e bus_state smap \<times> (simtime \<times> string) list" where
  "collect_run waiting [] run = ([], run)"
| "collect_run waiting ((port, b) # bs) run =
     (if port \<in> set waiting
      then (let (bs', run') = collect_run waiting bs run in ((port, b) # bs', run'))
      else (let (flag, b1) = check_bus b;
                (bs', run') = collect_run waiting bs (if flag then insert_run (cur_time b1) port run else run)
            in ((port, b1) # bs', run')))"

fun run_busses :: "'e vtable \<Rightarrow> (int \<Rightarrow> string \<Rightarrow> int) \<Rightarrow> (simtime \<times> string) list \<Rightarrow> 'e bus_state smap
    \<Rightarrow> ('e bus_state smap \<times> (string \<times> io) list) outcome" where
  "run_busses vt os_write [] bm = Done (bm, [])"
| "run_busses vt os_write ((t, port) # run) bm =
     (case map_of bm port of
        None \<Rightarrow> Stop Undefined
      | Some b \<Rightarrow>
          obind (bus_ready vt os_write b) (\<lambda>(b', out1).
          obind (run_busses vt os_write run (smap_at port (\<lambda>_. b') bm)) (\<lambda>(bm', out2).
            Done (bm', map (Pair port) out1 @ out2))))"

text \<open>A turn ends the service (\<open>None\<close>) or gives the new state, the answers to the clients that spoke,
  and what the busses sent.\<close>

type_synonym 'e turn_result = "('e server \<times> io list \<times> (string \<times> io) list) option outcome"

definition service_turn :: "'e vtable \<Rightarrow> (int \<Rightarrow> string \<Rightarrow> int) \<Rightarrow> select_result \<Rightarrow> 'e server \<Rightarrow> 'e turn_result" where
  "service_turn vt os_write sel st =
     (if interrupted st \<or> watched st = [] then Done None
      else case sel of
        Sel_again sig \<Rightarrow> Done (Some (st\<lparr>interrupted := sig\<rparr>, [], []))
      | Sel_failed \<Rightarrow> Done None
      | Selected acc evs \<Rightarrow>
          obind (listen_all acc (bus_map st) (client_map st)) (\<lambda>cm.
          obind (read_clients os_write (\<lambda>fd. if fd \<in> set (watched st) then evs fd else None) cm (bus_map st))
            (\<lambda>(cm', bm1, replies).
          obind (init_busses vt (need_init st) bm1) (\<lambda>(still, bm2, out).
          let (bm3, run) = collect_run still bm2 []
          in obind (run_busses vt os_write run bm3) (\<lambda>(bm4, steps).
               Done (Some (st\<lparr>bus_map := bm4, client_map := cm', need_init := still\<rparr>, replies @ out, steps)))))))"

fun service_loop :: "'e vtable \<Rightarrow> (int \<Rightarrow> string \<Rightarrow> int) \<Rightarrow> select_result list \<Rightarrow> 'e server \<Rightarrow> 'e turn_result" where
  "service_loop vt os_write [] st = Done (Some (st, [], []))"
| "service_loop vt os_write (sel # sels) st =
     obind (service_turn vt os_write sel st) (\<lambda>r.
       case r of
         None \<Rightarrow> Done None
       | Some (st1, replies1, steps1) \<Rightarrow>
           obind (service_loop vt os_write sels st1) (\<lambda>r2.
             case r2 of
               None \<Rightarrow> Done None
             | Some (st2, replies2, steps2) \<Rightarrow> Done (Some (st2, replies1 @ replies2, steps1 @ steps2))))"

section \<open>What the loop relies on\<close>

text \<open>A protocol works on the signals of the devices, its own state, the time and the options; who is
  connected, ready or gone is the server's.\<close>

definition plug_frame :: "bus_device_plug \<Rightarrow> bus_device_plug" where
  "plug_frame p = p\<lparr>client_signals := [], send_signals := []\<rparr>"

definition bus_frame :: "'e bus_state \<Rightarrow> string \<times> int \<times> bool \<times> string list \<times> bus_device_plug smap" where
  "bus_frame b = (bus_name b, bus_fd b, finished b, unlink_on_initialization b, smap_all plug_frame (device_map b))"

text \<open>What only a step of the bus changes.\<close>

definition plug_core :: "bus_device_plug \<Rightarrow> bus_device_plug" where
  "plug_core p = p\<lparr>plug_fd := 0, ready_flag := False, exited_flag := False, ready_time := 0, ready_scale := 0,
     client_signals := []\<rparr>"

definition bus_core :: "'e bus_state \<Rightarrow> 'e \<times> simtime \<times> mt_context \<times> int \<times> bus_device_plug smap" where
  "bus_core b = (engine b, cur_time b, rand_state b, bus_fd b, smap_all plug_core (device_map b))"

definition waits_for :: "string \<Rightarrow> 'e bus_state \<Rightarrow> bool" where
  "waits_for k b \<longleftrightarrow> (\<exists>p. map_of (device_map b) k = Some p \<and> \<not> ready_flag p)"

definition all_ready :: "'e bus_state \<Rightarrow> bool" where
  "all_ready b \<longleftrightarrow> (\<forall>(k, p) \<in> set (device_map b). ready_flag p)"

definition steps_of :: "string \<Rightarrow> (string \<times> io) list \<Rightarrow> io list" where
  "steps_of port steps = map snd (filter (\<lambda>(q, x). q = port) steps)"

lemma steps_of_simps [simp]:
  "steps_of port [] = []" "steps_of port (xs @ ys) = steps_of port xs @ steps_of port ys"
  "steps_of port (map (Pair q) out) = (if q = port then out else [])"
  by (simp_all add: steps_of_def filter_map o_def)

lemma smap_all_at: "smap_all f (smap_at k g m) = smap_all f m" if "\<And>v. f (g v) = f v"
  using that by (induction m) (auto simp: smap_all_def smap_at_def)

lemma smap_all_all: "smap_all f (smap_all g m) = smap_all (f \<circ> g) m"
  by (induction m) (auto simp: smap_all_def)

lemma scan_all: "fst (scan_ready ds fin) \<longleftrightarrow> (\<forall>(k, p) \<in> set ds. ready_flag p)"
  by (induction ds fin rule: scan_ready.induct) auto

lemma check_bus_core: "check_bus b = (flag, b') \<Longrightarrow>
    flag = all_ready b \<and> (\<exists>fin. b' = b\<lparr>finished := fin\<rparr>)"
  using scan_all [of "device_map b" "finished b"]
  by (auto simp: check_bus_def all_ready_def split: prod.splits)

lemma core_finished [simp]: "bus_core (b\<lparr>finished := fin\<rparr>) = bus_core b"
  by (simp add: bus_core_def)

lemma all_ready_finished [simp]: "all_ready (b\<lparr>finished := fin\<rparr>) = all_ready b"
  by (simp add: all_ready_def)

lemma waits_not_all: "waits_for k b \<Longrightarrow> \<not> all_ready b"
  by (auto simp: waits_for_def all_ready_def dest: map_of_SomeD)

subsection \<open>Reading\<close>

text \<open>A command keeps the core of its bus, and lets a device that is not its own wait.\<close>

lemma core_at_plug: "(\<And>p. plug_core (f p) = plug_core p) \<Longrightarrow> bus_core (at_plug k f b) = bus_core b"
  by (simp add: bus_core_def at_plug_def smap_all_at)

lemma waits_at_plug:
  "waits_for k b \<Longrightarrow> k' = k \<Longrightarrow> (\<And>p. ready_flag (f p) = False) \<Longrightarrow> waits_for k (at_plug k' f b)"
  "waits_for k b \<Longrightarrow> k' \<noteq> k \<Longrightarrow> waits_for k (at_plug k' f b)"
  by (auto simp: waits_for_def at_plug_def map_of_at)

lemma plug_core_simps:
  "plug_core (p\<lparr>plug_fd := fd, ready_flag := r\<rparr>) = plug_core p"
  "plug_core (p\<lparr>ready_flag := r, exited_flag := x\<rparr>) = plug_core p"
  "plug_core (p\<lparr>plug_fd := fd, ready_flag := r, exited_flag := x\<rparr>) = plug_core p"
  by (simp_all add: plug_core_def)

lemma ready_keeps_core: "process_client_ready argv p = Done p' \<Longrightarrow> plug_core p' = plug_core p"
  by (auto simp: process_client_ready_def plug_core_def Let_def split: prod.splits)

lemma core_replace:
  assumes "map_of (device_map b) k = Some p" and "plug_core p' = plug_core p" and "smap_ok (device_map b)"
  shows "bus_core (at_plug k (\<lambda>_. p') b) = bus_core b"
proof -
  have "smap_all plug_core (smap_at k (\<lambda>_. p') m) = smap_all plug_core m"
    if "map_of m k = Some p" "distinct (map fst m)" for m
    using that
  proof (induction m)
    case (Cons x m)
    then show ?case
      using assms(2) by (cases x) (auto simp: smap_all_def smap_at_def image_iff split: if_splits intro!: map_cong)
  qed simp
  from this [OF assms(1)] assms(3) show ?thesis
    by (simp add: bus_core_def at_plug_def strict_sorted_iff)
qed

lemma command_effect:
  assumes "process_client_command os_write fd argv c b = Done (c', b', out)" and "smap_ok (device_map b)"
  shows "bus_core b' = bus_core b \<and> finished b' = finished b \<and> map fst (device_map b') = map fst (device_map b)
    \<and> cl_bus c' = cl_bus c \<and> (waits_for k b \<longrightarrow> cl_interface c \<noteq> Some k \<longrightarrow> waits_for k b')"
proof -
  have opts: "bus_core (x\<lparr>options := o'\<rparr>) = bus_core x" "waits_for k (x\<lparr>options := o'\<rparr>) = waits_for k x" for x :: "'a bus_state" and o'
    by (simp_all add: bus_core_def waits_for_def)
  have hello: "waits_for k b \<Longrightarrow> waits_for k (at_plug k' (\<lambda>p. p\<lparr>plug_fd := fd, ready_flag := False\<rparr>) b)" for k'
    by (cases "k' = k") (auto intro: waits_at_plug)
  show ?thesis
    using assms hello
    by (auto simp: process_client_command_def process_client_hello_def detach_def Let_def opts
        core_at_plug core_replace ready_keeps_core waits_at_plug plug_core_simps split: if_splits option.splits)
      (auto simp: at_plug_def)
qed

lemma read_effect:
  assumes "read_from_socket os_write fd ev c b = Done (c', b', out)" and "smap_ok (device_map b)"
  shows "bus_core b' = bus_core b \<and> finished b' = finished b \<and> map fst (device_map b') = map fst (device_map b)
    \<and> cl_bus c' = cl_bus c \<and> (waits_for k b \<longrightarrow> cl_interface c \<noteq> Some k \<longrightarrow> waits_for k b')"
proof -
  have gone: "bus_core (detach k' b) = bus_core b" "finished (detach k' b) = finished b"
      "map fst (device_map (detach k' b)) = map fst (device_map b)"
      "waits_for k b \<Longrightarrow> k' \<noteq> k \<Longrightarrow> waits_for k (detach k' b)" for k'
    by (simp_all add: detach_def core_at_plug waits_at_plug plug_core_simps) (simp_all add: at_plug_def)
  show ?thesis
    using assms
    by (auto simp: read_from_socket_def Let_def gone split: sock_event.splits option.splits
        dest!: command_effect [where k = k, OF _ assms(2)])
qed

definition quiet :: "string \<Rightarrow> string \<Rightarrow> (int \<Rightarrow> sock_event option) \<Rightarrow> (int \<times> client_state) list \<Rightarrow> bool" where
  "quiet port k evs cm \<longleftrightarrow> (\<forall>(fd, c) \<in> set cm. cl_bus c = port \<and> cl_interface c = Some k \<longrightarrow> evs fd = None)"

lemma read_clients_effect:
  assumes "read_clients os_write evs cs bm = Done (cs', bm', out)" and "map_of bm port = Some b" and "smap_ok (device_map b)"
  shows "map fst bm' = map fst bm \<and> (\<exists>b'. map_of bm' port = Some b' \<and> bus_core b' = bus_core b \<and> finished b' = finished b
    \<and> map fst (device_map b') = map fst (device_map b) \<and> (waits_for k b \<longrightarrow> quiet port k evs cs \<longrightarrow> waits_for k b'))"
  using assms
proof (induction cs arbitrary: bm b cs' bm' out)
  case (Cons x cs)
  obtain fd c where x: "x = (fd, c)" by (cases x)
  show ?case
  proof (cases "evs fd")
    case None
    with Cons.prems(1) x obtain cs1 where "read_clients os_write evs cs bm = Done (cs1, bm', out)" by auto
    from Cons.IH [OF this Cons.prems(2,3)] None show ?thesis by (auto simp: x quiet_def)
  next
    case (Some ev)
    with Cons.prems(1) x obtain b0 c1 b1 o1 cs1 o2 where b0: "map_of bm (cl_bus c) = Some b0"
      and rd: "read_from_socket os_write fd ev c b0 = Done (c1, b1, o1)"
      and rec: "read_clients os_write evs cs (smap_at (cl_bus c) (\<lambda>_. b1) bm) = Done (cs1, bm', o2)"
      by (auto split: option.splits)
    show ?thesis
    proof (cases "cl_bus c = port")
      case True
      with b0 Cons.prems(2) have b0: "b0 = b" by simp
      note eff = read_effect [OF rd [unfolded b0] Cons.prems(3), where k = k]
      have "map_of (smap_at (cl_bus c) (\<lambda>_. b1) bm) port = Some b1" using True Cons.prems(2) by (simp add: map_of_at)
      moreover have "smap_ok (device_map b1)" using eff Cons.prems(3) by simp
      ultimately show ?thesis using Cons.IH [OF rec] eff True Some by (fastforce simp: x quiet_def)
    next
      case False
      have "map_of (smap_at (cl_bus c) (\<lambda>_. b1) bm) port = Some b" using False Cons.prems(2) by (simp add: map_of_at)
      from Cons.IH [OF rec this Cons.prems(3)] show ?thesis by (fastforce simp: x quiet_def)
    qed
  qed
qed simp

lemma set_imap_put: "set (imap_put fd c m) \<subseteq> insert (fd, c) (set m)"
  by (induction fd c m rule: imap_put.induct) auto

lemma quiet_listen: "listen_all acc bs cm = Done cm' \<Longrightarrow> quiet port k evs cm \<Longrightarrow> quiet port k evs cm'"
proof (induction acc bs cm arbitrary: cm' rule: listen_all.induct)
  case (2 acc q b bs cm)
  show ?case
  proof (cases "if 0 \<le> bus_fd b then acc q else None")
    case (Some fd)
    have "quiet port k evs (imap_put fd (new_client q) cm)"
      using 2(4) set_imap_put [of fd "new_client q" cm] by (auto simp: quiet_def new_client_def)
    with 2 Some show ?thesis by simp
  qed (use 2 in simp)
qed simp

subsection \<open>Assembly, the run list and the steps\<close>

lemma init_busses_effect:
  assumes "init_busses vt ports bm = Done (still, bm', out)" and "distinct ports" and "map_of bm port = Some b"
  shows "map fst bm' = map fst bm \<and> distinct still \<and> set still \<subseteq> set ports \<and>
    (if port \<in> set ports
     then (if all_ready b
           then port \<notin> set still \<and> (\<exists>b2 o2. assembly_complete vt (snd (check_bus b)) = Done (b2, o2) \<and> map_of bm' port = Some b2)
           else port \<in> set still \<and> map_of bm' port = Some (snd (check_bus b)))
     else port \<notin> set still \<and> map_of bm' port = Some b)"
  using assms
proof (induction ports arbitrary: bm b still bm' out)
  case (Cons q ports)
  then obtain b0 where b0: "map_of bm q = Some b0" by (auto split: option.splits)
  obtain flag b1 where ch: "check_bus b0 = (flag, b1)" by (cases "check_bus b0")
  note flag = check_bus_core [OF ch]
  obtain b2 still1 o2 where "init_busses vt ports (smap_at q (\<lambda>_. b2) bm) = Done (still1, bm', o2)"
    and "if flag then (\<exists>o1. assembly_complete vt b1 = Done (b2, o1)) \<and> still = still1 else b2 = b1 \<and> still = q # still1"
    using Cons.prems(1) b0 ch by (cases flag) auto
  note rec = this
  show ?case
  proof (cases "q = port")
    case True
    with Cons.prems b0 have "map_of (smap_at q (\<lambda>_. b2) bm) port = Some b2" "b0 = b" "port \<notin> set ports" "distinct ports"
      by (simp_all add: map_of_at)
    with Cons.IH [OF rec(1), of b2] rec(2) ch flag True show ?thesis by (auto split: if_splits)
  next
    case False
    with Cons.prems have "map_of (smap_at q (\<lambda>_. b2) bm) port = Some b" "distinct ports" "q \<notin> set ports"
      by (simp_all add: map_of_at)
    with Cons.IH [OF rec(1), of b] rec(2) False show ?thesis by (auto split: if_splits)
  qed
qed simp

lemma set_insert_run: "snd ` set (insert_run t port run) = insert port (snd ` set run)"
  "distinct (map snd (insert_run t port run)) = (port \<notin> set (map snd run) \<and> distinct (map snd run))"
  by (induction t port run rule: insert_run.induct) auto

lemma collect_effect:
  assumes "collect_run waiting bm run = (bm', run')" and "distinct (map fst bm)"
    and "distinct (map snd run)" and "set (map snd run) \<inter> set (map fst bm) = {}"
  shows "map fst bm' = map fst bm \<and> distinct (map snd run') \<and>
    (\<forall>port. map_of bm' port = map_option (\<lambda>b. if port \<in> set waiting then b else snd (check_bus b)) (map_of bm port)) \<and>
    (\<forall>port. port \<in> set (map snd run') \<longleftrightarrow> port \<in> set (map snd run)
       \<or> port \<notin> set waiting \<and> (\<exists>b. map_of bm port = Some b \<and> all_ready b))"
  using assms
proof (induction bm arbitrary: run bm' run')
  case (Cons x bm)
  obtain port b where x: "x = (port, b)" by (cases x)
  obtain flag b1 where ch: "check_bus b = (flag, b1)" by (cases "check_bus b")
  note flag = check_bus_core [OF ch]
  have none: "map_of bm port = None" using Cons.prems(2) by (simp add: x map_of_eq_None_iff)
  define run1 where "run1 = (if port \<notin> set waiting \<and> flag then insert_run (cur_time b1) port run else run)"
  obtain bm1 where rec: "collect_run waiting bm run1 = (bm1, run')"
    and bm': "bm' = (port, if port \<in> set waiting then b else b1) # bm1"
    using Cons.prems(1) ch by (cases "collect_run waiting bm run1") (auto simp: x run1_def split: if_splits)
  have sub: "snd ` set run1 = (if port \<notin> set waiting \<and> flag then insert port (snd ` set run) else snd ` set run)"
    by (simp add: run1_def set_insert_run)
  have new: "port \<notin> snd ` set run" "snd ` set run \<inter> fst ` set bm = {}" "port \<notin> fst ` set bm" "distinct (map fst bm)"
    using Cons.prems(2,4) unfolding x by auto
  then have d: "distinct (map snd run1)" using Cons.prems(3) by (simp add: run1_def set_insert_run(2))
  have "snd ` set run1 \<inter> fst ` set bm = {}" using new sub by (auto split: if_splits simp del: image_iff)
  with Cons.IH [OF rec new(4) d] show ?case
    using none flag ch sub by (auto simp: x bm' split: if_splits simp del: image_iff)
qed simp

lemma run_effect:
  assumes "run_busses vt os_write run bm = Done (bm', steps)" and "distinct (map snd run)" and "map_of bm port = Some b"
  shows "map fst bm' = map fst bm \<and>
    (if port \<in> set (map snd run)
     then \<exists>b' out. bus_ready vt os_write b = Done (b', out) \<and> map_of bm' port = Some b' \<and> steps_of port steps = out
     else map_of bm' port = Some b \<and> steps_of port steps = [])"
  using assms
proof (induction run arbitrary: bm b bm' steps)
  case (Cons x run)
  obtain t q where x: "x = (t, q)" by (cases x)
  from Cons.prems(1) obtain b0 b1 o1 o2 where b0: "map_of bm q = Some b0" and rdy: "bus_ready vt os_write b0 = Done (b1, o1)"
    and rec: "run_busses vt os_write run (smap_at q (\<lambda>_. b1) bm) = Done (bm', o2)" and st: "steps = map (Pair q) o1 @ o2"
    by (auto simp: x split: option.splits)
  show ?case
  proof (cases "q = port")
    case True
    with Cons.prems b0 have "map_of (smap_at q (\<lambda>_. b1) bm) port = Some b1" "b0 = b" "port \<notin> set (map snd run)" "distinct (map snd run)"
      by (auto simp: x map_of_at)
    with Cons.IH [OF rec, of b1] rdy st True show ?thesis by (auto simp: x)
  next
    case False
    with Cons.prems have "map_of (smap_at q (\<lambda>_. b1) bm) port = Some b" "distinct (map snd run)"
      by (simp_all add: x map_of_at)
    with Cons.IH [OF rec, of b] st False show ?thesis
      by (cases "port \<in> snd ` set run") (simp_all add: x)
  qed
qed simp

section \<open>Lock step\<close>

text \<open>The messages of a step: one UNTIL line per device, or the end of the bus.\<close>

definition until_steps :: "'e bus_state \<Rightarrow> io list" where
  "until_steps b = map (\<lambda>(k, p). Sent (plug_fd p) (until_line (cur_time b) (send_signals p) @ [NL])) (device_map b)"

definition finish_steps :: "'e bus_state \<Rightarrow> io list" where
  "finish_steps b = concat (map (\<lambda>(k, p). [Sent (plug_fd p) (''FINISH'' @ [NL]), Closed (plug_fd p)]) (device_map b))"

definition none_ready :: "'e bus_state \<Rightarrow> bool" where
  "none_ready b \<longleftrightarrow> (\<forall>(k, p) \<in> set (device_map b). \<not> ready_flag p)"

definition server_ok :: "'e server \<Rightarrow> bool" where
  "server_ok st \<longleftrightarrow> smap_ok (bus_map st) \<and> distinct (need_init st)
     \<and> (\<forall>port b. map_of (bus_map st) port = Some b \<longrightarrow> smap_ok (device_map b))"

definition quiet_for :: "string \<Rightarrow> string \<Rightarrow> select_result \<Rightarrow> 'e server \<Rightarrow> bool" where
  "quiet_for port k sel st = (case sel of Selected acc evs \<Rightarrow> quiet port k evs (client_map st) | _ \<Rightarrow> True)"

lemma send_until_steps: "send_until os_write t ds = Done out \<Longrightarrow>
    out = map (\<lambda>(k, p). Sent (plug_fd p) (until_line t (send_signals p) @ [NL])) ds"
  by (induction ds arbitrary: out) (auto simp: Let_def)

lemma frame_flags:
  assumes "smap_all plug_frame m' = smap_all plug_frame m"
  shows "map fst m' = map fst m" and "(\<forall>(k, p) \<in> set m'. ready_flag p) = (\<forall>(k, p) \<in> set m. ready_flag p)"
    and "(\<forall>(k, p) \<in> set m'. \<not> ready_flag p) = (\<forall>(k, p) \<in> set m. \<not> ready_flag p)"
proof -
  show "map fst m' = map fst m" using keys_all [of plug_frame m'] keys_all [of plug_frame m] assms by simp
  have all: "(\<forall>(k, p) \<in> set x. P p) = (\<forall>(k, p) \<in> set (smap_all plug_frame x). P p)"
    if "\<And>p. P (plug_frame p) = P p" for P x
    using that by (induction x) (auto simp: smap_all_def)
  have "(\<forall>(k, p) \<in> set m'. P p) = (\<forall>(k, p) \<in> set m. P p)" if "\<And>p. P (plug_frame p) = P p" for P
    using all [where P = P and x = m', OF that] all [where P = P and x = m, OF that] unfolding assms by (simp only:)
  from this [of ready_flag] this [of "\<lambda>p. \<not> ready_flag p"]
  show "(\<forall>(k, p) \<in> set m'. ready_flag p) = (\<forall>(k, p) \<in> set m. ready_flag p)"
    "(\<forall>(k, p) \<in> set m'. \<not> ready_flag p) = (\<forall>(k, p) \<in> set m. \<not> ready_flag p)"
    by (simp_all add: plug_frame_def)
qed

text \<open>The device stays quiet during a run of turns.\<close>

fun quiet_run :: "'e vtable \<Rightarrow> string \<Rightarrow> string \<Rightarrow> (int \<Rightarrow> string \<Rightarrow> int) \<Rightarrow> select_result list \<Rightarrow> 'e server \<Rightarrow> bool" where
  "quiet_run vt port k os_write [] st = True"
| "quiet_run vt port k os_write (sel # sels) st =
     (quiet_for port k sel st \<and>
      (case service_turn vt os_write sel st of
         Done (Some (st', replies, steps)) \<Rightarrow> quiet_run vt port k os_write sels st'
       | _ \<Rightarrow> True))"

locale protocol_engine =
  fixes vt :: "'e vtable"
  assumes wrap_up_frame: "smap_ok (device_map b) \<Longrightarrow> vt_wrap_up vt b = Done (f, b') \<Longrightarrow> bus_frame b' = bus_frame b"
    and run_init_frame: "smap_ok (device_map b) \<Longrightarrow> vt_run_init vt b = Done b' \<Longrightarrow> bus_frame b' = bus_frame b"
    and run_run_frame: "smap_ok (device_map b) \<Longrightarrow> vt_run_run vt b = Done b' \<Longrightarrow> bus_frame b' = bus_frame b"
begin

lemma frame_keys: "bus_frame b' = bus_frame b \<Longrightarrow> map fst (device_map b') = map fst (device_map b)"
  by (auto simp: bus_frame_def dest: frame_flags(1))

lemma ready_effect:
  assumes "bus_ready vt os_write b = Done (b', out)" and "smap_ok (device_map b)"
  shows "map fst (device_map b') = map fst (device_map b) \<and> none_ready b' \<and>
    (if finished b' then bus_fd b' = -1 \<and> (\<exists>fd. out = finish_steps b' @ [Closed fd]) \<and> (\<forall>(k, p) \<in> set (device_map b'). exited_flag p)
     else out = until_steps b')"
proof -
  from assms obtain b1 where run: "vt_run_run vt (all_plugs (\<lambda>p. p\<lparr>ready_flag := False\<rparr>) b) = Done b1"
    by (auto simp: bus_ready_def)
  from run_run_frame [OF _ this] assms(2) have "smap_all plug_frame (device_map b1) =
      smap_all plug_frame (smap_all (\<lambda>p. p\<lparr>ready_flag := False\<rparr>) (device_map b))"
    by (simp add: bus_frame_def all_plugs_def)
  note fr = frame_flags [OF this]
  have keys: "map fst (device_map b1) = map fst (device_map b)" using fr(1) by simp
  have "\<forall>(k, p) \<in> set (device_map b1). \<not> ready_flag p" unfolding fr(3) by (auto simp: smap_all_def)
  then have nr: "none_ready b1" "none_ready (all_plugs (\<lambda>p. p\<lparr>exited_flag := True\<rparr>) b1)"
    by (auto simp: none_ready_def all_plugs_def smap_all_def)
  show ?thesis
  proof (cases "finished b1")
    case True
    with assms run have b': "b' = (all_plugs (\<lambda>p. p\<lparr>exited_flag := True\<rparr>) b1)\<lparr>bus_fd := -1\<rparr>"
      and "out = finish_steps b1 @ [Closed (bus_fd b1)]"
      by (auto simp: bus_ready_def finish_steps_def)
    moreover have "finish_steps b' = finish_steps b1"
      by (auto simp: finish_steps_def b' all_plugs_def smap_all_def o_def intro!: arg_cong [where f = concat] map_cong)
    moreover have "\<forall>(k, p) \<in> set (device_map b'). exited_flag p" by (auto simp: b' all_plugs_def smap_all_def)
    moreover have "none_ready b'" using nr(2) by (simp add: b' none_ready_def)
    ultimately show ?thesis using keys True by (auto simp: all_plugs_def)
  next
    case False
    with assms run have "b' = b1" "out = until_steps b1"
      by (auto simp: bus_ready_def until_steps_def dest!: send_until_steps)
    with False keys nr show ?thesis by simp
  qed
qed

lemma assembly_effect:
  assumes "assembly_complete vt b = Done (b', out)" and "smap_ok (device_map b)"
  shows "map fst (device_map b') = map fst (device_map b)" and "all_ready b' = all_ready b"
proof -
  from assms obtain f b1 b2 where st: "vt_wrap_up vt b = Done (f, b1)" "vt_run_init vt b1 = Done b2"
      "b' = b2\<lparr>unlink_on_initialization := []\<rparr>"
    by (auto simp: assembly_complete_def)
  then have "smap_all plug_frame (device_map b') = smap_all plug_frame (device_map b)"
    using wrap_up_frame [OF assms(2) st(1)] run_init_frame [OF _ st(2)] frame_keys [of b1 b] assms(2)
    by (simp add: bus_frame_def)
  note fr = frame_flags [OF this]
  show "map fst (device_map b') = map fst (device_map b)" "all_ready b' = all_ready b"
    using fr by (simp_all add: all_ready_def)
qed

text \<open>What a turn does to one bus.\<close>

lemma turn_port:
  assumes "service_turn vt os_write sel st = Done (Some (st', replies, steps))" and "server_ok st"
    and "map_of (bus_map st) port = Some b"
  shows "\<exists>b'. map_of (bus_map st') port = Some b' \<and> map fst (device_map b') = map fst (device_map b) \<and>
    (steps_of port steps = [] \<and> bus_core b' = bus_core b \<and> (quiet_for port k sel st \<longrightarrow> waits_for k b \<longrightarrow> waits_for k b')
     \<or> (\<exists>(b1 :: 'e bus_state) b2. all_ready b1 \<and> (quiet_for port k sel st \<longrightarrow> waits_for k b \<longrightarrow> waits_for k b1)
         \<and> map fst (device_map b2) = map fst (device_map b) \<and> bus_ready vt os_write b2 = Done (b', steps_of port steps)))"
proof (cases sel)
  case (Selected acc evs)
  let ?evs = "\<lambda>fd. if fd \<in> set (watched st) then evs fd else None"
  have ok: "smap_ok (bus_map st)" "distinct (need_init st)" "smap_ok (device_map b)"
    using assms(2,3) by (auto simp: server_ok_def)
  from assms(1) Selected obtain cm cm' bm1 rep still bm2 out bm4
    where listen: "listen_all acc (bus_map st) (client_map st) = Done cm"
      and rd: "read_clients os_write ?evs cm (bus_map st) = Done (cm', bm1, rep)"
      and ini: "init_busses vt (need_init st) bm1 = Done (still, bm2, out)"
      and run0: "run_busses vt os_write (snd (collect_run still bm2 [])) (fst (collect_run still bm2 [])) = Done (bm4, steps)"
      and st': "st' = st\<lparr>bus_map := bm4, client_map := cm', need_init := still\<rparr>"
    by (auto simp: service_turn_def Let_def split_beta split: if_splits)
  obtain bm3 run where col: "collect_run still bm2 [] = (bm3, run)" by (cases "collect_run still bm2 []")
  with run0 have run: "run_busses vt os_write run bm3 = Done (bm4, steps)" by simp
  have q: "quiet_for port k sel st \<Longrightarrow> quiet port k ?evs cm"
    using quiet_listen [OF listen] Selected by (fastforce simp: quiet_for_def quiet_def)
  from read_clients_effect [OF rd assms(3) ok(3), where k = k] obtain b1 where keys1: "map fst bm1 = map fst (bus_map st)"
      and b1: "map_of bm1 port = Some b1" "bus_core b1 = bus_core b" "map fst (device_map b1) = map fst (device_map b)"
      and w1: "quiet_for port k sel st \<Longrightarrow> waits_for k b \<Longrightarrow> waits_for k b1"
    using q by blast
  note ini1 = init_busses_effect [OF ini ok(2) b1(1)]
  have "distinct (map fst bm2)" using ini1 keys1 ok(1) by (simp add: strict_sorted_iff)
  note col1 = collect_effect [OF col this]
  obtain flag c1 where ch: "check_bus b1 = (flag, c1)" by (cases "check_bus b1")
  note flag = check_bus_core [OF ch]
  have d: "distinct (map snd run)" using col1 by simp
  have waiting: ?thesis if b3: "map_of bm3 port = Some b3" "port \<notin> set (map snd run)" and c: "\<exists>f1. b3 = b1\<lparr>finished := f1\<rparr>" for b3
  proof -
    obtain f1 where f1: "b3 = b1\<lparr>finished := f1\<rparr>" using c by blast
    have "map_of (bus_map st') port = Some b3" "steps_of port steps = []"
      using run_effect [OF run d b3(1)] b3(2) st' by simp_all
    moreover have "waits_for k b3 = waits_for k b1" by (simp add: f1 waits_for_def)
    ultimately show ?thesis using b1 w1 by (intro exI [of _ b3]) (simp add: f1)
  qed
  have stepped: ?thesis if b3: "map_of bm3 port = Some b3" "port \<in> set (map snd run)" and r: "all_ready b1"
      and key3: "map fst (device_map b3) = map fst (device_map b1)" for b3
  proof -
    from run_effect [OF run d b3(1)] b3(2) obtain b' where
      "bus_ready vt os_write b3 = Done (b', steps_of port steps)" "map_of bm4 port = Some b'" by auto
    moreover from ready_effect [OF this(1)] key3 b1(3) ok(3) have "map fst (device_map b') = map fst (device_map b3)" by simp
    moreover from calculation have "\<exists>(b1 :: 'e bus_state) b2. all_ready b1 \<and> (quiet_for port k sel st \<longrightarrow> waits_for k b \<longrightarrow> waits_for k b1)
        \<and> map fst (device_map b2) = map fst (device_map b) \<and> bus_ready vt os_write b2 = Done (b', steps_of port steps)"
      using r w1 key3 b1(3) by (intro exI [of _ b1] exI [of _ b3]) simp
    ultimately show ?thesis using st' b1(3) key3 by (intro exI [of _ b']) simp
  qed
  show ?thesis
  proof (cases "all_ready b1")
    case False
    have "\<exists>b3 f1. map_of bm3 port = Some b3 \<and> b3 = b1\<lparr>finished := f1\<rparr> \<and> port \<notin> set (map snd run)"
      using False ini1 col1 ch flag by (cases "port \<in> set (need_init st)") auto
    then show ?thesis using waiting by blast
  next
    case True
    have "\<exists>b2. map_of bm2 port = Some b2 \<and> port \<notin> set still \<and> all_ready b2 \<and> map fst (device_map b2) = map fst (device_map b1)"
    proof (cases "port \<in> set (need_init st)")
      case inset: True
      with ini1 True obtain b2 o2 where "assembly_complete vt (snd (check_bus b1)) = Done (b2, o2)"
        "map_of bm2 port = Some b2" "port \<notin> set still" by auto
      with assembly_effect [OF this(1)] ch flag True b1(3) ok(3) show ?thesis by auto
    qed (use ini1 b1 True in auto)
    then obtain b2 where b2: "map_of bm2 port = Some b2" "port \<notin> set still" "all_ready b2"
      "map fst (device_map b2) = map fst (device_map b1)" by blast
    then have "map_of bm3 port = Some (snd (check_bus b2))" "port \<in> set (map snd run)" using col1 by auto
    moreover have "map fst (device_map (snd (check_bus b2))) = map fst (device_map b1)"
      using b2(4) by (simp add: check_bus_def split_beta)
    ultimately show ?thesis using stepped True by blast
  qed
qed (use assms in \<open>auto simp: service_turn_def split: if_splits\<close>)

text \<open>One turn against one bus: nothing, a step, or its end.\<close>

lemma lockstep:
  assumes "service_turn vt os_write sel st = Done (Some (st', replies, steps))" and "server_ok st"
    and "map_of (bus_map st) port = Some b"
  shows "\<exists>b'. map_of (bus_map st') port = Some b' \<and> map fst (device_map b') = map fst (device_map b) \<and>
    (steps_of port steps = [] \<and> bus_core b' = bus_core b
     \<or> \<not> finished b' \<and> steps_of port steps = until_steps b' \<and> none_ready b'
     \<or> finished b' \<and> bus_fd b' = -1 \<and> (\<forall>(k, p) \<in> set (device_map b'). exited_flag p)
        \<and> (\<exists>fd. steps_of port steps = finish_steps b' @ [Closed fd]))"
proof -
  from turn_port [OF assms] obtain b' where b': "map_of (bus_map st') port = Some b'" "map fst (device_map b') = map fst (device_map b)"
    and "steps_of port steps = [] \<and> bus_core b' = bus_core b
      \<or> (\<exists>b2. map fst (device_map b2) = map fst (device_map b) \<and> bus_ready vt os_write b2 = Done (b', steps_of port steps))"
    by blast
  then consider "steps_of port steps = [] \<and> bus_core b' = bus_core b"
    | b2 where "bus_ready vt os_write b2 = Done (b', steps_of port steps)" "map fst (device_map b2) = map fst (device_map b)"
    by blast
  then show ?thesis
  proof cases
    case 1
    with b' show ?thesis by (intro exI [of _ b']) simp
  next
    case 2
    have "smap_ok (device_map b2)" using 2(2) assms(2,3) by (simp add: server_ok_def)
    from ready_effect [OF 2(1) this] b' show ?thesis by (intro exI [of _ b']) (auto split: if_splits)
  qed
qed

lemma turn_keys:
  assumes "service_turn vt os_write sel st = Done (Some (st', replies, steps))" and "server_ok st"
  shows "map fst (bus_map st') = map fst (bus_map st) \<and> distinct (need_init st')"
proof (cases sel)
  case (Selected acc evs)
  from assms(1) Selected obtain cm cm' bm1 rep still bm2 out bm4
    where rd: "read_clients os_write (\<lambda>fd. if fd \<in> set (watched st) then evs fd else None) cm (bus_map st) = Done (cm', bm1, rep)"
      and ini: "init_busses vt (need_init st) bm1 = Done (still, bm2, out)"
      and run: "run_busses vt os_write (snd (collect_run still bm2 [])) (fst (collect_run still bm2 [])) = Done (bm4, steps)"
      and st': "st' = st\<lparr>bus_map := bm4, client_map := cm', need_init := still\<rparr>"
    by (auto simp: service_turn_def Let_def split_beta split: if_splits)
  have ok: "distinct (map fst (bus_map st))" "distinct (need_init st)"
    using assms(2) by (simp_all add: server_ok_def strict_sorted_iff)
  show ?thesis
  proof (cases "bus_map st")
    case Nil
    have "map fst bm1 = []" using rd unfolding Nil by (induction cm arbitrary: cm' rep) (auto split: option.splits)
    with ini ok(2) have "still = [] \<and> bm2 = []" by (cases "need_init st") auto
    with run st' Nil show ?thesis by simp
  next
    case (Cons x bs)
    obtain port b where "x = (port, b)" by (cases x)
    with Cons have port: "map_of (bus_map st) port = Some b" by simp
    have "smap_ok (device_map b)" using assms(2) port by (simp add: server_ok_def)
    from read_clients_effect [OF rd port this, where k = port] obtain b1 where
      keys: "map fst bm1 = map fst (bus_map st)" and b1: "map_of bm1 port = Some b1" by blast
    note ini1 = init_busses_effect [OF ini ok(2) b1]
    then obtain b2 where b2: "map_of bm2 port = Some b2" by (auto split: if_splits)
    obtain bm3 rl where col: "collect_run still bm2 [] = (bm3, rl)" by (cases "collect_run still bm2 []")
    have "distinct (map fst bm2)" using ini1 keys ok(1) by simp
    note col1 = collect_effect [OF col this]
    then obtain b3 where b3: "map_of bm3 port = Some b3" using b2 by auto
    have "distinct (map snd rl)" using col1 by simp
    from run_effect [OF _ this b3] run col ini1 col1 keys st' show ?thesis by (auto split: if_splits)
  qed
qed (use assms in \<open>auto simp: service_turn_def server_ok_def split: if_splits\<close>)

lemma turn_ok:
  assumes "service_turn vt os_write sel st = Done (Some (st', replies, steps))" and "server_ok st"
  shows "server_ok st'"
proof -
  note keys = turn_keys [OF assms]
  have "smap_ok (device_map b')" if b': "map_of (bus_map st') port = Some b'" for port b'
  proof -
    have "port \<in> fst ` set (bus_map st')" using b' by (auto dest: map_of_SomeD intro: rev_image_eqI)
    then have "port \<in> fst ` set (bus_map st)" using keys by (metis set_map)
    then obtain b where b: "map_of (bus_map st) port = Some b" by (metis map_of_eq_None_iff not_None_eq)
    from turn_port [OF assms b] b' have "map fst (device_map b') = map fst (device_map b)" by auto
    with assms(2) b show ?thesis by (simp add: server_ok_def)
  qed
  with keys assms(2) show ?thesis by (simp add: server_ok_def)
qed

lemma waits:
  assumes "service_turn vt os_write sel st = Done (Some (st', replies, steps))" and "server_ok st"
    and "map_of (bus_map st) port = Some b" and "waits_for k b" and "quiet_for port k sel st"
  shows "\<exists>b'. map_of (bus_map st') port = Some b' \<and> waits_for k b' \<and> bus_core b' = bus_core b \<and> steps_of port steps = []"
  using turn_port [OF assms(1-3), where k = k] assms(4,5) waits_not_all by blast

lemma waits_run:
  "service_loop vt os_write sels st = Done (Some (st', replies, steps)) \<Longrightarrow> server_ok st \<Longrightarrow>
   map_of (bus_map st) port = Some b \<Longrightarrow> waits_for k b \<Longrightarrow> quiet_run vt port k os_write sels st \<Longrightarrow>
   \<exists>b'. map_of (bus_map st') port = Some b' \<and> waits_for k b' \<and> bus_core b' = bus_core b \<and> steps_of port steps = []"
proof (induction sels arbitrary: st b replies steps)
  case (Cons sel sels)
  from Cons.prems(1) obtain st1 r1 s1 r2 s2 where turn: "service_turn vt os_write sel st = Done (Some (st1, r1, s1))"
    and rest: "service_loop vt os_write sels st1 = Done (Some (st', r2, s2))" and steps: "steps = s1 @ s2"
    by (auto split: option.splits)
  from waits [OF turn Cons.prems(2-4)] Cons.prems(5) obtain b1 where b1: "map_of (bus_map st1) port = Some b1"
    "waits_for k b1" "bus_core b1 = bus_core b" "steps_of port s1 = []" by auto
  have "quiet_run vt port k os_write sels st1" using Cons.prems(5) turn by simp
  from Cons.IH [OF rest turn_ok [OF turn Cons.prems(2)] b1(1,2) this] b1 show ?case by (auto simp: steps)
qed auto

end

end
