(* ===== verification/Sim_Server_Links.thy ===== *)
theory Sim_Server_Links
  imports Sim_Server
begin

text \<open>
  The three protocols of the server that join one host and one device: server/PointToPoint.cc,
  server/AXI4Protocol.cc and server/PCIeTLP.cc.  Each has the four-phase bus clock, finds its two
  ends once, and from then on copies signals between them.  The object of the derived class is a
  record, passed beside the bus; its \<open>master_\<close> and \<open>slave_\<close> iterators are keys of the
  device map.
\<close>

section \<open>What the three share\<close>

text \<open>The clock options, and the durations of the four phases in picoseconds.\<close>

definition clock_options :: "'e bus_state \<Rightarrow> (u64 list \<times> 'e bus_state) outcome" where
  "clock_options b =
     (let (high_str, b1) = get_option ''CLOCK_high'' b;
          (low_str, b2) = get_option ''CLOCK_low'' b1;
          (hold_str, b3) = get_option ''CLOCK_hold'' b2;
          (setup_str, b4) = get_option ''CLOCK_setup'' b3;
          hold = fst (strtoul hold_str); high = fst (strtoul high_str);
          stp = fst (strtoul setup_str); low = fst (strtoul low_str)
      in c_assert (0 < hold \<and> hold < high)
          (c_assert (0 < stp \<and> stp < low) (Done ([hold, high - hold, low - stp, stp], b4))))"

definition next_phase :: "nat \<Rightarrow> nat" where
  "next_phase ph = (ph + 1) mod 4"

text \<open>The clock is high in the phases 0 and 1.\<close>

definition clock_level :: "nat \<Rightarrow> bitval" where
  "clock_level ph = (if ph div 2 \<noteq> 0 then BIT_0 else BIT_1)"

definition link_ends :: "bus_device_plug smap \<Rightarrow> (string \<times> string) outcome" where
  "link_ends dm =
     (case dm of
        [(k0, p0), (k1, p1)] \<Rightarrow>
          c_assert (host_flag p1 \<noteq> host_flag p0) (Done (if host_flag p0 then (k0, k1) else (k1, k0)))
      | _ \<Rightarrow> Stop Assert_failed)"

definition plug_do :: "string \<Rightarrow> (bus_device_plug \<Rightarrow> bus_device_plug outcome) \<Rightarrow> 'e bus_state \<Rightarrow> 'e bus_state outcome" where
  "plug_do k f b =
     (case map_of (device_map b) k of
        None \<Rightarrow> Stop Undefined
      | Some p \<Rightarrow> obind (f p) (\<lambda>p'. Done (at_plug k (\<lambda>_. p') b)))"

text \<open>\<open>resize\<close> and the assignments of an initialisation.\<close>

definition put_sends :: "(string \<times> bitval list) list \<Rightarrow> bus_device_plug \<Rightarrow> bus_device_plug" where
  "put_sends kvs p = fold (\<lambda>(nm, v). put_send nm v) kvs p"

section \<open>PointToPoint.cc\<close>

datatype clock_mode_t = CLOCK_RUN | CLOCK_STOP_0 | CLOCK_STOP_1 | CLOCK_STOP_Z

record point_to_point =
  pp_phase :: nat
  pp_clock_phase_map :: "u64 list"
  pp_master_clock_mode :: clock_mode_t
  pp_wid_o :: u32
  pp_wid_i :: u32
  pp_master :: string
  pp_slave :: string

definition PointToPoint :: "'e bus_state \<Rightarrow> (point_to_point \<times> 'e bus_state) outcome" where
  "PointToPoint b =
     (let (w, b1) = get_option ''WIDTH'' b;
          wid = (if w \<noteq> [] then ucast (strtoul0 w) else 0);
          (w_o, b2) = get_option ''WIDTH_O'' b1;
          wid_o = (if w_o \<noteq> [] then ucast (strtoul0 w_o) else wid);
          (w_i, b3) = get_option ''WIDTH_I'' b2;
          wid_i = (if w_i \<noteq> [] then ucast (strtoul0 w_i) else wid)
      in obind (clock_options b3) (\<lambda>(ps, b4).
           Done (\<lparr>pp_phase = 0, pp_clock_phase_map = ps, pp_master_clock_mode = CLOCK_RUN,
                  pp_wid_o = wid_o, pp_wid_i = wid_i, pp_master = [], pp_slave = []\<rparr>, b4)))"

definition pp_run_init :: "point_to_point \<Rightarrow> 'e bus_state \<Rightarrow> (point_to_point \<times> 'e bus_state) outcome" where
  "pp_run_init e b =
     obind (link_ends (device_map b)) (\<lambda>(m, s).
       Done (e\<lparr>pp_master := m, pp_slave := s\<rparr>,
             at_plug s (put_sends [(''CLOCK'', [BIT_1]), (''DATA_O'', replicate (unat (pp_wid_o e)) BIT_Z)])
              (at_plug m (put_sends [(''CLOCK'', [BIT_1]), (''DATA_I'', replicate (unat (pp_wid_i e)) BIT_Z)]) b)))"

definition pp_slave_clock :: "clock_mode_t \<Rightarrow> bitval \<Rightarrow> bitval" where
  "pp_slave_clock mode clk =
     (case mode of CLOCK_RUN \<Rightarrow> clk | CLOCK_STOP_0 \<Rightarrow> BIT_0 | CLOCK_STOP_1 \<Rightarrow> BIT_1 | CLOCK_STOP_Z \<Rightarrow> BIT_Z)"

text \<open>\<open>if (clock_mode[idx] == BIT_1) val |= 1<<idx;\<close> over a vector that is at most 32 wide.\<close>

definition pp_mode_of :: "bitval list \<Rightarrow> clock_mode_t outcome" where
  "pp_mode_of v =
     (if v = [] then Done CLOCK_RUN
      else c_defined (length v \<le> 32)
        (let val = (gather (\<lambda>x. x = BIT_1) v 0 (length v) 1 0 :: u32)
         in Done (if val = 0 then CLOCK_RUN else if val = 1 then CLOCK_STOP_0 else if val = 2 then CLOCK_STOP_1
                  else if val = 3 then CLOCK_STOP_Z else CLOCK_RUN)))"

text \<open>A vector of the width of the bus: missing lines are released.\<close>

definition pp_fit :: "nat \<Rightarrow> bitval list \<Rightarrow> bitval list" where
  "pp_fit w v = map (\<lambda>idx. if idx < length v then v ! idx else BIT_Z) [0..<w]"

definition pp_run_run :: "point_to_point \<Rightarrow> 'e bus_state \<Rightarrow> (point_to_point \<times> 'e bus_state) outcome" where
  "pp_run_run e b =
     (let ph = next_phase (pp_phase e); clk = clock_level ph; m = pp_master e; s = pp_slave e;
          b1 = advance_time (pp_clock_phase_map e ! ph) (-12) b
      in obind (plug_do m (drive0 ''CLOCK'' clk) b1) (\<lambda>b2.
         obind (plug_do s (drive0 ''CLOCK'' (pp_slave_clock (pp_master_clock_mode e) clk)) b2) (\<lambda>b3.
         case (map_of (device_map b3) m, map_of (device_map b3) s) of
           (Some mp, Some sp) \<Rightarrow>
             obind (pp_mode_of (in_sig mp ''CLOCK_MODE'')) (\<lambda>mode.
               Done (e\<lparr>pp_phase := ph, pp_master_clock_mode := mode\<rparr>,
                     at_plug m (put_send ''DATA_I'' (pp_fit (unat (pp_wid_i e)) (in_sig sp ''DATA_I'')))
                      (at_plug s (put_send ''DATA_O'' (pp_fit (unat (pp_wid_o e)) (in_sig mp ''DATA_O''))) b3)))
         | _ \<Rightarrow> Stop Undefined)))"

section \<open>AXI4Protocol.cc\<close>

record axi4_protocol =
  ax_data_width :: u32
  ax_addr_width :: u32
  ax_wid_width :: u32
  ax_rid_width :: u32
  ax_irq_width :: u32
  ax_master :: string
  ax_slave :: string
  ax_phase :: nat
  ax_clock_phase_map :: "u64 list"

definition AXI4Protocol :: "'e bus_state \<Rightarrow> (axi4_protocol \<times> 'e bus_state) outcome" where
  "AXI4Protocol b =
     obind (clock_options b) (\<lambda>(ps, b1).
       Done (\<lparr>ax_data_width = 0, ax_addr_width = 0, ax_wid_width = 0, ax_rid_width = 0, ax_irq_width = 0,
              ax_master = [], ax_slave = [], ax_phase = 0, ax_clock_phase_map = ps\<rparr>, b1))"

definition ax_wrap_up :: "axi4_protocol \<Rightarrow> 'e bus_state \<Rightarrow> axi4_protocol \<times> 'e bus_state" where
  "ax_wrap_up e b =
     (let (dw, b1) = get_option ''data_width'' b; (aw, b2) = get_option ''addr_width'' b1;
          (ww, b3) = get_option ''wid_width'' b2; (rw, b4) = get_option ''rid_width'' b3;
          (iw, b5) = get_option ''irq_width'' b4;
          d = (ucast (strtoul0 dw) :: u32); a = (ucast (strtoul0 aw) :: u32); w = (ucast (strtoul0 ww) :: u32)
      in (e\<lparr>ax_data_width := (if d = 0 then 32 else d), ax_addr_width := (if a = 0 then 32 else a),
            ax_wid_width := (if w = 0 then 4 else w), ax_rid_width := ucast (strtoul0 rw),
            ax_irq_width := ucast (strtoul0 iw)\<rparr>, b5))"

text \<open>The two loops that mean \<open>tmp_lock\<close> and \<open>tmp_cache\<close> clear \<open>tmp_resp\<close> and \<open>tmp_prot\<close>
  instead; a vector that is only constructed holds \<open>BIT_0\<close>.\<close>

definition ax_slave_init :: "axi4_protocol \<Rightarrow> (string \<times> bitval list) list" where
  "ax_slave_init e =
     (let addr = replicate (unat (ax_addr_width e)) BIT_Z; data = replicate (unat (ax_data_width e)) BIT_Z;
          strb = replicate (unat (ax_data_width e) div 8) BIT_Z; wid = replicate (unat (ax_wid_width e)) BIT_0;
          rid = replicate (unat (ax_rid_width e)) BIT_0;
          resp = fill_bits 0 2 BIT_0 (replicate 2 BIT_Z); prot = fill_bits 0 3 BIT_0 (replicate 3 BIT_Z);
          lock = replicate 2 BIT_0; cache = replicate 4 BIT_0; qos = replicate 4 BIT_Z; len = replicate 8 BIT_Z
      in [(''ACLK'', [BIT_1]), (''ARESETn'', [BIT_1]),
          (''AWVALID'', [BIT_Z]), (''AWADDR'', addr), (''AWLEN'', len), (''AWSIZE'', prot), (''AWBURST'', resp),
          (''AWLOCK'', lock), (''AWCACHE'', cache), (''AWPROT'', prot), (''AWQOS'', qos), (''AWID'', wid),
          (''WVALID'', [BIT_Z]), (''WDATA'', data), (''WSTRB'', strb), (''BREADY'', [BIT_Z]),
          (''ARVALID'', [BIT_Z]), (''ARADDR'', addr), (''ARLEN'', len), (''ARSIZE'', prot), (''ARBURST'', resp),
          (''ARLOCK'', lock), (''ARCACHE'', cache), (''ARPROT'', prot), (''ARQOS'', qos), (''ARID'', rid),
          (''RREADY'', [BIT_Z])])"

definition ax_master_init :: "axi4_protocol \<Rightarrow> (string \<times> bitval list) list" where
  "ax_master_init e =
     (let resp = fill_bits 0 2 BIT_0 (replicate 2 BIT_Z)
      in [(''ACLK'', [BIT_1]), (''AWREADY'', [BIT_Z]), (''WREADY'', [BIT_Z]), (''BVALID'', [BIT_Z]), (''BRESP'', resp),
          (''BID'', replicate (unat (ax_wid_width e)) BIT_0), (''ARREADY'', [BIT_Z]), (''RVALID'', [BIT_Z]),
          (''RDATA'', replicate (unat (ax_data_width e)) BIT_Z), (''RRESP'', resp),
          (''RID'', replicate (unat (ax_rid_width e)) BIT_0), (''IRQ'', replicate (unat (ax_irq_width e)) BIT_Z)])"

definition ax_run_init :: "axi4_protocol \<Rightarrow> 'e bus_state \<Rightarrow> (axi4_protocol \<times> 'e bus_state) outcome" where
  "ax_run_init e b =
     obind (link_ends (device_map b)) (\<lambda>(m, s).
       Done (e\<lparr>ax_master := m, ax_slave := s\<rparr>,
             at_plug s (put_sends (ax_slave_init e)) (at_plug m (put_sends (ax_master_init e)) b)))"

text \<open>\<open>run_master_to_slave_\<close> and \<open>run_slave_to_master_\<close>: one vector from one end to the other, of the
  stated width if there is one.\<close>

definition run_route :: "string \<Rightarrow> string \<Rightarrow> string \<times> nat option \<Rightarrow> 'e bus_state \<Rightarrow> 'e bus_state outcome" where
  "run_route src dst = (\<lambda>(nm, bits) b.
     (case map_of (device_map b) src of
        None \<Rightarrow> Stop Undefined
      | Some p \<Rightarrow>
          c_assert (case bits of None \<Rightarrow> True | Some n \<Rightarrow> length (in_sig p nm) = n)
            (Done (at_plug dst (put_send nm (in_sig p nm)) b))))"

text \<open>\<open>True\<close> marks a signal from the master to the slave.\<close>

fun run_routes :: "string \<Rightarrow> string \<Rightarrow> (bool \<times> string \<times> nat option) list \<Rightarrow> 'e bus_state \<Rightarrow> 'e bus_state outcome" where
  "run_routes m s [] b = Done b"
| "run_routes m s ((down, sig) # rs) b =
     obind (if down then run_route m s sig b else run_route s m sig b) (run_routes m s rs)"

definition ax_routes :: "axi4_protocol \<Rightarrow> (bool \<times> string \<times> nat option) list" where
  "ax_routes e =
     (let a = unat (ax_addr_width e); d = unat (ax_data_width e); w = unat (ax_wid_width e)
      in map (\<lambda>(down, nm, n). (down, nm, Some n))
         ([(True, ''ARESETn'', 1), (True, ''AWVALID'', 1), (False, ''AWREADY'', 1), (True, ''AWADDR'', a),
           (True, ''AWLEN'', 8), (True, ''AWSIZE'', 3), (True, ''AWBURST'', 2), (True, ''AWLOCK'', 2),
           (True, ''AWCACHE'', 4), (True, ''AWPROT'', 3), (True, ''AWQOS'', 4), (True, ''AWID'', w),
           (True, ''WVALID'', 1), (False, ''WREADY'', 1), (True, ''WDATA'', d), (True, ''WSTRB'', d div 8),
           (False, ''BVALID'', 1), (True, ''BREADY'', 1), (False, ''BRESP'', 2), (False, ''BID'', w),
           (True, ''ARVALID'', 1), (False, ''ARREADY'', 1), (True, ''ARADDR'', a),
           (True, ''ARLEN'', 8), (True, ''ARSIZE'', 3), (True, ''ARBURST'', 2), (True, ''ARLOCK'', 2),
           (True, ''ARCACHE'', 4), (True, ''ARPROT'', 3), (True, ''ARQOS'', 4), (True, ''ARID'', w),
           (False, ''RVALID'', 1), (True, ''RREADY'', 1), (False, ''RDATA'', d), (False, ''RRESP'', 2),
           (False, ''RID'', unat (ax_rid_width e))]
          @ (if 0 < ax_irq_width e then [(False, ''IRQ'', unat (ax_irq_width e))] else [])))"

definition ax_run_run :: "axi4_protocol \<Rightarrow> 'e bus_state \<Rightarrow> (axi4_protocol \<times> 'e bus_state) outcome" where
  "ax_run_run e b =
     (let ph = next_phase (ax_phase e); clk = clock_level ph; m = ax_master e; s = ax_slave e;
          b1 = advance_time (ax_clock_phase_map e ! ph) (-12) b
      in obind (plug_do m (drive0 ''ACLK'' clk) b1) (\<lambda>b2.
         obind (plug_do s (drive0 ''ACLK'' clk) b2) (\<lambda>b3.
         obind (run_routes m s (ax_routes e) b3) (\<lambda>b4. Done (e\<lparr>ax_phase := ph\<rparr>, b4)))))"

section \<open>PCIeTLP.cc\<close>

record pcie_tlp_protocol =
  pt_phase :: nat
  pt_clock_phase_map :: "u64 list"
  pt_master :: string
  pt_slave :: string

definition PCIeTLP :: "'e bus_state \<Rightarrow> (pcie_tlp_protocol \<times> 'e bus_state) outcome" where
  "PCIeTLP b =
     obind (clock_options b) (\<lambda>(ps, b1).
       Done (\<lparr>pt_phase = 0, pt_clock_phase_map = ps, pt_master = [], pt_slave = []\<rparr>, b1))"

definition pt_slave_init :: "(string \<times> bitval list) list" where
  "pt_slave_init =
     [(''user_clk'', [BIT_1]), (''user_reset'', [BIT_1]), (''user_lnk_up'', [BIT_1]),
      (''tx_buf_av'', replicate 6 BIT_1), (''m_axis_rx_tdata'', replicate 64 BIT_X),
      (''m_axis_rx_tkeep'', replicate 8 BIT_X), (''m_axis_rx_tlast'', [BIT_1]), (''m_axis_rx_tvalid'', [BIT_X]),
      (''s_axis_tx_tready'', [BIT_X])]"

definition pt_master_init :: "(string \<times> bitval list) list" where
  "pt_master_init =
     [(''user_clk'', [BIT_1]), (''m_axis_rx_tready'', [BIT_X]), (''s_axis_tx_tdata'', replicate 64 BIT_X),
      (''s_axis_tx_tkeep'', replicate 8 BIT_X), (''s_axis_tx_tlast'', [BIT_1]), (''s_axis_tx_tvalid'', [BIT_X]),
      (''s_axis_tx_user'', replicate 22 BIT_X)]"

definition pt_run_init :: "pcie_tlp_protocol \<Rightarrow> 'e bus_state \<Rightarrow> (pcie_tlp_protocol \<times> 'e bus_state) outcome" where
  "pt_run_init e b =
     obind (link_ends (device_map b)) (\<lambda>(m, s).
       Done (e\<lparr>pt_master := m, pt_slave := s\<rparr>,
             at_plug s (put_sends pt_slave_init) (at_plug m (put_sends pt_master_init) b)))"

definition pt_routes :: "(bool \<times> string \<times> nat option) list" where
  "pt_routes =
     map (\<lambda>(down, nm). (down, nm, None))
      [(True, ''user_reset''), (True, ''user_lnk_up''), (True, ''tx_buf_av''),
       (True, ''m_axis_rx_tdata''), (True, ''m_axis_rx_tkeep''), (True, ''m_axis_rx_tlast''),
       (False, ''m_axis_rx_tready''), (True, ''m_axis_rx_tvalid''),
       (False, ''s_axis_tx_tdata''), (False, ''s_axis_tx_tkeep''), (False, ''s_axis_tx_tlast''),
       (True, ''s_axis_tx_tready''), (False, ''s_axis_tx_tvalid''), (False, ''s_axis_tx_tuser'')]"

definition pt_run_run :: "pcie_tlp_protocol \<Rightarrow> 'e bus_state \<Rightarrow> (pcie_tlp_protocol \<times> 'e bus_state) outcome" where
  "pt_run_run e b =
     (let ph = next_phase (pt_phase e); clk = clock_level ph; m = pt_master e; s = pt_slave e;
          b1 = advance_time (pt_clock_phase_map e ! ph) (-12) b
      in obind (plug_do m (drive0 ''user_clk'' clk) b1) (\<lambda>b2.
         obind (plug_do s (drive0 ''user_clk'' clk) b2) (\<lambda>b3.
         obind (run_routes m s pt_routes b3) (\<lambda>b4. Done (e\<lparr>pt_phase := ph\<rparr>, b4)))))"

end
