(* ===== verification/Sim_Server_PCI.thy ===== *)
theory Sim_Server_PCI
  imports Sim_Server_Links
begin

text \<open>
  server/PciProtocol.cc: the PCI bus of the server.  It steps the clock through four phases, samples
  the requests, arbitrates, routes interrupts and resolves the shared lines of all devices.
  Pointers to plugs are keys of the device map; \<open>None\<close> is the null pointer.  Reading an element
  of a vector that is too short is \<open>Undefined\<close>.
\<close>

section \<open>State and construction\<close>

datatype park_mode_t = GNT_PARK_NONE | GNT_PARK_LAST

record pci_protocol =
  pci_clock_phase_map :: "(bitval \<times> u64) list"
  pci_park_mode :: park_mode_t
  pci_gnt_linger :: int
  pci_phase :: nat
  pci_granted :: "string option"
  pci_master :: "string option"
  pci_pcixcap :: bitval
  pci_req_n :: "bitval list"

definition clock_phase_map33 :: "(bitval \<times> u64) list" where
  "clock_phase_map33 = [(BIT_1, 2000), (BIT_1, 13000), (BIT_0, 13000), (BIT_0, 2000)]"

definition clock_phase_map66 :: "(bitval \<times> u64) list" where
  "clock_phase_map66 = [(BIT_1, 2000), (BIT_1, 5500), (BIT_0, 5500), (BIT_0, 2000)]"

definition PciProtocol :: "'e bus_state \<Rightarrow> pci_protocol \<times> 'e bus_state" where
  "PciProtocol b =
     (let (bus_speed, b1) = get_option ''bus_speed'' b;
          (bus_park, b2) = get_option ''bus_park'' b1;
          (gnt_linger, b3) = get_option ''gnt_linger'' b2;
          (pcixcap_str, b4) = get_option ''PCIXCAP'' b3
      in (\<lparr>pci_clock_phase_map = (if bus_speed = ''66'' then clock_phase_map66 else clock_phase_map33),
           pci_park_mode = (if bus_park = ''last'' then GNT_PARK_LAST else GNT_PARK_NONE),
           pci_gnt_linger = (if gnt_linger \<noteq> [] then sint (strtoul0 gnt_linger) else 16),
           pci_phase = 0, pci_granted = None, pci_master = None,
           pci_pcixcap = (if pcixcap_str = ''yes'' then BIT_1 else BIT_0),
           pci_req_n = replicate 16 BIT_0\<rparr>, b4))"

text \<open>The shared lines and their widths.\<close>

definition shared_lines :: "(string \<times> nat) list" where
  "shared_lines = [(''FRAME#'', 1), (''REQ64#'', 1), (''IRDY#'', 1), (''TRDY#'', 1), (''STOP#'', 1), (''DEVSEL#'', 1),
     (''ACK64#'', 1), (''PAR'', 1), (''PAR64'', 1), (''C/BE#'', 8), (''AD'', 64)]"

definition put_clients :: "(string \<times> bitval list) list \<Rightarrow> bus_device_plug \<Rightarrow> bus_device_plug" where
  "put_clients kvs p = fold (\<lambda>(nm, v). put_client nm v) kvs p"

definition released :: "(string \<times> bitval list) list" where
  "released = map (\<lambda>(nm, w). (nm, replicate w BIT_Z)) shared_lines"

definition pci_init_plug :: "bitval \<Rightarrow> bus_device_plug \<Rightarrow> bus_device_plug" where
  "pci_init_plug cap p =
     put_clients released
       (put_sends ([(''PCIXCAP'', [cap]), (''PCI_CLK'', [BIT_1]), (''GNT#'', [BIT_1]), (''IDSEL'', [BIT_Z])] @ released
         @ (if host_flag p
            then map (\<lambda>nm. (nm, replicate 16 BIT_1)) [''INTA#'', ''INTB#'', ''INTC#'', ''INTD#'']
            else [(''RESET#'', [BIT_1])])) p)"

definition pci_run_init :: "pci_protocol \<Rightarrow> 'e bus_state \<Rightarrow> (pci_protocol \<times> 'e bus_state) outcome" where
  "pci_run_init e b =
     Done (e\<lparr>pci_granted := None, pci_master := None, pci_req_n := replicate 16 BIT_1\<rparr>,
           all_plugs (pci_init_plug (pci_pcixcap e)) b)"

section \<open>Reset and requests\<close>

fun reset_scan :: "bitval \<Rightarrow> bus_device_plug smap \<Rightarrow> bitval" where
  "reset_scan r [] = r"
| "reset_scan r ((k, p) # ds) =
     (if \<not> host_flag p then reset_scan r ds
      else case in_sig p ''RESET#'' of
        [] \<Rightarrow> reset_scan r ds
      | x # _ \<Rightarrow> if x = BIT_1 then reset_scan r ds else if x \<noteq> BIT_0 then reset_scan BIT_X ds else BIT_0)"

definition calculate_reset_n :: "bus_device_plug smap \<Rightarrow> bitval" where
  "calculate_reset_n dm = reset_scan BIT_1 dm"

text \<open>Element 0 of a client's vector.\<close>

definition line0 :: "bus_device_plug smap \<Rightarrow> string \<Rightarrow> string \<Rightarrow> bitval outcome" where
  "line0 dm k nm =
     (case map_of dm k of
        None \<Rightarrow> Stop Undefined
      | Some p \<Rightarrow> (case in_sig p nm of [] \<Rightarrow> Stop Undefined | x # _ \<Rightarrow> Done x))"

fun sample_req :: "bus_device_plug smap \<Rightarrow> bitval list \<Rightarrow> bitval list outcome" where
  "sample_req [] req = Done req"
| "sample_req ((k, p) # ds) req =
     (case in_sig p ''REQ#'' of
        [] \<Rightarrow> sample_req ds req
      | x # _ \<Rightarrow>
          if x = BIT_Z then sample_req ds req
          else c_defined (unat (plug_ident p) < 16) (sample_req ds (req[unat (plug_ident p) := x])))"

text \<open>Who owns the bus, given who is granted it.\<close>

definition next_master :: "bus_device_plug smap \<Rightarrow> string option \<Rightarrow> string option \<Rightarrow> string option outcome" where
  "next_master dm granted mst =
     (case (mst, granted) of
        (None, None) \<Rightarrow> Done None
      | (None, Some g) \<Rightarrow> obind (line0 dm g ''FRAME#'') (\<lambda>f. Done (if f = BIT_0 then Some g else None))
      | (Some m, Some g) \<Rightarrow>
          if m = g then Done (Some m)
          else obind (line0 dm m ''FRAME#'') (\<lambda>f.
            if f = BIT_0 then Done (Some m)
            else obind (line0 dm m ''IRDY#'') (\<lambda>i. Done (if i = BIT_0 then Some m else Some g)))
      | (Some m, None) \<Rightarrow>
          obind (line0 dm m ''FRAME#'') (\<lambda>f.
            if f = BIT_0 then Done (Some m)
            else obind (line0 dm m ''IRDY#'') (\<lambda>i. Done (if i = BIT_0 then Some m else None))))"

definition track_req_n :: "pci_protocol \<Rightarrow> bus_device_plug smap \<Rightarrow> pci_protocol outcome" where
  "track_req_n e dm =
     (if pci_phase e \<noteq> 0 then Done e
      else obind (sample_req dm (replicate 16 BIT_1)) (\<lambda>req.
           obind (next_master dm (pci_granted e) (pci_master e)) (\<lambda>m.
             Done (e\<lparr>pci_req_n := req, pci_master := m\<rparr>))))"

section \<open>Arbitration\<close>

text \<open>\<open>do { new_grant = (new_grant+1) % 16; } while (req_n_[new_grant] != BIT_0);\<close> After 16 turns the
  loop is where it started, so a search that has not ended by then never does.\<close>

fun next_grant :: "nat \<Rightarrow> bitval list \<Rightarrow> nat \<Rightarrow> nat outcome" where
  "next_grant 0 req g = Stop Diverges"
| "next_grant (Suc n) req g =
     (let g' = (g + 1) mod 16 in if req ! g' = BIT_0 then Done g' else next_grant n req g')"

definition ident_of :: "bus_device_plug smap \<Rightarrow> string \<Rightarrow> nat" where
  "ident_of dm k = (case map_of dm k of None \<Rightarrow> 0 | Some p \<Rightarrow> unat (plug_ident p))"

text \<open>Nobody requests: now and then the grant of a master is recalled.\<close>

definition recall_grant :: "pci_protocol \<Rightarrow> 'e bus_state \<Rightarrow> (pci_protocol \<times> 'e bus_state) outcome" where
  "recall_grant e b =
     (case pci_granted e of
        None \<Rightarrow> Done (e, b)
      | Some g \<Rightarrow>
          if pci_master e = None \<or> pci_park_mode e = GNT_PARK_LAST then Done (e, b)
          else obind (lrand b) (\<lambda>(r, b1).
            c_defined (pci_gnt_linger e \<noteq> 0)
              (if uint r mod \<bar>pci_gnt_linger e\<bar> = 0
               then obind (plug_do g (drive0 ''GNT#'' BIT_1) b1) (\<lambda>b2. Done (e\<lparr>pci_granted := None\<rparr>, b2))
               else Done (e, b1))))"

text \<open>The grant goes to the device with a number, and away from the one that has it.\<close>

definition move_grant :: "nat \<Rightarrow> pci_protocol \<Rightarrow> 'e bus_state \<Rightarrow> (pci_protocol \<times> 'e bus_state) outcome" where
  "move_grant new_grant e b =
     (case find (\<lambda>(k, p). unat (plug_ident p) = new_grant) (device_map b) of
        None \<Rightarrow> Stop Assert_failed
      | Some (k, p) \<Rightarrow>
          obind (plug_do k (drive0 ''GNT#'' BIT_0) b) (\<lambda>b1.
          obind (case pci_granted e of None \<Rightarrow> Done b1 | Some g \<Rightarrow> plug_do g (drive0 ''GNT#'' BIT_1) b1) (\<lambda>b2.
            Done (e\<lparr>pci_granted := Some k\<rparr>, b2))))"

definition arbitrate :: "pci_protocol \<Rightarrow> 'e bus_state \<Rightarrow> (pci_protocol \<times> 'e bus_state) outcome" where
  "arbitrate e b =
     (let dm = device_map b; req = pci_req_n e
      in if pci_phase e \<noteq> 1 then Done (e, b)
         else if BIT_0 \<notin> set req then recall_grant e b
         else
           (case pci_granted e of
              Some g \<Rightarrow>
                c_defined (ident_of dm g < 16)
                  (if req ! ident_of dm g = BIT_0 then Done (e, b)
                   else obind (next_grant 16 req (ident_of dm g)) (\<lambda>new_grant.
                     if new_grant = ident_of dm g then Done (e, b) else move_grant new_grant e b))
            | None \<Rightarrow>
                obind (lrand b) (\<lambda>(r, b1).
                obind (next_grant 16 req (unat r mod 16)) (\<lambda>new_grant. move_grant new_grant e b1))))"

section \<open>Interrupts\<close>

definition int_bit :: "bus_device_plug \<Rightarrow> string \<Rightarrow> bitval" where
  "int_bit p nm = (case in_sig p nm of [] \<Rightarrow> BIT_1 | x # _ \<Rightarrow> if x = BIT_Z then BIT_1 else x)"

definition int_sources :: "string \<Rightarrow> bus_device_plug smap \<Rightarrow> (nat \<times> bitval) list" where
  "int_sources nm dm = map (\<lambda>(k, p). (unat (plug_ident p), int_bit p nm)) (filter (\<lambda>(k, p). \<not> host_flag p) dm)"

definition send_int :: "bus_device_plug smap \<Rightarrow> string \<Rightarrow> bus_device_plug \<Rightarrow> bus_device_plug outcome" where
  "send_int dm nm p =
     c_assert (\<forall>(i, x) \<in> set (int_sources nm dm). i < 16)
       (c_defined (\<forall>(i, x) \<in> set (int_sources nm dm). i < length (out_sig p nm))
         (Done (put_send nm (fold (\<lambda>(i, x) v. v[i := x]) (int_sources nm dm) (out_sig p nm)) p)))"

text \<open>An operation on the plugs in turn.\<close>

fun each_plug :: "(bus_device_plug \<Rightarrow> bus_device_plug outcome) \<Rightarrow> bus_device_plug smap \<Rightarrow> bus_device_plug smap outcome" where
  "each_plug f [] = Done []"
| "each_plug f ((k, p) # ds) = obind (f p) (\<lambda>p'. obind (each_plug f ds) (\<lambda>ds'. Done ((k, p') # ds')))"

definition route_interrupts :: "bus_device_plug smap \<Rightarrow> bus_device_plug smap outcome" where
  "route_interrupts dm =
     each_plug (\<lambda>p.
       if \<not> host_flag p then Done p
       else obind (send_int dm ''INTA#'' p) (\<lambda>p1. obind (send_int dm ''INTB#'' p1) (\<lambda>p2.
            obind (send_int dm ''INTC#'' p2) (send_int dm ''INTD#'')))) dm"

section \<open>Shared lines\<close>

definition blend_bits :: "bitval \<Rightarrow> bitval \<Rightarrow> bitval" where
  "blend_bits a b = (if a = BIT_Z then b else if b = BIT_Z then a else if a = b then a else BIT_X)"

definition subtract_feedback :: "bitval \<Rightarrow> bitval \<Rightarrow> bitval" where
  "subtract_feedback sig ref = (if ref = BIT_Z then sig else if sig = ref then BIT_Z else sig)"

text \<open>The resolved value of line \<open>idx\<close> of a vector.\<close>

definition resolved :: "bus_device_plug smap \<Rightarrow> string \<Rightarrow> nat \<Rightarrow> bitval" where
  "resolved dm nm idx = foldl (\<lambda>a (k, p). blend_bits a (in_sig p nm ! idx)) BIT_Z dm"

definition send_shared :: "bus_device_plug smap \<Rightarrow> string \<times> nat \<Rightarrow> bus_device_plug \<Rightarrow> bus_device_plug" where
  "send_shared dm = (\<lambda>(nm, w) p.
     put_send nm (map (\<lambda>idx. subtract_feedback (resolved dm nm idx) (in_sig p nm ! idx)) [0..<w] @ drop w (out_sig p nm)) p)"

definition blend_bi_signals :: "bus_device_plug smap \<Rightarrow> bus_device_plug smap outcome" where
  "blend_bi_signals dm =
     c_defined (\<forall>(k, p) \<in> set dm. \<forall>(nm, w) \<in> set shared_lines. w \<le> length (in_sig p nm) \<and> w \<le> length (out_sig p nm))
       (each_plug (\<lambda>p.
          c_defined (unat (plug_ident p) + 16 < 64)
            (drive0 ''IDSEL'' (resolved dm ''AD'' (unat (plug_ident p) + 16)) (fold (send_shared dm) shared_lines p))) dm)"

section \<open>One step\<close>

definition drive_outputs :: "bitval \<Rightarrow> bitval \<Rightarrow> bus_device_plug \<Rightarrow> bus_device_plug outcome" where
  "drive_outputs clk reset_n p =
     obind (drive0 ''PCI_CLK'' clk p) (\<lambda>p1. if host_flag p then Done p1 else drive0 ''RESET#'' reset_n p1)"

definition pci_run_run :: "pci_protocol \<Rightarrow> 'e bus_state \<Rightarrow> (pci_protocol \<times> 'e bus_state) outcome" where
  "pci_run_run e b =
     (let ph = next_phase (pci_phase e); e1 = e\<lparr>pci_phase := ph\<rparr>;
          (pci_clk, duration) = pci_clock_phase_map e ! ph;
          b1 = advance_time duration (-12) b;
          reset_n = calculate_reset_n (device_map b1)
      in obind (track_req_n e1 (device_map b1)) (\<lambda>e2.
         obind (arbitrate e2 b1) (\<lambda>(e3, b2).
         obind (route_interrupts (device_map b2)) (\<lambda>dm3.
         obind (blend_bi_signals dm3) (\<lambda>dm4.
         obind (each_plug (drive_outputs pci_clk reset_n) dm4) (\<lambda>dm5. Done (e3, b2\<lparr>device_map := dm5\<rparr>)))))))"

section \<open>Round robin\<close>

lemma next_grant_first:
  assumes "next_grant n req g = Done g'"
  shows "\<exists>j < n. g' = (g + Suc j) mod 16 \<and> req ! g' = BIT_0 \<and> (\<forall>i < j. req ! ((g + Suc i) mod 16) \<noteq> BIT_0)"
  using assms
proof (induction n arbitrary: g)
  case (Suc n)
  show ?case
  proof (cases "req ! ((g + 1) mod 16) = BIT_0")
    case True
    with Suc.prems have "g' = (g + Suc 0) mod 16" by (simp add: Let_def)
    with True show ?thesis by (intro exI [of _ 0]) simp
  next
    case False
    with Suc.prems have "next_grant n req ((g + 1) mod 16) = Done g'" by (simp add: Let_def)
    from Suc.IH [OF this] obtain j where j: "j < n" "g' = ((g + 1) mod 16 + Suc j) mod 16" "req ! g' = BIT_0"
      "\<And>i. i < j \<Longrightarrow> req ! (((g + 1) mod 16 + Suc i) mod 16) \<noteq> BIT_0" by blast
    have sh: "((g + 1) mod 16 + Suc i) mod 16 = (g + Suc (Suc i)) mod 16" for i
      using mod_add_left_eq [of "g + 1" 16 "Suc i"] by simp
    have "req ! ((g + Suc i) mod 16) \<noteq> BIT_0" if "i < Suc j" for i
      using that j(4) False unfolding sh by (cases i) simp_all
    with j(1-3) sh show ?thesis by (intro exI [of _ "Suc j"]) simp
  qed
qed simp

lemma next_grant_finds:
  "j < n \<Longrightarrow> req ! ((g + Suc j) mod 16) = BIT_0 \<Longrightarrow> \<exists>g'. next_grant n req g = Done g'"
proof (induction n arbitrary: g j)
  case (Suc n)
  show ?case
  proof (cases "req ! ((g + 1) mod 16) = BIT_0")
    case False
    with Suc.prems(2) obtain i where j: "j = Suc i" by (cases j) auto
    have "((g + 1) mod 16 + Suc i) mod 16 = (g + Suc j) mod 16"
      using mod_add_left_eq [of "g + 1" 16 "Suc i"] by (simp add: j)
    with Suc.IH [of i "(g + 1) mod 16"] Suc.prems j False show ?thesis by (simp add: Let_def)
  qed (simp add: Let_def)
qed simp

text \<open>How many grants after \<open>g\<close> it is the turn of \<open>i\<close>.\<close>

definition turns_until :: "nat \<Rightarrow> nat \<Rightarrow> nat" where
  "turns_until i g = (i + 15 - g) mod 16"

lemma turns_until_cases: "i < 16 \<Longrightarrow> g < 16 \<Longrightarrow> turns_until i g = (if g < i then i - g - 1 else i + 15 - g)"
proof (cases "g < i")
  case True
  assume "i < 16"
  then have "i + 15 - g = 16 + (i - g - 1)" "i - g - 1 < 16" using True by linarith+
  then show ?thesis using True unfolding turns_until_def by (metis mod_add_self1 mod_less)
next
  case False
  assume "i < 16" "g < 16"
  then have "i + 15 - g < 16" using False by linarith
  then show ?thesis using False by (simp add: turns_until_def)
qed

lemma ring_add: "g < 16 \<Longrightarrow> k \<le> 16 \<Longrightarrow> (g + k) mod 16 = (if g + k < 16 then g + k else g + k - 16)" for g k :: nat
  by (simp add: mod_if)

lemma turns_until:
  assumes "i < 16" and "g < 16"
  shows "(g + Suc (turns_until i g)) mod 16 = i \<and> turns_until i g < 16"
proof -
  have t: "turns_until i g < 16" by (simp add: turns_until_def)
  then have "(g + Suc (turns_until i g)) mod 16 = i"
    using assms by (subst ring_add) (auto simp: turns_until_cases)
  with t show ?thesis by simp
qed

lemma turns_until_next:
  assumes "i < 16" and "g < 16" and "j < turns_until i g"
  shows "turns_until i ((g + Suc j) mod 16) = turns_until i g - Suc j"
proof -
  have "turns_until i g < 16" by (simp add: turns_until_def)
  then have k: "Suc j \<le> 16" using assms(3) by linarith
  then have "(g + Suc j) mod 16 < 16" by simp
  from turns_until_cases [OF assms(1) this] turns_until_cases [OF assms(1,2)] assms
  show ?thesis unfolding ring_add [OF assms(2) k] by (simp split: if_splits)
qed

lemma request_found: "i < 16 \<Longrightarrow> g < 16 \<Longrightarrow> req ! i = BIT_0 \<Longrightarrow> \<exists>g'. next_grant 16 req g = Done g'"
  using turns_until [of i g] next_grant_finds [of "turns_until i g" 16 req g] by auto

section \<open>What the steps leave alone\<close>

lemma each_keeps:
  assumes "each_plug f dm = Done dm'" and "\<And>p p'. f p = Done p' \<Longrightarrow> g p' = g p"
  shows "smap_all g dm' = smap_all g dm"
  using assms(1)
proof (induction dm arbitrary: dm')
  case (Cons x dm)
  then show ?case by (cases x) (auto simp: smap_all_def assms(2))
qed (simp add: smap_all_def)

lemma drive0_effect: "drive0 nm x p = Done p' \<Longrightarrow> p' = put_send nm (x # tl (out_sig p nm)) p \<and> out_sig p nm \<noteq> []"
  by (auto simp: drive0_def split: list.splits)

lemma put_send_sel [simp]:
  "plug_frame (put_send nm v p) = plug_frame p" "client_signals (put_send nm v p) = client_signals p"
  "host_flag (put_send nm v p) = host_flag p" "plug_ident (put_send nm v p) = plug_ident p"
  "out_sig (put_send nm v p) nm' = (if nm' = nm then v else out_sig p nm')"
  by (simp_all add: put_send_def plug_frame_def)

text \<open>A step of the plugs that changes sent signals only, and not the one named \<open>nm\<close>.\<close>

definition sends_only :: "string \<Rightarrow> bus_device_plug \<Rightarrow> bus_device_plug \<Rightarrow> bool" where
  "sends_only nm p p' \<longleftrightarrow> plug_frame p' = plug_frame p \<and> client_signals p' = client_signals p \<and> out_sig p' nm = out_sig p nm"

lemma sends_only_trans: "sends_only nm p q \<Longrightarrow> sends_only nm q r \<Longrightarrow> sends_only nm p r"
  by (simp add: sends_only_def)

lemma sends_only_refl [simp]: "sends_only nm p p"
  by (simp add: sends_only_def)

lemma sends_only_put: "nm' \<noteq> nm \<Longrightarrow> sends_only nm p (put_send nm' v p)"
  by (simp add: sends_only_def)

lemma sends_only_drive0: "drive0 nm' x p = Done p' \<Longrightarrow> nm' \<noteq> nm \<Longrightarrow> sends_only nm p p'"
  by (auto dest!: drive0_effect intro: sends_only_put)

lemma sends_only_int: "send_int dm nm' p = Done p' \<Longrightarrow> nm' \<noteq> nm \<Longrightarrow> sends_only nm p p'"
  by (auto simp: send_int_def intro: sends_only_put)

lemma sends_only_shared: "nm \<notin> fst ` set ls \<Longrightarrow> sends_only nm p (fold (send_shared dm) ls p)"
proof (induction ls arbitrary: p)
  case (Cons l ls)
  have "sends_only nm p (send_shared dm l p)" using Cons.prems
    by (cases l) (auto simp: send_shared_def intro!: sends_only_put)
  with Cons show ?case by (auto intro: sends_only_trans)
qed simp

lemma each_sends_only:
  assumes "each_plug f dm = Done dm'" and "\<And>p p'. f p = Done p' \<Longrightarrow> sends_only nm p p'"
  shows "smap_all plug_frame dm' = smap_all plug_frame dm" "smap_all client_signals dm' = smap_all client_signals dm"
    "smap_all (\<lambda>p. out_sig p nm) dm' = smap_all (\<lambda>p. out_sig p nm) dm" "map fst dm' = map fst dm"
proof -
  show "smap_all plug_frame dm' = smap_all plug_frame dm" "smap_all client_signals dm' = smap_all client_signals dm"
      "smap_all (\<lambda>p. out_sig p nm) dm' = smap_all (\<lambda>p. out_sig p nm) dm"
    using assms(2) by (auto intro!: each_keeps [OF assms(1)] simp: sends_only_def)
  then show "map fst dm' = map fst dm" by (metis keys_all)
qed

lemma interrupts_keep:
  assumes "route_interrupts dm = Done dm'"
  shows "smap_all plug_frame dm' = smap_all plug_frame dm" "smap_all client_signals dm' = smap_all client_signals dm"
    "smap_all (\<lambda>p. out_sig p ''GNT#'') dm' = smap_all (\<lambda>p. out_sig p ''GNT#'') dm" "map fst dm' = map fst dm"
proof -
  have s: "sends_only ''GNT#'' p p'"
    if "(if \<not> host_flag p then Done p
       else obind (send_int dm ''INTA#'' p) (\<lambda>p1. obind (send_int dm ''INTB#'' p1) (\<lambda>p2.
            obind (send_int dm ''INTC#'' p2) (send_int dm ''INTD#'')))) = Done p'" for p p'
    using that by (auto split: if_splits intro: sends_only_trans dest!: sends_only_int [where nm = "''GNT#''"])
  show "smap_all plug_frame dm' = smap_all plug_frame dm" "smap_all client_signals dm' = smap_all client_signals dm"
    "smap_all (\<lambda>p. out_sig p ''GNT#'') dm' = smap_all (\<lambda>p. out_sig p ''GNT#'') dm" "map fst dm' = map fst dm"
    using each_sends_only [OF assms [unfolded route_interrupts_def] s] by auto
qed

lemma blend_keeps:
  assumes "blend_bi_signals dm = Done dm'"
  shows "smap_all plug_frame dm' = smap_all plug_frame dm" "smap_all client_signals dm' = smap_all client_signals dm"
    "smap_all (\<lambda>p. out_sig p ''GNT#'') dm' = smap_all (\<lambda>p. out_sig p ''GNT#'') dm" "map fst dm' = map fst dm"
proof -
  from assms have e: "each_plug (\<lambda>p. c_defined (unat (plug_ident p) + 16 < 64)
      (drive0 ''IDSEL'' (resolved dm ''AD'' (unat (plug_ident p) + 16)) (fold (send_shared dm) shared_lines p))) dm = Done dm'"
    by (simp add: blend_bi_signals_def)
  have "''GNT#'' \<notin> fst ` set shared_lines" by (simp add: shared_lines_def)
  then have "sends_only ''GNT#'' p (fold (send_shared dm) shared_lines p)" for p by (rule sends_only_shared)
  then have s: "sends_only ''GNT#'' p p'"
    if "c_defined (unat (plug_ident p) + 16 < 64)
      (drive0 ''IDSEL'' (resolved dm ''AD'' (unat (plug_ident p) + 16)) (fold (send_shared dm) shared_lines p)) = Done p'" for p p'
    using that by (auto dest!: sends_only_drive0 [where nm = "''GNT#''"] intro: sends_only_trans)
  show "smap_all plug_frame dm' = smap_all plug_frame dm" "smap_all client_signals dm' = smap_all client_signals dm"
    "smap_all (\<lambda>p. out_sig p ''GNT#'') dm' = smap_all (\<lambda>p. out_sig p ''GNT#'') dm" "map fst dm' = map fst dm"
    using each_sends_only [OF e s] by auto
qed

lemma outputs_keep:
  assumes "each_plug (drive_outputs clk r) dm = Done dm'"
  shows "smap_all plug_frame dm' = smap_all plug_frame dm" "smap_all client_signals dm' = smap_all client_signals dm"
    "smap_all (\<lambda>p. out_sig p ''GNT#'') dm' = smap_all (\<lambda>p. out_sig p ''GNT#'') dm" "map fst dm' = map fst dm"
proof -
  have s: "sends_only ''GNT#'' p p'" if "drive_outputs clk r p = Done p'" for p p'
    using that by (auto simp: drive_outputs_def split: if_splits intro: sends_only_trans
        dest!: sends_only_drive0 [where nm = "''GNT#''"])
  show "smap_all plug_frame dm' = smap_all plug_frame dm" "smap_all client_signals dm' = smap_all client_signals dm"
    "smap_all (\<lambda>p. out_sig p ''GNT#'') dm' = smap_all (\<lambda>p. out_sig p ''GNT#'') dm" "map fst dm' = map fst dm"
    using each_sends_only [OF assms s] by auto
qed

section \<open>One grant at a time\<close>

text \<open>\<open>GNT#\<close> is low exactly for the granted device.\<close>

definition pci_grant_ok :: "pci_protocol \<Rightarrow> bus_device_plug smap \<Rightarrow> bool" where
  "pci_grant_ok e dm \<longleftrightarrow>
     (\<forall>g. pci_granted e = Some g \<longrightarrow> g \<in> set (map fst dm))
     \<and> smap_all (\<lambda>p. out_sig p ''GNT#'') dm = map (\<lambda>k. (k, [bit01 (pci_granted e \<noteq> Some k)])) (map fst dm)"

lemma plug_do_sends:
  assumes "plug_do k (drive0 nm x) b = Done b'" and "smap_ok (device_map b)"
  shows "smap_all (\<lambda>p. out_sig p nm) (device_map b') =
      smap_at k (\<lambda>v. x # tl v) (smap_all (\<lambda>p. out_sig p nm) (device_map b))"
    and "bus_frame b' = bus_frame b" and "map fst (device_map b') = map fst (device_map b)" and "k \<in> set (map fst (device_map b))"
    and "smap_all client_signals (device_map b') = smap_all client_signals (device_map b)"
proof -
  from assms(1) obtain p p' where p: "map_of (device_map b) k = Some p" "drive0 nm x p = Done p'" "b' = at_plug k (\<lambda>_. p') b"
    by (auto simp: plug_do_def split: option.splits)
  note e = drive0_effect [OF p(2)]
  have eq: "q = p" if "(k, q) \<in> set (device_map b)" for q
    using that p(1) assms(2) by (simp add: strict_sorted_iff map_of_eq_Some_iff)
  have all: "smap_all g (smap_at k (\<lambda>_. p') (device_map b)) = smap_at k (\<lambda>_. g p') (smap_all g (device_map b))" for g :: "bus_device_plug \<Rightarrow> 'x"
    by (simp add: smap_all_def smap_at_def split_beta)
  have same: "smap_all g (smap_at k (\<lambda>_. p') (device_map b)) = smap_all g (device_map b)" if "g p' = g p" for g :: "bus_device_plug \<Rightarrow> 'x"
    using that eq by (auto simp: smap_all_def smap_at_def)
  show "smap_all (\<lambda>p. out_sig p nm) (device_map b') =
      smap_at k (\<lambda>v. x # tl v) (smap_all (\<lambda>p. out_sig p nm) (device_map b))"
    using e eq by (auto simp: p(3) at_plug_def smap_all_def smap_at_def)
  have f: "plug_frame p' = plug_frame p" "client_signals p' = client_signals p" using e by simp_all
  show "bus_frame b' = bus_frame b" by (simp add: p(3) bus_frame_def at_plug_def same [of plug_frame, OF f(1)])
  show "map fst (device_map b') = map fst (device_map b)" by (simp add: p(3) at_plug_def)
  show "k \<in> set (map fst (device_map b))" using p(1) by (auto dest: map_of_SomeD intro: rev_image_eqI)
  show "smap_all client_signals (device_map b') = smap_all client_signals (device_map b)"
    by (simp add: p(3) at_plug_def same [of client_signals, OF f(2)])
qed

definition grant_lines :: "string list \<Rightarrow> string option \<Rightarrow> bitval list smap" where
  "grant_lines ks g = map (\<lambda>k. (k, [bit01 (g \<noteq> Some k)])) ks"

lemma grant_moves:
  "smap_at k (\<lambda>v. BIT_0 # tl v) (grant_lines ks None) = grant_lines ks (Some k)"
  "smap_at g (\<lambda>v. BIT_1 # tl v) (grant_lines ks (Some g)) = grant_lines ks None"
  "k \<noteq> g \<Longrightarrow> smap_at g (\<lambda>v. BIT_1 # tl v) (smap_at k (\<lambda>v. BIT_0 # tl v) (grant_lines ks (Some g))) = grant_lines ks (Some k)"
  by (auto simp: grant_lines_def smap_at_def bit01_def)

lemma pci_grant_lines: "pci_grant_ok e dm \<longleftrightarrow> (\<forall>g. pci_granted e = Some g \<longrightarrow> g \<in> set (map fst dm))
    \<and> smap_all (\<lambda>p. out_sig p ''GNT#'') dm = grant_lines (map fst dm) (pci_granted e)"
  by (simp add: pci_grant_ok_def grant_lines_def)

lemma found_ident:
  assumes "find (\<lambda>(k, p). unat (plug_ident p) = n) dm = Some (k, p)" and "smap_ok dm"
  shows "ident_of dm k = n"
proof -
  from assms(1) have "(k, p) \<in> set dm" "unat (plug_ident p) = n" by (auto simp: find_Some_iff in_set_conv_nth)
  with assms(2) show ?thesis by (simp add: ident_of_def strict_sorted_iff map_of_eq_Some_iff)
qed

lemma lrand_keeps: "lrand b = Done (r, b') \<Longrightarrow> device_map b' = device_map b \<and> bus_frame b' = bus_frame b"
  by (auto simp: lrand_def bus_frame_def split: prod.splits)

definition same_plugs :: "'e bus_state \<Rightarrow> 'e bus_state \<Rightarrow> bool" where
  "same_plugs b b' \<longleftrightarrow> bus_frame b' = bus_frame b \<and> map fst (device_map b') = map fst (device_map b)
     \<and> smap_all client_signals (device_map b') = smap_all client_signals (device_map b)"

text \<open>The effect on the grant: it stays, or it is recalled, or it goes to a device that requested.\<close>

definition grant_step :: "pci_protocol \<Rightarrow> 'e bus_state \<Rightarrow> pci_protocol \<Rightarrow> 'e bus_state \<Rightarrow> bool" where
  "grant_step e b e' b' \<longleftrightarrow> pci_grant_ok e' (device_map b') \<and> same_plugs b b' \<and> e'\<lparr>pci_granted := None\<rparr> = e\<lparr>pci_granted := None\<rparr>
     \<and> (pci_granted e' \<noteq> pci_granted e \<longrightarrow>
         (\<forall>k. pci_granted e' = Some k \<longrightarrow> pci_req_n e ! ident_of (device_map b) k = BIT_0))"

lemma grant_stays:
  "pci_grant_ok e (device_map b) \<Longrightarrow> device_map b' = device_map b \<Longrightarrow> bus_frame b' = bus_frame b \<Longrightarrow> grant_step e b e b'"
  by (simp add: grant_step_def same_plugs_def)

lemma recall_effect:
  assumes "recall_grant e b = Done (e', b')" and "smap_ok (device_map b)" and "pci_grant_ok e (device_map b)"
  shows "grant_step e b e' b'"
proof -
  consider "e' = e" "b' = b"
    | r where "lrand b = Done (r, b')" "e' = e"
    | g r b1 where "pci_granted e = Some g" "lrand b = Done (r, b1)" "plug_do g (drive0 ''GNT#'' BIT_1) b1 = Done b'"
      "e' = e\<lparr>pci_granted := None\<rparr>"
    using assms(1) by (auto simp: recall_grant_def split: option.splits if_splits)
  then show ?thesis
  proof cases
    case 3
    note k = lrand_keeps [OF 3(2)]
    have "smap_ok (device_map b1)" using k assms(2) by simp
    note s = plug_do_sends [OF 3(3) this]
    show ?thesis
      using s k assms(3) 3(1) grant_moves(2) [of g "map fst (device_map b)"]
      by (simp add: 3(4) pci_grant_lines grant_step_def same_plugs_def)
  qed (use assms(3) in \<open>auto intro!: grant_stays dest: lrand_keeps\<close>)
qed

lemma move_effect:
  assumes "move_grant n e b = Done (e', b')" and "smap_ok (device_map b)" and "pci_grant_ok e (device_map b)"
    and "pci_req_n e ! n = BIT_0" and "\<And>g. pci_granted e = Some g \<Longrightarrow> ident_of (device_map b) g \<noteq> n"
  shows "grant_step e b e' b'"
proof -
  from assms(1) obtain k p b1 where k: "find (\<lambda>(k, p). unat (plug_ident p) = n) (device_map b) = Some (k, p)"
    and d1: "plug_do k (drive0 ''GNT#'' BIT_0) b = Done b1" and e': "e' = e\<lparr>pci_granted := Some k\<rparr>"
    and d2: "(case pci_granted e of None \<Rightarrow> Done b1 | Some g \<Rightarrow> plug_do g (drive0 ''GNT#'' BIT_1) b1) = Done b'"
    by (auto simp: move_grant_def split: option.splits)
  have kn: "ident_of (device_map b) k = n" by (rule found_ident [OF k assms(2)])
  note s1 = plug_do_sends [OF d1 assms(2)]
  show ?thesis
  proof (cases "pci_granted e")
    case None
    with s1 d2 assms(3,4) kn grant_moves(1) [of k "map fst (device_map b)"] show ?thesis
      by (simp add: e' pci_grant_lines grant_step_def same_plugs_def)
  next
    case (Some g)
    with assms(5) kn have "k \<noteq> g" by auto
    have "plug_do g (drive0 ''GNT#'' BIT_1) b1 = Done b'" "smap_ok (device_map b1)" using d2 Some s1(3) assms(2) by simp_all
    note s2 = plug_do_sends [OF this]
    show ?thesis
      using s1 s2 assms(3,4) Some kn \<open>k \<noteq> g\<close> grant_moves(3) [of k g "map fst (device_map b)"]
      by (simp add: e' pci_grant_lines grant_step_def same_plugs_def)
  qed
qed

lemma grant_step_after: "grant_step e b1 e' b' \<Longrightarrow> device_map b1 = device_map b \<Longrightarrow> bus_frame b1 = bus_frame b \<Longrightarrow> grant_step e b e' b'"
  by (auto simp: grant_step_def same_plugs_def)

lemma arbitrate_effect:
  assumes "arbitrate e b = Done (e', b')" and "smap_ok (device_map b)" and "pci_grant_ok e (device_map b)"
  shows "grant_step e b e' b'"
proof -
  have stay: "grant_step e b e b" using assms(3) by (intro grant_stays) simp_all
  show ?thesis
  proof (cases "pci_phase e = 1 \<and> BIT_0 \<in> set (pci_req_n e)")
    case False
    then have "(e', b') = (e, b) \<or> recall_grant e b = Done (e', b')"
      using assms(1) by (simp add: arbitrate_def Let_def split: if_splits)
    then show ?thesis using stay recall_effect [OF _ assms(2,3)] by blast
  next
    case req: True
    show ?thesis
    proof (cases "pci_granted e")
      case None
      with assms(1) req obtain r b1 n where r: "lrand b = Done (r, b1)"
        and n: "next_grant 16 (pci_req_n e) (unat r mod 16) = Done n" and m: "move_grant n e b1 = Done (e', b')"
        by (auto simp: arbitrate_def Let_def)
      note k = lrand_keeps [OF r]
      have "grant_step e b1 e' b'" using next_grant_first [OF n] assms(2,3) None k by (intro move_effect [OF m]) auto
      with k show ?thesis by (blast intro: grant_step_after)
    next
      case (Some g)
      show ?thesis
      proof (cases "pci_req_n e ! ident_of (device_map b) g = BIT_0")
        case False
        with assms(1) req Some obtain n where n: "next_grant 16 (pci_req_n e) (ident_of (device_map b) g) = Done n"
          and m: "if n = ident_of (device_map b) g then Done (e, b) = Done (e', b') else move_grant n e b = Done (e', b')"
          by (auto simp: arbitrate_def Let_def split: if_splits)
        show ?thesis
        proof (cases "n = ident_of (device_map b) g")
          case False
          with m have "move_grant n e b = Done (e', b')" by simp
          then show ?thesis using next_grant_first [OF n] assms(2,3) Some False by (intro move_effect) auto
        qed (use m stay in auto)
      qed (use assms(1) req Some stay in \<open>simp add: arbitrate_def Let_def\<close>)
    qed
  qed
qed

end
