(* ===== verification/Sim_Server_PCI_Bus.thy ===== *)
theory Sim_Server_PCI_Bus
  imports Sim_Server_PCI
begin

text \<open>
  What the steps of server/PciProtocol.cc achieve: one grant at a time, given to a device that asked
  for it and in the order of the ring, and shared lines that all devices see alike.
\<close>

section \<open>A step as a whole\<close>

lemma each_from:
  "each_plug f dm = Done dm' \<Longrightarrow> (k, p') \<in> set dm' \<Longrightarrow> \<exists>p. (k, p) \<in> set dm \<and> f p = Done p'"
proof (induction dm arbitrary: dm')
  case (Cons x dm)
  then show ?case by (cases x) (auto, blast+)
qed simp

lemma resolved_clients:
  "resolved dm nm idx = foldl blend_bits BIT_Z (map (\<lambda>(k, c). entry c nm ! idx) (smap_all client_signals dm))"
  by (simp add: resolved_def smap_all_def foldl_map split_def)

lemma track_effect:
  assumes "track_req_n e dm = Done e'"
  shows "pci_granted e' = pci_granted e \<and> pci_phase e' = pci_phase e \<and> (pci_phase e \<noteq> 0 \<longrightarrow> e' = e)"
  using assms by (auto simp: track_req_n_def split: if_splits)

lemma grant_step_rest:
  assumes "grant_step e b e' b'"
  shows "pci_phase e' = pci_phase e" and "pci_req_n e' = pci_req_n e"
proof -
  from assms have "e'\<lparr>pci_granted := None\<rparr> = e\<lparr>pci_granted := None\<rparr>" by (simp add: grant_step_def)
  from arg_cong [OF this, of pci_phase] arg_cong [OF this, of pci_req_n]
  show "pci_phase e' = pci_phase e" "pci_req_n e' = pci_req_n e" by simp_all
qed

text \<open>The parts of a step.\<close>

lemma pci_step_parts:
  assumes "pci_run_run e b = Done (e', b')" and "smap_ok (device_map b)" and "pci_grant_ok e (device_map b)"
  obtains e2 b2 dm3 dm4 dm5 clk r where
    "track_req_n (e\<lparr>pci_phase := next_phase (pci_phase e)\<rparr>) (device_map b) = Done e2"
    "grant_step e2 b e' b2" "route_interrupts (device_map b2) = Done dm3" "blend_bi_signals dm3 = Done dm4"
    "each_plug (drive_outputs clk r) dm4 = Done dm5" "b' = b2\<lparr>device_map := dm5\<rparr>"
proof -
  let ?e1 = "e\<lparr>pci_phase := next_phase (pci_phase e)\<rparr>"
  let ?b1 = "advance_time (snd (pci_clock_phase_map e ! next_phase (pci_phase e))) (-12) b"
  have dm: "device_map ?b1 = device_map b" "bus_frame ?b1 = bus_frame b" by (simp_all add: advance_time_def bus_frame_def)
  from assms(1) obtain e2 b2 dm3 dm4 dm5 clk r where p: "track_req_n ?e1 (device_map b) = Done e2"
    "arbitrate e2 ?b1 = Done (e', b2)" "route_interrupts (device_map b2) = Done dm3" "blend_bi_signals dm3 = Done dm4"
    "each_plug (drive_outputs clk r) dm4 = Done dm5" "b' = b2\<lparr>device_map := dm5\<rparr>"
    by (auto simp: pci_run_run_def Let_def split_beta dm)
  have "pci_grant_ok e2 (device_map ?b1)" using assms(3) track_effect [OF p(1)] by (simp add: pci_grant_ok_def dm)
  then have "grant_step e2 b e' b2" using arbitrate_effect [OF p(2)] assms(2) dm by (auto intro: grant_step_after)
  with p that show thesis by blast
qed

lemma pci_step_effect:
  assumes "pci_run_run e b = Done (e', b')" and "smap_ok (device_map b)" and "pci_grant_ok e (device_map b)"
  shows "pci_grant_ok e' (device_map b') \<and> same_plugs b b' \<and> pci_phase e' = next_phase (pci_phase e)"
proof -
  obtain e2 b2 dm3 dm4 dm5 clk r where
    t: "track_req_n (e\<lparr>pci_phase := next_phase (pci_phase e)\<rparr>) (device_map b) = Done e2" and g: "grant_step e2 b e' b2"
    and d: "route_interrupts (device_map b2) = Done dm3" "blend_bi_signals dm3 = Done dm4"
      "each_plug (drive_outputs clk r) dm4 = Done dm5" and b': "b' = b2\<lparr>device_map := dm5\<rparr>" by (rule pci_step_parts [OF assms])
  have "pci_phase e' = pci_phase e2" using grant_step_rest [OF g] by simp
  moreover have g1: "pci_grant_ok e' (device_map b2)" "same_plugs b b2" using g by (simp_all add: grant_step_def)
  have k: "smap_all plug_frame dm5 = smap_all plug_frame (device_map b2)"
      "smap_all client_signals dm5 = smap_all client_signals (device_map b2)"
      "smap_all (\<lambda>p. out_sig p ''GNT#'') dm5 = smap_all (\<lambda>p. out_sig p ''GNT#'') (device_map b2)"
      "map fst dm5 = map fst (device_map b2)"
    using interrupts_keep [OF d(1)] blend_keeps [OF d(2)] outputs_keep [OF d(3)] by simp_all
  then have "same_plugs b2 b'" by (simp add: same_plugs_def bus_frame_def b')
  with g1(2) have "same_plugs b b'" by (simp add: same_plugs_def)
  moreover have "pci_grant_ok e' (device_map b')" using g1(1) k(3,4) by (simp add: pci_grant_ok_def b')
  ultimately show ?thesis using track_effect [OF t] by simp
qed

section \<open>Runs of the bus\<close>

text \<open>A usable configuration: idents below 16, a linger other than 0, the generator seeded.
  The states of the PCI bus: initialised, then stepped, with anything the server does to the bus
  between two steps, which leaves what only a step changes.\<close>

definition pci_configured :: "pci_protocol \<Rightarrow> 'e bus_state \<Rightarrow> bool" where
  "pci_configured e b \<longleftrightarrow> smap_ok (device_map b) \<and> (\<forall>(k, p) \<in> set (device_map b). plug_ident p < 16)
     \<and> pci_gnt_linger e \<noteq> 0 \<and> (\<exists>xs n. drawn xs n (rand_state b))"

inductive pci_reaches :: "pci_protocol \<Rightarrow> 'e bus_state \<Rightarrow> bool" where
  pci_start: "pci_configured e b \<Longrightarrow> pci_run_init e b = Done (e', b') \<Longrightarrow> pci_reaches e' b'"
| pci_between: "pci_reaches e b \<Longrightarrow> bus_core b' = bus_core b \<Longrightarrow> pci_reaches e b'"
| pci_step: "pci_reaches e b \<Longrightarrow> pci_run_run e b = Done (e', b') \<Longrightarrow> pci_reaches e' b'"

definition pci_inv :: "pci_protocol \<Rightarrow> 'e bus_state \<Rightarrow> bool" where
  "pci_inv e b \<longleftrightarrow> smap_ok (device_map b) \<and> pci_grant_ok e (device_map b) \<and> length (pci_req_n e) = 16"

lemma put_sends_other: "nm \<notin> fst ` set kvs \<Longrightarrow> out_sig (put_sends kvs p) nm = out_sig p nm"
proof (induction kvs arbitrary: p)
  case (Cons kv kvs)
  then show ?case by (cases kv) (simp add: put_sends_def)
qed (simp add: put_sends_def)

lemma put_sends_Cons: "put_sends ((nm, v) # kvs) p = put_sends kvs (put_send nm v p)"
  by (simp add: put_sends_def)

lemma put_clients_sends: "send_signals (put_clients kvs p) = send_signals p"
proof (induction kvs arbitrary: p)
  case (Cons kv kvs)
  then show ?case by (cases kv) (simp add: put_clients_def put_client_def)
qed (simp add: put_clients_def)

lemma init_gnt: "out_sig (pci_init_plug cap p) ''GNT#'' = [BIT_1]"
  by (simp add: pci_init_plug_def put_clients_sends put_sends_Cons put_sends_other released_def shared_lines_def)

lemma init_ok: "smap_ok (device_map b) \<Longrightarrow> pci_run_init e b = Done (e', b') \<Longrightarrow> pci_inv e' b'"
  by (auto simp: pci_run_init_def pci_inv_def all_plugs_def pci_grant_ok_def smap_all_def init_gnt o_def split_beta bit01_def)

lemma core_keys: "bus_core b' = bus_core b \<Longrightarrow> map fst (device_map b') = map fst (device_map b)"
  by (auto simp: bus_core_def) (metis keys_all)

lemma core_all:
  assumes "bus_core b' = bus_core b" and "\<And>p. g (plug_core p) = g p"
  shows "smap_all g (device_map b') = smap_all g (device_map b)"
proof -
  from assms(1) have "smap_all g (smap_all plug_core (device_map b')) = smap_all g (smap_all plug_core (device_map b))"
    by (simp add: bus_core_def)
  then show ?thesis by (simp add: smap_all_all o_def assms(2))
qed

lemma core_sends: "bus_core b' = bus_core b \<Longrightarrow>
    smap_all (\<lambda>p. out_sig p nm) (device_map b') = smap_all (\<lambda>p. out_sig p nm) (device_map b)"
  by (erule core_all) (simp add: plug_core_def)

lemma sample_length: "sample_req dm req = Done req' \<Longrightarrow> length req' = length req"
  by (induction dm req arbitrary: req' rule: sample_req.induct) (auto split: list.splits if_splits)

lemma step_inv:
  assumes "pci_run_run e b = Done (e', b')" and "pci_inv e b"
  shows "pci_inv e' b'"
proof -
  have ok: "smap_ok (device_map b)" "pci_grant_ok e (device_map b)" using assms(2) by (simp_all add: pci_inv_def)
  obtain e2 b2 where
    t: "track_req_n (e\<lparr>pci_phase := next_phase (pci_phase e)\<rparr>) (device_map b) = Done e2" and g: "grant_step e2 b e' b2" by (rule pci_step_parts [OF assms(1) ok])
  have "length (pci_req_n e2) = 16" using t assms(2)
    by (auto simp: track_req_n_def pci_inv_def dest!: sample_length split: if_splits)
  moreover have "pci_req_n e' = pci_req_n e2" using grant_step_rest [OF g] by simp
  ultimately show ?thesis using pci_step_effect [OF assms(1) ok] ok by (simp add: pci_inv_def same_plugs_def)
qed

lemma reaches_inv: "pci_reaches e b \<Longrightarrow> pci_inv e b"
proof (induction rule: pci_reaches.induct)
  case (pci_between e b b')
  then show ?case using core_keys [of b' b] core_sends [of b' b] by (simp add: pci_inv_def pci_grant_ok_def)
qed (auto intro: init_ok step_inv simp: pci_configured_def)

section \<open>Shared lines\<close>

text \<open>What the devices drive on a line.\<close>

definition line_drivers :: "bus_device_plug smap \<Rightarrow> string \<Rightarrow> nat \<Rightarrow> bitval list" where
  "line_drivers dm nm idx = map (\<lambda>(k, c). entry c nm ! idx) (smap_all client_signals dm)"

lemma resolved_drivers: "resolved dm nm idx = foldl blend_bits BIT_Z (line_drivers dm nm idx)"
  by (simp add: resolved_clients line_drivers_def)

lemma line_drivers_in: "(k, p) \<in> set dm \<Longrightarrow> in_sig p nm ! idx \<in> set (line_drivers dm nm idx)"
  by (force simp: line_drivers_def smap_all_def)

lemma blended:
  "foldl blend_bits BIT_Z xs = BIT_Z \<longleftrightarrow> set xs \<subseteq> {BIT_Z}"
  "foldl blend_bits BIT_Z xs = BIT_0 \<longleftrightarrow> BIT_0 \<in> set xs \<and> set xs \<subseteq> {BIT_0, BIT_Z}"
  "foldl blend_bits BIT_Z xs = BIT_1 \<longleftrightarrow> BIT_1 \<in> set xs \<and> set xs \<subseteq> {BIT_1, BIT_Z}"
proof (induction xs rule: rev_induct)
  case (snoc x xs)
  {
    case 1
    from snoc show ?case by (auto simp: blend_bits_def)
  next
    case 2
    from snoc show ?case by (cases x) (auto simp: blend_bits_def)
  next
    case 3
    from snoc show ?case by (cases x) (auto simp: blend_bits_def)
  }
qed auto

lemma blend_sent:
  assumes "x \<in> set xs"
  shows "blend_bits x (subtract_feedback (foldl blend_bits BIT_Z xs) x) = foldl blend_bits BIT_Z xs"
proof (cases "foldl blend_bits BIT_Z xs")
  case BIT_0
  with assms blended(2) [of xs] show ?thesis by (auto simp: subtract_feedback_def blend_bits_def)
next
  case BIT_1
  with assms blended(3) [of xs] show ?thesis by (auto simp: subtract_feedback_def blend_bits_def)
next
  case BIT_Z
  with assms blended(1) [of xs] show ?thesis by (auto simp: subtract_feedback_def blend_bits_def)
qed (auto simp: subtract_feedback_def blend_bits_def)

lemma shared_sent:
  "distinct (map fst ls) \<Longrightarrow> (nm, w) \<in> set ls \<Longrightarrow>
   out_sig (fold (send_shared dm) ls p) nm =
     map (\<lambda>idx. subtract_feedback (resolved dm nm idx) (in_sig p nm ! idx)) [0..<w] @ drop w (out_sig p nm)"
proof (induction ls arbitrary: p)
  case (Cons l ls)
  obtain nm' w' where l: "l = (nm', w')" by (cases l)
  have in1: "in_sig (send_shared dm l p) = in_sig p" by (simp add: l send_shared_def)
  show ?case
  proof (cases "l = (nm, w)")
    case True
    then have "nm \<notin> fst ` set ls" using Cons.prems by (auto simp: l)
    from sends_only_shared [OF this, of "send_shared dm l p" dm] True show ?thesis
      by (simp add: sends_only_def send_shared_def)
  next
    case False
    with Cons.prems have mem: "(nm, w) \<in> set ls" and "nm' \<noteq> nm" "distinct (map fst ls)" by (force simp: l)+
    then have "out_sig (send_shared dm l p) nm = out_sig p nm" by (simp add: l send_shared_def)
    with Cons.IH [OF \<open>distinct (map fst ls)\<close> mem, of "send_shared dm l p"] in1 show ?thesis by simp
  qed
qed simp

lemma sends_only_client:
  assumes "sends_only nm p q"
  shows "client_signals q = client_signals p" "plug_ident q = plug_ident p" "host_flag q = host_flag p"
proof -
  from assms have f: "plug_frame q = plug_frame p" and "client_signals q = client_signals p" by (simp_all add: sends_only_def)
  then show "client_signals q = client_signals p" by simp
  from arg_cong [OF f, of plug_ident] arg_cong [OF f, of host_flag]
  show "plug_ident q = plug_ident p" "host_flag q = host_flag p" by (simp_all add: plug_frame_def)
qed

lemma blend_sends:
  assumes "blend_bi_signals dm = Done dm'" and "(k, p') \<in> set dm'"
  obtains p where "(k, p) \<in> set dm" "client_signals p' = client_signals p" "plug_ident p' = plug_ident p"
    "\<forall>(nm, w) \<in> set shared_lines. out_sig p' nm =
       map (\<lambda>idx. subtract_feedback (resolved dm nm idx) (in_sig p nm ! idx)) [0..<w] @ drop w (out_sig p nm)"
    "\<exists>xs. out_sig p' ''IDSEL'' = resolved dm ''AD'' (unat (plug_ident p) + 16) # xs"
proof -
  from assms obtain p where p: "(k, p) \<in> set dm" and
    drv: "drive0 ''IDSEL'' (resolved dm ''AD'' (unat (plug_ident p) + 16)) (fold (send_shared dm) shared_lines p) = Done p'"
    by (auto simp: blend_bi_signals_def dest!: each_from)
  let ?q = "fold (send_shared dm) shared_lines p"
  have q: "client_signals ?q = client_signals p" "plug_ident ?q = plug_ident p"
    using sends_only_client [OF sends_only_shared [of "''GNT#''" shared_lines p dm]] by (simp_all add: shared_lines_def)
  show thesis
  proof (rule that [OF p])
    show "client_signals p' = client_signals p" "plug_ident p' = plug_ident p" using drive0_effect [OF drv] q by simp_all
    show "\<exists>xs. out_sig p' ''IDSEL'' = resolved dm ''AD'' (unat (plug_ident p) + 16) # xs"
      using drive0_effect [OF drv] by simp
    have idsel: "''IDSEL'' \<notin> fst ` set shared_lines" and d: "distinct (map fst shared_lines)"
      by (simp_all add: shared_lines_def)
    have "out_sig p' nm = map (\<lambda>idx. subtract_feedback (resolved dm nm idx) (in_sig p nm ! idx)) [0..<w] @ drop w (out_sig p nm)"
      if line: "(nm, w) \<in> set shared_lines" for nm w
    proof -
      have "nm \<noteq> ''IDSEL''" using idsel line by force
      then have "out_sig p' nm = out_sig ?q nm" using drive0_effect [OF drv] by simp
      then show ?thesis using shared_sent [OF d line] by (rule trans)
    qed
    then show "\<forall>(nm, w) \<in> set shared_lines. out_sig p' nm =
       map (\<lambda>idx. subtract_feedback (resolved dm nm idx) (in_sig p nm ! idx)) [0..<w] @ drop w (out_sig p nm)" by blast
  qed
qed

section \<open>Every step returns\<close>

text \<open>What the checks of a step depend on besides the clients' signals.\<close>

definition plug_shape :: "bus_device_plug \<Rightarrow> u32 \<times> bool \<times> (string \<Rightarrow> nat)" where
  "plug_shape p = (plug_ident p, host_flag p, \<lambda>nm. length (out_sig p nm))"

definition shape_fits :: "u32 \<times> bool \<times> (string \<Rightarrow> nat) \<Rightarrow> bool" where
  "shape_fits = (\<lambda>(i, h, len). i < 16 \<and> 0 < len ''PCI_CLK'' \<and> 0 < len ''IDSEL''
     \<and> (if h then \<forall>nm \<in> {''INTA#'', ''INTB#'', ''INTC#'', ''INTD#''}. len nm = 16 else 0 < len ''RESET#'')
     \<and> (\<forall>(nm, w) \<in> set shared_lines. w \<le> len nm))"

definition client_fits :: "bus_device_plug \<Rightarrow> bool" where
  "client_fits p \<longleftrightarrow> (\<forall>(nm, w) \<in> set shared_lines. w \<le> length (in_sig p nm))"

lemma each_keeps_in:
  "each_plug f dm = Done dm' \<Longrightarrow> (\<And>k p p'. (k, p) \<in> set dm \<Longrightarrow> f p = Done p' \<Longrightarrow> g p' = g p) \<Longrightarrow>
   smap_all g dm' = smap_all g dm"
proof (induction dm arbitrary: dm')
  case (Cons x dm)
  obtain k p where x: "x = (k, p)" by (cases x)
  from Cons.prems(1) obtain p' ds where "f p = Done p'" "each_plug f dm = Done ds" "dm' = (k, p') # ds" by (auto simp: x)
  moreover from this Cons.prems(2) have "smap_all g ds = smap_all g dm" "g p' = g p"
    using Cons.IH [of ds] by (auto simp: x)
  ultimately show ?case by (simp add: x smap_all_def)
qed (simp add: smap_all_def)

lemma each_total: "(\<And>k p. (k, p) \<in> set dm \<Longrightarrow> \<exists>p'. f p = Done p') \<Longrightarrow> \<exists>dm'. each_plug f dm = Done dm'"
proof (induction dm)
  case (Cons x dm)
  obtain k p where x: "x = (k, p)" by (cases x)
  from Cons.prems obtain p' where "f p = Done p'" by (auto simp: x)
  moreover have "\<exists>ds. each_plug f dm = Done ds" using Cons.prems by (intro Cons.IH) auto
  ultimately show ?case by (auto simp: x)
qed simp

lemma shape_out: "plug_shape q = plug_shape p \<Longrightarrow> length (out_sig q nm) = length (out_sig p nm)"
  by (auto simp: plug_shape_def dest: fun_cong [where x = nm])

lemma shape_drive0: "drive0 nm x p = Done p' \<Longrightarrow> plug_shape p' = plug_shape p"
  by (auto simp: plug_shape_def dest!: drive0_effect)

lemma shape_int: "send_int dm nm p = Done p' \<Longrightarrow> plug_shape p' = plug_shape p"
proof -
  have "length (fold (\<lambda>(i, x) v. v[i := x]) xs v) = length v" for xs :: "(nat \<times> bitval) list" and v
    by (induction xs arbitrary: v) auto
  then show "send_int dm nm p = Done p' \<Longrightarrow> ?thesis" by (auto simp: plug_shape_def send_int_def)
qed

lemma shape_shared:
  "\<forall>(nm, w) \<in> set ls. w \<le> length (out_sig p nm) \<Longrightarrow> plug_shape (fold (send_shared dm) ls p) = plug_shape p"
proof (induction ls arbitrary: p)
  case (Cons l ls)
  obtain nm w where l: "l = (nm, w)" by (cases l)
  have s: "plug_shape (send_shared dm l p) = plug_shape p" using Cons.prems by (auto simp: l plug_shape_def send_shared_def)
  then have "length (out_sig (send_shared dm l p) nm') = length (out_sig p nm')" for nm'
    by (auto simp: plug_shape_def dest: fun_cong [where x = nm'])
  with Cons.prems have "\<forall>(nm, w) \<in> set ls. w \<le> length (out_sig (send_shared dm l p) nm)" by auto
  from Cons.IH [OF this] s show ?case by simp
qed simp

lemma interrupts_shape: "route_interrupts dm = Done dm' \<Longrightarrow> smap_all plug_shape dm' = smap_all plug_shape dm"
  unfolding route_interrupts_def by (erule each_keeps_in) (auto dest!: shape_int split: if_splits)

lemma blend_shape: "blend_bi_signals dm = Done dm' \<Longrightarrow> smap_all plug_shape dm' = smap_all plug_shape dm"
proof -
  assume b: "blend_bi_signals dm = Done dm'"
  then have len: "\<forall>(nm, w) \<in> set shared_lines. w \<le> length (out_sig p nm)" if "(k, p) \<in> set dm" for k p
    using that by (fastforce simp: blend_bi_signals_def)
  have e: "each_plug (\<lambda>p. c_defined (unat (plug_ident p) + 16 < 64)
      (drive0 ''IDSEL'' (resolved dm ''AD'' (unat (plug_ident p) + 16)) (fold (send_shared dm) shared_lines p))) dm = Done dm'"
    using b by (simp add: blend_bi_signals_def)
  show ?thesis by (rule each_keeps_in [OF e]) (auto dest!: shape_drive0 simp: shape_shared len)
qed

lemma outputs_shape: "each_plug (drive_outputs clk r) dm = Done dm' \<Longrightarrow> smap_all plug_shape dm' = smap_all plug_shape dm"
  by (erule each_keeps_in) (auto simp: drive_outputs_def dest!: shape_drive0 split: if_splits)

lemma plug_do_shape:
  assumes "plug_do k (drive0 nm x) b = Done b'" and "smap_ok (device_map b)"
  shows "smap_all plug_shape (device_map b') = smap_all plug_shape (device_map b)" and "rand_state b' = rand_state b"
    and "map fst (device_map b') = map fst (device_map b)"
proof -
  from assms(1) obtain p p' where p: "map_of (device_map b) k = Some p" "drive0 nm x p = Done p'" "b' = at_plug k (\<lambda>_. p') b"
    by (auto simp: plug_do_def split: option.splits)
  have "q = p" if "(k, q) \<in> set (device_map b)" for q
    using that p(1) assms(2) by (simp add: strict_sorted_iff map_of_eq_Some_iff)
  then show "smap_all plug_shape (device_map b') = smap_all plug_shape (device_map b)"
    using shape_drive0 [OF p(2)] by (auto simp: p(3) at_plug_def smap_all_def smap_at_def)
qed (use assms in \<open>auto simp: plug_do_def at_plug_def split: option.splits\<close>)

text \<open>The bus between its steps: the shapes fit, the number generator is seeded, and every request and the
  master belong to devices of the bus.\<close>

definition pci_shapes :: "'e bus_state \<Rightarrow> (u32 \<times> bool \<times> (string \<Rightarrow> nat)) list" where
  "pci_shapes b = map snd (smap_all plug_shape (device_map b))"

definition pci_live :: "pci_protocol \<Rightarrow> 'e bus_state \<Rightarrow> bool" where
  "pci_live e b \<longleftrightarrow> pci_gnt_linger e \<noteq> 0 \<and> (\<exists>xs n. drawn xs n (rand_state b)) \<and> (\<forall>s \<in> set (pci_shapes b). shape_fits s)
     \<and> (\<forall>m. pci_master e = Some m \<longrightarrow> m \<in> set (map fst (device_map b)))
     \<and> (\<forall>i < 16. pci_req_n e ! i = BIT_0 \<longrightarrow> i \<in> (\<lambda>s. unat (fst s)) ` set (pci_shapes b))"

lemma lrand_total:
  assumes "drawn xs n (rand_state b)"
  obtains r b' xs n where "lrand b = Done (r, b')" "drawn xs n (rand_state b')" "device_map b' = device_map b"
  using genrand_drawn [OF assms] that by (auto simp: lrand_def)

lemma plug_do_total:
  assumes "smap_all (\<lambda>p. out_sig p nm) (device_map b) = lines" and "(k, v) \<in> set lines" and "v \<noteq> []"
    and "smap_ok (device_map b)"
  obtains b' where "plug_do k (drive0 nm x) b = Done b'"
    "smap_all (\<lambda>p. out_sig p nm) (device_map b') = smap_at k (\<lambda>v. x # tl v) lines"
    "map fst (device_map b') = map fst (device_map b)" "smap_ok (device_map b')"
    "smap_all plug_shape (device_map b') = smap_all plug_shape (device_map b)" "rand_state b' = rand_state b"
proof -
  from assms(1,2) obtain p where "(k, p) \<in> set (device_map b)" and v: "v = out_sig p nm" by (auto simp: smap_all_def)
  then have p: "map_of (device_map b) k = Some p" using assms(4) by (simp add: strict_sorted_iff map_of_eq_Some_iff)
  have "\<exists>p'. drive0 nm x p = Done p'" using assms(3) v by (auto simp: drive0_def split: list.splits)
  with p obtain b' where d: "plug_do k (drive0 nm x) b = Done b'" by (auto simp: plug_do_def)
  note s = plug_do_sends [OF d assms(4)] plug_do_shape [OF d assms(4)]
  show thesis using s assms(1,4) by (intro that [OF d]) simp_all
qed

definition arb_good :: "pci_protocol \<Rightarrow> 'e bus_state \<Rightarrow> (pci_protocol \<times> 'e bus_state) outcome \<Rightarrow> bool" where
  "arb_good e b r \<longleftrightarrow> (\<exists>e' b' xs n. r = Done (e', b') \<and> e'\<lparr>pci_granted := None\<rparr> = e\<lparr>pci_granted := None\<rparr>
     \<and> smap_all plug_shape (device_map b') = smap_all plug_shape (device_map b) \<and> drawn xs n (rand_state b'))"

lemma arb_stays: "drawn xs n (rand_state b) \<Longrightarrow> arb_good e b (Done (e, b))"
  by (auto simp: arb_good_def)

lemma grant_line_in: "k \<in> set ks \<Longrightarrow> (k, [bit01 (g \<noteq> Some k)]) \<in> set (grant_lines ks g)"
  by (simp add: grant_lines_def)

lemma in_smap_at: "(k', v) \<in> set m \<Longrightarrow> (k', if k' = k then f v else v) \<in> set (smap_at k f m)"
  unfolding smap_at_def set_map by (rule rev_image_eqI) auto

lemma recall_total:
  assumes "pci_gnt_linger e \<noteq> 0" and d: "drawn xs n (rand_state b)" and ok: "smap_ok (device_map b)"
    and g: "pci_grant_ok e (device_map b)"
  shows "arb_good e b (recall_grant e b)"
proof -
  obtain r b1 xs1 n1 where l: "lrand b = Done (r, b1)" "drawn xs1 n1 (rand_state b1)" "device_map b1 = device_map b"
    by (rule lrand_total [OF d])
  have "arb_good e b (obind (plug_do g (drive0 ''GNT#'' BIT_1) b1) (\<lambda>b2. Done (e\<lparr>pci_granted := None\<rparr>, b2)))"
    if gr: "pci_granted e = Some g" for g
  proof -
    have "g \<in> set (map fst (device_map b))" "smap_all (\<lambda>p. out_sig p ''GNT#'') (device_map b1) = grant_lines (map fst (device_map b)) (Some g)"
      using g gr l(3) by (simp_all add: pci_grant_lines)
    from plug_do_total [OF this(2) grant_line_in [OF this(1)], of BIT_1] ok l obtain b2 where
      "plug_do g (drive0 ''GNT#'' BIT_1) b1 = Done b2" "rand_state b2 = rand_state b1"
      "smap_all plug_shape (device_map b2) = smap_all plug_shape (device_map b)" by auto
    with l(2) show ?thesis by (auto simp: arb_good_def)
  qed
  then show ?thesis using assms(1) l arb_stays [OF d, of e]
    by (auto simp: recall_grant_def arb_good_def split: option.splits)
qed

lemma move_total:
  assumes d: "drawn xs n (rand_state b)" and ok: "smap_ok (device_map b)" and g: "pci_grant_ok e (device_map b)"
    and i: "i \<in> (\<lambda>s. unat (fst s)) ` set (pci_shapes b)"
  shows "arb_good e b (move_grant i e b)"
proof -
  have "\<exists>x \<in> set (device_map b). (\<lambda>(k, p). unat (plug_ident p) = i) x"
    using i by (fastforce simp: pci_shapes_def smap_all_def plug_shape_def)
  then obtain k p where f: "find (\<lambda>(k, p). unat (plug_ident p) = i) (device_map b) = Some (k, p)"
    by (cases "find (\<lambda>(k, p). unat (plug_ident p) = i) (device_map b)") (auto simp: find_None_iff)
  then have k: "k \<in> set (map fst (device_map b))" by (force simp: find_Some_iff in_set_conv_nth)
  have lines: "smap_all (\<lambda>p. out_sig p ''GNT#'') (device_map b) = grant_lines (map fst (device_map b)) (pci_granted e)"
    using g by (simp add: pci_grant_lines)
  obtain b1 where b1: "plug_do k (drive0 ''GNT#'' BIT_0) b = Done b1" "map fst (device_map b1) = map fst (device_map b)"
      "smap_all plug_shape (device_map b1) = smap_all plug_shape (device_map b)" "rand_state b1 = rand_state b" "smap_ok (device_map b1)"
      "smap_all (\<lambda>p. out_sig p ''GNT#'') (device_map b1) = smap_at k (\<lambda>v. BIT_0 # tl v) (grant_lines (map fst (device_map b)) (pci_granted e))"
    using plug_do_total [OF lines grant_line_in [OF k] _ ok, of BIT_0] by (metis list.distinct(1))
  show ?thesis
  proof (cases "pci_granted e")
    case None
    with f b1 d show ?thesis by (auto simp: move_grant_def arb_good_def)
  next
    case (Some g0)
    with g have "g0 \<in> set (map fst (device_map b))" by (simp add: pci_grant_ok_def)
    from in_smap_at [OF grant_line_in [OF this, of "pci_granted e"], of k "\<lambda>v. BIT_0 # tl v"]
    have "\<exists>v. (g0, v) \<in> set (smap_at k (\<lambda>v. BIT_0 # tl v) (grant_lines (map fst (device_map b)) (pci_granted e))) \<and> v \<noteq> []"
      by (intro exI conjI, assumption, cases "g0 = k") simp_all
    then obtain v where v: "(g0, v) \<in> set (smap_at k (\<lambda>v. BIT_0 # tl v) (grant_lines (map fst (device_map b)) (pci_granted e)))" "v \<noteq> []"
      by blast
    obtain b2 where "plug_do g0 (drive0 ''GNT#'' BIT_1) b1 = Done b2"
      "smap_all plug_shape (device_map b2) = smap_all plug_shape (device_map b1)" "rand_state b2 = rand_state b1"
      using plug_do_total [OF b1(6) v b1(5), of BIT_1] by metis
    with f b1 d Some show ?thesis by (auto simp: move_grant_def arb_good_def)
  qed
qed

lemma arb_after: "arb_good e b1 r \<Longrightarrow> device_map b1 = device_map b \<Longrightarrow> arb_good e b r"
  by (simp add: arb_good_def)

lemma ident_fits:
  assumes "\<forall>s \<in> set (pci_shapes b). shape_fits s"
  shows "ident_of (device_map b) k < 16"
proof (cases "map_of (device_map b) k")
  case (Some p)
  then have "(k, p) \<in> set (device_map b)" by (rule map_of_SomeD)
  then have "(k, plug_shape p) \<in> set (smap_all plug_shape (device_map b))"
    unfolding smap_all_def set_map by (rule rev_image_eqI) simp
  then have "plug_shape p \<in> set (pci_shapes b)" unfolding pci_shapes_def set_map by (rule rev_image_eqI) simp
  with assms have "plug_ident p < 16" by (auto simp: shape_fits_def plug_shape_def)
  then have "unat (plug_ident p) < 16" by (simp add: word_less_nat_alt)
  with Some show ?thesis by (simp add: ident_of_def)
qed (simp add: ident_of_def)

lemma arbitrate_total:
  assumes l: "pci_live e b" and i: "pci_inv e b"
  shows "arb_good e b (arbitrate e b)"
proof -
  from l obtain xs n where d: "drawn xs n (rand_state b)" by (auto simp: pci_live_def)
  have ok: "smap_ok (device_map b)" "pci_grant_ok e (device_map b)" using i by (simp_all add: pci_inv_def)
  have linger: "pci_gnt_linger e \<noteq> 0" using l by (simp add: pci_live_def)
  have req: "k \<in> (\<lambda>s. unat (fst s)) ` set (pci_shapes b)" if "k < 16" "pci_req_n e ! k = BIT_0" for k
    using l that by (simp add: pci_live_def)
  have id: "ident_of (device_map b) k < 16" for k using l by (intro ident_fits) (simp add: pci_live_def)
  have found: "\<exists>m. next_grant 16 (pci_req_n e) g = Done m \<and> m < 16 \<and> pci_req_n e ! m = BIT_0"
    if some: "BIT_0 \<in> set (pci_req_n e)" and "g < 16" for g
  proof -
    obtain j where "j < 16" "pci_req_n e ! j = BIT_0" using some i by (auto simp: in_set_conv_nth pci_inv_def)
    with request_found [of j g] \<open>g < 16\<close> obtain m where m: "next_grant 16 (pci_req_n e) g = Done m" by blast
    with next_grant_first [OF m] show ?thesis by auto
  qed
  obtain r b1 xs1 n1 where lr: "lrand b = Done (r, b1)" "drawn xs1 n1 (rand_state b1)" "device_map b1 = device_map b"
    by (rule lrand_total [OF d])
  have none: "arb_good e b (obind (next_grant 16 (pci_req_n e) (unat r mod 16)) (\<lambda>m. move_grant m e b1))"
    if some: "BIT_0 \<in> set (pci_req_n e)"
  proof -
    from found [OF some, of "unat r mod 16"] obtain m where m: "next_grant 16 (pci_req_n e) (unat r mod 16) = Done m"
      "m < 16" "pci_req_n e ! m = BIT_0" by auto
    have "arb_good e b1 (move_grant m e b1)"
      using req [OF m(2,3)] lr ok by (intro move_total [OF lr(2)]) (simp_all add: pci_shapes_def)
    with m(1) lr(3) show ?thesis by (simp add: arb_after)
  qed
  have moved: "arb_good e b (obind (next_grant 16 (pci_req_n e) (ident_of (device_map b) g))
      (\<lambda>m. if m = ident_of (device_map b) g then Done (e, b) else move_grant m e b))" if some: "BIT_0 \<in> set (pci_req_n e)" for g
  proof -
    from found [OF some id, of g] obtain m where m: "next_grant 16 (pci_req_n e) (ident_of (device_map b) g) = Done m"
      "m < 16" "pci_req_n e ! m = BIT_0" by auto
    then show ?thesis using move_total [OF d ok req [OF m(2,3)]] arb_stays [OF d, of e] by simp
  qed
  show ?thesis
    using recall_total [OF linger d ok] arb_stays [OF d, of e] none moved id lr(1)
    by (auto simp: arbitrate_def Let_def c_defined_def split: option.splits)
qed

lemma sample_total:
  assumes "\<forall>(k, p) \<in> set dm. unat (plug_ident p) < 16"
  shows "\<exists>req'. sample_req dm req = Done req' \<and>
    (\<forall>i. req' ! i = BIT_0 \<longrightarrow> req ! i = BIT_0 \<or> (\<exists>(k, p) \<in> set dm. unat (plug_ident p) = i))"
  using assms
proof (induction dm req rule: sample_req.induct)
  case (2 k p ds req)
  have id: "unat (plug_ident p) < 16" and ds: "\<forall>(k, p) \<in> set ds. unat (plug_ident p) < 16" using 2(4) by simp_all
  show ?case
  proof (cases "\<exists>x xs. in_sig p ''REQ#'' = x # xs \<and> x \<noteq> BIT_Z")
    case True
    then obtain x xs where x: "in_sig p ''REQ#'' = x # xs" "x \<noteq> BIT_Z" by blast
    from 2(3) [OF x id ds] obtain req' where r: "sample_req ds (req[unat (plug_ident p) := x]) = Done req'"
      "\<And>i. req' ! i = BIT_0 \<Longrightarrow> req[unat (plug_ident p) := x] ! i = BIT_0 \<or> (\<exists>(k, p) \<in> set ds. unat (plug_ident p) = i)"
      by blast
    have "req ! i = BIT_0 \<or> (\<exists>(k, p) \<in> set ((k, p) # ds). unat (plug_ident p) = i)" if "req' ! i = BIT_0" for i
      using r(2) [OF that] by (cases "i = unat (plug_ident p)") auto
    with r(1) x id show ?thesis by (intro exI [of _ req']) simp
  next
    case False
    then have "sample_req ((k, p) # ds) req = sample_req ds req" by (auto split: list.splits)
    moreover have "\<exists>req'. sample_req ds req = Done req' \<and>
        (\<forall>i. req' ! i = BIT_0 \<longrightarrow> req ! i = BIT_0 \<or> (\<exists>(k, p) \<in> set ds. unat (plug_ident p) = i))"
      using False 2(1,2) ds by (cases "in_sig p ''REQ#''") auto
    ultimately show ?thesis by auto
  qed
qed simp

lemma line0_total:
  assumes "\<forall>(k, p) \<in> set dm. client_fits p" and "k \<in> set (map fst dm)" and "nm \<in> {''FRAME#'', ''IRDY#''}"
  shows "\<exists>x. line0 dm k nm = Done x"
proof -
  from assms(2) obtain p where p: "map_of dm k = Some p" by (cases "map_of dm k") (auto simp: map_of_eq_None_iff)
  then have "(k, p) \<in> set dm" by (rule map_of_SomeD)
  then have "client_fits p" using assms(1) by auto
  then have "0 < length (in_sig p nm)" using assms(3) by (auto simp: client_fits_def shared_lines_def)
  with p show ?thesis by (auto simp: line0_def split: list.splits)
qed

lemma master_total:
  assumes "\<forall>(k, p) \<in> set dm. client_fits p" and "\<And>k. granted = Some k \<or> mst = Some k \<Longrightarrow> k \<in> set (map fst dm)"
  shows "\<exists>m. next_master dm granted mst = Done m \<and> (\<forall>k. m = Some k \<longrightarrow> k \<in> set (map fst dm))"
proof -
  have line: "\<exists>x. line0 dm k nm = Done x" if "granted = Some k \<or> mst = Some k" "nm \<in> {''FRAME#'', ''IRDY#''}" for k nm
    using line0_total [OF assms(1) assms(2) [OF that(1)] that(2)] .
  show ?thesis
  proof (cases mst)
    case None
    show ?thesis
    proof (cases granted)
      case (Some g)
      then obtain f where "line0 dm g ''FRAME#'' = Done f" using line [of g "''FRAME#''"] by blast
      with None Some assms(2) show ?thesis by (auto simp: next_master_def)
    qed (use None in \<open>simp add: next_master_def\<close>)
  next
    case (Some m)
    then obtain f i where "line0 dm m ''FRAME#'' = Done f" "line0 dm m ''IRDY#'' = Done i"
      using line [of m "''FRAME#''"] line [of m "''IRDY#''"] by blast
    with Some assms(2) show ?thesis by (cases granted) (auto simp: next_master_def)
  qed
qed

lemma shapes_idents:
  assumes "\<forall>s \<in> set (pci_shapes b). shape_fits s"
  shows "\<forall>(k, p) \<in> set (device_map b). unat (plug_ident p) < 16 \<and> shape_fits (plug_shape p)"
proof -
  have "shape_fits (plug_shape p)" if "(k, p) \<in> set (device_map b)" for k p
    using assms that by (auto simp: pci_shapes_def smap_all_def)
  moreover have "unat (plug_ident p) < 16" if "shape_fits (plug_shape p)" for p
    using that by (simp add: shape_fits_def plug_shape_def word_less_nat_alt)
  ultimately show ?thesis by blast
qed

lemma next_master_among: "next_master dm granted mst = Done (Some k) \<Longrightarrow> granted = Some k \<or> mst = Some k"
  by (auto simp: next_master_def split: option.splits if_splits)

lemma replicate_req: "i < 16 \<Longrightarrow> replicate 16 BIT_1 ! i \<noteq> BIT_0"
  by (subst nth_replicate) simp_all

lemma track_live:
  assumes "track_req_n e (device_map b) = Done e'" and "pci_live e b" and "pci_grant_ok e (device_map b)"
  shows "pci_live e' b"
proof (cases "pci_phase e = 0")
  case True
  with assms(1) obtain req m where req: "sample_req (device_map b) (replicate 16 BIT_1) = Done req"
    and m: "next_master (device_map b) (pci_granted e) (pci_master e) = Done m" and e': "e' = e\<lparr>pci_req_n := req, pci_master := m\<rparr>"
    by (auto simp: track_req_n_def)
  have sh: "\<forall>s \<in> set (pci_shapes b). shape_fits s" using assms(2) by (simp add: pci_live_def)
  have ids: "\<forall>(k, p) \<in> set (device_map b). unat (plug_ident p) < 16" using shapes_idents [OF sh] by auto
  have "i \<in> (\<lambda>s. unat (fst s)) ` set (pci_shapes b)" if i: "i < 16" and r: "req ! i = BIT_0" for i
  proof -
    obtain k p where "(k, p) \<in> set (device_map b)" "unat (plug_ident p) = i"
      using sample_total [OF ids, of "replicate 16 BIT_1"] req replicate_req [OF i] r by auto
    then show ?thesis by (force simp: pci_shapes_def smap_all_def plug_shape_def)
  qed
  moreover have "k \<in> set (map fst (device_map b))" if "m = Some k" for k
    using next_master_among [OF m [unfolded that]] assms(2,3) by (auto simp: pci_live_def pci_grant_ok_def)
  ultimately show ?thesis using assms(2) by (simp add: pci_live_def e')
qed (use assms in \<open>simp add: track_req_n_def\<close>)

lemma track_total:
  assumes "pci_live e b" and "pci_grant_ok e (device_map b)" and "\<forall>(k, p) \<in> set (device_map b). client_fits p"
  shows "\<exists>e'. track_req_n e (device_map b) = Done e'"
proof -
  have sh: "\<forall>s \<in> set (pci_shapes b). shape_fits s" using assms(1) by (simp add: pci_live_def)
  have ids: "\<forall>(k, p) \<in> set (device_map b). unat (plug_ident p) < 16" using shapes_idents [OF sh] by auto
  have keys: "k \<in> set (map fst (device_map b))" if "pci_granted e = Some k \<or> pci_master e = Some k" for k
    using that assms(1,2) by (auto simp: pci_live_def pci_grant_ok_def)
  have "\<exists>m. next_master (device_map b) (pci_granted e) (pci_master e) = Done m"
    using master_total [of "device_map b" "pci_granted e" "pci_master e", OF assms(3) keys] by blast
  with sample_total [OF ids, of "replicate 16 BIT_1"] show ?thesis by (auto simp: track_req_n_def)
qed

lemma pci_step_arb:
  assumes "pci_run_run e b = Done (e', b')"
  obtains e2 b1 b2 dm3 dm4 dm5 clk r where
    "track_req_n (e\<lparr>pci_phase := next_phase (pci_phase e)\<rparr>) (device_map b) = Done e2"
    "b1 = advance_time (snd (pci_clock_phase_map e ! next_phase (pci_phase e))) (-12) b"
    "arbitrate e2 b1 = Done (e', b2)" "route_interrupts (device_map b2) = Done dm3" "blend_bi_signals dm3 = Done dm4"
    "each_plug (drive_outputs clk r) dm4 = Done dm5" "b' = b2\<lparr>device_map := dm5\<rparr>"
  using assms by (auto simp: pci_run_run_def Let_def split_beta advance_time_def)

lemma advanced: "device_map (advance_time d x b) = device_map b" "rand_state (advance_time d x b) = rand_state b"
  by (simp_all add: advance_time_def)

lemma live_phase: "pci_live (e\<lparr>pci_phase := ph\<rparr>) b = pci_live e b"
  by (simp add: pci_live_def)

lemma live_same:
  assumes "pci_live e b" and "smap_all plug_shape (device_map b') = smap_all plug_shape (device_map b)"
    and "drawn xs n (rand_state b')" and "e'\<lparr>pci_granted := None\<rparr> = e\<lparr>pci_granted := None\<rparr>"
  shows "pci_live e' b'"
proof -
  have "map fst (device_map b') = map fst (device_map b)" using assms(2) by (metis keys_all)
  moreover have "pci_gnt_linger e' = pci_gnt_linger e" "pci_master e' = pci_master e" "pci_req_n e' = pci_req_n e"
    using arg_cong [OF assms(4), of pci_gnt_linger] arg_cong [OF assms(4), of pci_master]
      arg_cong [OF assms(4), of pci_req_n] by simp_all
  moreover have "pci_shapes b' = pci_shapes b" using assms(2) by (simp add: pci_shapes_def)
  ultimately show ?thesis using assms(1,3) by (auto simp: pci_live_def)
qed

lemma step_live:
  assumes "pci_run_run e b = Done (e', b')" and "pci_inv e b" and "pci_live e b"
  shows "pci_live e' b'"
proof -
  let ?e1 = "e\<lparr>pci_phase := next_phase (pci_phase e)\<rparr>"
  obtain e2 b1 b2 dm3 dm4 dm5 clk r where t: "track_req_n ?e1 (device_map b) = Done e2"
    and b1: "b1 = advance_time (snd (pci_clock_phase_map e ! next_phase (pci_phase e))) (-12) b"
    and a: "arbitrate e2 b1 = Done (e', b2)" and d: "route_interrupts (device_map b2) = Done dm3"
      "blend_bi_signals dm3 = Done dm4" "each_plug (drive_outputs clk r) dm4 = Done dm5" and b': "b' = b2\<lparr>device_map := dm5\<rparr>"
    by (rule pci_step_arb [OF assms(1)])
  have g: "pci_grant_ok ?e1 (device_map b)" using assms(2) by (simp add: pci_inv_def pci_grant_ok_def)
  have "pci_live e2 b" by (rule track_live [OF t _ g]) (simp add: live_phase assms(3))
  then have l: "pci_live e2 b1" by (simp add: pci_live_def pci_shapes_def b1 advanced)
  have "length (pci_req_n e2) = 16" using t assms(2)
    by (auto simp: track_req_n_def pci_inv_def dest!: sample_length split: if_splits)
  then have "pci_inv e2 b1" using assms(2) track_effect [OF t] by (simp add: pci_inv_def pci_grant_ok_def b1 advanced)
  from arbitrate_total [OF l this] a obtain xs n where "e'\<lparr>pci_granted := None\<rparr> = e2\<lparr>pci_granted := None\<rparr>"
    "smap_all plug_shape (device_map b2) = smap_all plug_shape (device_map b1)" "drawn xs n (rand_state b2)"
    by (auto simp: arb_good_def)
  with interrupts_shape [OF d(1)] blend_shape [OF d(2)] outputs_shape [OF d(3)] show ?thesis
    by (intro live_same [OF l, of b' xs n]) (simp_all add: b')
qed

text \<open>Parts of a step that return for devices whose vectors fit.\<close>

lemma int_total:
  assumes "\<forall>(k, p) \<in> set dm. unat (plug_ident p) < 16" and "length (out_sig p nm) = 16"
  shows "\<exists>p'. send_int dm nm p = Done p'"
  using assms by (auto simp: send_int_def int_sources_def c_assert_def c_defined_def split_beta)

lemma interrupts_total:
  assumes "\<forall>(k, p) \<in> set dm. unat (plug_ident p) < 16 \<and> shape_fits (plug_shape p)"
  shows "\<exists>dm'. route_interrupts dm = Done dm'"
  unfolding route_interrupts_def
proof (rule each_total)
  fix k p
  assume "(k, p) \<in> set dm"
  with assms have f: "shape_fits (plug_shape p)" by auto
  have ids: "\<forall>(k, p) \<in> set dm. unat (plug_ident p) < 16" using assms by auto
  show "\<exists>p'. (if \<not> host_flag p then Done p
       else obind (send_int dm ''INTA#'' p) (\<lambda>p1. obind (send_int dm ''INTB#'' p1) (\<lambda>p2.
            obind (send_int dm ''INTC#'' p2) (send_int dm ''INTD#'')))) = Done p'"
  proof (cases "host_flag p")
    case True
    then have "\<forall>nm \<in> {''INTA#'', ''INTB#'', ''INTC#'', ''INTD#''}. length (out_sig p nm) = 16"
      using f by (simp add: shape_fits_def plug_shape_def)
    then have len: "length (out_sig q nm) = 16" if "plug_shape q = plug_shape p" "nm \<in> {''INTA#'', ''INTB#'', ''INTC#'', ''INTD#''}" for q nm
      using shape_out [OF that(1), of nm] that(2) by metis
    have "\<exists>q'. send_int dm nm q = Done q' \<and> plug_shape q' = plug_shape p"
      if "plug_shape q = plug_shape p" "nm \<in> {''INTA#'', ''INTB#'', ''INTC#'', ''INTD#''}" for q nm
      using int_total [OF ids len [OF that]] shape_int that(1) by metis
    then show ?thesis by (simp add: True) (metis insert_iff)
  qed simp
qed

lemma blend_total:
  assumes "\<forall>(k, p) \<in> set dm. unat (plug_ident p) < 16 \<and> shape_fits (plug_shape p)" and "\<forall>(k, p) \<in> set dm. client_fits p"
  shows "\<exists>dm'. blend_bi_signals dm = Done dm'"
proof -
  have fit: "\<forall>(k, p) \<in> set dm. \<forall>(nm, w) \<in> set shared_lines. w \<le> length (in_sig p nm) \<and> w \<le> length (out_sig p nm)"
    using assms by (auto simp: shape_fits_def plug_shape_def client_fits_def; blast)
  have "\<exists>p'. c_defined (unat (plug_ident p) + 16 < 64)
      (drive0 ''IDSEL'' (resolved dm ''AD'' (unat (plug_ident p) + 16)) (fold (send_shared dm) shared_lines p)) = Done p'"
    if p: "(k, p) \<in> set dm" for k p
  proof -
    have s: "shape_fits (plug_shape p)" "unat (plug_ident p) < 16" using assms(1) p by auto
    have "\<forall>(nm, w) \<in> set shared_lines. w \<le> length (out_sig p nm)" using fit p by fast
    from shape_shared [OF this, of dm] have "plug_shape (fold (send_shared dm) shared_lines p) = plug_shape p" .
    with s(1) have "out_sig (fold (send_shared dm) shared_lines p) ''IDSEL'' \<noteq> []"
      by (auto simp: shape_fits_def plug_shape_def dest!: fun_cong [where x = "''IDSEL''"])
    with s(2) show ?thesis by (auto simp: drive0_def c_defined_def split: list.splits)
  qed
  from each_total [of dm, OF this] fit show ?thesis by (simp add: blend_bi_signals_def c_defined_def)
qed

lemma outputs_total:
  assumes "\<forall>(k, p) \<in> set dm. shape_fits (plug_shape p)"
  shows "\<exists>dm'. each_plug (drive_outputs clk r) dm = Done dm'"
proof (rule each_total)
  fix k p
  assume "(k, p) \<in> set dm"
  with assms have f: "shape_fits (plug_shape p)" by auto
  then have "0 < length (out_sig p ''PCI_CLK'')" by (simp add: shape_fits_def plug_shape_def)
  then obtain q where q: "drive0 ''PCI_CLK'' clk p = Done q" by (cases "out_sig p ''PCI_CLK''") (auto simp: drive0_def)
  have "0 < length (out_sig q ''RESET#'')" if "\<not> host_flag p"
    using f that shape_out [OF shape_drive0 [OF q], of "''RESET#''"] by (simp add: shape_fits_def plug_shape_def)
  with q show "\<exists>p'. drive_outputs clk r p = Done p'"
    by (auto simp: drive_outputs_def drive0_def split: list.splits)
qed

lemma shapes_kept:
  assumes "smap_all plug_shape dm' = smap_all plug_shape dm" and "\<forall>(k, p) \<in> set dm. unat (plug_ident p) < 16 \<and> shape_fits (plug_shape p)"
  shows "\<forall>(k, p) \<in> set dm'. unat (plug_ident p) < 16 \<and> shape_fits (plug_shape p)"
proof -
  have "(\<forall>(k, p) \<in> set m. unat (plug_ident p) < 16 \<and> shape_fits (plug_shape p)) =
      (\<forall>(k, s) \<in> set (smap_all plug_shape m). unat (fst s) < 16 \<and> shape_fits s)" for m
    by (auto simp: smap_all_def plug_shape_def)
  with assms show ?thesis by simp
qed

lemma clients_kept:
  assumes "smap_all client_signals dm' = smap_all client_signals dm" and "\<forall>(k, p) \<in> set dm. client_fits p"
  shows "\<forall>(k, p) \<in> set dm'. client_fits p"
proof -
  have "(\<forall>(k, p) \<in> set m. client_fits p) =
      (\<forall>(k, c) \<in> set (smap_all client_signals m). \<forall>(nm, w) \<in> set shared_lines. w \<le> length (entry c nm))" for m
    by (auto simp: smap_all_def client_fits_def)
  with assms show ?thesis by simp
qed

lemma step_total:
  assumes "pci_inv e b" and "pci_live e b" and "\<forall>(k, p) \<in> set (device_map b). client_fits p"
  shows "\<exists>e' b'. pci_run_run e b = Done (e', b')"
proof -
  let ?e1 = "e\<lparr>pci_phase := next_phase (pci_phase e)\<rparr>"
  define b1 where "b1 = advance_time (snd (pci_clock_phase_map e ! next_phase (pci_phase e))) (-12) b"
  have g: "pci_grant_ok ?e1 (device_map b)" and ok: "smap_ok (device_map b)" using assms(1) by (simp_all add: pci_inv_def pci_grant_ok_def)
  have l1: "pci_live ?e1 b" by (simp add: live_phase assms(2))
  obtain e2 where t: "track_req_n ?e1 (device_map b) = Done e2" using track_total [OF l1 g assms(3)] by blast
  have l: "pci_live e2 b1" using track_live [OF t l1 g] by (simp add: pci_live_def pci_shapes_def b1_def advanced)
  have "length (pci_req_n e2) = 16" using t assms(1)
    by (auto simp: track_req_n_def pci_inv_def dest!: sample_length split: if_splits)
  then have i: "pci_inv e2 b1" using g ok track_effect [OF t] by (simp add: pci_inv_def pci_grant_ok_def b1_def advanced)
  obtain e3 b2 where a: "arbitrate e2 b1 = Done (e3, b2)" and s2: "smap_all plug_shape (device_map b2) = smap_all plug_shape (device_map b1)"
    using arbitrate_total [OF l i] by (auto simp: arb_good_def)
  have "smap_all client_signals (device_map b2) = smap_all client_signals (device_map b1)"
    using arbitrate_effect [OF a] i by (simp add: grant_step_def same_plugs_def pci_inv_def)
  then have c2: "\<forall>(k, p) \<in> set (device_map b2). client_fits p"
    by (rule clients_kept) (simp add: b1_def advanced assms(3))
  have "\<forall>(k, p) \<in> set (device_map b1). unat (plug_ident p) < 16 \<and> shape_fits (plug_shape p)"
    using l by (intro shapes_idents) (simp add: pci_live_def)
  then have f2: "\<forall>(k, p) \<in> set (device_map b2). unat (plug_ident p) < 16 \<and> shape_fits (plug_shape p)" by (rule shapes_kept [OF s2])
  obtain dm3 where d3: "route_interrupts (device_map b2) = Done dm3" using interrupts_total [OF f2] by blast
  have f3: "\<forall>(k, p) \<in> set dm3. unat (plug_ident p) < 16 \<and> shape_fits (plug_shape p)" by (rule shapes_kept [OF interrupts_shape [OF d3] f2])
  have c3: "\<forall>(k, p) \<in> set dm3. client_fits p" by (rule clients_kept [OF interrupts_keep(2) [OF d3] c2])
  obtain dm4 where d4: "blend_bi_signals dm3 = Done dm4" using blend_total [OF f3 c3] by blast
  have f4: "\<forall>(k, p) \<in> set dm4. unat (plug_ident p) < 16 \<and> shape_fits (plug_shape p)" by (rule shapes_kept [OF blend_shape [OF d4] f3])
  have "\<exists>dm5. each_plug (drive_outputs clk r) dm4 = Done dm5" for clk r using f4 by (intro outputs_total) auto
  with t a d3 d4 show ?thesis by (auto simp: pci_run_run_def Let_def split_beta b1_def advanced)
qed

section \<open>The properties of the bus\<close>

lemma put_sends_get:
  assumes "distinct (map fst kvs)" and "(nm, v) \<in> set kvs"
  shows "out_sig (put_sends kvs p) nm = v"
proof -
  have "send_signals (put_sends kvs p) = fold (\<lambda>(k, v). smap_put k v) kvs (send_signals p)"
    by (induction kvs arbitrary: p) (auto simp: put_sends_def put_send_def)
  then show ?thesis using sm.fold_get [OF assms, of "send_signals p"] by (simp add: entry_def)
qed

lemma init_fits:
  assumes "plug_ident p < 16"
  shows "shape_fits (plug_shape (pci_init_plug cap p))"
proof -
  let ?kvs = "[(''PCIXCAP'', [cap]), (''PCI_CLK'', [BIT_1]), (''GNT#'', [BIT_1]), (''IDSEL'', [BIT_Z])] @ released
    @ (if host_flag p then map (\<lambda>nm. (nm, replicate 16 BIT_1)) [''INTA#'', ''INTB#'', ''INTC#'', ''INTD#'']
       else [(''RESET#'', [BIT_1])])"
  have "distinct (map fst ?kvs)" by (simp add: released_def shared_lines_def)
  note get = put_sends_get [OF this, where p = p]
  have sig: "send_signals (pci_init_plug cap p) = send_signals (put_sends ?kvs p)" by (simp add: pci_init_plug_def put_clients_sends)
  have out: "out_sig (pci_init_plug cap p) nm = v" if "(nm, v) \<in> set ?kvs" for nm v using get [OF that] by (simp add: sig)
  have "plug_frame (put_sends kvs q) = plug_frame q" for kvs q
    by (induction kvs arbitrary: q) (auto simp: put_sends_def)
  moreover have "plug_frame (put_clients kvs q) = plug_frame q" for kvs q
    by (induction kvs arbitrary: q) (auto simp: put_clients_def put_client_def plug_frame_def)
  ultimately have fr: "plug_frame (pci_init_plug cap p) = plug_frame p" by (simp add: pci_init_plug_def)
  from arg_cong [OF fr, of plug_ident] arg_cong [OF fr, of host_flag]
  have p: "plug_ident (pci_init_plug cap p) = plug_ident p" "host_flag (pci_init_plug cap p) = host_flag p"
    by (simp_all add: plug_frame_def)
  have "length (out_sig (pci_init_plug cap p) nm) = w" if "(nm, w) \<in> set shared_lines" for nm w
  proof -
    have "(nm, replicate w BIT_Z) \<in> set released" using that by (force simp: released_def)
    then show ?thesis by (subst out [of nm "replicate w BIT_Z"]) simp_all
  qed
  then have "\<forall>(nm, w) \<in> set shared_lines. w \<le> length (out_sig (pci_init_plug cap p) nm)" by fastforce
  moreover have "out_sig (pci_init_plug cap p) ''PCI_CLK'' = [BIT_1]" "out_sig (pci_init_plug cap p) ''IDSEL'' = [BIT_Z]"
    by (rule out; simp)+
  moreover have "out_sig (pci_init_plug cap p) nm = replicate 16 BIT_1"
    if "host_flag p" "nm \<in> {''INTA#'', ''INTB#'', ''INTC#'', ''INTD#''}" for nm by (rule out) (use that in auto)
  moreover have "out_sig (pci_init_plug cap p) ''RESET#'' = [BIT_1]" if "\<not> host_flag p" by (rule out) (simp add: that)
  ultimately show ?thesis using assms by (simp add: shape_fits_def plug_shape_def p)
qed

lemma reaches_live: "pci_reaches e b \<Longrightarrow> pci_live e b"
proof (induction rule: pci_reaches.induct)
  case (pci_start e b e' b')
  then have e': "e' = e\<lparr>pci_granted := None, pci_master := None, pci_req_n := replicate 16 BIT_1\<rparr>"
    and b': "b' = all_plugs (pci_init_plug (pci_pcixcap e)) b" by (simp_all add: pci_run_init_def)
  have "\<forall>s \<in> set (pci_shapes b'). shape_fits s"
    using pci_start(1) init_fits by (auto simp: pci_shapes_def b' all_plugs_def smap_all_def pci_configured_def)
  then show ?case using pci_start(1) replicate_req by (simp add: pci_live_def e' b' all_plugs_def pci_configured_def)
next
  case (pci_between e b b')
  have "smap_all plug_shape (device_map b') = smap_all plug_shape (device_map b)"
    by (rule core_all [OF pci_between(2)]) (simp add: plug_shape_def plug_core_def)
  moreover have "rand_state b' = rand_state b" using pci_between(2) by (simp add: bus_core_def)
  moreover obtain xs n where "drawn xs n (rand_state b)" using pci_between(3) by (auto simp: pci_live_def)
  ultimately show ?case by (intro live_same [OF pci_between(3), of b' xs n]) simp_all
next
  case (pci_step e b e' b')
  then show ?case using step_live reaches_inv by blast
qed

text \<open>A host and a device, just initialised.\<close>

definition two_devices :: "unit bus_state" where
  "two_devices = new_bus ''pci'' () [(''a'', new_plug ''a'' True 0), (''b'', new_plug ''b'' False 1)] []"

definition two_engine :: pci_protocol where
  "two_engine = (fst (PciProtocol two_devices))
     \<lparr>pci_granted := None, pci_master := None, pci_req_n := replicate 16 BIT_1\<rparr>"

definition two_bus :: "unit bus_state" where
  "two_bus = all_plugs (pci_init_plug BIT_0) (snd (PciProtocol two_devices))"

lemma two_reaches: "pci_reaches two_engine two_bus"
proof (rule pci_start)
  show "pci_configured (fst (PciProtocol two_devices)) (snd (PciProtocol two_devices))"
    using sgenrand_drawn [of "\<lparr>mti = 0, mt = replicate 1023 0\<rparr>" 1]
    by (auto simp: pci_configured_def PciProtocol_def two_devices_def new_bus_def get_option_def new_plug_def Let_def)
  show "pci_run_init (fst (PciProtocol two_devices)) (snd (PciProtocol two_devices)) = Done (two_engine, two_bus)"
    by (simp add: pci_run_init_def two_engine_def two_bus_def PciProtocol_def two_devices_def new_bus_def get_option_def Let_def)
qed

lemma put_clients_get:
  assumes "distinct (map fst kvs)" and "(nm, v) \<in> set kvs"
  shows "in_sig (put_clients kvs p) nm = v"
proof -
  have "client_signals (put_clients kvs p) = fold (\<lambda>(k, v). smap_put k v) kvs (client_signals p)"
    by (induction kvs arbitrary: p) (auto simp: put_clients_def put_client_def)
  then show ?thesis using sm.fold_get [OF assms, of "client_signals p"] by (simp add: entry_def)
qed

lemma init_client_fits: "client_fits (pci_init_plug cap p)"
proof -
  have d: "distinct (map fst released)" by (simp add: released_def shared_lines_def)
  have "in_sig (put_clients released q) nm = replicate w BIT_Z" if "(nm, w) \<in> set shared_lines" for q nm w
    by (rule put_clients_get [OF d]) (use that in \<open>force simp: released_def\<close>)
  then show ?thesis by (auto simp: client_fits_def pci_init_plug_def)
qed

text \<open>C8: The arbiter grants to one device at a time. In every state of a PCI bus that was configured with
  idents below 16 and a linger other than 0, whatever its clients sent, \<open>GNT#\<close> is low exactly for the
  granted device and high for all others; a step that moves the grant happens in clock phase 1 and
  gives it to a device whose sampled \<open>REQ#\<close> is low.\<close>

theorem pci_one_grant:
  assumes "pci_reaches e b"
  shows "pci_grant_ok e (device_map b) \<and>
    ret (pci_run_run e b) (\<lambda>(e', b'). pci_granted e' = pci_granted e \<or> pci_granted e' = None \<or>
      (\<exists>k. pci_granted e' = Some k \<and> pci_phase e' = 1 \<and> pci_req_n e' ! ident_of (device_map b) k = BIT_0))"
proof (intro conjI retI)
  have ok: "smap_ok (device_map b)" "pci_grant_ok e (device_map b)" using reaches_inv [OF assms(1)] by (simp_all add: pci_inv_def)
  then show "pci_grant_ok e (device_map b)" by simp
  fix x assume "pci_run_run e b = Done x"
  then obtain e' b' where x: "x = (e', b')" and run: "pci_run_run e b = Done (e', b')" by (cases x) auto
  obtain e2 b1 b2 where t: "track_req_n (e\<lparr>pci_phase := next_phase (pci_phase e)\<rparr>) (device_map b) = Done e2"
    and b1: "b1 = advance_time (snd (pci_clock_phase_map e ! next_phase (pci_phase e))) (-12) b"
    and a: "arbitrate e2 b1 = Done (e', b2)" by (rule pci_step_arb [OF run])
  have e2: "pci_granted e2 = pci_granted e" using track_effect [OF t] by simp
  have "grant_step e2 b1 e' b2" using ok e2 by (intro arbitrate_effect [OF a]) (simp_all add: b1 advanced pci_grant_ok_def)
  note g = this grant_step_rest [OF this]
  have "pci_req_n e' ! ident_of (device_map b) k = BIT_0 \<and> pci_phase e' = 1"
    if new: "pci_granted e' \<noteq> pci_granted e" "pci_granted e' = Some k" for k
  proof
    show "pci_req_n e' ! ident_of (device_map b) k = BIT_0" using g new e2 by (simp add: grant_step_def b1 advanced)
    have "pci_phase e2 = 1" using a new(1) e2 by (auto simp: arbitrate_def Let_def split: if_splits)
    then show "pci_phase e' = 1" using g(2) by simp
  qed
  then show "case x of (e', b') \<Rightarrow> pci_granted e' = pci_granted e \<or> pci_granted e' = None \<or>
      (\<exists>k. pci_granted e' = Some k \<and> pci_phase e' = 1 \<and> pci_req_n e' ! ident_of (device_map b) k = BIT_0)"
    by (cases "pci_granted e'") (auto simp: x)
qed

theorem pci_one_grant_witness:
  "pci_grant_ok two_engine (device_map two_bus) \<and>
    ret (pci_run_run two_engine two_bus) (\<lambda>(e', b'). pci_granted e' = pci_granted two_engine \<or> pci_granted e' = None \<or>
      (\<exists>k. pci_granted e' = Some k \<and> pci_phase e' = 1 \<and> pci_req_n e' ! ident_of (device_map two_bus) k = BIT_0))"
  by (rule pci_one_grant [OF two_reaches])

text \<open>C23: A PCI bus never stops. In every such state in which each client's vectors have at least the
  widths of the shared lines, the next step returns: the arbiter's search finds a requester, the
  device that is to be granted exists, and no vector is read or written out of range.\<close>

theorem pci_steps_return:
  assumes "pci_reaches e b" and "\<forall>(k, p) \<in> set (device_map b). client_fits p"
  shows "\<exists>e' b'. pci_run_run e b = Done (e', b') \<and> pci_reaches e' b'"
  using step_total [OF reaches_inv [OF assms(1)] reaches_live [OF assms(1)] assms(2)] pci_step [OF assms(1)] by blast

lemma two_fit: "\<forall>(k, p) \<in> set (device_map two_bus). client_fits p"
  by (auto simp: two_bus_def all_plugs_def smap_all_def init_client_fits)

theorem pci_steps_return_witness:
  "\<exists>e' b'. pci_run_run two_engine two_bus = Done (e', b') \<and> pci_reaches e' b'"
  by (rule pci_steps_return [OF two_reaches two_fit])

text \<open>C22: All devices see the same bus. After a step, what a device drives on a shared line together with
  what the server sends it there is the resolved value of the line, for every device; that value is
  released if nobody drives the line, 0 or 1 if somebody drives it so and nobody otherwise, and
  unknown on a conflict; and \<open>IDSEL\<close> of each device is the address line that belongs to its ident.\<close>

theorem shared_lines_agree:
  assumes "pci_reaches e b" and "pci_run_run e b = Done (e', b')" and "(k, p) \<in> set (device_map b')"
    and "(nm, w) \<in> set shared_lines" and "idx < w"
  shows "blend_bits (in_sig p nm ! idx) (out_sig p nm ! idx) = resolved (device_map b') nm idx
    \<and> hd (out_sig p ''IDSEL'') = resolved (device_map b') ''AD'' (unat (plug_ident p) + 16)
    \<and> (let vs = set (line_drivers (device_map b) nm idx); r = resolved (device_map b') nm idx
       in r = (if vs \<subseteq> {BIT_Z} then BIT_Z else if vs \<subseteq> {BIT_0, BIT_Z} then BIT_0
               else if vs \<subseteq> {BIT_1, BIT_Z} then BIT_1 else BIT_X))"
proof -
  have ok: "smap_ok (device_map b)" "pci_grant_ok e (device_map b)" using reaches_inv [OF assms(1)] by (simp_all add: pci_inv_def)
  obtain e2 b2 dm3 dm4 dm5 clk r where g: "grant_step e2 b e' b2" and d: "route_interrupts (device_map b2) = Done dm3"
      "blend_bi_signals dm3 = Done dm4" "each_plug (drive_outputs clk r) dm4 = Done dm5" and b': "b' = b2\<lparr>device_map := dm5\<rparr>"
    by (rule pci_step_parts [OF assms(2) ok])
  have cs: "smap_all client_signals dm3 = smap_all client_signals (device_map b')"
      "smap_all client_signals (device_map b') = smap_all client_signals (device_map b)"
    using g interrupts_keep(2) [OF d(1)] blend_keeps(2) [OF d(2)] outputs_keep(2) [OF d(3)]
    by (simp_all add: grant_step_def same_plugs_def b')
  have res: "resolved dm3 = resolved (device_map b')" "line_drivers (device_map b') = line_drivers (device_map b)"
    using cs by (auto simp: resolved_clients line_drivers_def fun_eq_iff)
  from assms(3) obtain p4 where p4: "(k, p4) \<in> set dm4" "drive_outputs clk r p4 = Done p" by (auto simp: b' dest!: each_from [OF d(3)])
  obtain p3 where p3: "(k, p3) \<in> set dm3" "client_signals p4 = client_signals p3" "plug_ident p4 = plug_ident p3"
    and sent: "\<forall>(nm, w) \<in> set shared_lines. out_sig p4 nm =
       map (\<lambda>idx. subtract_feedback (resolved dm3 nm idx) (in_sig p3 nm ! idx)) [0..<w] @ drop w (out_sig p3 nm)"
    and idsel: "\<exists>xs. out_sig p4 ''IDSEL'' = resolved dm3 ''AD'' (unat (plug_ident p3) + 16) # xs"
    by (rule blend_sends [OF d(2) p4(1)])
  have only: "sends_only nm' p4 p" if "nm' \<notin> {''PCI_CLK'', ''RESET#''}" for nm'
    using p4(2) that by (auto simp: drive_outputs_def split: if_splits intro: sends_only_trans dest!: sends_only_drive0 [where nm = nm'])
  have nm: "nm \<notin> {''PCI_CLK'', ''RESET#''}" using assms(4) by (auto simp: shared_lines_def)
  have in3: "client_signals p = client_signals p3" "plug_ident p = plug_ident p3" using sends_only_client [OF only [OF nm]] p3 by simp_all
  have "out_sig p nm ! idx = subtract_feedback (resolved dm3 nm idx) (in_sig p3 nm ! idx)"
    using only [OF nm] sent assms(4,5) by (fastforce simp: sends_only_def nth_append)
  then have "blend_bits (in_sig p nm ! idx) (out_sig p nm ! idx) = resolved (device_map b') nm idx"
    using blend_sent [OF line_drivers_in [OF p3(1)], of nm idx] by (simp add: in3 resolved_drivers [of dm3] flip: res(1))
  moreover have "hd (out_sig p ''IDSEL'') = resolved (device_map b') ''AD'' (unat (plug_ident p) + 16)"
    using only [of "''IDSEL''"] idsel by (auto simp: sends_only_def in3 res)
  moreover have "resolved (device_map b') nm idx = foldl blend_bits BIT_Z (line_drivers (device_map b) nm idx)"
    by (simp add: resolved_drivers res)
  ultimately show ?thesis using blended [of "line_drivers (device_map b) nm idx"]
    by (cases "resolved (device_map b') nm idx") (auto simp: Let_def)
qed

theorem shared_lines_agree_witness:
  "\<exists>e' b' p. pci_run_run two_engine two_bus = Done (e', b') \<and> (''b'', p) \<in> set (device_map b') \<and>
    blend_bits (in_sig p ''AD'' ! 5) (out_sig p ''AD'' ! 5) = resolved (device_map b') ''AD'' 5
    \<and> hd (out_sig p ''IDSEL'') = resolved (device_map b') ''AD'' (unat (plug_ident p) + 16)
    \<and> (let vs = set (line_drivers (device_map two_bus) ''AD'' 5); r = resolved (device_map b') ''AD'' 5
       in r = (if vs \<subseteq> {BIT_Z} then BIT_Z else if vs \<subseteq> {BIT_0, BIT_Z} then BIT_0
               else if vs \<subseteq> {BIT_1, BIT_Z} then BIT_1 else BIT_X))"
proof -
  note i = reaches_inv [OF two_reaches]
  obtain e' b' where run: "pci_run_run two_engine two_bus = Done (e', b')"
    using step_total [OF i reaches_live [OF two_reaches] two_fit] by blast
  have "map fst (device_map b') = map fst (device_map two_bus)"
    using pci_step_effect [OF run] i by (simp add: pci_inv_def same_plugs_def)
  then have "''b'' \<in> fst ` set (device_map b')"
    unfolding set_map [symmetric] by (simp add: two_bus_def all_plugs_def smap_all_def PciProtocol_def two_devices_def new_bus_def get_option_def Let_def)
  then obtain p where p: "(''b'', p) \<in> set (device_map b')" by auto
  have "(''AD'', 64) \<in> set shared_lines" "(5::nat) < 64" by (simp_all add: shared_lines_def)
  from shared_lines_agree [OF two_reaches run p this] run p show ?thesis by blast
qed

section \<open>Waiting for the bus\<close>

text \<open>A device that requests is never passed over: a step leaves the grant where it is, or it finds the
  grantee without a request and moves the grant round the ring towards the device.\<close>

lemma search_nears:
  assumes "next_grant 16 req g = Done h" and "i < 16" and "g < 16" and "req ! i = BIT_0"
  shows "h = i \<or> turns_until i h < turns_until i g"
proof -
  obtain j where j: "h = (g + Suc j) mod 16" "\<And>l. l < j \<Longrightarrow> req ! ((g + Suc l) mod 16) \<noteq> BIT_0"
    using next_grant_first [OF assms(1)] by blast
  have t: "(g + Suc (turns_until i g)) mod 16 = i" using turns_until [OF assms(2,3)] by simp
  have "j \<le> turns_until i g"
  proof (rule ccontr)
    assume "\<not> j \<le> turns_until i g"
    with j(2) [of "turns_until i g"] t assms(4) show False by simp
  qed
  then consider "j = turns_until i g" | "j < turns_until i g" by linarith
  then show ?thesis
    using j(1) t turns_until_next [OF assms(2,3)] by cases auto
qed

lemma moved_to:
  assumes "move_grant n e b = Done (e', b')" and "smap_ok (device_map b)"
  obtains k where "pci_granted e' = Some k" "ident_of (device_map b) k = n"
proof -
  from assms(1) obtain k p where f: "find (\<lambda>(k, p). unat (plug_ident p) = n) (device_map b) = Some (k, p)"
    and "pci_granted e' = Some k" by (auto simp: move_grant_def split: option.splits)
  with found_ident [OF f assms(2)] that show thesis by blast
qed

lemma arbitrate_nears:
  assumes "arbitrate e b = Done (e', b')" and "smap_ok (device_map b)" and "pci_granted e = Some g"
    and "i < 16" and "ident_of (device_map b) g < 16" and "length (pci_req_n e) = 16" and "pci_req_n e ! i = BIT_0"
  shows "pci_granted e' = Some g \<or> pci_req_n e ! ident_of (device_map b) g \<noteq> BIT_0 \<and>
    (\<exists>h. pci_granted e' = Some h \<and> (ident_of (device_map b) h = i \<or>
      turns_until i (ident_of (device_map b) h) < turns_until i (ident_of (device_map b) g)))"
proof (cases "pci_phase e = 1 \<and> pci_req_n e ! ident_of (device_map b) g \<noteq> BIT_0")
  case False
  have "BIT_0 \<in> set (pci_req_n e)" using assms(4,6,7) by (metis nth_mem)
  then show ?thesis using False assms(1,3) by (auto simp: arbitrate_def Let_def split: if_splits)
next
  case True
  have "BIT_0 \<in> set (pci_req_n e)" using assms(4,6,7) by (metis nth_mem)
  with True assms(1,3) obtain n where n: "next_grant 16 (pci_req_n e) (ident_of (device_map b) g) = Done n"
    and m: "if n = ident_of (device_map b) g then Done (e, b) = Done (e', b') else move_grant n e b = Done (e', b')"
    by (auto simp: arbitrate_def Let_def split: if_splits)
  note nears = search_nears [OF n assms(4,5,7)]
  show ?thesis
  proof (cases "n = ident_of (device_map b) g")
    case False
    with m have "move_grant n e b = Done (e', b')" by simp
    then obtain h where "pci_granted e' = Some h" "ident_of (device_map b) h = n" by (rule moved_to [OF _ assms(2)])
    with nears True show ?thesis by auto
  qed (use m assms(3) in auto)
qed

lemma step_nears:
  assumes "pci_reaches e b" and "pci_run_run e b = Done (e', b')" and "pci_granted e = Some g"
    and "i < 16" and "pci_req_n e' ! i = BIT_0"
  shows "pci_granted e' = Some g \<or> pci_req_n e' ! ident_of (device_map b) g \<noteq> BIT_0 \<and>
    (\<exists>h. pci_granted e' = Some h \<and> (ident_of (device_map b) h = i \<or>
      turns_until i (ident_of (device_map b) h) < turns_until i (ident_of (device_map b) g)))"
proof -
  have inv: "smap_ok (device_map b)" "pci_grant_ok e (device_map b)" "length (pci_req_n e) = 16"
    using reaches_inv [OF assms(1)] by (simp_all add: pci_inv_def)
  have id: "ident_of (device_map b) g < 16" using reaches_live [OF assms(1)] by (intro ident_fits) (simp add: pci_live_def)
  obtain e2 b1 b2 where t: "track_req_n (e\<lparr>pci_phase := next_phase (pci_phase e)\<rparr>) (device_map b) = Done e2"
    and b1: "b1 = advance_time (snd (pci_clock_phase_map e ! next_phase (pci_phase e))) (-12) b"
    and a: "arbitrate e2 b1 = Done (e', b2)" by (rule pci_step_arb [OF assms(2)])
  have dm: "device_map b1 = device_map b" by (simp add: b1 advanced)
  have len: "length (pci_req_n e2) = 16" using t inv(3)
    by (auto simp: track_req_n_def dest!: sample_length split: if_splits)
  have g: "pci_granted e2 = Some g" using track_effect [OF t] assms(3) by simp
  have "pci_grant_ok e2 (device_map b1)" using inv(2) g assms(3) by (simp add: pci_grant_ok_def dm)
  then have "pci_req_n e' = pci_req_n e2" using arbitrate_effect [OF a] inv(1) dm by (intro grant_step_rest(2)) auto
  then show ?thesis using arbitrate_nears [OF a, of g i] inv(1) g assms(4,5) id len by (simp add: dm)
qed

text \<open>The device numbers stay what they are.\<close>

lemma ident_frame: "ident_of dm k = (case map_of (smap_all plug_frame dm) k of None \<Rightarrow> 0 | Some p \<Rightarrow> unat (plug_ident p))"
  by (induction dm) (auto simp: ident_of_def smap_all_def plug_frame_def)

lemma ident_core: "ident_of dm k = (case map_of (smap_all plug_core dm) k of None \<Rightarrow> 0 | Some p \<Rightarrow> unat (plug_ident p))"
  by (induction dm) (auto simp: ident_of_def smap_all_def plug_core_def)

lemma step_idents:
  assumes "pci_reaches e b" and "pci_run_run e b = Done (e', b')"
  shows "ident_of (device_map b') = ident_of (device_map b)"
  using pci_step_effect [OF assms(2)] reaches_inv [OF assms(1)]
  by (simp add: fun_eq_iff ident_frame pci_inv_def same_plugs_def bus_frame_def)

lemma core_idents: "bus_core b' = bus_core b \<Longrightarrow> ident_of (device_map b') = ident_of (device_map b)"
  by (simp add: fun_eq_iff ident_core bus_core_def)

text \<open>A run of the bus in which the device with the number \<open>i\<close> waits: before each step it is not granted, and
  in each step the arbiter works with a low \<open>REQ#\<close> of it.  \<open>n\<close> counts how often the grant moves.\<close>

inductive pci_waits :: "nat \<Rightarrow> pci_protocol \<Rightarrow> 'e bus_state \<Rightarrow> nat \<Rightarrow> pci_protocol \<Rightarrow> 'e bus_state \<Rightarrow> bool" for i e b where
  waits_start: "pci_waits i e b 0 e b"
| waits_between: "pci_waits i e b n e1 b1 \<Longrightarrow> bus_core b2 = bus_core b1 \<Longrightarrow> pci_waits i e b n e1 b2"
| waits_step: "pci_waits i e b n e1 b1 \<Longrightarrow> (\<forall>k. pci_granted e1 = Some k \<longrightarrow> ident_of (device_map b1) k \<noteq> i) \<Longrightarrow>
    pci_run_run e1 b1 = Done (e2, b2) \<Longrightarrow> pci_req_n e2 ! i = BIT_0 \<Longrightarrow>
    pci_waits i e b (if pci_granted e2 = pci_granted e1 then n else Suc n) e2 b2"

lemma waits_reaches: "pci_waits i e b n e' b' \<Longrightarrow> pci_reaches e b \<Longrightarrow> pci_reaches e' b'"
  by (induction rule: pci_waits.induct) (auto intro: pci_between pci_step)

lemma waits_count:
  assumes "pci_waits i e b n e' b'" and "pci_reaches e b" and "pci_granted e = Some g" and "i < 16"
  shows "\<exists>h. pci_granted e' = Some h \<and>
    (if ident_of (device_map b') h = i then n \<le> Suc (turns_until i (ident_of (device_map b) g))
     else n + turns_until i (ident_of (device_map b') h) \<le> turns_until i (ident_of (device_map b) g))"
  using assms(1)
proof (induction rule: pci_waits.induct)
  case (waits_between n e1 b1 b2)
  then show ?case unfolding core_idents [OF waits_between(2)] by blast
next
  case (waits_step n e1 b1 e2 b2)
  then obtain h where h: "pci_granted e1 = Some h" "ident_of (device_map b1) h \<noteq> i"
    "n + turns_until i (ident_of (device_map b1) h) \<le> turns_until i (ident_of (device_map b) g)" by auto
  have r: "pci_reaches e1 b1" using waits_reaches [OF waits_step(1) assms(2)] .
  note id = step_idents [OF r waits_step(3)]
  from step_nears [OF r waits_step(3) h(1) assms(4) waits_step(4)] consider "pci_granted e2 = Some h"
    | h' where "pci_granted e2 = Some h'" "h' \<noteq> h" "ident_of (device_map b1) h' = i \<or>
      turns_until i (ident_of (device_map b1) h') < turns_until i (ident_of (device_map b1) h)" by metis
  then show ?case
  proof cases
    case 1
    then show ?thesis using h by (simp add: id)
  next
    case 2
    then have "n + turns_until i (ident_of (device_map b1) h') < turns_until i (ident_of (device_map b) g) \<or> ident_of (device_map b1) h' = i"
      using h(3) by linarith
    then show ?thesis using 2(1,2) h(1,3) by (auto simp: id)
  qed
qed (use assms(3) in auto)

text \<open>C35: No device that requests is passed over. While a device keeps \<open>REQ#\<close> low and is not granted, the grant moves at most
  15 times, by the position of the two in the ring of 16, and the last of these moves gives it the
  grant. The grant moves only when the arbiter finds that the grantee requests no more: a device that
  holds \<open>REQ#\<close> low keeps the grant, and then the others wait as long as it does.\<close>

theorem granted_in_turn:
  assumes "pci_reaches e b" and "pci_granted e = Some g" and "pci_waits i e b n e' b'" and "i < 16"
    and "ident_of (device_map b) g \<noteq> i"
  shows "\<exists>h. pci_granted e' = Some h \<and> n \<le> (16 + i - ident_of (device_map b) g) mod 16
    \<and> (n = (16 + i - ident_of (device_map b) g) mod 16 \<longrightarrow> ident_of (device_map b') h = i)
    \<and> ret (pci_run_run e' b') (\<lambda>(e2, b2). pci_req_n e2 ! ident_of (device_map b') h = BIT_0 \<longrightarrow> pci_granted e2 = Some h)"
proof -
  have id: "ident_of (device_map b) g < 16" using reaches_live [OF assms(1)] by (intro ident_fits) (simp add: pci_live_def)
  have ring: "(16 + i - ident_of (device_map b) g) mod 16 = Suc (turns_until i (ident_of (device_map b) g))"
    using id assms(4,5) by (auto simp: turns_until_cases mod_if)
  obtain h where h: "pci_granted e' = Some h" "if ident_of (device_map b') h = i then n \<le> Suc (turns_until i (ident_of (device_map b) g))
     else n + turns_until i (ident_of (device_map b') h) \<le> turns_until i (ident_of (device_map b) g)"
    using waits_count [OF assms(3,1,2,4)] by blast
  have r: "pci_reaches e' b'" by (rule waits_reaches [OF assms(3,1)])
  have id': "ident_of (device_map b') h < 16" using reaches_live [OF r] by (intro ident_fits) (simp add: pci_live_def)
  have "pci_granted e2 = Some h" if "pci_run_run e' b' = Done (e2, b2)" "pci_req_n e2 ! ident_of (device_map b') h = BIT_0" for e2 b2
    using step_nears [OF r that(1) h(1) id' that(2)] that(2) by auto
  with h ring show ?thesis by (intro exI [of _ h]) (auto intro!: retI split: if_splits)
qed

text \<open>Two devices ask in turn: the host with number 0, then the device with number 1.\<close>

definition ask :: "string list \<Rightarrow> 'e bus_state \<Rightarrow> 'e bus_state" where
  "ask ks b = b\<lparr>device_map := map (\<lambda>(k, p). (k, put_client ''REQ#'' [bit01 (k \<notin> set ks)] p)) (device_map b)\<rparr>"

definition two_idents :: "'e bus_state \<Rightarrow> bool" where
  "two_idents b \<longleftrightarrow> map (\<lambda>(k, p). (k, unat (plug_ident p))) (device_map b) = [(''a'', 0), (''b'', 1)]
     \<and> (\<forall>(k, p) \<in> set (device_map b). client_fits p)"

lemma ask_core: "bus_core (ask ks b) = bus_core b"
  by (auto simp: ask_def bus_core_def smap_all_def put_client_def plug_core_def)

lemma fits_req: "client_fits (put_client ''REQ#'' v p) = client_fits p"
  by (auto simp: client_fits_def put_client_def shared_lines_def entry_def)

lemma ask_idents: "two_idents (ask ks b) = two_idents b"
  by (auto simp: two_idents_def ask_def fits_req split_beta o_def) (simp_all add: put_client_def)

lemma ask_sample:
  assumes "two_idents b"
  shows "sample_req (device_map (ask ks b)) (replicate 16 BIT_1) =
    Done ((replicate 16 BIT_1)[0 := bit01 (''a'' \<notin> set ks), 1 := bit01 (''b'' \<notin> set ks)])"
proof -
  from assms obtain p q where "device_map b = [(''a'', p), (''b'', q)]" "unat (plug_ident p) = 0" "unat (plug_ident q) = 1"
    by (auto simp: two_idents_def map_eq_Cons_conv)
  then show ?thesis by (simp add: ask_def put_client_def entry_def bit01_def)
qed

lemma idents_after:
  assumes "pci_reaches e b" and "pci_run_run e b = Done (e', b')" and "two_idents b"
  shows "two_idents b'"
proof -
  have s: "same_plugs b b'" using pci_step_effect [OF assms(2)] reaches_inv [OF assms(1)] by (simp add: pci_inv_def)
  have m: "map (\<lambda>(k, p). (k, unat (plug_ident p))) dm = map (\<lambda>(k, p). (k, unat (plug_ident p))) (smap_all plug_frame dm)" for dm
    by (simp add: smap_all_def split_beta plug_frame_def)
  show ?thesis using s assms(3) clients_kept [of "device_map b'" "device_map b"] m [of "device_map b"] m [of "device_map b'"]
    by (simp add: two_idents_def same_plugs_def bus_frame_def)
qed

lemma arbitrate_grants:
  assumes "arbitrate e b = Done (e', b')" and "smap_ok (device_map b)" and "pci_phase e = 1" and "BIT_0 \<in> set (pci_req_n e)"
  shows "\<exists>k. pci_granted e' = Some k \<and> pci_req_n e ! ident_of (device_map b) k = BIT_0"
proof (cases "pci_granted e")
  case None
  with assms obtain r b1 n where r: "lrand b = Done (r, b1)" and n: "next_grant 16 (pci_req_n e) (unat r mod 16) = Done n"
    and m: "move_grant n e b1 = Done (e', b')" by (auto simp: arbitrate_def Let_def)
  have dm: "device_map b1 = device_map b" using lrand_keeps [OF r] by simp
  with assms(2) have "smap_ok (device_map b1)" by simp
  then obtain k where "pci_granted e' = Some k" "ident_of (device_map b1) k = n" by (rule moved_to [OF m])
  with dm show ?thesis using next_grant_first [OF n] by auto
next
  case (Some g)
  show ?thesis
  proof (cases "pci_req_n e ! ident_of (device_map b) g = BIT_0")
    case False
    with assms Some obtain n where n: "next_grant 16 (pci_req_n e) (ident_of (device_map b) g) = Done n"
      and m: "if n = ident_of (device_map b) g then Done (e, b) = Done (e', b') else move_grant n e b = Done (e', b')"
      by (auto simp: arbitrate_def Let_def split: if_splits)
    have req: "pci_req_n e ! n = BIT_0" using next_grant_first [OF n] by auto
    with m False have "move_grant n e b = Done (e', b')" by (auto split: if_splits)
    then obtain k where "pci_granted e' = Some k" "ident_of (device_map b) k = n" by (rule moved_to [OF _ assms(2)])
    with req show ?thesis by auto
  qed (use assms Some in \<open>auto simp: arbitrate_def Let_def split: if_splits\<close>)
qed

lemma one_step:
  assumes "pci_reaches e b" and "two_idents b"
  obtains e' b' where "pci_run_run e b = Done (e', b')" "pci_reaches e' b'" "two_idents b'" "pci_phase e' = next_phase (pci_phase e)"
    "pci_phase e' \<noteq> 0 \<Longrightarrow> pci_req_n e' = pci_req_n e"
    "pci_phase e' = 0 \<Longrightarrow> sample_req (device_map b) (replicate 16 BIT_1) = Done (pci_req_n e')"
    "pci_phase e' \<noteq> 1 \<Longrightarrow> pci_granted e' = pci_granted e"
    "pci_phase e' = 1 \<Longrightarrow> BIT_0 \<in> set (pci_req_n e') \<Longrightarrow>
      \<exists>k. pci_granted e' = Some k \<and> pci_req_n e' ! ident_of (device_map b) k = BIT_0"
proof -
  have inv: "smap_ok (device_map b)" "pci_grant_ok e (device_map b)" "length (pci_req_n e) = 16"
    using reaches_inv [OF assms(1)] by (simp_all add: pci_inv_def)
  obtain e' b' where run: "pci_run_run e b = Done (e', b')" "pci_reaches e' b'"
    using step_total [OF reaches_inv [OF assms(1)] reaches_live [OF assms(1)]] pci_step [OF assms(1)] assms(2)
    by (auto simp: two_idents_def)
  obtain e2 b1 b2 where t: "track_req_n (e\<lparr>pci_phase := next_phase (pci_phase e)\<rparr>) (device_map b) = Done e2"
    and b1: "b1 = advance_time (snd (pci_clock_phase_map e ! next_phase (pci_phase e))) (-12) b"
    and a: "arbitrate e2 b1 = Done (e', b2)" by (rule pci_step_arb [OF run(1)])
  have dm: "device_map b1 = device_map b" by (simp add: b1 advanced)
  have g2: "pci_granted e2 = pci_granted e" "pci_phase e2 = next_phase (pci_phase e)" using track_effect [OF t] by simp_all
  have "pci_grant_ok e2 (device_map b1)" using inv(2) g2 by (simp add: pci_grant_ok_def dm)
  then have g: "grant_step e2 b1 e' b2" using arbitrate_effect [OF a] inv(1) dm by simp
  note rest = grant_step_rest [OF g]
  show thesis
  proof (rule that [OF run])
    show "two_idents b'" by (rule idents_after [OF assms(1) run(1) assms(2)])
    show "pci_phase e' = next_phase (pci_phase e)" using rest g2 by simp
    show "pci_req_n e' = pci_req_n e" if "pci_phase e' \<noteq> 0" using track_effect [OF t] rest g2 that by auto
    show "sample_req (device_map b) (replicate 16 BIT_1) = Done (pci_req_n e')" if "pci_phase e' = 0"
      using t rest g2 that by (auto simp: track_req_n_def)
    show "pci_granted e' = pci_granted e" if "pci_phase e' \<noteq> 1" using a rest g2 that by (simp add: arbitrate_def Let_def)
    show "\<exists>k. pci_granted e' = Some k \<and> pci_req_n e' ! ident_of (device_map b) k = BIT_0"
      if "pci_phase e' = 1" "BIT_0 \<in> set (pci_req_n e')"
      using arbitrate_grants [OF a] inv(1) rest dm that by simp
  qed
qed

lemma plain_step:
  assumes "pci_reaches e (b :: 'e bus_state)" and "two_idents b" and "next_phase (pci_phase e) \<notin> {0, 1}"
  shows "\<exists>e' (b' :: 'e bus_state). pci_reaches e' b' \<and> two_idents b' \<and> pci_phase e' = next_phase (pci_phase e) \<and> pci_granted e' = pci_granted e"
  by (rule one_step [OF assms(1,2)]) (use assms(3) in auto)

lemma sample_step:
  assumes "pci_reaches e b" and "two_idents b" and "next_phase (pci_phase e) = 0"
  shows "\<exists>e' b'. pci_run_run e b = Done (e', b') \<and> pci_reaches e' b' \<and> two_idents b' \<and> pci_phase e' = 0
    \<and> pci_granted e' = pci_granted e \<and> sample_req (device_map b) (replicate 16 BIT_1) = Done (pci_req_n e')"
  by (rule one_step [OF assms(1,2)]) (use assms(3) in auto)

lemma grant_step1:
  assumes "pci_reaches e b" and "two_idents b" and "next_phase (pci_phase e) = 1" and "BIT_0 \<in> set (pci_req_n e)"
  shows "\<exists>e' b' k. pci_run_run e b = Done (e', b') \<and> pci_reaches e' b' \<and> two_idents b' \<and> pci_phase e' = 1
    \<and> pci_req_n e' = pci_req_n e \<and> pci_granted e' = Some k \<and> pci_req_n e ! ident_of (device_map b) k = BIT_0"
  by (rule one_step [OF assms(1,2)]) (use assms(3,4) in auto)

lemma same_idents: "two_idents b \<Longrightarrow> two_idents b' \<Longrightarrow> ident_of (device_map b) = ident_of (device_map b')"
proof -
  have "ident_of dm k = (case map_of (map (\<lambda>(k, p). (k, unat (plug_ident p))) dm) k of None \<Rightarrow> 0 | Some i \<Rightarrow> i)" for dm k
    by (induction dm) (auto simp: ident_of_def)
  then show "two_idents b \<Longrightarrow> two_idents b' \<Longrightarrow> ?thesis" by (simp add: fun_eq_iff two_idents_def)
qed

text \<open>One clock: the devices in \<open>ks\<close> ask at its end, and one of them gets the grant.\<close>

lemma ask_round:
  assumes "pci_reaches e (b :: 'e bus_state)" and "two_idents b" and "pci_phase e = 1" and "ks \<noteq> []" and "set ks \<subseteq> {''a'', ''b''}"
    and req: "req = (replicate 16 BIT_1)[0 := bit01 (''a'' \<notin> set ks), 1 := bit01 (''b'' \<notin> set ks)]"
  obtains e3 e4 e5 k and b3 b4 b5 :: "'e bus_state" where "pci_reaches e3 b3" "two_idents b3" "pci_granted e3 = pci_granted e"
    "pci_run_run e3 b3 = Done (e4, b4)" "pci_run_run e4 b4 = Done (e5, b5)" "pci_req_n e4 = req" "pci_req_n e5 = req"
    "pci_granted e4 = pci_granted e" "pci_granted e5 = Some k" "req ! ident_of (device_map b5) k = BIT_0"
    "pci_reaches e5 b5" "two_idents b5" "pci_phase e5 = 1"
proof -
  obtain e1 and b1 :: "'e bus_state" where s1: "pci_reaches e1 b1" "two_idents b1" "pci_phase e1 = 2" "pci_granted e1 = pci_granted e"
    using plain_step [OF assms(1,2)] assms(3) by (auto simp: next_phase_def)
  obtain e2 and b2 :: "'e bus_state" where s2: "pci_reaches e2 b2" "two_idents b2" "pci_phase e2 = 3" "pci_granted e2 = pci_granted e"
    using plain_step [OF s1(1,2)] s1(3,4) by (auto simp: next_phase_def)
  have r3: "pci_reaches e2 (ask ks b2)" "two_idents (ask ks b2)" using pci_between [OF s2(1) ask_core] s2(2) by (simp_all add: ask_idents)
  obtain e4 b4 where s4: "pci_run_run e2 (ask ks b2) = Done (e4, b4)" "pci_reaches e4 b4" "two_idents b4" "pci_phase e4 = 0"
    "pci_granted e4 = pci_granted e" "pci_req_n e4 = req"
    using sample_step [OF r3] s2(3,4) ask_sample [OF s2(2), of ks] req by (auto simp: next_phase_def)
  have low: "BIT_0 \<in> set req"
  proof -
    have "req ! 0 = BIT_0 \<or> req ! 1 = BIT_0" using assms(4,5) by (cases ks) (auto simp: req bit01_def)
    moreover have "length req = 16" by (simp add: req)
    ultimately show ?thesis by (metis nth_mem zero_less_numeral one_less_numeral_iff semiring_norm(76))
  qed
  obtain e5 b5 k where s5: "pci_run_run e4 b4 = Done (e5, b5)" "pci_reaches e5 b5" "two_idents b5" "pci_phase e5 = 1"
    "pci_req_n e5 = req" "pci_granted e5 = Some k" "req ! ident_of (device_map b4) k = BIT_0"
    using grant_step1 [OF s4(2,3)] s4(4,6) low by (auto simp: next_phase_def)
  show thesis
    using s5(7) step_idents [OF s4(2) s5(1)]
    by (intro that [OF r3 s2(4) s4(1) s5(1) s4(6) s5(5) s4(5) s5(6) _ s5(2,3,4)]) simp
qed

lemma init_ident: "plug_ident (pci_init_plug cap p) = plug_ident p"
proof -
  have "plug_ident (put_sends kvs q) = plug_ident q" for kvs q
    by (induction kvs arbitrary: q) (auto simp: put_sends_def)
  moreover have "plug_ident (put_clients kvs q) = plug_ident q" for kvs q
    by (induction kvs arbitrary: q) (auto simp: put_clients_def put_client_def)
  ultimately show ?thesis by (simp add: pci_init_plug_def)
qed

lemma two_start: "two_idents two_bus" "next_phase (pci_phase two_engine) = 1"
proof -
  have "map (\<lambda>(k, p). (k, unat (plug_ident p))) (device_map two_bus) = [(''a'', 0), (''b'', 1)]"
    by (simp add: two_bus_def all_plugs_def smap_all_def PciProtocol_def two_devices_def new_bus_def get_option_def Let_def
        init_ident new_plug_def)
  with two_fit show "two_idents two_bus" by (simp add: two_idents_def)
  show "next_phase (pci_phase two_engine) = 1"
    by (simp add: next_phase_def two_engine_def PciProtocol_def split_beta Let_def)
qed

theorem granted_in_turn_witness:
  "\<exists>e (b :: unit bus_state) e' b' g h. pci_reaches e b \<and> pci_granted e = Some g \<and> ident_of (device_map b) g = 0
    \<and> pci_waits 1 e b 1 e' b' \<and> pci_granted e' = Some h \<and> ident_of (device_map b') h = 1
    \<and> ret (pci_run_run e' b') (\<lambda>(e2, b2). pci_req_n e2 ! 1 = BIT_0 \<longrightarrow> pci_granted e2 = Some h)"
proof -
  obtain ea and ba :: "unit bus_state" where a: "pci_reaches ea ba" "two_idents ba" "pci_phase ea = 1"
    using one_step [OF two_reaches two_start(1)] two_start(2) by metis
  obtain eb g and bb :: "unit bus_state" where g: "pci_reaches eb bb" "two_idents bb" "pci_phase eb = 1" "pci_granted eb = Some g"
    "(replicate 16 BIT_1)[0 := BIT_0, 1 := BIT_1] ! ident_of (device_map bb) g = BIT_0"
    by (rule ask_round [OF a, of "[''a'']"]) (simp_all add: bit01_def)
  obtain e3 e4 e5 h and b3 b4 b5 :: "unit bus_state" where h: "pci_reaches e3 b3" "two_idents b3" "pci_granted e3 = pci_granted eb"
    "pci_run_run e3 b3 = Done (e4, b4)" "pci_run_run e4 b4 = Done (e5, b5)" "pci_req_n e4 = (replicate 16 BIT_1)[0 := BIT_1, 1 := BIT_0]"
    "pci_req_n e5 = (replicate 16 BIT_1)[0 := BIT_1, 1 := BIT_0]" "pci_granted e4 = pci_granted eb" "pci_granted e5 = Some h"
    "(replicate 16 BIT_1)[0 := BIT_1, 1 := BIT_0] ! ident_of (device_map b5) h = BIT_0"
    by (rule ask_round [OF g(1-3), of "[''b'']"]) (simp_all add: bit01_def)
  have ids: "ident_of (device_map b4) = ident_of (device_map b3)" "ident_of (device_map b5) = ident_of (device_map b4)"
    using step_idents [OF h(1,4)] step_idents [OF pci_step [OF h(1,4)] h(5)] by simp_all
  have idx: "k = 0" if "(replicate 16 BIT_1)[0 := BIT_0, 1 := BIT_1] ! k = BIT_0" "k < 16" for k :: nat
    using that by (auto simp: nth_list_update split: if_splits)
  have idx1: "k = 1" if "(replicate 16 BIT_1)[0 := BIT_1, 1 := BIT_0] ! k = BIT_0" "k < 16" for k :: nat
    using that by (auto simp: nth_list_update split: if_splits)
  have small: "ident_of (device_map b) k < 16" if "pci_reaches e (b :: unit bus_state)" for e b k
    using reaches_live [OF that] by (intro ident_fits) (simp add: pci_live_def)
  have r5: "pci_reaches e5 b5" by (rule pci_step [OF pci_step [OF h(1,4)] h(5)])
  have g0: "ident_of (device_map b3) g = 0"
    using idx [OF g(5) small [OF g(1)]] same_idents [OF g(2) h(2)] by simp
  have h1: "ident_of (device_map b5) h = 1" using idx1 [OF h(10) small [OF r5]] .
  have r3g: "pci_granted e3 = Some g" using h(3) g(4) by simp
  have "h \<noteq> g" using g0 h1 ids by auto
  have low: "pci_req_n e4 ! 1 = BIT_0" "pci_req_n e5 ! 1 = BIT_0" using h(6,7) by simp_all
  have far: "\<forall>k. pci_granted e3 = Some k \<longrightarrow> ident_of (device_map b3) k \<noteq> 1"
    "\<forall>k. pci_granted e4 = Some k \<longrightarrow> ident_of (device_map b4) k \<noteq> 1" using h(3,8) g(4) g0 ids by auto
  have "pci_waits 1 e3 b3 0 e4 b4" using waits_step [OF waits_start far(1) h(4) low(1)] h(3,8) by simp
  from waits_step [OF this far(2) h(5) low(2)] have w: "pci_waits 1 e3 b3 1 e5 b5"
    using h(3,8,9) g(4) \<open>h \<noteq> g\<close> by simp
  have "ident_of (device_map b3) g \<noteq> 1" "(1::nat) < 16" using g0 by simp_all
  note turn = granted_in_turn [OF h(1) r3g w this(2,1)]
  from turn obtain h' where h': "pci_granted e5 = Some h'" "ret (pci_run_run e5 b5)
    (\<lambda>(e2, b2). pci_req_n e2 ! ident_of (device_map b5) h' = BIT_0 \<longrightarrow> pci_granted e2 = Some h')" by (elim exE conjE)
  have "h' = h" using h'(1) h(9) by simp
  with h'(2) have "ret (pci_run_run e5 b5) (\<lambda>(e2, b2). pci_req_n e2 ! 1 = BIT_0 \<longrightarrow> pci_granted e2 = Some h)"
    by (simp only: h1)
  with h(1,9) r3g g0 w h1 show ?thesis by (intro exI conjI)
qed

end
