(* ===== verification/Sim_Server_Protocols.thy ===== *)
theory Sim_Server_Protocols
  imports Sim_Server_PCI_Bus
begin

text \<open>
  The four protocols behind the virtual functions of server/protocol.h: which one a bus of a given
  protocol name gets, that each leaves to the server what is the server's, and with that what the
  server's loop guarantees for the busses of this program.
\<close>

section \<open>Dispatch\<close>

datatype protocol_engine_state =
  Proto_pci pci_protocol | Proto_p2p point_to_point | Proto_axi4 axi4_protocol | Proto_pcie pcie_tlp_protocol
  | No_protocol

type_synonym sbus = "protocol_engine_state bus_state"

definition with_engine :: "('p \<Rightarrow> protocol_engine_state) \<Rightarrow> ('p \<times> sbus) outcome \<Rightarrow> sbus outcome" where
  "with_engine c m = obind m (\<lambda>(e, b). Done (b\<lparr>engine := c e\<rparr>))"

text \<open>The constructor of the protocol named in the configuration; an unknown name leaves a null pointer,
  which is followed when the bus is assembled.\<close>

definition new_protocol :: "string \<Rightarrow> sbus \<Rightarrow> sbus outcome" where
  "new_protocol nm b =
     (if nm = ''pci'' then with_engine Proto_pci (Done (PciProtocol b))
      else if nm = ''point-to-point'' then with_engine Proto_p2p (PointToPoint b)
      else if nm = ''AXI4'' then with_engine Proto_axi4 (AXI4Protocol b)
      else if nm = ''pcie-tlp'' then with_engine Proto_pcie (PCIeTLP b)
      else Done (b\<lparr>engine := No_protocol\<rparr>))"

definition proto_wrap_up :: "sbus \<Rightarrow> (bool \<times> sbus) outcome" where
  "proto_wrap_up b =
     (case engine b of
        Proto_axi4 e \<Rightarrow> (let (e', b') = ax_wrap_up e b in Done (True, b'\<lparr>engine := Proto_axi4 e'\<rparr>))
      | No_protocol \<Rightarrow> Stop Undefined
      | _ \<Rightarrow> Done (True, b))"

definition proto_run_init :: "sbus \<Rightarrow> sbus outcome" where
  "proto_run_init b =
     (case engine b of
        Proto_pci e \<Rightarrow> with_engine Proto_pci (pci_run_init e b)
      | Proto_p2p e \<Rightarrow> with_engine Proto_p2p (pp_run_init e b)
      | Proto_axi4 e \<Rightarrow> with_engine Proto_axi4 (ax_run_init e b)
      | Proto_pcie e \<Rightarrow> with_engine Proto_pcie (pt_run_init e b)
      | No_protocol \<Rightarrow> Stop Undefined)"

definition proto_run_run :: "sbus \<Rightarrow> sbus outcome" where
  "proto_run_run b =
     (case engine b of
        Proto_pci e \<Rightarrow> with_engine Proto_pci (pci_run_run e b)
      | Proto_p2p e \<Rightarrow> with_engine Proto_p2p (pp_run_run e b)
      | Proto_axi4 e \<Rightarrow> with_engine Proto_axi4 (ax_run_run e b)
      | Proto_pcie e \<Rightarrow> with_engine Proto_pcie (pt_run_run e b)
      | No_protocol \<Rightarrow> Stop Undefined)"

definition simbus_protocols :: "protocol_engine_state vtable" where
  "simbus_protocols = \<lparr>vt_wrap_up = proto_wrap_up, vt_run_init = proto_run_init, vt_run_run = proto_run_run\<rparr>"

section \<open>What the protocols leave alone\<close>

lemma frame_upd [simp]:
  "bus_frame (b\<lparr>engine := e\<rparr>) = bus_frame b" "bus_frame (b\<lparr>cur_time := t\<rparr>) = bus_frame b"
  "bus_frame (b\<lparr>options := os\<rparr>) = bus_frame b" "bus_frame (advance_time d x b) = bus_frame b"
  by (simp_all add: bus_frame_def advance_time_def)

lemma frame_option: "bus_frame (snd (get_option k b)) = bus_frame b"
  by (simp add: get_option_def split: option.splits)

lemma frame_put_sends: "plug_frame (put_sends kvs p) = plug_frame p"
  by (induction kvs arbitrary: p) (auto simp: put_sends_def)

lemma frame_put_clients: "plug_frame (put_clients kvs p) = plug_frame p"
  by (induction kvs arbitrary: p) (auto simp: put_clients_def put_client_def plug_frame_def)

lemma frame_at_plug: "(\<And>p. plug_frame (f p) = plug_frame p) \<Longrightarrow> bus_frame (at_plug k f b) = bus_frame b"
  by (simp add: bus_frame_def at_plug_def smap_all_at)

lemma frame_all_plugs: "(\<And>p. plug_frame (f p) = plug_frame p) \<Longrightarrow> bus_frame (all_plugs f b) = bus_frame b"
  by (simp add: bus_frame_def all_plugs_def smap_all_all o_def)

lemma frame_ok: "bus_frame b' = bus_frame b \<Longrightarrow> smap_ok (device_map b) \<Longrightarrow> smap_ok (device_map b')"
  by (auto simp: bus_frame_def dest!: frame_flags(1))

lemma frame_drive:
  "plug_do k (drive0 nm x) b = Done b' \<Longrightarrow> smap_ok (device_map b) \<Longrightarrow> bus_frame b' = bus_frame b \<and> smap_ok (device_map b')"
  by (auto dest: plug_do_sends(2) plug_do_sends(3))

text \<open>Copies from one end to the other.\<close>

lemma frame_route:
  assumes "run_route src dst sig b = Done b'"
  shows "bus_frame b' = bus_frame b"
  using assms by (cases sig) (auto simp: run_route_def frame_at_plug split: option.splits)

lemma frame_routes: "run_routes m s rs b = Done b' \<Longrightarrow> bus_frame b' = bus_frame b"
proof (induction m s rs b rule: run_routes.induct)
  case (2 m s down sig rs b)
  from 2(2) obtain b1 where b1: "(if down then run_route m s sig b else run_route s m sig b) = Done b1"
    and rest: "run_routes m s rs b1 = Done b'" by auto
  have "bus_frame b1 = bus_frame b" using b1 by (auto split: if_splits dest: frame_route)
  with 2(1) [OF b1 rest] show ?case by simp
qed simp

lemma pp_frame:
  "pp_run_init e b = Done (e', b') \<Longrightarrow> bus_frame b' = bus_frame b"
  "smap_ok (device_map b) \<Longrightarrow> pp_run_run e b = Done (e', b') \<Longrightarrow> bus_frame b' = bus_frame b"
proof -
  show "pp_run_init e b = Done (e', b') \<Longrightarrow> bus_frame b' = bus_frame b"
    by (auto simp: pp_run_init_def frame_at_plug frame_put_sends)
  show "smap_ok (device_map b) \<Longrightarrow> pp_run_run e b = Done (e', b') \<Longrightarrow> bus_frame b' = bus_frame b"
  proof -
    assume ok: "smap_ok (device_map b)" and run: "pp_run_run e b = Done (e', b')"
    then obtain b2 b3 where b2: "plug_do (pp_master e) (drive0 ''CLOCK'' (clock_level (next_phase (pp_phase e))))
          (advance_time (pp_clock_phase_map e ! next_phase (pp_phase e)) (-12) b) = Done b2"
      and b3: "plug_do (pp_slave e) (drive0 ''CLOCK'' (pp_slave_clock (pp_master_clock_mode e)
          (clock_level (next_phase (pp_phase e))))) b2 = Done b3"
      by (auto simp: pp_run_run_def Let_def)
    then have "\<exists>v w. b' = at_plug (pp_master e) (put_send ''DATA_I'' v) (at_plug (pp_slave e) (put_send ''DATA_O'' w) b3)"
      using run by (cases "map_of (device_map b3) (pp_master e)"; cases "map_of (device_map b3) (pp_slave e)")
        (auto simp: pp_run_run_def Let_def)
    then have "bus_frame b' = bus_frame b3" by (auto simp: frame_at_plug)
    moreover have f2: "bus_frame b2 = bus_frame b" "smap_ok (device_map b2)" using frame_drive [OF b2] ok by (simp_all add: advanced)
    ultimately show "bus_frame b' = bus_frame b" using frame_drive [OF b3] by simp
  qed
qed

lemma ax_frame:
  "bus_frame (snd (ax_wrap_up e b)) = bus_frame b"
  "ax_run_init e b = Done (e', b') \<Longrightarrow> bus_frame b' = bus_frame b"
  "smap_ok (device_map b) \<Longrightarrow> ax_run_run e b = Done (e', b') \<Longrightarrow> bus_frame b' = bus_frame b"
proof -
  show "bus_frame (snd (ax_wrap_up e b)) = bus_frame b"
    by (simp add: ax_wrap_up_def Let_def split_beta frame_option)
  show "ax_run_init e b = Done (e', b') \<Longrightarrow> bus_frame b' = bus_frame b"
    by (auto simp: ax_run_init_def frame_at_plug frame_put_sends)
  show "smap_ok (device_map b) \<Longrightarrow> ax_run_run e b = Done (e', b') \<Longrightarrow> bus_frame b' = bus_frame b"
    by (auto simp: ax_run_run_def Let_def advanced dest!: frame_drive frame_routes)
qed

lemma pt_frame:
  "pt_run_init e b = Done (e', b') \<Longrightarrow> bus_frame b' = bus_frame b"
  "smap_ok (device_map b) \<Longrightarrow> pt_run_run e b = Done (e', b') \<Longrightarrow> bus_frame b' = bus_frame b"
proof -
  show "pt_run_init e b = Done (e', b') \<Longrightarrow> bus_frame b' = bus_frame b"
    by (auto simp: pt_run_init_def frame_at_plug frame_put_sends)
  show "smap_ok (device_map b) \<Longrightarrow> pt_run_run e b = Done (e', b') \<Longrightarrow> bus_frame b' = bus_frame b"
    by (auto simp: pt_run_run_def Let_def advanced dest!: frame_drive frame_routes)
qed

lemma recall_frame: "recall_grant e b = Done (e', b') \<Longrightarrow> smap_ok (device_map b) \<Longrightarrow> bus_frame b' = bus_frame b"
  by (auto simp: recall_grant_def split: option.splits if_splits dest!: frame_drive dest: lrand_keeps)

lemma move_frame: "move_grant n e b = Done (e', b') \<Longrightarrow> smap_ok (device_map b) \<Longrightarrow> bus_frame b' = bus_frame b"
  by (auto simp: move_grant_def split: option.splits dest!: frame_drive)

lemma arbitrate_frame: "arbitrate e b = Done (e', b') \<Longrightarrow> smap_ok (device_map b) \<Longrightarrow> bus_frame b' = bus_frame b"
  by (auto simp: arbitrate_def Let_def split: option.splits if_splits dest: recall_frame move_frame)
     (metis frame_ok lrand_keeps move_frame)

lemma pci_frame:
  "pci_run_init e b = Done (e', b') \<Longrightarrow> bus_frame b' = bus_frame b"
  "smap_ok (device_map b) \<Longrightarrow> pci_run_run e b = Done (e', b') \<Longrightarrow> bus_frame b' = bus_frame b"
proof -
  show "pci_run_init e b = Done (e', b') \<Longrightarrow> bus_frame b' = bus_frame b"
    by (auto simp: pci_run_init_def frame_all_plugs pci_init_plug_def frame_put_sends frame_put_clients)
  assume ok: "smap_ok (device_map b)" and "pci_run_run e b = Done (e', b')"
  then obtain e2 b1 b2 dm3 dm4 dm5 clk r where b1: "b1 = advance_time (snd (pci_clock_phase_map e ! next_phase (pci_phase e))) (-12) b"
    and a: "arbitrate e2 b1 = Done (e', b2)" and d: "route_interrupts (device_map b2) = Done dm3"
      "blend_bi_signals dm3 = Done dm4" "each_plug (drive_outputs clk r) dm4 = Done dm5" and b': "b' = b2\<lparr>device_map := dm5\<rparr>"
    using pci_step_arb by metis
  have "bus_frame b2 = bus_frame b" using arbitrate_frame [OF a] ok by (simp add: b1 advanced)
  moreover have "bus_frame b' = bus_frame b2"
    using interrupts_keep(1) [OF d(1)] blend_keeps(1) [OF d(2)] outputs_keep(1) [OF d(3)] by (simp add: b' bus_frame_def)
  ultimately show "bus_frame b' = bus_frame b" by simp
qed

interpretation simbus: protocol_engine simbus_protocols
proof unfold_locales
  fix b b' :: sbus and f
  show "vt_wrap_up simbus_protocols b = Done (f, b') \<Longrightarrow> bus_frame b' = bus_frame b"
    by (auto simp: simbus_protocols_def proto_wrap_up_def ax_frame(1) split_beta Let_def split: protocol_engine_state.splits)
  show "vt_run_init simbus_protocols b = Done b' \<Longrightarrow> bus_frame b' = bus_frame b"
    by (auto simp: simbus_protocols_def proto_run_init_def with_engine_def split: protocol_engine_state.splits
        dest: pci_frame(1) pp_frame(1) ax_frame(2) pt_frame(1))
  assume "smap_ok (device_map b)"
  then show "vt_run_run simbus_protocols b = Done b' \<Longrightarrow> bus_frame b' = bus_frame b"
    by (auto simp: simbus_protocols_def proto_run_run_def with_engine_def split: protocol_engine_state.splits
        dest: pci_frame(2) pp_frame(2) ax_frame(3) pt_frame(2))
qed

section \<open>Links deliver\<close>

definition route_done :: "bus_device_plug \<Rightarrow> bus_device_plug \<Rightarrow> bus_device_plug \<Rightarrow> bus_device_plug \<Rightarrow> bool \<times> string \<times> nat option \<Rightarrow> bool" where
  "route_done mp sp mp' sp' = (\<lambda>(down, nm, bits).
     (if down then out_sig sp' nm = in_sig mp nm \<and> (\<forall>n. bits = Some n \<longrightarrow> length (in_sig mp nm) = n)
      else out_sig mp' nm = in_sig sp nm \<and> (\<forall>n. bits = Some n \<longrightarrow> length (in_sig sp nm) = n)))"

lemma at_plug_map_of: "map_of (device_map (at_plug k f b)) k' = (if k' = k then map_option f (map_of (device_map b) k) else map_of (device_map b) k')"
  by (simp add: at_plug_def map_of_at)

lemma routes_deliver:
  assumes "run_routes m s rs b = Done b'" and "map_of (device_map b) m = Some mp" and "map_of (device_map b) s = Some sp"
    and "m \<noteq> s" and "distinct (map (\<lambda>(d, nm, n). (d, nm)) rs)"
  shows "\<exists>mp' sp'. map_of (device_map b') m = Some mp' \<and> map_of (device_map b') s = Some sp'
    \<and> client_signals mp' = client_signals mp \<and> client_signals sp' = client_signals sp
    \<and> (\<forall>r \<in> set rs. route_done mp sp mp' sp' r)
    \<and> (\<forall>nm. (True, nm) \<notin> (\<lambda>(d, nm, n). (d, nm)) ` set rs \<longrightarrow> out_sig sp' nm = out_sig sp nm)
    \<and> (\<forall>nm. (False, nm) \<notin> (\<lambda>(d, nm, n). (d, nm)) ` set rs \<longrightarrow> out_sig mp' nm = out_sig mp nm)
    \<and> cur_time b' = cur_time b"
  using assms
proof (induction m s rs b arbitrary: mp sp rule: run_routes.induct)
  case (2 m s down sig rs b)
  obtain nm bits where sig: "sig = (nm, bits)" by (cases sig)
  let ?b1 = "if down then at_plug s (put_send nm (in_sig mp nm)) b else at_plug m (put_send nm (in_sig sp nm)) b"
  let ?mp1 = "if down then mp else put_send nm (in_sig sp nm) mp" and ?sp1 = "if down then put_send nm (in_sig mp nm) sp else sp"
  from 2(2-4) sig have r: "(if down then run_route m s sig b else run_route s m sig b) = Done ?b1" and rest: "run_routes m s rs ?b1 = Done b'"
    and bits: "\<forall>n. bits = Some n \<longrightarrow> length (if down then in_sig mp nm else in_sig sp nm) = n"
    by (auto simp: run_route_def split: if_splits option.splits)
  have p1: "map_of (device_map ?b1) m = Some ?mp1" "map_of (device_map ?b1) s = Some ?sp1"
    using 2(3-5) by (simp_all add: at_plug_map_of)
  have d: "distinct (map (\<lambda>(d, nm, n). (d, nm)) rs)" and new: "(down, nm) \<notin> (\<lambda>(d, nm, n). (d, nm)) ` set rs" using 2(6) by (simp_all add: sig)
  from 2(1) [OF r rest p1 2(5) d] obtain mp' sp' where e: "map_of (device_map b') m = Some mp'" "map_of (device_map b') s = Some sp'"
    "client_signals mp' = client_signals ?mp1" "client_signals sp' = client_signals ?sp1" "\<forall>r \<in> set rs. route_done ?mp1 ?sp1 mp' sp' r"
    "\<And>x. (True, x) \<notin> (\<lambda>(d, nm, n). (d, nm)) ` set rs \<Longrightarrow> out_sig sp' x = out_sig ?sp1 x"
    "\<And>x. (False, x) \<notin> (\<lambda>(d, nm, n). (d, nm)) ` set rs \<Longrightarrow> out_sig mp' x = out_sig ?mp1 x" "cur_time b' = cur_time ?b1"
    by blast
  have same: "route_done ?mp1 ?sp1 mp' sp' = route_done mp sp mp' sp'" by (simp add: route_done_def)
  have "route_done mp sp mp' sp' (down, sig)" using e(6,7) [of nm] new bits by (cases down) (simp_all add: route_done_def sig)
  with e same show ?case by (intro exI [of _ mp'] exI [of _ sp']) (auto simp: sig at_plug_def split: if_splits)
qed auto

definition width_fits :: "bus_device_plug \<Rightarrow> bus_device_plug \<Rightarrow> bool \<times> string \<times> nat option \<Rightarrow> bool" where
  "width_fits mp sp = (\<lambda>(down, nm, bits). \<forall>n. bits = Some n \<longrightarrow> length (in_sig (if down then mp else sp) nm) = n)"

lemma routes_return:
  assumes "map_of (device_map b) m = Some mp" and "map_of (device_map b) s = Some sp" and "m \<noteq> s"
  shows "(\<forall>r \<in> set rs. width_fits mp sp r) \<longrightarrow> (\<exists>b'. run_routes m s rs b = Done b')"
    and "\<not> (\<forall>r \<in> set rs. width_fits mp sp r) \<longrightarrow> run_routes m s rs b = Stop Assert_failed"
proof -
  have "if \<forall>r \<in> set rs. width_fits mp sp r then \<exists>b'. run_routes m s rs b = Done b' else run_routes m s rs b = Stop Assert_failed"
    using assms
  proof (induction rs arbitrary: b mp sp)
    case (Cons r rs)
    obtain down nm bits where r: "r = (down, nm, bits)" by (cases r)
    let ?b1 = "if down then at_plug s (put_send nm (in_sig mp nm)) b else at_plug m (put_send nm (in_sig sp nm)) b"
    let ?mp1 = "if down then mp else put_send nm (in_sig sp nm) mp" and ?sp1 = "if down then put_send nm (in_sig mp nm) sp else sp"
    have step: "(if down then run_route m s (nm, bits) b else run_route s m (nm, bits) b) =
        (if width_fits mp sp r then Done ?b1 else Stop Assert_failed)"
      using Cons.prems by (auto simp: run_route_def width_fits_def r c_assert_def split: option.splits)
    have "map_of (device_map ?b1) m = Some ?mp1" "map_of (device_map ?b1) s = Some ?sp1" using Cons.prems by (simp_all add: at_plug_map_of)
    note ih = Cons.IH [OF this Cons.prems(3)]
    have "width_fits ?mp1 ?sp1 = width_fits mp sp" by (auto simp: width_fits_def fun_eq_iff)
    then show ?case using ih step by (auto simp: r)
  qed simp
  then show "(\<forall>r \<in> set rs. width_fits mp sp r) \<longrightarrow> (\<exists>b'. run_routes m s rs b = Done b')"
    "\<not> (\<forall>r \<in> set rs. width_fits mp sp r) \<longrightarrow> run_routes m s rs b = Stop Assert_failed" by (simp_all split: if_splits)
qed

lemma drive_plug:
  assumes "map_of (device_map b) k = Some p" and "out_sig p nm \<noteq> []"
  shows "plug_do k (drive0 nm x) b = Done (at_plug k (\<lambda>_. put_send nm (x # tl (out_sig p nm)) p) b)"
  using assms by (cases "out_sig p nm") (auto simp: plug_do_def drive0_def)

lemma ax_routes_distinct: "distinct (map (\<lambda>(d, nm, n). (d, nm)) (ax_routes e))"
  by (simp add: ax_routes_def Let_def)

lemma ax_routes_clock: "(d, ''ACLK'') \<notin> (\<lambda>(d, nm, n). (d, nm)) ` set (ax_routes e)"
  by (auto simp: ax_routes_def Let_def split: if_splits)

text \<open>A step of an AXI4 bus in terms of its routes.\<close>

lemma axi4_routes_deliver:
  assumes "map_of (device_map b) (ax_master e) = Some mp" and "map_of (device_map b) (ax_slave e) = Some sp"
    and "ax_master e \<noteq> ax_slave e" and "out_sig mp ''ACLK'' \<noteq> []" and "out_sig sp ''ACLK'' \<noteq> []"
  shows "if \<forall>r \<in> set (ax_routes e). width_fits mp sp r
    then \<exists>b' mp' sp'. ax_run_run e b = Done (e\<lparr>ax_phase := next_phase (ax_phase e)\<rparr>, b')
      \<and> map_of (device_map b') (ax_master e) = Some mp' \<and> map_of (device_map b') (ax_slave e) = Some sp'
      \<and> (\<forall>r \<in> set (ax_routes e). route_done mp sp mp' sp' r)
      \<and> (\<forall>nm. nm \<noteq> ''ACLK'' \<and> (False, nm) \<notin> (\<lambda>(d, nm, n). (d, nm)) ` set (ax_routes e) \<longrightarrow> out_sig mp' nm = out_sig mp nm)
      \<and> (\<forall>nm. nm \<noteq> ''ACLK'' \<and> (True, nm) \<notin> (\<lambda>(d, nm, n). (d, nm)) ` set (ax_routes e) \<longrightarrow> out_sig sp' nm = out_sig sp nm)
      \<and> hd (out_sig mp' ''ACLK'') = clock_level (next_phase (ax_phase e)) \<and> hd (out_sig sp' ''ACLK'') = clock_level (next_phase (ax_phase e))
      \<and> cur_time b' = simtime_add (cur_time b) \<lparr>st_mant = ax_clock_phase_map e ! next_phase (ax_phase e), st_exp = -12\<rparr>
    else ax_run_run e b = Stop Assert_failed"
proof -
  let ?clk = "clock_level (next_phase (ax_phase e))"
  let ?b1 = "advance_time (ax_clock_phase_map e ! next_phase (ax_phase e)) (-12) b"
  define mp1 where "mp1 = put_send ''ACLK'' (?clk # tl (out_sig mp ''ACLK'')) mp"
  define sp1 where "sp1 = put_send ''ACLK'' (?clk # tl (out_sig sp ''ACLK'')) sp"
  let ?b3 = "at_plug (ax_slave e) (\<lambda>_. sp1) (at_plug (ax_master e) (\<lambda>_. mp1) ?b1)"
  have d1: "plug_do (ax_master e) (drive0 ''ACLK'' ?clk) ?b1 = Done (at_plug (ax_master e) (\<lambda>_. mp1) ?b1)"
    using drive_plug [of ?b1 "ax_master e" mp] assms by (simp add: advanced mp1_def)
  have d2: "plug_do (ax_slave e) (drive0 ''ACLK'' ?clk) (at_plug (ax_master e) (\<lambda>_. mp1) ?b1) = Done ?b3"
    using drive_plug [of "at_plug (ax_master e) (\<lambda>_. mp1) ?b1" "ax_slave e" sp] assms by (simp add: advanced at_plug_map_of sp1_def)
  have p3: "map_of (device_map ?b3) (ax_master e) = Some mp1" "map_of (device_map ?b3) (ax_slave e) = Some sp1" "cur_time ?b3 = cur_time ?b1"
    using assms by (simp_all add: at_plug_map_of advanced) (simp add: at_plug_def)
  have fit: "width_fits mp1 sp1 = width_fits mp sp" by (auto simp: width_fits_def fun_eq_iff mp1_def sp1_def)
  have run: "ax_run_run e b = obind (run_routes (ax_master e) (ax_slave e) (ax_routes e) ?b3) (\<lambda>b4. Done (e\<lparr>ax_phase := next_phase (ax_phase e)\<rparr>, b4))"
    using d1 d2 by (simp add: ax_run_run_def Let_def)
  show ?thesis
  proof (cases "\<forall>r \<in> set (ax_routes e). width_fits mp sp r")
    case True
    then obtain b' where b': "run_routes (ax_master e) (ax_slave e) (ax_routes e) ?b3 = Done b'"
      using routes_return(1) [OF p3(1,2) assms(3)] fit by metis
    from routes_deliver [OF this p3(1,2) assms(3) ax_routes_distinct] obtain mp' sp' where
      "map_of (device_map b') (ax_master e) = Some mp'" "map_of (device_map b') (ax_slave e) = Some sp'"
      "\<forall>r \<in> set (ax_routes e). route_done mp1 sp1 mp' sp' r"
      "\<forall>nm. (True, nm) \<notin> (\<lambda>(d, nm, n). (d, nm)) ` set (ax_routes e) \<longrightarrow> out_sig sp' nm = out_sig sp1 nm"
      "\<forall>nm. (False, nm) \<notin> (\<lambda>(d, nm, n). (d, nm)) ` set (ax_routes e) \<longrightarrow> out_sig mp' nm = out_sig mp1 nm" "out_sig sp' ''ACLK'' = out_sig sp1 ''ACLK''"
      "out_sig mp' ''ACLK'' = out_sig mp1 ''ACLK''" "cur_time b' = cur_time ?b3"
      using ax_routes_clock [of _ e] by blast
    moreover have "route_done mp1 sp1 = route_done mp sp" by (simp add: route_done_def mp1_def sp1_def fun_eq_iff)
    ultimately have "ax_run_run e b = Done (e\<lparr>ax_phase := next_phase (ax_phase e)\<rparr>, b')
      \<and> map_of (device_map b') (ax_master e) = Some mp' \<and> map_of (device_map b') (ax_slave e) = Some sp'
      \<and> (\<forall>r \<in> set (ax_routes e). route_done mp sp mp' sp' r)
      \<and> (\<forall>nm. nm \<noteq> ''ACLK'' \<and> (False, nm) \<notin> (\<lambda>(d, nm, n). (d, nm)) ` set (ax_routes e) \<longrightarrow> out_sig mp' nm = out_sig mp nm)
      \<and> (\<forall>nm. nm \<noteq> ''ACLK'' \<and> (True, nm) \<notin> (\<lambda>(d, nm, n). (d, nm)) ` set (ax_routes e) \<longrightarrow> out_sig sp' nm = out_sig sp nm)
      \<and> hd (out_sig mp' ''ACLK'') = ?clk \<and> hd (out_sig sp' ''ACLK'') = ?clk
      \<and> cur_time b' = simtime_add (cur_time b) \<lparr>st_mant = ax_clock_phase_map e ! next_phase (ax_phase e), st_exp = -12\<rparr>"
      using run b' p3(3) by (simp add: mp1_def sp1_def) (simp add: advance_time_def)
    with True show ?thesis by auto
  next
    case False
    then have "run_routes (ax_master e) (ax_slave e) (ax_routes e) ?b3 = Stop Assert_failed"
      using routes_return(2) [OF p3(1,2) assms(3)] fit by metis
    with False run show ?thesis by (simp only: if_False obind.simps)
  qed
qed

text \<open>What the two ends of an AXI4 bus say, channel by channel: name and width.\<close>

definition axi4_master_signals :: "nat \<Rightarrow> nat \<Rightarrow> nat \<Rightarrow> (string \<times> nat) list" where
  "axi4_master_signals addr data wid =
     [(''ARESETn'', 1),
      (''AWVALID'', 1), (''AWADDR'', addr), (''AWLEN'', 8), (''AWSIZE'', 3), (''AWBURST'', 2), (''AWLOCK'', 2),
      (''AWCACHE'', 4), (''AWPROT'', 3), (''AWQOS'', 4), (''AWID'', wid),
      (''WVALID'', 1), (''WDATA'', data), (''WSTRB'', data div 8), (''BREADY'', 1),
      (''ARVALID'', 1), (''ARADDR'', addr), (''ARLEN'', 8), (''ARSIZE'', 3), (''ARBURST'', 2), (''ARLOCK'', 2),
      (''ARCACHE'', 4), (''ARPROT'', 3), (''ARQOS'', 4), (''ARID'', wid), (''RREADY'', 1)]"

definition axi4_slave_signals :: "nat \<Rightarrow> nat \<Rightarrow> nat \<Rightarrow> nat \<Rightarrow> (string \<times> nat) list" where
  "axi4_slave_signals data wid rid irq =
     [(''AWREADY'', 1), (''WREADY'', 1), (''BVALID'', 1), (''BRESP'', 2), (''BID'', wid),
      (''ARREADY'', 1), (''RVALID'', 1), (''RDATA'', data), (''RRESP'', 2), (''RID'', rid)]
     @ (if irq = 0 then [] else [(''IRQ'', irq)])"

lemma ax_routes_signals:
  "set (ax_routes e) =
     (\<lambda>(nm, n). (True, nm, Some n)) ` set (axi4_master_signals (unat (ax_addr_width e)) (unat (ax_data_width e)) (unat (ax_wid_width e)))
     \<union> (\<lambda>(nm, n). (False, nm, Some n)) ` set (axi4_slave_signals (unat (ax_data_width e)) (unat (ax_wid_width e))
          (unat (ax_rid_width e)) (unat (ax_irq_width e)))"
proof -
  have "0 < ax_irq_width e \<longleftrightarrow> unat (ax_irq_width e) \<noteq> 0" by (simp add: word_less_nat_alt)
  then show ?thesis by (cases "0 < ax_irq_width e")
    (simp_all add: ax_routes_def Let_def axi4_master_signals_def axi4_slave_signals_def insert_commute)
qed

text \<open>C25: The server of an AXI4 bus is a wire. If every vector that the master and the slave report has the
  width of the bus configuration, a step returns, drives \<open>ACLK\<close> of both ends to the level of the new
  phase, advances the time by the phase, hands each of the 26 vectors of the master to the slave and
  each of the 10 vectors of the slave (11 with interrupts) to the master, unchanged, and touches no
  other signal; if one vector has another width, the server stops on its assertion. The width checked
  for \<open>ARID\<close> is that of \<open>AWID\<close>, the configured \<open>wid_width\<close>, and not \<open>rid_width\<close>, which is the width that the initialisation gives it: that
  is what the code does, so a master that sends \<open>ARID\<close> with \<open>rid_width\<close> lines, as the library's does, stops
  the server where the two differ.\<close>

theorem axi4_step_delivers:
  fixes e :: axi4_protocol
  defines "down \<equiv> axi4_master_signals (unat (ax_addr_width e)) (unat (ax_data_width e)) (unat (ax_wid_width e))"
    and "up \<equiv> axi4_slave_signals (unat (ax_data_width e)) (unat (ax_wid_width e)) (unat (ax_rid_width e)) (unat (ax_irq_width e))"
  assumes "map_of (device_map b) (ax_master e) = Some mp" and "map_of (device_map b) (ax_slave e) = Some sp"
    and "ax_master e \<noteq> ax_slave e" and "out_sig mp ''ACLK'' \<noteq> []" and "out_sig sp ''ACLK'' \<noteq> []"
  shows "if (\<forall>(nm, n) \<in> set down. length (in_sig mp nm) = n) \<and> (\<forall>(nm, n) \<in> set up. length (in_sig sp nm) = n)
    then \<exists>b' mp' sp'. ax_run_run e b = Done (e\<lparr>ax_phase := next_phase (ax_phase e)\<rparr>, b')
      \<and> map_of (device_map b') (ax_master e) = Some mp' \<and> map_of (device_map b') (ax_slave e) = Some sp'
      \<and> (\<forall>(nm, n) \<in> set down. out_sig sp' nm = in_sig mp nm) \<and> (\<forall>(nm, n) \<in> set up. out_sig mp' nm = in_sig sp nm)
      \<and> hd (out_sig mp' ''ACLK'') = clock_level (next_phase (ax_phase e)) \<and> hd (out_sig sp' ''ACLK'') = clock_level (next_phase (ax_phase e))
      \<and> (\<forall>nm. nm \<notin> insert ''ACLK'' (fst ` set up) \<longrightarrow> out_sig mp' nm = out_sig mp nm)
      \<and> (\<forall>nm. nm \<notin> insert ''ACLK'' (fst ` set down) \<longrightarrow> out_sig sp' nm = out_sig sp nm)
      \<and> cur_time b' = simtime_add (cur_time b) \<lparr>st_mant = ax_clock_phase_map e ! next_phase (ax_phase e), st_exp = -12\<rparr>
    else ax_run_run e b = Stop Assert_failed"
proof -
  note rs = ax_routes_signals [of e, folded down_def up_def]
  have fit: "(\<forall>r \<in> set (ax_routes e). width_fits mp sp r) \<longleftrightarrow>
      (\<forall>(nm, n) \<in> set down. length (in_sig mp nm) = n) \<and> (\<forall>(nm, n) \<in> set up. length (in_sig sp nm) = n)"
    by (simp add: rs width_fits_def ball_Un split_beta)
  have sent: "(\<forall>r \<in> set (ax_routes e). route_done mp sp mp' sp' r) \<Longrightarrow>
      (\<forall>(nm, n) \<in> set down. out_sig sp' nm = in_sig mp nm) \<and> (\<forall>(nm, n) \<in> set up. out_sig mp' nm = in_sig sp nm)" for mp' sp'
    by (simp add: rs route_done_def ball_Un split_beta)
  have names: "(False, nm) \<in> (\<lambda>(d, nm, n). (d, nm)) ` set (ax_routes e) \<longleftrightarrow> nm \<in> fst ` set up"
    "(True, nm) \<in> (\<lambda>(d, nm, n). (d, nm)) ` set (ax_routes e) \<longleftrightarrow> nm \<in> fst ` set down" for nm
    by (force simp: rs image_iff)+
  from axi4_routes_deliver [OF assms(3-7)] show ?thesis
    unfolding fit names insert_iff de_Morgan_disj using sent by (auto simp del: split_paired_All)
qed

definition wire_engine :: axi4_protocol where
  "wire_engine = \<lparr>ax_data_width = 8, ax_addr_width = 4, ax_wid_width = 1, ax_rid_width = 1, ax_irq_width = 0,
     ax_master = ''h'', ax_slave = ''d'', ax_phase = 0, ax_clock_phase_map = [1000, 4000, 4000, 1000]\<rparr>"

definition wire_master :: bus_device_plug where
  "wire_master = (new_plug ''h'' True 0)\<lparr>client_signals := map (\<lambda>(nm, n). (nm, replicate n BIT_1)) (axi4_master_signals 4 8 1),
     send_signals := [(''ACLK'', [BIT_1])]\<rparr>"

definition wire_slave :: bus_device_plug where
  "wire_slave = (new_plug ''d'' False 0)\<lparr>client_signals := map (\<lambda>(nm, n). (nm, replicate n BIT_0)) (axi4_slave_signals 8 1 1 0),
     send_signals := [(''ACLK'', [BIT_1])]\<rparr>"

definition wire_bus :: "unit bus_state" where
  "wire_bus = new_bus ''axi'' () [(''d'', wire_slave), (''h'', wire_master)] []"

theorem axi4_step_delivers_witness:
  "\<exists>b' mp' sp'. ax_run_run wire_engine wire_bus = Done (wire_engine\<lparr>ax_phase := 1\<rparr>, b')
    \<and> map_of (device_map b') ''h'' = Some mp' \<and> map_of (device_map b') ''d'' = Some sp'
    \<and> out_sig sp' ''WDATA'' = replicate 8 BIT_1 \<and> out_sig sp' ''AWVALID'' = [BIT_1] \<and> out_sig mp' ''RDATA'' = replicate 8 BIT_0
    \<and> hd (out_sig mp' ''ACLK'') = BIT_1 \<and> hd (out_sig sp' ''ACLK'') = BIT_1"
proof -
  let ?down = "axi4_master_signals (unat (ax_addr_width wire_engine)) (unat (ax_data_width wire_engine)) (unat (ax_wid_width wire_engine))"
  let ?up = "axi4_slave_signals (unat (ax_data_width wire_engine)) (unat (ax_wid_width wire_engine))
    (unat (ax_rid_width wire_engine)) (unat (ax_irq_width wire_engine))"
  have p: "map_of (device_map wire_bus) (ax_master wire_engine) = Some wire_master"
    "map_of (device_map wire_bus) (ax_slave wire_engine) = Some wire_slave" "ax_master wire_engine \<noteq> ax_slave wire_engine"
    "out_sig wire_master ''ACLK'' \<noteq> []" "out_sig wire_slave ''ACLK'' \<noteq> []"
    by (simp_all add: wire_bus_def wire_engine_def new_bus_def wire_master_def wire_slave_def entry_def)
  have fits: "(\<forall>(nm, n) \<in> set ?down. length (in_sig wire_master nm) = n) \<and> (\<forall>(nm, n) \<in> set ?up. length (in_sig wire_slave nm) = n)"
    by (simp add: axi4_master_signals_def axi4_slave_signals_def wire_engine_def wire_master_def wire_slave_def entry_def)
  have sel: "next_phase (ax_phase wire_engine) = 1" "clock_level 1 = BIT_1" "ax_master wire_engine = ''h''" "ax_slave wire_engine = ''d''"
    by (simp_all add: wire_engine_def next_phase_def clock_level_def)
  have sigs: "(''WDATA'', 8) \<in> set ?down" "(''AWVALID'', 1) \<in> set ?down" "(''RDATA'', 8) \<in> set ?up"
    "in_sig wire_master ''WDATA'' = replicate 8 BIT_1" "in_sig wire_master ''AWVALID'' = [BIT_1]" "in_sig wire_slave ''RDATA'' = replicate 8 BIT_0"
    by (simp_all add: axi4_master_signals_def axi4_slave_signals_def wire_engine_def wire_master_def wire_slave_def entry_def)
  from axi4_step_delivers [OF p, unfolded if_P [OF fits] sel] obtain b' mp' sp' where
    r: "ax_run_run wire_engine wire_bus = Done (wire_engine\<lparr>ax_phase := 1\<rparr>, b')"
      "map_of (device_map b') ''h'' = Some mp'" "map_of (device_map b') ''d'' = Some sp'"
      "\<forall>(nm, n) \<in> set ?down. out_sig sp' nm = in_sig wire_master nm" "\<forall>(nm, n) \<in> set ?up. out_sig mp' nm = in_sig wire_slave nm"
      "hd (out_sig mp' ''ACLK'') = BIT_1" "hd (out_sig sp' ''ACLK'') = BIT_1" by (elim exE conjE)
  have "out_sig sp' ''WDATA'' = replicate 8 BIT_1" "out_sig sp' ''AWVALID'' = [BIT_1]" "out_sig mp' ''RDATA'' = replicate 8 BIT_0"
    using bspec [OF r(4) sigs(1)] bspec [OF r(4) sigs(2)] bspec [OF r(5) sigs(3)] sigs(4-6) by simp_all
  with r show ?thesis by (intro exI conjI)
qed

section \<open>The loop over the busses of this program\<close>

text \<open>A server with one point-to-point bus, whose host is connected and ready and whose device may be.\<close>

definition demo_plug :: "string \<Rightarrow> bool \<Rightarrow> int \<Rightarrow> bool \<Rightarrow> bus_device_plug" where
  "demo_plug nm host fd rdy = (new_plug nm host 0)\<lparr>plug_fd := fd, ready_flag := rdy, send_signals := [(''CLOCK'', [BIT_1])]\<rparr>"

definition demo_link :: "bool \<Rightarrow> sbus" where
  "demo_link rdy =
     \<lparr>bus_name = ''link'',
      engine = Proto_p2p \<lparr>pp_phase = 0, pp_clock_phase_map = [1000, 4000, 4000, 1000], pp_master_clock_mode = CLOCK_RUN,
        pp_wid_o = 1, pp_wid_i = 1, pp_master = ''h'', pp_slave = ''d''\<rparr>,
      cur_time = zero_time, rand_state = \<lparr>mti = 0, mt = []\<rparr>, options = [], bus_fd = 3, unlink_on_initialization = [],
      finished = False, device_map = [(''d'', demo_plug ''d'' False 5 rdy), (''h'', demo_plug ''h'' True 4 True)]\<rparr>"

definition demo_server :: "bool \<Rightarrow> protocol_engine_state server" where
  "demo_server rdy =
     \<lparr>bus_map = [(''p'', demo_link rdy)],
      client_map = [(4, (new_client ''p'')\<lparr>cl_interface := Some ''h''\<rparr>), (5, (new_client ''p'')\<lparr>cl_interface := Some ''d''\<rparr>)],
      need_init = [], interrupted = False\<rparr>"

definition whole_write :: "int \<Rightarrow> string \<Rightarrow> int" where
  "whole_write fd s = int (length s)"

lemmas demo_simps = demo_server_def demo_link_def demo_plug_def new_plug_def zero_time_def

lemma demo_length: "length (dec_nat 4000) + length (dec_int (- 12)) < 4073"
  by code_simp

lemma demo_run:
  "\<exists>b. proto_run_run (all_plugs (\<lambda>p. p\<lparr>ready_flag := False\<rparr>) (demo_link True)) = Done b \<and> \<not> finished b
    \<and> (\<exists>out. send_until whole_write (cur_time b) (device_map b) = Done out)"
  by (simp add: demo_simps proto_run_run_def with_engine_def pp_run_run_def all_plugs_def smap_all_def plug_do_def
      drive0_def entry_def at_plug_def smap_at_def advance_time_def Let_def next_phase_def clock_level_def
      put_send_def pp_slave_clock_def pp_mode_of_def pp_fit_def until_line_def whole_write_def msb_first_def
      simtime_add_def rescale_power demo_length)

lemma demo_turn: "\<exists>st' replies steps.
    service_turn simbus_protocols whole_write (Selected (\<lambda>p. None) (\<lambda>fd. None)) (demo_server True) = Done (Some (st', replies, steps))"
proof -
  obtain b out where "bus_ready simbus_protocols whole_write (demo_link True) = Done (b, out)"
    using demo_run by (auto simp: bus_ready_def simbus_protocols_def)
  then show ?thesis
    by (simp add: service_turn_def watched_def bus_of_def demo_server_def check_bus_def)
       (simp add: demo_simps zero_time_def)
qed

lemma demo_ok: "server_ok (demo_server rdy)"
  by (simp add: server_ok_def demo_simps list_less_def)

text \<open>C3: The server keeps its busses in lock step. In one turn of its loop, a bus either sends nothing and
  keeps its time, its protocol state and the signals it sends; or it makes one step, sends exactly one
  UNTIL line with the bus time and the signals to every device in key order, and afterwards counts
  no device as ready; or it ends, sends FINISH to every device, closes every connection and its port
  and marks all devices gone. The devices of a bus never change.\<close>

theorem server_lockstep:
  assumes "service_turn simbus_protocols os_write sel st = Done (Some (st', replies, steps))" and "server_ok st"
    and "map_of (bus_map st) port = Some b"
  shows "server_ok st' \<and> (\<exists>b'. map_of (bus_map st') port = Some b' \<and> map fst (device_map b') = map fst (device_map b) \<and>
    (steps_of port steps = [] \<and> bus_core b' = bus_core b
     \<or> \<not> finished b' \<and> steps_of port steps = until_steps b' \<and> none_ready b'
     \<or> finished b' \<and> bus_fd b' = -1 \<and> (\<forall>(k, p) \<in> set (device_map b'). exited_flag p)
        \<and> (\<exists>fd. steps_of port steps = finish_steps b' @ [Closed fd])))"
  using simbus.turn_ok [OF assms(1,2)] simbus.lockstep [OF assms] by blast

theorem server_lockstep_witness:
  "\<exists>st' replies steps.
    service_turn simbus_protocols whole_write (Selected (\<lambda>p. None) (\<lambda>fd. None)) (demo_server True) = Done (Some (st', replies, steps)) \<and>
    server_ok st' \<and> (\<exists>b'. map_of (bus_map st') ''p'' = Some b' \<and> map fst (device_map b') = map fst (device_map (demo_link True)) \<and>
    (steps_of ''p'' steps = [] \<and> bus_core b' = bus_core (demo_link True)
     \<or> \<not> finished b' \<and> steps_of ''p'' steps = until_steps b' \<and> none_ready b'
     \<or> finished b' \<and> bus_fd b' = -1 \<and> (\<forall>(k, p) \<in> set (device_map b'). exited_flag p)
        \<and> (\<exists>fd. steps_of ''p'' steps = finish_steps b' @ [Closed fd])))"
proof -
  have "map_of (bus_map (demo_server True)) ''p'' = Some (demo_link True)" by (simp add: demo_server_def)
  with demo_turn server_lockstep [OF _ demo_ok this] show ?thesis by blast
qed

text \<open>C24: No bus overtakes a device. As long as some device of a bus is not ready and says nothing on its
  connection, the bus makes no step, whatever the other devices send, whoever connects and however
  many turns the server makes: its time, its protocol state and all signals it sends stay as they are,
  and nothing is sent to any device.\<close>

theorem server_waits:
  assumes "service_loop simbus_protocols os_write sels st = Done (Some (st', replies, steps))" and "server_ok st"
    and "map_of (bus_map st) port = Some b" and "waits_for k b" and "quiet_run simbus_protocols port k os_write sels st"
  shows "\<exists>b'. map_of (bus_map st') port = Some b' \<and> waits_for k b' \<and> bus_core b' = bus_core b \<and> steps_of port steps = []"
  by (rule simbus.waits_run [OF assms])

theorem server_waits_witness:
  "\<exists>st' replies steps b'.
    service_loop simbus_protocols whole_write [Sel_again False, Selected (\<lambda>p. None) (\<lambda>fd. None)] (demo_server False)
      = Done (Some (st', replies, steps)) \<and>
    map_of (bus_map st') ''p'' = Some b' \<and> waits_for ''d'' b' \<and> bus_core b' = bus_core (demo_link False) \<and> steps_of ''p'' steps = []"
proof -
  let ?sels = "[Sel_again False, Selected (\<lambda>p. None) (\<lambda>fd. None)]"
  have "\<exists>st' replies steps. service_loop simbus_protocols whole_write ?sels (demo_server False) = Done (Some (st', replies, steps))"
    by (simp add: service_turn_def watched_def bus_of_def check_bus_def is_exited_def demo_simps)
  then obtain st' replies steps where run: "service_loop simbus_protocols whole_write ?sels (demo_server False) = Done (Some (st', replies, steps))"
    by blast
  have "map_of (bus_map (demo_server False)) ''p'' = Some (demo_link False)" "waits_for ''d'' (demo_link False)"
    by (simp_all add: waits_for_def demo_simps)
  moreover have "quiet_run simbus_protocols ''p'' ''d'' whole_write ?sels (demo_server False)"
    by (auto simp: quiet_for_def quiet_def split: outcome.splits option.splits)
  ultimately show ?thesis using server_waits [OF run demo_ok] run by blast
qed

end
