(* ===== verification/Sim_P2P.thy ===== *)
theory Sim_P2P
  imports Sim_Base
begin

text \<open>
  libsimbus/simbus_p2p.c: the point-to-point bus.  The record has the fields of
  \<open>struct simbus_p2p_s\<close>, with the socket itself in place of its descriptor; arrays are lists,
  caller buffers of 32-bit words are lists of words.  \<open>disconnect\<close> frees the object, so it
  returns only the closed connection.
\<close>

record simbus_p2p =
  name :: string
  fd :: conn
  ident :: u32
  bus_time :: simbus_time
  clock :: bitval
  clock_mode :: "bitval list"
  width_o :: nat
  data_o :: "bitval list"
  width_i :: nat
  data_i :: "bitval list"

section \<open>Operations\<close>

definition simbus_p2p_connect ::
  "'a os \<Rightarrow> string \<Rightarrow> string \<Rightarrow> nat \<Rightarrow> nat \<Rightarrow> simbus_p2p option outcome" where
  "simbus_p2p_connect os server nm wid_i wid_o =
     c_assert (wid_i > 0 \<or> wid_o > 0)
       (obind (simbus_server_socket os server) (\<lambda>server_fd.
          case server_fd of
            None \<Rightarrow> Stop Assert_failed
          | Some c \<Rightarrow>
              obind (simbus_server_hello c nm []) (\<lambda>(rc, idn, c').
                if rc < 0 then Done None
                else Done (Some
                  \<lparr>name = nm, fd = c', ident = idn, bus_time = init_simbus_time,
                   clock = BIT_X, clock_mode = [BIT_0, BIT_0],
                   width_o = wid_o, data_o = replicate wid_o BIT_X,
                   width_i = wid_i, data_i = replicate wid_i BIT_X\<rparr>))))"

definition simbus_p2p_is_host :: "simbus_p2p \<Rightarrow> bool" where
  "simbus_p2p_is_host bus \<longleftrightarrow> ident bus = 0"

definition simbus_p2p_disconnect :: "simbus_p2p \<Rightarrow> conn" where
  "simbus_p2p_disconnect bus = sock_close (fd bus)"

definition simbus_p2p_end_simulation :: "simbus_p2p \<Rightarrow> conn outcome" where
  "simbus_p2p_end_simulation bus =
     obind (simbus_server_finish (fd bus)) (\<lambda>c. Done (simbus_p2p_disconnect (bus\<lparr>fd := c\<rparr>)))"

definition simbus_p2p_clock_mode :: "simbus_p2p \<Rightarrow> int \<Rightarrow> simbus_p2p outcome" where
  "simbus_p2p_clock_mode bus mode =
     c_assert (ident bus = 0)
       (Done (bus\<lparr>clock_mode := [bit01 (bit mode 0), bit01 (bit mode 1)]\<rparr>))"

text \<open>
  The two word-collecting functions have one body: \<open>for (idx ...)\<close> with the word index
  \<open>idx/32\<close>, clearing a word at its first bit, counting unknown bits in \<open>rc\<close>.
\<close>

definition collect_step :: "bitval list \<Rightarrow> nat \<Rightarrow> int \<times> u32 list \<Rightarrow> int \<times> u32 list" where
  "collect_step lines idx = (\<lambda>(rc, data).
     (let word = idx div 32; wbit = idx mod 32;
          data1 = (if wbit = 0 then data[word := 0] else data)
      in case lines ! idx of
           BIT_0 \<Rightarrow> (rc, data1)
         | BIT_1 \<Rightarrow> (rc, data1[word := data1 ! word OR push_bit wbit 1])
         | BIT_X \<Rightarrow> (rc - 1, data1)
         | BIT_Z \<Rightarrow> (rc - 1, data1)))"

definition simbus_p2p_in :: "simbus_p2p \<Rightarrow> u32 list \<Rightarrow> (int \<times> u32 list) outcome" where
  "simbus_p2p_in bus data =
     c_defined (width_i bus \<le> 32 * length data)
       (Done (fold (collect_step (data_i bus)) [0..<width_i bus] (0, data)))"

definition simbus_p2p_out_peek :: "simbus_p2p \<Rightarrow> u32 list \<Rightarrow> (int \<times> u32 list) outcome" where
  "simbus_p2p_out_peek bus data =
     c_defined (width_o bus \<le> 32 * length data)
       (Done (fold (collect_step (data_o bus)) [0..<width_o bus] (0, data)))"

definition drive_step :: "u32 list \<Rightarrow> nat \<Rightarrow> bitval list \<Rightarrow> bitval list" where
  "drive_step data idx lines =
     (let word = idx div 32; wbit = idx mod 32; msk = push_bit wbit (1 :: u32)
      in lines[idx := bit01 (data ! word AND msk \<noteq> 0)])"

definition simbus_p2p_out :: "simbus_p2p \<Rightarrow> u32 list \<Rightarrow> simbus_p2p outcome" where
  "simbus_p2p_out bus data =
     c_defined (width_o bus \<le> 32 * length data)
       (Done (bus\<lparr>data_o := fold (drive_step data) [0..<width_o bus] (data_o bus)\<rparr>))"

definition simbus_p2p_in_poke :: "simbus_p2p \<Rightarrow> u32 list \<Rightarrow> simbus_p2p outcome" where
  "simbus_p2p_in_poke bus data =
     c_defined (width_i bus \<le> 32 * length data)
       (Done (bus\<lparr>data_i := fold (drive_step data) [0..<width_i bus] (data_i bus)\<rparr>))"

subsection \<open>The READY exchange\<close>

definition ready_message_p2p :: "simbus_p2p \<Rightarrow> string" where
  "ready_message_p2p bus =
     ready_prefix (bus_time bus)
     @ (if ident bus = 0
        then '' CLOCK_MODE='' @ [bitval_to_char (clock_mode bus ! 1), bitval_to_char (clock_mode bus ! 0)]
        else [])
     @ (if ident bus = 0 \<and> width_o bus > 0
        then '' DATA_O='' @ msb_first (width_o bus) (data_o bus) else [])
     @ (if ident bus \<noteq> 0 \<and> width_i bus > 0
        then '' DATA_I='' @ msb_first (width_i bus) (data_i bus) else [])
     @ [NL]"

text \<open>
  \<open>for (pad = top ; pad < width ; pad += 1) x[pad] = BIT_X;
    while (top > 0) { bit = __char_to_bitval(cp[top-1]); if (top <= width) x[width-top] = bit; top -= 1; }\<close>
\<close>

fun load_vector :: "nat \<Rightarrow> string \<Rightarrow> nat \<Rightarrow> bitval list \<Rightarrow> bitval list" where
  "load_vector width cp 0 xs = xs"
| "load_vector width cp (Suc n) xs =
     load_vector width cp n
       (if Suc n \<le> width then xs[width - Suc n := char_to_bitval (cp ! n)] else xs)"

definition take_vector :: "nat \<Rightarrow> string \<Rightarrow> bitval list \<Rightarrow> bitval list outcome" where
  "take_vector width cp xs =
     c_assert (length cp > 0)
       (Done (load_vector width cp (length cp) (fill_bits (length cp) (width - length cp) BIT_X xs)))"

definition on_signal_p2p :: "simbus_p2p \<Rightarrow> string \<Rightarrow> string \<Rightarrow> simbus_p2p outcome" where
  "on_signal_p2p bus nm cp =
     (if nm = ''CLOCK'' then Done (bus\<lparr>clock := char_to_bitval (char0 cp)\<rparr>)
      else if nm = ''DATA_I'' then
        obind (take_vector (width_i bus) cp (data_i bus)) (\<lambda>xs. Done (bus\<lparr>data_i := xs\<rparr>))
      else if nm = ''DATA_O'' then
        obind (take_vector (width_o bus) cp (data_o bus)) (\<lambda>xs. Done (bus\<lparr>data_o := xs\<rparr>))
      else Done bus)"

definition send_ready_p2p :: "simbus_p2p \<Rightarrow> (int \<times> simbus_p2p) outcome" where
  "send_ready_p2p bus =
     ready_exchange fd (\<lambda>c b. b\<lparr>fd := c\<rparr>) (-1) (\<lambda>t b. b\<lparr>bus_time := t\<rparr>) on_signal_p2p
       (ready_message_p2p bus) bus"

subsection \<open>Clock\<close>

fun posedge_cycles :: "nat \<Rightarrow> int \<times> simbus_p2p \<Rightarrow> (int \<times> simbus_p2p) outcome" where
  "posedge_cycles 0 p = Done p"
| "posedge_cycles (Suc cycles) (rc, bus) =
     (if rc < 0 then Done (rc, bus)
      else obind (spin_rc fd send_ready_p2p (\<lambda>b. clock b \<noteq> BIT_0) (rc, bus)) (\<lambda>p.
             obind (spin_rc fd send_ready_p2p (\<lambda>b. clock b \<noteq> BIT_1) p) (posedge_cycles cycles)))"

definition simbus_p2p_clock_posedge :: "simbus_p2p \<Rightarrow> nat \<Rightarrow> (int \<times> simbus_p2p) outcome" where
  "simbus_p2p_clock_posedge bus cycles = posedge_cycles cycles (0, bus)"

fun negedge_cycles :: "nat \<Rightarrow> int \<times> simbus_p2p \<Rightarrow> (int \<times> simbus_p2p) outcome" where
  "negedge_cycles 0 p = Done p"
| "negedge_cycles (Suc cycles) (rc, bus) =
     (if rc < 0 then Done (rc, bus)
      else obind (spin_rc fd send_ready_p2p (\<lambda>b. clock b \<noteq> BIT_1) (rc, bus)) (\<lambda>p.
             obind (spin_rc fd send_ready_p2p (\<lambda>b. clock b \<noteq> BIT_0) p) (negedge_cycles cycles)))"

definition simbus_p2p_clock_negedge :: "simbus_p2p \<Rightarrow> nat \<Rightarrow> (int \<times> simbus_p2p) outcome" where
  "simbus_p2p_clock_negedge bus cycles = negedge_cycles cycles (0, bus)"

section \<open>Invariant\<close>

definition p2p_wf :: "simbus_p2p \<Rightarrow> bool" where
  "p2p_wf bus \<longleftrightarrow>
     length (data_o bus) = width_o bus \<and> length (data_i bus) = width_i bus
     \<and> length (clock_mode bus) = 2 \<and> time_ok (bus_time bus)"

text \<open>What no operation after \<open>connect\<close> may change.\<close>

definition p2p_config :: "simbus_p2p \<Rightarrow> string \<times> u32 \<times> nat \<times> nat" where
  "p2p_config bus = (name bus, ident bus, width_i bus, width_o bus)"

abbreviation p2p_keeps :: "simbus_p2p \<Rightarrow> simbus_p2p \<Rightarrow> bool" where
  "p2p_keeps a b \<equiv> p2p_wf b \<and> p2p_config b = p2p_config a"

lemma length_load_vector [simp]: "length (load_vector w cp n xs) = length xs"
  by (induction w cp n xs rule: load_vector.induct) simp_all

lemma length_drive [simp]: "length (drive_step data i xs) = length xs"
  by (simp add: drive_step_def Let_def)

lemma length_fold_drive [simp]: "length (fold (drive_step data) is xs) = length xs"
  by (induction "is" arbitrary: xs) simp_all

lemma on_signal_p2p_keeps: "p2p_wf b \<Longrightarrow> ret (on_signal_p2p b nm cp) (p2p_keeps b)"
  by (simp add: on_signal_p2p_def take_vector_def p2p_wf_def p2p_config_def)

interpretation p2p: signal_bus fd "\<lambda>c b. b\<lparr>fd := c\<rparr>" "-1" "\<lambda>t b. b\<lparr>bus_time := t\<rparr>" on_signal_p2p
    ready_message_p2p "\<lambda>_. True" send_ready_p2p "\<lambda>b. p2p_wf b \<and> p2p_config b = k" for k
proof unfold_locales
  show "ret (on_signal_p2p s nm cp) (\<lambda>t. fd t = fd s)" for s nm cp
    by (simp add: on_signal_p2p_def take_vector_def)
  show "ret (on_signal_p2p s nm cp) (\<lambda>b. p2p_wf b \<and> p2p_config b = k)"
    if "p2p_wf s \<and> p2p_config s = k" for s nm cp
    using on_signal_p2p_keeps [of s nm cp] that by simp
  show "on_signal_p2p s nm cp \<noteq> Stop Out_of_fuel" for s nm cp
    by (simp add: on_signal_p2p_def take_vector_def c_assert_def obind_eq_Stop)
qed (auto simp: p2p_wf_def p2p_config_def send_ready_p2p_def)

lemma send_ready_p2p_keeps: "p2p_wf b \<Longrightarrow> ret (send_ready_p2p b) (\<lambda>(rc, t). p2p_keeps b t)"
  using p2p.exchange_ok [of b "p2p_config b"] by simp

lemma p2p_spin_keeps:
  "p2p_wf b \<Longrightarrow> ret (spin_rc fd send_ready_p2p q (rc, b)) (\<lambda>(rc, t). p2p_keeps b t)"
  by (rule p2p.spin_rc_inv) (use p2p.exchange_ok [of _ "p2p_config b"] in auto)

lemma p2p_spin_level:
  "ret (spin_rc fd send_ready_p2p (\<lambda>b. clock b \<noteq> v) p) (\<lambda>(rc, t). rc < 0 \<or> clock t = v)"
  using p2p.spin_rc_post [of "\<lambda>b. clock b \<noteq> v" p] by simp

lemma p2p_edge_keeps:
  assumes "p2p_wf b" and "\<And>rc b'. p2p_keeps b b' \<Longrightarrow> ret (k (rc, b')) (\<lambda>(rc, t). p2p_keeps b' t)"
  shows "ret (obind (spin_rc fd send_ready_p2p q (rc, b)) (\<lambda>p. obind (spin_rc fd send_ready_p2p r p) k))
    (\<lambda>(rc, t). p2p_keeps b t)"
proof (rule ret_seq2 [OF p2p_spin_keeps [OF assms(1)]])
  fix rc1 b1 assume b1: "p2p_keeps b b1"
  show "ret (obind (spin_rc fd send_ready_p2p r (rc1, b1)) k) (\<lambda>(rc, t). p2p_keeps b t)"
  proof (rule ret_seq2 [OF p2p_spin_keeps])
    fix rc2 b2 assume "p2p_keeps b1 b2"
    with b1 have "p2p_keeps b b2" by simp
    from assms(2) [OF this] this show "ret (k (rc2, b2)) (\<lambda>(rc, t). p2p_keeps b t)" by simp
  qed (use b1 in simp)
qed

lemma p2p_posedge_keeps: "p2p_wf b \<Longrightarrow> ret (posedge_cycles n (rc, b)) (\<lambda>(rc, t). p2p_keeps b t)"
  by (induction n arbitrary: rc b) (auto simp del: ret_obind intro!: p2p_edge_keeps)

lemma p2p_negedge_keeps: "p2p_wf b \<Longrightarrow> ret (negedge_cycles n (rc, b)) (\<lambda>(rc, t). p2p_keeps b t)"
  by (induction n arbitrary: rc b) (auto simp del: ret_obind intro!: p2p_edge_keeps)

text \<open>Everything a client can do with a connected bus that changes it, as a step relation.\<close>

inductive p2p_step :: "simbus_p2p \<Rightarrow> simbus_p2p \<Rightarrow> bool" where
  mode: "simbus_p2p_clock_mode b m = Done b' \<Longrightarrow> p2p_step b b'"
| out: "simbus_p2p_out b data = Done b' \<Longrightarrow> p2p_step b b'"
| poke: "simbus_p2p_in_poke b data = Done b' \<Longrightarrow> p2p_step b b'"
| posedge: "simbus_p2p_clock_posedge b n = Done (rc, b') \<Longrightarrow> p2p_step b b'"
| negedge: "simbus_p2p_clock_negedge b n = Done (rc, b') \<Longrightarrow> p2p_step b b'"

inductive p2p_reachable :: "simbus_p2p \<Rightarrow> simbus_p2p \<Rightarrow> bool" for b where
  start: "p2p_reachable b b"
| step: "p2p_reachable b b1 \<Longrightarrow> p2p_step b1 b2 \<Longrightarrow> p2p_reachable b b2"

lemma p2p_step_keeps: "p2p_step b b' \<Longrightarrow> p2p_wf b \<Longrightarrow> p2p_keeps b b'"
proof (induction rule: p2p_step.induct)
  case (posedge b n rc b')
  then show ?case using retD [OF p2p_posedge_keeps] by (auto simp: simbus_p2p_clock_posedge_def)
next
  case (negedge b n rc b')
  then show ?case using retD [OF p2p_negedge_keeps] by (auto simp: simbus_p2p_clock_negedge_def)
qed (auto simp: simbus_p2p_clock_mode_def simbus_p2p_out_def simbus_p2p_in_poke_def p2p_wf_def
    p2p_config_def)

text \<open>Every state a client can bring a freshly connected point-to-point bus into is well formed
  (the data arrays have the negotiated widths, the mode two bits, the time is printable), and the
  name, identifier and widths are those of the connection.\<close>

lemma p2p_reachable_wf:
  assumes "simbus_p2p_connect os server nm wi wo = Done (Some b0)" and "p2p_reachable b0 b"
  shows "p2p_wf b \<and> p2p_config b = (nm, ident b0, wi, wo) \<and> (0 < wi \<or> 0 < wo)"
proof -
  from assms(1) have b0: "p2p_wf b0 \<and> p2p_config b0 = (nm, ident b0, wi, wo) \<and> (0 < wi \<or> 0 < wo)"
    by (auto simp: simbus_p2p_connect_def p2p_wf_def p2p_config_def split: option.splits if_splits)
  from assms(2) have "p2p_wf b \<and> p2p_config b = p2p_config b0"
  proof (induction rule: p2p_reachable.induct)
    case (step b1 b2)
    then show ?case using p2p_step_keeps [of b1 b2] by simp
  qed (use b0 in simp)
  with b0 show ?thesis by simp
qed

section \<open>Words and lines\<close>

definition unknown_count :: "bitval list \<Rightarrow> nat" where
  "unknown_count xs = length (filter (\<lambda>b. \<not> known b) xs)"

definition word_of_lines :: "bitval list \<Rightarrow> nat \<Rightarrow> nat \<Rightarrow> u32 \<Rightarrow> bool" where
  "word_of_lines xs n w v \<longleftrightarrow> (\<forall>j < 32. bit v j \<longleftrightarrow> 32 * w + j < n \<and> xs ! (32 * w + j) = BIT_1)"

text \<open>The collecting loop after \<open>n\<close> bits.\<close>

definition collected :: "bitval list \<Rightarrow> nat \<Rightarrow> u32 list \<Rightarrow> int \<times> u32 list \<Rightarrow> bool" where
  "collected xs n data r \<longleftrightarrow>
     fst r = - int (unknown_count (take n xs)) \<and> length (snd r) = length data
     \<and> (\<forall>w < length data. if 32 * w < n then word_of_lines xs n w (snd r ! w) else snd r ! w = data ! w)"

lemma word_of_lines_Suc:
  assumes "word_of_lines xs n w v" and "n div 32 = w"
  shows "word_of_lines xs (Suc n) w (if xs ! n = BIT_1 then v OR push_bit (n mod 32) 1 else v)"
proof -
  have n: "n = 32 * w + n mod 32" using assms(2) by auto
  have "j = n mod 32 \<longleftrightarrow> 32 * w + j = n" for j using n by auto
  with assms(1) show ?thesis
    by (auto simp: word_of_lines_def bit_or_iff bit_exp_iff less_Suc_eq)
qed

lemma collected_step:
  assumes "collected xs n data r" and "n < length xs" and "n < 32 * length data"
  shows "collected xs (Suc n) data (collect_step xs n r)"
proof -
  obtain rc res where r: "r = (rc, res)" by (cases r)
  let ?w = "n div 32"
  let ?res = "if n mod 32 = 0 then res[?w := 0] else res"
  let ?v = "if xs ! n = BIT_1 then ?res ! ?w OR push_bit (n mod 32) 1 else ?res ! ?w"
  have w: "?w < length data" using assms(3) by (simp add: less_mult_imp_div_less mult.commute)
  have len: "length res = length data" using assms(1) r by (simp add: collected_def)
  have "word_of_lines xs n ?w (?res ! ?w)"
  proof (cases "n mod 32 = 0")
    case True
    then have "n = 32 * ?w" by auto
    then have "word_of_lines xs n ?w 0" by (auto simp: word_of_lines_def)
    with True w len show ?thesis by simp
  next
    case False
    then have "32 * ?w < n" by (metis div_mult_mod_eq add_diff_cancel_left' diff_is_0_eq linorder_not_le mult.commute)
    with False assms(1) w show ?thesis by (auto simp: collected_def r)
  qed
  from word_of_lines_Suc [OF this refl] have v: "word_of_lines xs (Suc n) ?w ?v" by simp
  have step: "collect_step xs n r = (if known (xs ! n) then rc else rc - 1, ?res[?w := ?v])"
    by (cases "xs ! n") (auto simp: collect_step_def r Let_def known_def list_update_beyond)
  have other: "word_of_lines xs (Suc n) u (res ! u)" if "u < length data" "u \<noteq> ?w" "32 * u < Suc n" for u
  proof -
    have "32 * u + j \<noteq> n" if "j < 32" for j using that \<open>u \<noteq> ?w\<close> by auto
    moreover have "32 * u < n" using that(3) \<open>u \<noteq> ?w\<close> by (auto simp: less_Suc_eq)
    ultimately show ?thesis
      using assms(1) that(1) by (auto simp: collected_def r word_of_lines_def less_Suc_eq)
  qed
  have words: "if 32 * u < Suc n then word_of_lines xs (Suc n) u (?res[?w := ?v] ! u)
      else ?res[?w := ?v] ! u = data ! u" if "u < length data" for u
  proof (cases "u = ?w")
    case True
    have "32 * ?w < Suc n" by (simp add: less_Suc_eq_le)
    with True v w len show ?thesis by simp
  next
    case False
    then have "?res[?w := ?v] ! u = res ! u" by simp
    moreover have "res ! u = data ! u" if "\<not> 32 * u < Suc n"
      using assms(1) \<open>u < length data\<close> that by (auto simp: collected_def r)
    ultimately show ?thesis using other [OF that False] by simp
  qed
  have "unknown_count (take (Suc n) xs) = unknown_count (take n xs) + (if known (xs ! n) then 0 else 1)"
    using assms(2) by (simp add: take_Suc_conv_app_nth unknown_count_def)
  then have cnt: "fst (collect_step xs n r) = - int (unknown_count (take (Suc n) xs))"
    using assms(1) unfolding step by (simp add: collected_def r)
  have "length (snd (collect_step xs n r)) = length data" by (simp add: step len)
  with cnt words show ?thesis unfolding collected_def step snd_conv by blast
qed

lemma collect_all:
  "n \<le> length xs \<Longrightarrow> n \<le> 32 * length data \<Longrightarrow>
     collected xs n data (fold (collect_step xs) [0..<n] (0, data))"
proof (induction n)
  case 0
  then show ?case by (simp add: collected_def unknown_count_def)
next
  case (Suc n)
  then show ?case using collected_step [of xs n data] by simp
qed

lemma nth_drive:
  "n \<le> length xs \<Longrightarrow> j < length xs \<Longrightarrow>
   fold (drive_step data) [0..<n] xs ! j =
     (if j < n then bit01 (bit (data ! (j div 32)) (j mod 32)) else xs ! j)"
proof (induction n)
  case (Suc n)
  then show ?case
    by (auto simp: drive_step_def Let_def nth_list_update less_Suc_eq and_exp_eq_0_iff_not_bit)
qed simp


text \<open>C34: \<open>simbus_p2p_in\<close> delivers the input lines as packed words, bit \<open>i\<close> of the bus
  at bit \<open>i mod 32\<close> of word \<open>i div 32\<close>, with unknown bits read as 0, the unused top bits
  of the last word cleared and later words untouched; it returns minus the number of X and Z lines.\<close>

theorem p2p_in_words:
  assumes "p2p_wf bus" and "width_i bus \<le> 32 * length data"
  shows "\<exists>res. simbus_p2p_in bus data = Done (- int (unknown_count (data_i bus)), res)
    \<and> length res = length data
    \<and> (\<forall>w < length data. if 32 * w < width_i bus then word_of_lines (data_i bus) (width_i bus) w (res ! w)
         else res ! w = data ! w)"
proof -
  have "collected (data_i bus) (width_i bus) data
      (fold (collect_step (data_i bus)) [0..<width_i bus] (0, data))"
    by (rule collect_all) (use assms in \<open>auto simp: p2p_wf_def\<close>)
  then obtain rc res where f: "fold (collect_step (data_i bus)) [0..<width_i bus] (0, data) = (rc, res)"
    and c: "collected (data_i bus) (width_i bus) data (rc, res)"
    by (metis surj_pair)
  with assms have "simbus_p2p_in bus data = Done (- int (unknown_count (data_i bus)), res)"
    by (simp add: simbus_p2p_in_def collected_def p2p_wf_def)
  with c show ?thesis unfolding collected_def fst_conv snd_conv by blast
qed

definition demo_p2p :: simbus_p2p where
  "demo_p2p = \<lparr>name = ''cam'', fd = script [], ident = 0, bus_time = init_simbus_time,
     clock = BIT_X, clock_mode = [BIT_0, BIT_0], width_o = 3, data_o = replicate 3 BIT_X,
     width_i = 3, data_i = [BIT_1, BIT_Z, BIT_1]\<rparr>"

theorem p2p_in_words_witness:
  "\<exists>res. simbus_p2p_in demo_p2p [7, 9] = Done (- 1, res) \<and> res ! 1 = 9
     \<and> word_of_lines [BIT_1, BIT_Z, BIT_1] 3 0 (res ! 0)"
proof -
  have sel: "width_i demo_p2p = 3" "data_i demo_p2p = [BIT_1, BIT_Z, BIT_1]" and wf: "p2p_wf demo_p2p"
    by (simp_all add: demo_p2p_def p2p_wf_def)
  obtain res where "simbus_p2p_in demo_p2p [7, 9] = Done (- 1, res)"
    and res: "\<And>w. w < length [7 :: u32, 9] \<Longrightarrow>
      if 32 * w < (3 :: nat) then word_of_lines [BIT_1, BIT_Z, BIT_1] 3 w (res ! w) else res ! w = [7, 9] ! w"
    using p2p_in_words [OF wf, of "[7, 9]"] unfolding sel by (auto simp: unknown_count_def known_def)
  with res [of 0] res [of 1] show ?thesis by auto
qed

lemma unknown_count_bit01: "(\<forall>b \<in> set xs. known b) \<Longrightarrow> unknown_count xs = 0"
  by (simp add: unknown_count_def filter_empty_conv)

text \<open>The lines after driving \<open>n\<close> bits of the words.\<close>

definition driven :: "u32 list \<Rightarrow> nat \<Rightarrow> bitval list" where
  "driven data n = map (\<lambda>j. bit01 (bit (data ! (j div 32)) (j mod 32))) [0..<n]"

lemma drive_all: "length xs = n \<Longrightarrow> fold (drive_step data) [0..<n] xs = driven data n"
  by (rule nth_equalityI) (simp_all add: nth_drive driven_def)

lemma unknown_driven [simp]: "unknown_count (driven data n) = 0"
  by (rule unknown_count_bit01) (auto simp: driven_def)

lemma collect_driven:
  assumes "n \<le> 32 * length data" and "length old = length data"
  shows "\<exists>res. fold (collect_step (driven data n)) [0..<n] (0, old) = (0, res)
    \<and> length res = length data
    \<and> (\<forall>i < n. bit (res ! (i div 32)) (i mod 32) = bit (data ! (i div 32)) (i mod 32))"
proof -
  let ?r = "fold (collect_step (driven data n)) [0..<n] (0, old)"
  have len: "length (driven data n) = n" by (simp add: driven_def)
  have c: "collected (driven data n) n old ?r"
    by (rule collect_all) (use assms len in simp_all)
  have "bit (snd ?r ! (i div 32)) (i mod 32) = bit (data ! (i div 32)) (i mod 32)" if "i < n" for i
  proof -
    have "i div 32 < length old"
      using that assms by (simp add: less_mult_imp_div_less mult.commute)
    moreover have "32 * (i div 32) < n" using that by (metis le_less_trans times_div_less_eq_dividend)
    ultimately have "word_of_lines (driven data n) n (i div 32) (snd ?r ! (i div 32))"
      using c unfolding collected_def by presburger
    then show ?thesis using that by (auto simp: word_of_lines_def driven_def)
  qed
  moreover have "fst ?r = 0" "length (snd ?r) = length data"
    using c assms(2) len by (simp_all add: collected_def)
  ultimately show ?thesis by (metis prod.collapse)
qed

section \<open>Vectors from the server\<close>

lemma nth_load_vector:
  "length xs = w \<Longrightarrow> j < w \<Longrightarrow>
   load_vector w cp n xs ! j = (if w - j \<le> n then char_to_bitval (cp ! (w - 1 - j)) else xs ! j)"
proof (induction w cp n xs rule: load_vector.induct)
  case (2 w cp n xs)
  then show ?case by (cases "w - j = Suc n") (auto simp: nth_list_update)
qed simp

lemma take_vector_full:
  assumes "0 < w" and "length xs = w" and "length ys = w"
  shows "take_vector w (msb_first w xs) ys = Done xs"
proof -
  have "load_vector w (msb_first w xs) w ys = xs"
    by (rule nth_equalityI) (use assms in \<open>simp_all add: nth_load_vector msb_first_def\<close>)
  with assms(1) show ?thesis by (simp add: take_vector_def)
qed

text \<open>A word vector driven by the host reaches the device unchanged. The \<open>DATA_O\<close> vector of
  the host's READY command (its last signal), handed to a device of the same width, makes the device's
  \<open>simbus_p2p_out_peek\<close> return no unknown bit and the bits the host drove.\<close>

theorem p2p_link:
  assumes "p2p_wf host" and "p2p_wf dev" and "width_o dev = width_o host" and "0 < width_o host"
    and "width_o host \<le> 32 * length data" and "length old = length data" and "ident host = 0"
  shows "\<exists>host' dev' res pre vec. simbus_p2p_out host data = Done host'
    \<and> ready_message_p2p host' = pre @ '' DATA_O='' @ vec @ [NL]
    \<and> on_signal_p2p dev ''DATA_O'' vec = Done dev'
    \<and> simbus_p2p_out_peek dev' old = Done (0, res)
    \<and> (\<forall>i < width_o host. bit (res ! (i div 32)) (i mod 32) = bit (data ! (i div 32)) (i mod 32))"
proof -
  let ?d = "driven data (width_o host)"
  have len: "length ?d = width_o host" by (simp add: driven_def)
  have out: "simbus_p2p_out host data = Done (host\<lparr>data_o := ?d\<rparr>)"
    using assms(1,5) drive_all [of "data_o host" "width_o host" data]
    by (simp add: simbus_p2p_out_def p2p_wf_def)
  have sig: "on_signal_p2p dev ''DATA_O'' (msb_first (width_o host) ?d) = Done (dev\<lparr>data_o := ?d\<rparr>)"
    using assms(2,3,4) len by (simp add: on_signal_p2p_def take_vector_full p2p_wf_def)
  obtain res where f: "fold (collect_step ?d) [0..<width_o host] (0, old) = (0, res)"
    and b: "\<forall>i < width_o host. bit (res ! (i div 32)) (i mod 32) = bit (data ! (i div 32)) (i mod 32)"
    using collect_driven [OF assms(5,6)] by blast
  have "simbus_p2p_out_peek (dev\<lparr>data_o := ?d\<rparr>) old = Done (0, res)"
    using assms(3,5,6) f by (simp add: simbus_p2p_out_peek_def)
  moreover have "\<exists>pre. ready_message_p2p (host\<lparr>data_o := ?d\<rparr>)
      = pre @ '' DATA_O='' @ msb_first (width_o host) ?d @ [NL]"
    using assms(4,7) unfolding ready_message_p2p_def by simp
  ultimately show ?thesis using out sig b by blast
qed

theorem p2p_link_witness:
  "\<exists>host' dev' res pre vec. simbus_p2p_out demo_p2p [5] = Done host'
    \<and> ready_message_p2p host' = pre @ '' DATA_O='' @ vec @ [NL]
    \<and> on_signal_p2p (demo_p2p\<lparr>ident := 1\<rparr>) ''DATA_O'' vec = Done dev'
    \<and> simbus_p2p_out_peek dev' [0] = Done (0, res)
    \<and> (\<forall>i < 3. bit (res ! (i div 32)) (i mod 32) = bit ([5 :: u32] ! (i div 32)) (i mod 32))"
  using p2p_link [of demo_p2p "demo_p2p\<lparr>ident := 1\<rparr>" "[5]" "[0]"]
  by (simp add: demo_p2p_def p2p_wf_def)

text \<open>A vector shorter than the bus lands on the top lines. The first character goes to the top
  line, and the low \<open>w - length cp\<close> lines keep whatever they had before, except for those the X
  padding loop, which starts at line \<open>length cp\<close>, has reached.\<close>

theorem short_vector_at_top:
  assumes "length xs = w" and "0 < length cp" and "length cp \<le> w"
  shows "\<exists>ys. take_vector w cp xs = Done ys \<and> length ys = w
    \<and> (\<forall>k < length cp. ys ! (w - 1 - k) = char_to_bitval (cp ! k))
    \<and> (\<forall>j < w - length cp. ys ! j = (if length cp \<le> j then BIT_X else xs ! j))"
  using assms by (auto simp: take_vector_def nth_load_vector nth_fill_bits)

theorem short_vector_at_top_witness:
  "\<exists>ys. take_vector 4 ''1'' [BIT_1, BIT_1, BIT_0, BIT_0] = Done ys \<and> ys ! 3 = BIT_1 \<and> ys ! 0 = BIT_1
     \<and> ys ! 1 = BIT_X"
  using short_vector_at_top [of "[BIT_1, BIT_1, BIT_0, BIT_0]" 4 "''1''"]
  by (auto simp: char_to_bitval_def)

section \<open>The READY command\<close>

lemma length_ready_message:
  assumes "p2p_wf bus"
  shows "length (ready_message_p2p bus) \<le> 61 + max (width_o bus) (width_i bus)"
    and "length (ready_message_p2p bus) \<ge> (if ident bus = 0 then width_o bus else width_i bus)"
  using assms length_time_token [of "bus_time bus"]
  by (auto simp: ready_message_p2p_def ready_prefix_def p2p_wf_def max_def)

text \<open>C33: The 4096-byte command buffer is large enough for every bus of up to 4034 lines, and the
  exchange is undefined (the buffer overflows) for a host of 4096 output lines or more.\<close>

theorem p2p_buffer:
  assumes "p2p_wf bus"
  shows "(width_o bus \<le> 4034 \<and> width_i bus \<le> 4034 \<longrightarrow> length (ready_message_p2p bus) + 1 \<le> buf_size)
    \<and> (ident bus = 0 \<and> 4096 \<le> width_o bus \<longrightarrow> send_ready_p2p bus = Stop Undefined)"
  using length_ready_message [OF assms]
  by (auto simp: buf_size_def send_ready_p2p_def ready_exchange_def c_defined_def max_def split: if_splits)

theorem p2p_buffer_witness:
  "length (ready_message_p2p demo_p2p) + 1 \<le> buf_size"
  using p2p_buffer [of demo_p2p] by (simp add: demo_p2p_def p2p_wf_def)

section \<open>Clock edges\<close>

lemma posedge_level:
  "ret (posedge_cycles (Suc n) (rc, b)) (\<lambda>(rc, t). rc < 0 \<or> clock t = BIT_1)"
proof (induction n arbitrary: rc b)
  case 0
  have "posedge_cycles 0 = Done" by (rule ext) simp
  then show ?case by (simp del: ret_obind) (blast intro: ret_any p2p_spin_level)
next
  case (Suc n)
  show ?case
    by (subst posedge_cycles.simps) (simp del: ret_obind posedge_cycles.simps, blast intro: ret_any ret_any2 Suc)
qed

lemma negedge_level:
  "ret (negedge_cycles (Suc n) (rc, b)) (\<lambda>(rc, t). rc < 0 \<or> clock t = BIT_0)"
proof (induction n arbitrary: rc b)
  case 0
  have "negedge_cycles 0 = Done" by (rule ext) simp
  then show ?case by (simp del: ret_obind) (blast intro: ret_any p2p_spin_level)
next
  case (Suc n)
  show ?case
    by (subst negedge_cycles.simps) (simp del: ret_obind negedge_cycles.simps, blast intro: ret_any ret_any2 Suc)
qed

text \<open>The result of a clock function is 0 or the end-of-simulation code.\<close>

lemma posedge_code:
  "rc = 0 \<or> rc = -1 \<Longrightarrow> ret (posedge_cycles n (rc, b)) (\<lambda>(rc, t). rc = 0 \<or> rc = -1)"
  by (induction n arbitrary: rc b)
    (auto simp del: ret_obind intro!: ret_seq2 [OF p2p.spin_rc_code])

lemma negedge_code:
  "rc = 0 \<or> rc = -1 \<Longrightarrow> ret (negedge_cycles n (rc, b)) (\<lambda>(rc, t). rc = 0 \<or> rc = -1)"
  by (induction n arbitrary: rc b)
    (auto simp del: ret_obind intro!: ret_seq2 [OF p2p.spin_rc_code])


lemma p2p_posedge_fuel: "posedge_cycles n p \<noteq> Stop Out_of_fuel"
  by (induction n p rule: posedge_cycles.induct) (auto simp: obind_eq_Stop p2p.spin_rc_fuel)

lemma p2p_negedge_fuel: "negedge_cycles n p \<noteq> Stop Out_of_fuel"
  by (induction n p rule: negedge_cycles.induct) (auto simp: obind_eq_Stop p2p.spin_rc_fuel)

text \<open>The budget never cuts off a wait for positive clock edges, and when it
  returns either the simulation was finished (-1), or the result is 0 and the clock is high.\<close>

lemma p2p_posedge:
  assumes "0 < cycles"
  shows "simbus_p2p_clock_posedge bus cycles \<noteq> Stop Out_of_fuel
    \<and> (\<forall>rc bus'. simbus_p2p_clock_posedge bus cycles = Done (rc, bus') \<longrightarrow>
         rc = -1 \<or> rc = 0 \<and> clock bus' = BIT_1)"
proof -
  obtain n where "cycles = Suc n" using assms by (cases cycles) auto
  then show ?thesis
    using posedge_level [of n 0 bus] posedge_code [of 0 cycles bus] p2p_posedge_fuel
    by (fastforce simp: simbus_p2p_clock_posedge_def ret_def simp del: posedge_cycles.simps)
qed

text \<open>The same for negative edges.\<close>

lemma p2p_negedge:
  assumes "0 < cycles"
  shows "simbus_p2p_clock_negedge bus cycles \<noteq> Stop Out_of_fuel
    \<and> (\<forall>rc bus'. simbus_p2p_clock_negedge bus cycles = Done (rc, bus') \<longrightarrow>
         rc = -1 \<or> rc = 0 \<and> clock bus' = BIT_0)"
proof -
  obtain n where "cycles = Suc n" using assms by (cases cycles) auto
  then show ?thesis
    using negedge_level [of n 0 bus] negedge_code [of 0 cycles bus] p2p_negedge_fuel
    by (fastforce simp: simbus_p2p_clock_negedge_def ret_def simp del: negedge_cycles.simps)
qed

text \<open>The server's half of a clock: an answer that only sets the clock.\<close>

definition tick :: "simbus_time \<Rightarrow> bitval \<Rightarrow> read_event" where
  "tick t v = answer [''UNTIL'', time_token t, ''CLOCK='' @ [bitval_to_char v]]"

lemma plain_time_token: "plain_token (time_token t)"
proof -
  have "c \<noteq> CHR '' '' \<and> c \<noteq> NUL \<and> c \<noteq> NL" if "c \<in> set (dec_nat n)" for c n
    using dec_nat_digits [of n] that digit_neq [of c] by (simp add: list_all_iff)
  then show ?thesis
    by (auto simp: plain_token_def time_token_def dec_int_def NUL_def NL_def split: if_splits)
qed

definition p2p_fits :: "simbus_p2p \<Rightarrow> bool" where
  "p2p_fits bus \<longleftrightarrow> p2p_wf bus \<and> width_o bus \<le> 4034 \<and> width_i bus \<le> 4034 \<and> wr (fd bus) = []"

lemma fits_message: "p2p_fits bus \<Longrightarrow> length (ready_message_p2p bus) + 1 \<le> buf_size"
  using length_ready_message(1) [of bus] by (auto simp: p2p_fits_def buf_size_def max_def split: if_splits)

lemma send_ready_tick:
  assumes "p2p_fits bus" and "rx (fd bus) = tick t v # es" and "time_ok t"
  shows "\<exists>bus'. send_ready_p2p bus = Done (0, bus') \<and> p2p_fits bus' \<and> rx (fd bus') = es \<and> clock bus' = v"
proof -
  let ?sigs = "[''CLOCK='' @ [bitval_to_char v]]"
  note fit = fits_message [OF assms(1)]
  have len: "length (join_tokens (''UNTIL'' # time_token t # ?sigs)) + 1 < buf_size"
    using length_time_token [OF assms(3)] by (simp add: buf_size_def)
  have plain: "list_all plain_token (''UNTIL'' # time_token t # ?sigs)"
    using bitval_to_char_plain [of v] by (simp add: plain_time_token) (simp add: plain_token_def NUL_def NL_def)
  have "send_ready_p2p bus = obind (each_signal on_signal_p2p ?sigs
      (bus\<lparr>fd := (fd bus)\<lparr>rx := es, tx := tx (fd bus) @ [ready_message_p2p bus]\<rparr>, bus_time := t\<rparr>))
      (\<lambda>s'. Done (0, s'))"
    unfolding send_ready_p2p_def
    by (subst ready_exchange_answer [where t = t and sigs = ?sigs and es = es])
      (use assms fit len plain in \<open>simp_all add: p2p_fits_def tick_def max_argc_def\<close>)
  also have "\<dots> = Done (0, bus\<lparr>fd := (fd bus)\<lparr>rx := es, tx := tx (fd bus) @ [ready_message_p2p bus]\<rparr>,
      bus_time := t, clock := v\<rparr>)"
    by (simp add: on_signal_p2p_def char0_def)
  finally show ?thesis using assms(1,3) by (simp add: p2p_fits_def p2p_wf_def)
qed

lemma p2p_wait_tick:
  assumes "p2p_fits bus" and "rx (fd bus) = tick t v # es" and "time_ok t" and "clock bus \<noteq> v"
  shows "\<exists>bus'. spin_rc fd send_ready_p2p (\<lambda>b. clock b \<noteq> v) (0, bus) = Done (0, bus')
    \<and> p2p_fits bus' \<and> rx (fd bus') = es \<and> clock bus' = v"
proof -
  obtain bus' where "send_ready_p2p bus = Done (0, bus')" "p2p_fits bus'" "rx (fd bus') = es" "clock bus' = v"
    using send_ready_tick [OF assms(1-3)] by blast
  with assms(4) show ?thesis
    by (simp add: p2p.spin_rc_unfold)
qed

lemma posedge_ticks:
  assumes "time_ok t"
  shows "p2p_fits bus \<Longrightarrow> clock bus \<noteq> BIT_0
    \<Longrightarrow> rx (fd bus) = concat (replicate n [tick t BIT_0, tick t BIT_1]) @ es
    \<Longrightarrow> \<exists>bus'. posedge_cycles n (0, bus) = Done (0, bus') \<and> rx (fd bus') = es \<and> clock bus' \<noteq> BIT_0"
proof (induction n arbitrary: bus)
  case (Suc n)
  obtain b1 where b1: "spin_rc fd send_ready_p2p (\<lambda>b. clock b \<noteq> BIT_0) (0, bus) = Done (0, b1)"
      "p2p_fits b1" "clock b1 = BIT_0"
      "rx (fd b1) = tick t BIT_1 # concat (replicate n [tick t BIT_0, tick t BIT_1]) @ es"
    using p2p_wait_tick [OF Suc.prems(1) _ assms Suc.prems(2)] Suc.prems(3) by auto
  obtain b2 where b2: "spin_rc fd send_ready_p2p (\<lambda>b. clock b \<noteq> BIT_1) (0, b1) = Done (0, b2)"
      "p2p_fits b2" "clock b2 = BIT_1"
      "rx (fd b2) = concat (replicate n [tick t BIT_0, tick t BIT_1]) @ es"
    using p2p_wait_tick [OF b1(2,4) assms] b1(3) by auto
  with Suc.IH [OF b2(2) _ b2(4)] b1(1) show ?case by simp
qed simp

text \<open>Against a server that toggles the clock, waiting for \<open>n\<close> positive edges succeeds and
  consumes exactly \<open>n\<close> low and \<open>n\<close> high answers.\<close>

theorem p2p_posedge_live:
  assumes "p2p_fits bus" and "clock bus \<noteq> BIT_0" and "time_ok t"
    and "rx (fd bus) = concat (replicate n [tick t BIT_0, tick t BIT_1]) @ es"
  shows "\<exists>bus'. simbus_p2p_clock_posedge bus n = Done (0, bus') \<and> rx (fd bus') = es"
  using posedge_ticks [OF assms(3,1,2,4)] by (auto simp: simbus_p2p_clock_posedge_def)

lemma demo_fits [simp]: "p2p_fits (demo_p2p\<lparr>fd := script es\<rparr>)"
  by (simp add: p2p_fits_def p2p_wf_def demo_p2p_def)

theorem p2p_posedge_live_witness:
  "\<exists>bus'. simbus_p2p_clock_posedge
      (demo_p2p\<lparr>fd := script (concat (replicate 2 [tick init_simbus_time BIT_0, tick init_simbus_time BIT_1]) @ [Rd_error])\<rparr>) 2
    = Done (0, bus') \<and> rx (fd bus') = [Rd_error]"
  by (rule p2p_posedge_live [where t = init_simbus_time, OF demo_fits]) (simp_all add: demo_p2p_def)

text \<open>When the server answers FINISH, every clock function reports the end of the simulation (-1).\<close>

lemma p2p_finish:
  assumes "p2p_fits bus" and "rx (fd bus) = answer [''FINISH''] # es" and "clock bus \<noteq> BIT_0"
  shows "\<exists>bus'. simbus_p2p_clock_posedge bus (Suc n) = Done (-1, bus')"
proof -
  from ready_exchange_finish [where fd_of = fd, OF fits_message [OF assms(1)] _ assms(2)] assms(1)
  obtain bus' where r: "send_ready_p2p bus = Done (-1, bus')"
    by (auto simp: send_ready_p2p_def p2p_fits_def)
  have "posedge_cycles n (-1, bus') = Done (-1, bus')" by (cases n) simp_all
  with r assms(3) show ?thesis
    by (simp add: simbus_p2p_clock_posedge_def p2p.spin_rc_unfold)
qed

end
