(* ===== verification/Sim_Server_P2P.thy ===== *)
theory Sim_Server_P2P
  imports Sim_P2P Sim_Server_PCI_Bus
begin

text \<open>
  A point-to-point bus end to end: the host program and the device program, both on the client library
  (libsimbus/simbus_p2p.c), and the server between them (server/client.cc, server/PointToPoint.cc,
  server/protocol.cc).  \<open>link_cycle\<close> is one cycle of the bus: both READY commands are read, the bus
  makes a step, and both clients take in their UNTIL line.
\<close>

section \<open>One cycle\<close>

definition answered :: "string \<Rightarrow> simbus_p2p \<Rightarrow> simbus_p2p" where
  "answered line s = s\<lparr>fd := (fd s)\<lparr>rx := [Rd_data (line @ [NL])], wr := []\<rparr>\<rparr>"

definition link_cycle ::
  "(int \<Rightarrow> string \<Rightarrow> int) \<Rightarrow> int \<times> client_state \<Rightarrow> int \<times> client_state \<Rightarrow> point_to_point \<Rightarrow> 'e bus_state
    \<Rightarrow> simbus_p2p \<Rightarrow> simbus_p2p \<Rightarrow> (point_to_point \<times> 'e bus_state \<times> (int \<times> simbus_p2p) \<times> (int \<times> simbus_p2p)) outcome" where
  "link_cycle os_write hcl dcl e b host dev =
     obind (read_from_socket os_write (fst hcl) (Data (ready_message_p2p host)) (snd hcl) b) (\<lambda>(_, b1, _).
     obind (read_from_socket os_write (fst dcl) (Data (ready_message_p2p dev)) (snd dcl) b1) (\<lambda>(_, b2, _).
     obind (pp_run_run e b2) (\<lambda>(e', b3).
       case (map_of (device_map b3) (pp_master e'), map_of (device_map b3) (pp_slave e')) of
         (Some mp, Some sp) \<Rightarrow>
           obind (send_ready_p2p (answered (until_line (cur_time b3) (send_signals mp)) host)) (\<lambda>h.
           obind (send_ready_p2p (answered (until_line (cur_time b3) (send_signals sp)) dev)) (\<lambda>d.
             Done (e', b3, h, d)))
       | _ \<Rightarrow> Stop Undefined)))"

section \<open>The messages\<close>

lemma ready_message_ends:
  assumes "p2p_wf s"
  shows "ident s = 0 \<Longrightarrow> 0 < width_o s \<Longrightarrow>
      ready_message_p2p s = ready_message (bus_time s) [(''CLOCK_MODE'', clock_mode s), (''DATA_O'', data_o s)]"
    and "ident s \<noteq> 0 \<Longrightarrow> 0 < width_i s \<Longrightarrow> ready_message_p2p s = ready_message (bus_time s) [(''DATA_I'', data_i s)]"
proof -
  have "msb_first 2 (clock_mode s) = [bitval_to_char (clock_mode s ! 1), bitval_to_char (clock_mode s ! 0)]"
    by (simp add: msb_first_def upt_rec)
  with assms show "ident s = 0 \<Longrightarrow> 0 < width_o s \<Longrightarrow>
      ready_message_p2p s = ready_message (bus_time s) [(''CLOCK_MODE'', clock_mode s), (''DATA_O'', data_o s)]"
    by (simp add: ready_message_p2p_def ready_message_def ready_signal_def p2p_wf_def)
  show "ident s \<noteq> 0 \<Longrightarrow> 0 < width_i s \<Longrightarrow> ready_message_p2p s = ready_message (bus_time s) [(''DATA_I'', data_i s)]"
    using assms by (simp add: ready_message_p2p_def ready_message_def ready_signal_def p2p_wf_def)
qed

lemma bus_names: "signal_name ''CLOCK''" "signal_name ''CLOCK_MODE''" "signal_name ''DATA_O''" "signal_name ''DATA_I''"
  by (simp_all add: signal_name_def white_def NUL_def NL_def)

lemma until_line_time:
  "until_line t sigs = ''UNTIL '' @ time_token \<lparr>time_mant = st_mant t, time_exp = st_exp t\<rparr>
     @ concat (map (\<lambda>(nm, v). '' '' @ nm @ ''='' @ msb_first (length v) v) sigs)"
  by (simp add: until_line_def time_token_def)

text \<open>The client's side: its UNTIL line of a clock and a vector.\<close>

lemma client_cycle:
  assumes wf: "p2p_wf s" and t: "- (2 ^ 31) \<le> st_exp t" "st_exp t < 2 ^ 31"
    and nm: "nm = ''DATA_I'' \<and> length v = width_i s \<or> nm = ''DATA_O'' \<and> length v = width_o s"
    and w: "0 < length v" "width_o s \<le> 4000" "width_i s \<le> 4000"
  shows "\<exists>s'. send_ready_p2p (answered (until_line t [(''CLOCK'', [x]), (nm, v)]) s) = Done (0, s') \<and> p2p_wf s'
    \<and> p2p_config s' = p2p_config s \<and> clock s' = x \<and> bus_time s' = \<lparr>time_mant = st_mant t, time_exp = st_exp t\<rparr>
    \<and> clock_mode s' = clock_mode s
    \<and> data_i s' = (if nm = ''DATA_I'' then v else data_i s) \<and> data_o s' = (if nm = ''DATA_O'' then v else data_o s)"
proof -
  let ?sigs = "[(''CLOCK'', [x]), (nm, v)]" and ?t = "\<lparr>time_mant = st_mant t, time_exp = st_exp t\<rparr>"
  let ?s = "answered (until_line t ?sigs) s"
  have "time_ok ?t" using t by (simp add: time_ok_def)
  from length_time_token [OF this] nm w have len: "length (until_line t ?sigs) + 1 < buf_size"
    by (auto simp: until_line_time buf_size_def)
  have wfs: "p2p_wf ?s" using wf by (simp add: answered_def p2p_wf_def)
  from length_ready_message(1) [OF this] w have buf: "length (ready_message_p2p ?s) < buf_size"
    by (simp add: answered_def buf_size_def)
  let ?s1 = "s\<lparr>fd := (fd s)\<lparr>wr := [], rx := [], tx := tx (fd s) @ [ready_message_p2p ?s]\<rparr>, bus_time := ?t\<rparr>"
  have ex: "send_ready_p2p ?s = obind (deliver on_signal_p2p ?sigs ?s1) (\<lambda>s'. Done (0, s'))"
    unfolding send_ready_p2p_def
    by (subst until_line_received [OF t _ len buf, where es = "[]"]) (use nm bus_names in \<open>auto simp: answered_def\<close>)
  have clk: "on_signal_p2p z ''CLOCK'' (msb_first (Suc 0) [x]) = Done (z\<lparr>clock := x\<rparr>)" for z
    by (simp add: on_signal_p2p_def msb_first_def char0_def)
  have vec: "take_vector (length v) (msb_first (length v) v) ys = Done v" if "length ys = length v" for ys
    by (rule take_vector_full) (use w that in auto)
  show ?thesis
  proof (cases "nm = ''DATA_I''")
    case True
    then have "on_signal_p2p (?s1\<lparr>clock := x\<rparr>) nm (msb_first (length v) v) = Done (?s1\<lparr>clock := x, data_i := v\<rparr>)"
      using nm wf vec [of "data_i s"] by (simp add: on_signal_p2p_def p2p_wf_def)
    then show ?thesis using ex clk True nm wf \<open>time_ok ?t\<close> by (simp add: p2p_wf_def p2p_config_def)
  next
    case False
    then have "on_signal_p2p (?s1\<lparr>clock := x\<rparr>) nm (msb_first (length v) v) = Done (?s1\<lparr>clock := x, data_o := v\<rparr>)"
      using nm wf vec [of "data_o s"] by (simp add: on_signal_p2p_def p2p_wf_def)
    then show ?thesis using ex clk False nm wf \<open>time_ok ?t\<close> by (simp add: p2p_wf_def p2p_config_def)
  qed
qed

section \<open>The server's side\<close>

text \<open>What the server sends on a link once it is initialised.\<close>

definition link_sends :: "string \<Rightarrow> bus_device_plug \<Rightarrow> bool" where
  "link_sends nm p \<longleftrightarrow> (\<exists>x v. send_signals p = [(''CLOCK'', [x]), (nm, v)])"

lemma link_put:
  assumes "link_sends nm p" and "nm \<in> {''DATA_I'', ''DATA_O''}"
  obtains q where "drive0 ''CLOCK'' x p = Done q" "link_sends nm q" "client_signals q = client_signals p"
    "\<And>v. put_send nm v q = p\<lparr>send_signals := [(''CLOCK'', [x]), (nm, v)]\<rparr>"
proof -
  from assms(1) obtain y u where p: "send_signals p = [(''CLOCK'', [y]), (nm, u)]" by (auto simp: link_sends_def)
  have c: "\<not> nm < ''CLOCK''" "nm \<noteq> ''CLOCK''" using assms(2) by (auto simp: list_less_def)
  show thesis
    by (rule that [of "p\<lparr>send_signals := [(''CLOCK'', [x]), (nm, u)]\<rparr>"])
      (use c in \<open>simp_all add: drive0_def entry_def p put_send_def link_sends_def\<close>)
qed

lemma map_of_at_plug: "map_of (device_map (at_plug k f b)) k' = (if k' = k then map_option f (map_of (device_map b) k) else map_of (device_map b) k')"
  by (simp add: at_plug_def map_of_at)

lemma pp_fit_all: "length v = n \<Longrightarrow> pp_fit n v = v"
  by (rule nth_equalityI) (simp_all add: pp_fit_def)

lemma pp_step:
  assumes mp: "map_of (device_map b) (pp_master e) = Some mp" and sp: "map_of (device_map b) (pp_slave e) = Some sp"
    and ne: "pp_master e \<noteq> pp_slave e" and ms: "link_sends ''DATA_I'' mp" and ss: "link_sends ''DATA_O'' sp"
    and cm: "length (in_sig mp ''CLOCK_MODE'') = 2" and wo: "length (in_sig mp ''DATA_O'') = unat (pp_wid_o e)"
    and wi: "length (in_sig sp ''DATA_I'') = unat (pp_wid_i e)"
  shows "\<exists>mode b'. pp_mode_of (in_sig mp ''CLOCK_MODE'') = Done mode
    \<and> pp_run_run e b = Done (e\<lparr>pp_phase := next_phase (pp_phase e), pp_master_clock_mode := mode\<rparr>, b')
    \<and> cur_time b' = simtime_add (cur_time b) \<lparr>st_mant = pp_clock_phase_map e ! next_phase (pp_phase e), st_exp = -12\<rparr>
    \<and> map_of (device_map b') (pp_master e) =
        Some (mp\<lparr>send_signals := [(''CLOCK'', [clock_level (next_phase (pp_phase e))]), (''DATA_I'', in_sig sp ''DATA_I'')]\<rparr>)
    \<and> map_of (device_map b') (pp_slave e) =
        Some (sp\<lparr>send_signals := [(''CLOCK'', [pp_slave_clock (pp_master_clock_mode e) (clock_level (next_phase (pp_phase e)))]),
          (''DATA_O'', in_sig mp ''DATA_O'')]\<rparr>)"
proof -
  let ?clk = "clock_level (next_phase (pp_phase e))"
  let ?b1 = "advance_time (pp_clock_phase_map e ! next_phase (pp_phase e)) (-12) b"
  obtain mq where mq: "drive0 ''CLOCK'' ?clk mp = Done mq" "client_signals mq = client_signals mp"
      "\<And>v. put_send ''DATA_I'' v mq = mp\<lparr>send_signals := [(''CLOCK'', [?clk]), (''DATA_I'', v)]\<rparr>"
    by (rule link_put [OF ms]) auto
  obtain sq where sq: "drive0 ''CLOCK'' (pp_slave_clock (pp_master_clock_mode e) ?clk) sp = Done sq" "client_signals sq = client_signals sp"
      "\<And>v. put_send ''DATA_O'' v sq = sp\<lparr>send_signals := [(''CLOCK'', [pp_slave_clock (pp_master_clock_mode e) ?clk]), (''DATA_O'', v)]\<rparr>"
    by (rule link_put [OF ss]) auto
  have d1: "plug_do (pp_master e) (drive0 ''CLOCK'' ?clk) ?b1 = Done (at_plug (pp_master e) (\<lambda>_. mq) ?b1)"
    using mp mq(1) by (simp add: plug_do_def advanced)
  have d2: "plug_do (pp_slave e) (drive0 ''CLOCK'' (pp_slave_clock (pp_master_clock_mode e) ?clk)) (at_plug (pp_master e) (\<lambda>_. mq) ?b1)
      = Done (at_plug (pp_slave e) (\<lambda>_. sq) (at_plug (pp_master e) (\<lambda>_. mq) ?b1))"
    using sp sq(1) ne by (simp add: plug_do_def map_of_at_plug advanced)
  have at: "map_of (device_map (at_plug (pp_slave e) (\<lambda>_. sq) (at_plug (pp_master e) (\<lambda>_. mq) ?b1))) (pp_master e) = Some mq"
      "map_of (device_map (at_plug (pp_slave e) (\<lambda>_. sq) (at_plug (pp_master e) (\<lambda>_. mq) ?b1))) (pp_slave e) = Some sq"
    using mp sp ne by (simp_all add: map_of_at_plug advanced)
  have "in_sig mp ''CLOCK_MODE'' \<noteq> []" using cm by auto
  then obtain mode where mode: "pp_mode_of (in_sig mp ''CLOCK_MODE'') = Done mode" using cm by (auto simp: pp_mode_of_def Let_def)
  show ?thesis
    using d1 d2 at mode mp sp ne wo wi
    by (simp add: pp_run_run_def Let_def mq(2,3) sq(2,3) map_of_at_plug advanced pp_fit_all)
       (simp add: at_plug_def advance_time_def)
qed

section \<open>The whole link\<close>

text \<open>The two programs and the server's bus belong together: same widths, both connections greeted, the
  bus initialised with the host as master and the device as slave.\<close>

definition p2p_joined :: "client_state \<Rightarrow> client_state \<Rightarrow> point_to_point \<Rightarrow> 'e bus_state \<Rightarrow> simbus_p2p \<Rightarrow> simbus_p2p \<Rightarrow> bool" where
  "p2p_joined hc dc e b host dev \<longleftrightarrow>
     p2p_wf host \<and> p2p_wf dev \<and> ident host = 0 \<and> ident dev \<noteq> 0
     \<and> width_o dev = width_o host \<and> width_i dev = width_i host
     \<and> 0 < width_o host \<and> width_o host \<le> 4000 \<and> 0 < width_i host \<and> width_i host \<le> 4000
     \<and> unat (pp_wid_o e) = width_o host \<and> unat (pp_wid_i e) = width_i host
     \<and> - (2 ^ 31) \<le> st_exp (cur_time b) \<and> st_exp (cur_time b) < 2 ^ 31
     \<and> cl_buffer hc = [] \<and> cl_dev_name hc \<noteq> [] \<and> cl_interface hc = Some (pp_master e)
     \<and> cl_buffer dc = [] \<and> cl_dev_name dc \<noteq> [] \<and> cl_interface dc = Some (pp_slave e) \<and> pp_master e \<noteq> pp_slave e
     \<and> (\<exists>mp. map_of (device_map b) (pp_master e) = Some mp \<and> link_sends ''DATA_I'' mp)
     \<and> (\<exists>sp. map_of (device_map b) (pp_slave e) = Some sp \<and> link_sends ''DATA_O'' sp)"

text \<open>The server takes in a READY command of the link.\<close>

lemma link_ready_stored:
  assumes "time_ok t" and "distinct (map fst sigs)" and "\<forall>(nm, v) \<in> set sigs. signal_name nm"
    and "length (ready_message t sigs) < buf_size" and "cl_buffer c = []" and "cl_dev_name c \<noteq> []"
    and "cl_interface c = Some k" and "map_of (device_map b) k = Some p"
  obtains p' b' where "read_from_socket os_write sock (Data (ready_message t sigs)) c b = Done (c, b', [])"
    "map_of (device_map b') k = Some p'" "\<And>k'. k' \<noteq> k \<Longrightarrow> map_of (device_map b') k' = map_of (device_map b) k'"
    "cur_time b' = cur_time b" "\<forall>(nm, v) \<in> set sigs. in_sig p' nm = v" "send_signals p' = send_signals p"
proof -
  from ready_command_stored [OF assms, of os_write sock] obtain p' where
    r: "read_from_socket os_write sock (Data (ready_message t sigs)) c b = Done (c, at_plug k (\<lambda>_. p') b, [])"
    and "\<forall>(nm, v) \<in> set sigs. in_sig p' nm = v" "send_signals p' = send_signals p" by blast
  moreover have "cur_time (at_plug k (\<lambda>_. p') b) = cur_time b" by (simp add: at_plug_def)
  ultimately show thesis using assms(8) by (intro that [OF r, of p']) (simp_all add: map_of_at_plug)
qed

lemma advanced_exp:
  assumes "- (2 ^ 31) \<le> st_exp t" and "st_exp t < 2 ^ 31"
  shows "- (2 ^ 31) \<le> st_exp (simtime_add t \<lparr>st_mant = d, st_exp = -12\<rparr>) \<and> st_exp (simtime_add t \<lparr>st_mant = d, st_exp = -12\<rparr>) < 2 ^ 31"
  using assms by (simp add: simtime_add_def Let_def)

lemma ready_fits:
  assumes "p2p_wf s" and "width_o s \<le> 4000" and "width_i s \<le> 4000"
  shows "length (ready_message_p2p s) < buf_size"
  using length_ready_message(1) [OF assms(1)] assms(2,3) by (simp add: buf_size_def)

text \<open>The server's half of a cycle: it reads both commands and makes a step.\<close>

lemma server_half:
  assumes j: "p2p_joined hc dc e b host dev"
  obtains mode b1 b2 b3 mp sp where "pp_mode_of (clock_mode host) = Done mode"
    "read_from_socket os_write hfd (Data (ready_message_p2p host)) hc b = Done (hc, b1, [])"
    "read_from_socket os_write dfd (Data (ready_message_p2p dev)) dc b1 = Done (dc, b2, [])"
    "pp_run_run e b2 = Done (e\<lparr>pp_phase := next_phase (pp_phase e), pp_master_clock_mode := mode\<rparr>, b3)"
    "cur_time b3 = simtime_add (cur_time b) \<lparr>st_mant = pp_clock_phase_map e ! next_phase (pp_phase e), st_exp = -12\<rparr>"
    "map_of (device_map b3) (pp_master e) = Some mp" "map_of (device_map b3) (pp_slave e) = Some sp"
    "send_signals mp = [(''CLOCK'', [clock_level (next_phase (pp_phase e))]), (''DATA_I'', data_i dev)]"
    "send_signals sp = [(''CLOCK'', [pp_slave_clock (pp_master_clock_mode e) (clock_level (next_phase (pp_phase e)))]),
       (''DATA_O'', data_o host)]"
proof -
  let ?m = "pp_master e" and ?s = "pp_slave e"
  from j obtain mp sp where mp: "map_of (device_map b) ?m = Some mp" "link_sends ''DATA_I'' mp"
    and sp: "map_of (device_map b) ?s = Some sp" "link_sends ''DATA_O'' sp" and ne: "?m \<noteq> ?s" by (auto simp: p2p_joined_def)
  from j have wf: "p2p_wf host" "p2p_wf dev" and ids: "ident host = 0" "ident dev \<noteq> 0"
    and w: "width_o dev = width_o host" "width_i dev = width_i host" "0 < width_o host" "width_o host \<le> 4000" "0 < width_i host" "width_i host \<le> 4000"
    and we: "unat (pp_wid_o e) = width_o host" "unat (pp_wid_i e) = width_i host"
    and hc: "cl_buffer hc = []" "cl_dev_name hc \<noteq> []" "cl_interface hc = Some ?m"
    and dc: "cl_buffer dc = []" "cl_dev_name dc \<noteq> []" "cl_interface dc = Some ?s" by (simp_all add: p2p_joined_def)
  note hm = ready_message_ends(1) [OF wf(1) ids(1) w(3)]
  have dm: "ready_message_p2p dev = ready_message (bus_time dev) [(''DATA_I'', data_i dev)]"
    using w by (intro ready_message_ends(2) [OF wf(2) ids(2)]) simp
  have len: "length (ready_message_p2p host) < buf_size" "length (ready_message_p2p dev) < buf_size"
    using ready_fits wf w by simp_all
  have tok: "time_ok (bus_time host)" "time_ok (bus_time dev)" using wf by (simp_all add: p2p_wf_def)
  obtain mp1 b1 where r1: "read_from_socket os_write hfd (Data (ready_message_p2p host)) hc b = Done (hc, b1, [])"
    and b1: "map_of (device_map b1) ?m = Some mp1" "\<And>k'. k' \<noteq> ?m \<Longrightarrow> map_of (device_map b1) k' = map_of (device_map b) k'"
      "cur_time b1 = cur_time b" "\<forall>(nm, v) \<in> set [(''CLOCK_MODE'', clock_mode host), (''DATA_O'', data_o host)]. in_sig mp1 nm = v"
      "send_signals mp1 = send_signals mp"
    unfolding hm by (rule link_ready_stored [OF tok(1) _ _ len(1) [unfolded hm] hc mp(1)]) (auto simp: bus_names)
  have s1: "map_of (device_map b1) ?s = Some sp" using b1(2) [of ?s] ne sp(1) by simp
  obtain sp2 b2 where r2: "read_from_socket os_write dfd (Data (ready_message_p2p dev)) dc b1 = Done (dc, b2, [])"
    and b2: "map_of (device_map b2) ?s = Some sp2" "\<And>k'. k' \<noteq> ?s \<Longrightarrow> map_of (device_map b2) k' = map_of (device_map b1) k'"
      "cur_time b2 = cur_time b1" "\<forall>(nm, v) \<in> set [(''DATA_I'', data_i dev)]. in_sig sp2 nm = v" "send_signals sp2 = send_signals sp"
    unfolding dm by (rule link_ready_stored [OF tok(2) _ _ len(2) [unfolded dm] dc s1]) (auto simp: bus_names)
  have m2: "map_of (device_map b2) ?m = Some mp1" using b2(2) [of ?m] ne b1(1) by simp
  have ins: "in_sig mp1 ''CLOCK_MODE'' = clock_mode host" "in_sig mp1 ''DATA_O'' = data_o host" "in_sig sp2 ''DATA_I'' = data_i dev"
    using b1(4) b2(4) by auto
  have sends: "link_sends ''DATA_I'' mp1" "link_sends ''DATA_O'' sp2" using mp(2) sp(2) b1(5) b2(5) by (simp_all add: link_sends_def)
  have lens: "length (in_sig mp1 ''CLOCK_MODE'') = 2" "length (in_sig mp1 ''DATA_O'') = unat (pp_wid_o e)"
      "length (in_sig sp2 ''DATA_I'') = unat (pp_wid_i e)" using wf w we by (simp_all add: ins p2p_wf_def)
  from pp_step [OF m2 b2(1) ne sends lens] that [OF _ r1 r2] show thesis by (auto simp: ins b1(3) b2(3))
qed

lemma cycle_effect:
  assumes j: "p2p_joined hc dc e b host dev"
  shows "\<exists>mode b' host' dev'. pp_mode_of (clock_mode host) = Done mode
    \<and> link_cycle os_write (hfd, hc) (dfd, dc) e b host dev
      = Done (e\<lparr>pp_phase := next_phase (pp_phase e), pp_master_clock_mode := mode\<rparr>, b', (0, host'), (0, dev'))
    \<and> p2p_joined hc dc (e\<lparr>pp_phase := next_phase (pp_phase e), pp_master_clock_mode := mode\<rparr>) b' host' dev'
    \<and> data_o dev' = data_o host \<and> data_i host' = data_i dev \<and> data_o host' = data_o host \<and> data_i dev' = data_i dev
    \<and> clock host' = clock_level (next_phase (pp_phase e))
    \<and> clock dev' = pp_slave_clock (pp_master_clock_mode e) (clock_level (next_phase (pp_phase e)))
    \<and> cur_time b' = simtime_add (cur_time b) \<lparr>st_mant = pp_clock_phase_map e ! next_phase (pp_phase e), st_exp = -12\<rparr>
    \<and> bus_time host' = \<lparr>time_mant = st_mant (cur_time b'), time_exp = st_exp (cur_time b')\<rparr> \<and> bus_time dev' = bus_time host'
    \<and> clock_mode host' = clock_mode host \<and> p2p_config host' = p2p_config host \<and> p2p_config dev' = p2p_config dev"
proof -
  let ?clk = "clock_level (next_phase (pp_phase e))"
  let ?clk' = "pp_slave_clock (pp_master_clock_mode e) ?clk"
  obtain mode b1 b2 b3 mp sp where mode: "pp_mode_of (clock_mode host) = Done mode"
    and r: "read_from_socket os_write hfd (Data (ready_message_p2p host)) hc b = Done (hc, b1, [])"
      "read_from_socket os_write dfd (Data (ready_message_p2p dev)) dc b1 = Done (dc, b2, [])"
    and run: "pp_run_run e b2 = Done (e\<lparr>pp_phase := next_phase (pp_phase e), pp_master_clock_mode := mode\<rparr>, b3)"
    and t3: "cur_time b3 = simtime_add (cur_time b) \<lparr>st_mant = pp_clock_phase_map e ! next_phase (pp_phase e), st_exp = -12\<rparr>"
    and p3: "map_of (device_map b3) (pp_master e) = Some mp" "map_of (device_map b3) (pp_slave e) = Some sp"
    and s3: "send_signals mp = [(''CLOCK'', [?clk]), (''DATA_I'', data_i dev)]" "send_signals sp = [(''CLOCK'', [?clk']), (''DATA_O'', data_o host)]"
    by (rule server_half [OF j])
  from j have wf: "p2p_wf host" "p2p_wf dev" and w: "width_o dev = width_o host" "width_i dev = width_i host"
      "0 < width_o host" "width_o host \<le> 4000" "0 < width_i host" "width_i host \<le> 4000"
    and t: "- (2 ^ 31) \<le> st_exp (cur_time b)" "st_exp (cur_time b) < 2 ^ 31" by (simp_all add: p2p_joined_def)
  have t4: "- (2 ^ 31) \<le> st_exp (cur_time b3)" "st_exp (cur_time b3) < 2 ^ 31" using advanced_exp [OF t] by (simp_all add: t3)
  obtain host' where h: "send_ready_p2p (answered (until_line (cur_time b3) (send_signals mp)) host) = Done (0, host')"
    "p2p_wf host'" "p2p_config host' = p2p_config host" "clock host' = ?clk" "bus_time host' = \<lparr>time_mant = st_mant (cur_time b3), time_exp = st_exp (cur_time b3)\<rparr>"
    "clock_mode host' = clock_mode host" "data_i host' = data_i dev" "data_o host' = data_o host"
    using client_cycle [OF wf(1) t4, of "''DATA_I''" "data_i dev" ?clk] wf w by (auto simp: p2p_wf_def s3)
  obtain dev' where d: "send_ready_p2p (answered (until_line (cur_time b3) (send_signals sp)) dev) = Done (0, dev')"
    "p2p_wf dev'" "p2p_config dev' = p2p_config dev" "clock dev' = ?clk'" "bus_time dev' = \<lparr>time_mant = st_mant (cur_time b3), time_exp = st_exp (cur_time b3)\<rparr>"
    "data_i dev' = data_i dev" "data_o dev' = data_o host"
    using client_cycle [OF wf(2) t4, of "''DATA_O''" "data_o host" ?clk'] wf w by (auto simp: p2p_wf_def s3)
  have "link_cycle os_write (hfd, hc) (dfd, dc) e b host dev
      = Done (e\<lparr>pp_phase := next_phase (pp_phase e), pp_master_clock_mode := mode\<rparr>, b3, (0, host'), (0, dev'))"
    using r run p3 h(1) d(1) by (simp add: link_cycle_def)
  moreover have "p2p_joined hc dc (e\<lparr>pp_phase := next_phase (pp_phase e), pp_master_clock_mode := mode\<rparr>) b3 host' dev'"
    using j h(2,3) d(2,3) t4 p3 s3 by (simp add: p2p_joined_def p2p_config_def link_sends_def)
  ultimately show ?thesis using mode h d t3 by (intro exI [of _ mode] exI [of _ b3] exI [of _ host'] exI [of _ dev']) simp
qed

lemma out_driven:
  assumes "p2p_wf s" and "simbus_p2p_out s ws = Done s'"
  shows "s' = s\<lparr>data_o := driven ws (width_o s)\<rparr> \<and> width_o s \<le> 32 * length ws"
  using assms by (auto simp: simbus_p2p_out_def p2p_wf_def drive_all)

lemma in_driven:
  assumes "p2p_wf s" and "simbus_p2p_in_poke s ws = Done s'"
  shows "s' = s\<lparr>data_i := driven ws (width_i s)\<rparr> \<and> width_i s \<le> 32 * length ws"
  using assms by (auto simp: simbus_p2p_in_poke_def p2p_wf_def drive_all)

text \<open>C4: Point-to-point busses work end to end. The host program drives words with \<open>simbus_p2p_out\<close> and the
  device program with \<open>simbus_p2p_in_poke\<close>; after one cycle through the sockets and the server, both
  exchanges have succeeded, \<open>simbus_p2p_out_peek\<close> of the device returns the host's bits and
  \<open>simbus_p2p_in\<close> of the host returns the device's bits, with no unknown bit; the host sees the bus clock,
  the device the same clock under the clock mode the host asked for before, both have the bus time
  of the server, and the link is ready for the next cycle.\<close>

theorem p2p_through_server:
  assumes "p2p_joined hc dc e b host dev" and "simbus_p2p_out host od = Done host1" and "simbus_p2p_in_poke dev ind = Done dev1"
    and "length old = length od" and "length old' = length ind"
  shows "\<exists>e' b' host' dev' res res'.
    link_cycle os_write (hfd, hc) (dfd, dc) e b host1 dev1 = Done (e', b', (0, host'), (0, dev'))
    \<and> simbus_p2p_out_peek dev' old = Done (0, res)
    \<and> (\<forall>i < width_o host. bit (res ! (i div 32)) (i mod 32) = bit (od ! (i div 32)) (i mod 32))
    \<and> simbus_p2p_in host' old' = Done (0, res')
    \<and> (\<forall>i < width_i host. bit (res' ! (i div 32)) (i mod 32) = bit (ind ! (i div 32)) (i mod 32))
    \<and> clock host' = clock_level (next_phase (pp_phase e))
    \<and> clock dev' = pp_slave_clock (pp_master_clock_mode e) (clock_level (next_phase (pp_phase e)))
    \<and> bus_time host' = \<lparr>time_mant = st_mant (cur_time b'), time_exp = st_exp (cur_time b')\<rparr> \<and> bus_time dev' = bus_time host'
    \<and> p2p_joined hc dc e' b' host' dev'"
proof -
  have wf: "p2p_wf host" "p2p_wf dev" and w: "width_o dev = width_o host" "width_i dev = width_i host"
    using assms(1) by (simp_all add: p2p_joined_def)
  from out_driven [OF wf(1) assms(2)] have host1: "host1 = host\<lparr>data_o := driven od (width_o host)\<rparr>" and lo: "width_o host \<le> 32 * length od" by simp_all
  from in_driven [OF wf(2) assms(3)] w have dev1: "dev1 = dev\<lparr>data_i := driven ind (width_i host)\<rparr>" and li: "width_i host \<le> 32 * length ind" by simp_all
  have "p2p_joined hc dc e b host1 dev1"
    using assms(1) by (simp add: p2p_joined_def p2p_wf_def host1 dev1 driven_def)
  from cycle_effect [OF this, of os_write hfd dfd] obtain e' b' host' dev' where
    c: "link_cycle os_write (hfd, hc) (dfd, dc) e b host1 dev1 = Done (e', b', (0, host'), (0, dev'))" "p2p_joined hc dc e' b' host' dev'"
      "data_o dev' = driven od (width_o host)" "data_i host' = driven ind (width_i host)" "clock host' = clock_level (next_phase (pp_phase e))"
      "clock dev' = pp_slave_clock (pp_master_clock_mode e) (clock_level (next_phase (pp_phase e)))"
      "bus_time host' = \<lparr>time_mant = st_mant (cur_time b'), time_exp = st_exp (cur_time b')\<rparr>" "bus_time dev' = bus_time host'"
      "p2p_config host' = p2p_config host" "p2p_config dev' = p2p_config dev"
    by (auto simp: host1 dev1 p2p_config_def)
  obtain res res' where "fold (collect_step (driven od (width_o host))) [0..<width_o host] (0, old) = (0, res)"
      "\<forall>i < width_o host. bit (res ! (i div 32)) (i mod 32) = bit (od ! (i div 32)) (i mod 32)"
      "fold (collect_step (driven ind (width_i host))) [0..<width_i host] (0, old') = (0, res')"
      "\<forall>i < width_i host. bit (res' ! (i div 32)) (i mod 32) = bit (ind ! (i div 32)) (i mod 32)"
    using collect_driven [OF lo assms(4)] collect_driven [OF li assms(5)] by blast
  with c w lo li assms(4,5) show ?thesis
    by (intro exI [of _ e'] exI [of _ b'] exI [of _ host'] exI [of _ dev'] exI [of _ res] exI [of _ res'])
      (simp add: simbus_p2p_out_peek_def simbus_p2p_in_def p2p_config_def)
qed

definition joined_bus :: "unit bus_state" where
  "joined_bus = (new_bus ''link'' ()
     [(''d'', (new_plug ''d'' False 1)\<lparr>send_signals := [(''CLOCK'', [BIT_1]), (''DATA_O'', [BIT_Z, BIT_Z, BIT_Z])]\<rparr>),
      (''h'', (new_plug ''h'' True 0)\<lparr>send_signals := [(''CLOCK'', [BIT_1]), (''DATA_I'', [BIT_Z, BIT_Z, BIT_Z])]\<rparr>)] [])"

definition joined_engine :: point_to_point where
  "joined_engine = \<lparr>pp_phase = 0, pp_clock_phase_map = [1000, 4000, 4000, 1000], pp_master_clock_mode = CLOCK_RUN,
     pp_wid_o = 3, pp_wid_i = 3, pp_master = ''h'', pp_slave = ''d''\<rparr>"

definition joined_client :: "string \<Rightarrow> client_state" where
  "joined_client k = (new_client ''tcp:1'')\<lparr>cl_dev_name := k, cl_interface := Some k\<rparr>"

theorem p2p_through_server_witness:
  "\<exists>e' b' host' dev' res res'.
    link_cycle (\<lambda>_ s. int (length s)) (4, joined_client ''h'') (5, joined_client ''d'') joined_engine joined_bus
      (demo_p2p\<lparr>data_o := driven [5] 3\<rparr>) (demo_p2p\<lparr>ident := 1, data_i := driven [6] 3\<rparr>) = Done (e', b', (0, host'), (0, dev'))
    \<and> simbus_p2p_out_peek dev' [0] = Done (0, res) \<and> (\<forall>i < 3. bit (res ! (i div 32)) (i mod 32) = bit ([5 :: u32] ! (i div 32)) (i mod 32))
    \<and> simbus_p2p_in host' [0] = Done (0, res') \<and> (\<forall>i < 3. bit (res' ! (i div 32)) (i mod 32) = bit ([6 :: u32] ! (i div 32)) (i mod 32))
    \<and> clock host' = BIT_1 \<and> clock dev' = BIT_1"
proof -
  let ?dev = "demo_p2p\<lparr>ident := 1\<rparr>"
  have j: "p2p_joined (joined_client ''h'') (joined_client ''d'') joined_engine joined_bus demo_p2p ?dev"
    by (simp add: p2p_joined_def p2p_wf_def demo_p2p_def joined_engine_def joined_client_def joined_bus_def new_client_def
        new_bus_def new_plug_def zero_time_def link_sends_def)
  have "simbus_p2p_out demo_p2p [5] = Done (demo_p2p\<lparr>data_o := driven [5] 3\<rparr>)"
    "simbus_p2p_in_poke ?dev [6] = Done (?dev\<lparr>data_i := driven [6] 3\<rparr>)"
    by (simp_all add: simbus_p2p_out_def simbus_p2p_in_poke_def demo_p2p_def drive_all del: upt_rec_numeral)
  note t = p2p_through_server [OF j this, of "[0]" "[0]" "\<lambda>_ s. int (length s)" 4 5]
  have sel: "width_o demo_p2p = 3" "width_i demo_p2p = 3" "clock_level (next_phase (pp_phase joined_engine)) = BIT_1"
    "pp_slave_clock (pp_master_clock_mode joined_engine) BIT_1 = BIT_1"
    by (simp_all add: demo_p2p_def joined_engine_def next_phase_def clock_level_def pp_slave_clock_def)
  have "length [0 :: u32] = length [5 :: u32]" "length [0 :: u32] = length [6 :: u32]" by simp_all
  from t [OF this] show ?thesis unfolding sel by blast
qed

end
