(* ===== verification/Sim_VPI.thy ===== *)
theory Sim_VPI
  imports Sim_Server_Client
begin

text \<open>
  vpi/simbus.c: the system tasks \<open>$simbus_connect\<close>, \<open>$simbus_ready\<close>, \<open>$simbus_poll\<close> and
  \<open>$simbus_until\<close>, by which a Verilog simulation is a client of the bus server.

  The simulator is a parameter: the arguments of a task are records of what the VPI functions
  answer for them, \<open>simulator\<close> is what it answers for itself, and what a task asks of it is a list of
  \<open>vpi_call\<close>s.  The state is the table of connections and the number of callbacks the simulator still
  owes.  Messages on the terminal are dropped.
\<close>

section \<open>The simulator\<close>

datatype obj_type = VpiConstant | VpiParameter | VpiReg | VpiOther

datatype const_type = StringConst | BinaryConst | OtherConst

type_synonym vecval = "u32 \<times> u32"

text \<open>An argument: \<open>obj_str\<close> is \<open>None\<close> where the simulator has no string for it; a word of the vector
  is \<open>(aval, bval)\<close>, a strength \<open>(s0, s1)\<close>.\<close>

record vpi_obj =
  obj_handle :: nat
  obj_type :: obj_type
  obj_const :: const_type
  obj_size :: nat
  obj_int :: int
  obj_str :: "string option"
  obj_vector :: "vecval list"
  obj_strength :: "(int \<times> int) list"

record simulator =
  sim_high :: u32
  sim_low :: u32
  sim_precision :: int
  sim_units :: int
  vpiStrongDrive :: int
  vlog_argv :: "string list"

datatype vpi_call =
    Put_int int
  | Put_scalar nat bool
  | Put_vector nat "vecval list"
  | Vpi_finish
  | Vpi_stop

section \<open>The table of connections\<close>

definition MAX_INSTANCES :: nat where "MAX_INSTANCES = 32"
definition MAX_MESSAGE :: nat where "MAX_MESSAGE = 4096"

record port_instance =
  inst_name :: "string option"
  inst_fd :: int
  inst_conn :: conn
  read_buf :: string
  trig :: "nat option"

record vpi_state =
  instances :: "port_instance list"
  callbacks :: nat

definition no_conn :: conn where
  "no_conn = \<lparr>rx = [], wr = [], tx = [], closed = True\<rparr>"

definition simbus_setup :: vpi_state where
  "simbus_setup = \<lparr>instances = replicate MAX_INSTANCES
     \<lparr>inst_name = None, inst_fd = -1, inst_conn = no_conn, read_buf = [], trig = None\<rparr>, callbacks = 0\<rparr>"

abbreviation put_instance :: "nat \<Rightarrow> port_instance \<Rightarrow> vpi_state \<Rightarrow> vpi_state" where
  "put_instance idx i st \<equiv> st\<lparr>instances := (instances st)[idx := i]\<rparr>"

definition check_readable :: "port_instance \<Rightarrow> bool outcome" where
  "check_readable i = c_assert (inst_name i \<noteq> None) (Done (take_line (read_buf i) \<noteq> None))"

text \<open>A \<open>read\<close> of no bytes returns 0 at once; an error or the end of the stream (no bytes) changes
  nothing.\<close>

definition consume_readable_data :: "port_instance \<Rightarrow> port_instance outcome" where
  "consume_readable_data i =
     c_assert (inst_name i \<noteq> None)
       (let trans = MAX_MESSAGE - length (read_buf i)
        in if trans = 0 then Done i
           else obind (sock_read (inst_conn i) trans) (\<lambda>(r, c).
             case r of
               Rd_error \<Rightarrow> Done (i\<lparr>inst_conn := c\<rparr>)
             | Rd_data s \<Rightarrow> Done (i\<lparr>inst_conn := c, read_buf := read_buf i @ s\<rparr>)))"

text \<open>The loop of \<open>read_message\<close> turns without reading when the buffer is full and holds no line.\<close>

definition read_more :: "port_instance \<Rightarrow> port_instance outcome" where
  "read_more i =
     (if length (read_buf i) < MAX_MESSAGE then consume_readable_data i
      else c_assert (inst_name i \<noteq> None) (Stop Diverges))"

definition read_message :: "port_instance \<Rightarrow> nat \<Rightarrow> (string \<times> port_instance) outcome" where
  "read_message i nbuf =
     c_assert (inst_name i \<noteq> None)
       (obind (while_io (\<lambda>i. pending (inst_conn i)) (\<lambda>i. take_line (read_buf i) = None) read_more (i\<lparr>trig := None\<rparr>))
         (\<lambda>i. case take_line (read_buf i) of
                None \<Rightarrow> Stop Undefined
              | Some (line, rest) \<Rightarrow> c_assert (length line < nbuf) (Done (line, i\<lparr>read_buf := rest\<rparr>))))"

section \<open>Waiting for the server\<close>

text \<open>The second loop of the callback: the instances whose descriptor \<open>select\<close> reports.\<close>

fun prod_triggers :: "(int \<Rightarrow> bool) \<Rightarrow> port_instance list \<Rightarrow> (port_instance list \<times> vpi_call list) outcome" where
  "prod_triggers rd [] = Done ([], [])"
| "prod_triggers rd (i # is) =
     (case trig i of
        None \<Rightarrow> obind (prod_triggers rd is) (\<lambda>(js, calls). Done (i # js, calls))
      | Some h \<Rightarrow>
          if \<not> rd (inst_fd i) then obind (prod_triggers rd is) (\<lambda>(js, calls). Done (i # js, calls))
          else obind (consume_readable_data i) (\<lambda>i1.
            obind (check_readable i1) (\<lambda>ok.
              if ok then obind (prod_triggers rd is) (\<lambda>(js, calls). Done (i1\<lparr>trig := None\<rparr> # js, Put_scalar h True # calls))
              else obind (prod_triggers rd is) (\<lambda>(js, calls). Done (i1 # js, calls)))))"

definition waiting :: "port_instance \<Rightarrow> bool" where
  "waiting i \<longleftrightarrow> trig i \<noteq> None"

definition max_fd :: "port_instance list \<Rightarrow> int" where
  "max_fd is = fold (\<lambda>i n. if waiting i \<and> n < inst_fd i then inst_fd i else n) is 0"

text \<open>\<open>sel\<close> is what \<open>select\<close> says: an error, or which descriptors are readable (at least one that
  was asked for, as there is no time limit).\<close>

definition poll_for_simbus_bus :: "(int \<Rightarrow> bool) option \<Rightarrow> vpi_state \<Rightarrow> (vpi_state \<times> vpi_call list) outcome" where
  "poll_for_simbus_bus sel st =
     (if max_fd (instances st) = 0 then Done (st, [])
      else case sel of
        None \<Rightarrow> Done (st, [Vpi_finish])
      | Some rd \<Rightarrow>
          c_assert (list_ex (\<lambda>i. waiting i \<and> rd (inst_fd i)) (instances st))
            (obind (prod_triggers rd (instances st)) (\<lambda>(is, calls).
              let nfds = max_fd (instances st) + 1 + int (length (filter waiting is))
              in Done (st\<lparr>instances := is, callbacks := (if 0 < nfds then Suc (callbacks st) else callbacks st)\<rparr>, calls))))"

definition is_string_obj :: "vpi_obj \<Rightarrow> bool" where
  "is_string_obj ob \<longleftrightarrow> (obj_type ob = VpiConstant \<or> obj_type ob = VpiParameter)
     \<and> (obj_const ob = StringConst \<or> obj_const ob = BinaryConst)"

definition simbus_poll_compiletf :: "vpi_obj list \<Rightarrow> vpi_call list" where
  "simbus_poll_compiletf argv =
     (case argv of
        bus_h # tg # _ \<Rightarrow> if obj_type tg \<noteq> VpiReg \<or> obj_size tg \<noteq> 1 then [Vpi_finish] else []
      | _ \<Rightarrow> [Vpi_finish])"

definition simbus_poll_calltf :: "vpi_obj list \<Rightarrow> vpi_state \<Rightarrow> (vpi_state \<times> vpi_call list) outcome" where
  "simbus_poll_calltf argv st =
     (case argv of
        bus_h # rest \<Rightarrow>
          c_assert (0 \<le> obj_int bus_h \<and> obj_int bus_h < int MAX_INSTANCES)
            (case rest of
               tg # _ \<Rightarrow>
                 (let bus = nat (obj_int bus_h); i = instances st ! bus; h = obj_handle tg
                  in obind (check_readable i) (\<lambda>poll_state.
                       if poll_state then Done (put_instance bus (i\<lparr>trig := None\<rparr>) st, [Put_scalar h True])
                       else Done ((put_instance bus (i\<lparr>trig := Some h\<rparr>) st)\<lparr>callbacks := Suc (callbacks st)\<rparr>,
                                  [Put_scalar h False])))
             | [] \<Rightarrow> Stop Assert_failed)
      | [] \<Rightarrow> Stop Assert_failed)"

section \<open>Connecting\<close>

definition simbus_connect_compiletf :: "vpi_obj list \<Rightarrow> vpi_call list" where
  "simbus_connect_compiletf argv =
     (case argv of [] \<Rightarrow> [Vpi_finish] | a # _ \<Rightarrow> if is_string_obj a then [] else [Vpi_finish])"

definition tcp_server :: "'a os \<Rightarrow> string \<Rightarrow> conn option" where
  "tcp_server os addr =
     (let n = length (takeWhile (\<lambda>c. c \<noteq> CHR '':'') addr);
          (host_name, host_port) = (if n < length addr then (take n addr, drop (Suc n) addr) else (''localhost'', addr))
      in case os_getaddrinfo os host_name host_port of
           None \<Rightarrow> None
         | Some res \<Rightarrow> first_connection (os_connect os) res)"

definition pipe_server :: "'a os \<Rightarrow> string \<Rightarrow> conn option outcome" where
  "pipe_server os path =
     c_assert (length path < sun_path_size)
       (case os_connect_unix os path of None \<Rightarrow> Stop Assert_failed | Some c \<Rightarrow> Done (Some c))"

definition open_server :: "'a os \<Rightarrow> string \<Rightarrow> conn option outcome" where
  "open_server os host_string =
     (if take 4 host_string = ''tcp:'' then Done (tcp_server os (drop 4 host_string))
      else if take 5 host_string = ''pipe:'' then pipe_server os (drop 5 host_string)
      else Done (tcp_server os host_string))"

text \<open>The first command line argument that starts with \<open>+simbus-<name>-bus=\<close>.\<close>

definition bus_switch :: "string \<Rightarrow> string" where
  "bus_switch dev_name = take 4095 (''+simbus-'' @ dev_name @ ''-bus='')"

fun find_switch :: "string \<Rightarrow> string list \<Rightarrow> string option" where
  "find_switch key [] = None"
| "find_switch key (a # as) = (if take (length key) a = key then Some (drop (length key) a) else find_switch key as)"

definition trimmed :: "string \<Rightarrow> string" where
  "trimmed s = rev (dropWhile is_space (rev (dropWhile is_space s)))"

text \<open>One further argument, on the message so far and the room left.\<close>

definition add_setting :: "vpi_obj \<Rightarrow> string \<times> nat \<Rightarrow> string \<times> nat" where
  "add_setting a = (\<lambda>(buf, bp_len).
     case obj_str a of
       None \<Rightarrow> (buf, bp_len)
     | Some s \<Rightarrow>
         (let sp = trimmed s
          in if sp = [] \<or> CHR '' '' \<in> set sp \<or> CHR ''='' \<notin> set sp \<or> bp_len \<le> length sp + 1 then (buf, bp_len)
             else (buf @ '' '' @ sp, bp_len - 1 - length sp)))"

definition hello_command :: "string \<Rightarrow> vpi_obj list \<Rightarrow> string" where
  "hello_command dev_name settings =
     (let buf = take (buf_size - 1) (''HELLO '' @ dev_name)
      in fst (fold add_setting settings (buf, buf_size - length buf)) @ [NL])"

definition free_slot :: "port_instance list \<Rightarrow> nat" where
  "free_slot is = length (takeWhile (\<lambda>i. inst_name i \<noteq> None) is)"

text \<open>HELLO is sent and one \<open>read\<close> is the answer; the buffer keeps its old bytes behind it.\<close>

definition say_hello :: "string \<Rightarrow> vpi_obj list \<Rightarrow> conn \<Rightarrow> (string \<times> conn) outcome" where
  "say_hello dev_name settings server_fd =
     (let buf = hello_command dev_name settings; (rc, c1) = sock_write server_fd buf
      in c_defined (length buf + 1 \<le> buf_size)
        (c_assert (rc = int (length buf))
          (obind (sock_read c1 buf_size) (\<lambda>(r, c2).
            case r of
              Rd_error \<Rightarrow> Stop Assert_failed
            | Rd_data s \<Rightarrow>
                c_assert (s \<noteq> [])
                  (let mem = s @ drop (length s) (buf @ [NUL])
                   in obind (find_newline mem) (\<lambda>_. Done (mem, c2)))))))"

text \<open>The loop over the table looks at the name behind its end before it looks at the index.\<close>

definition take_slot :: "string \<Rightarrow> int \<Rightarrow> conn \<Rightarrow> vpi_state \<Rightarrow> (vpi_state \<times> vpi_call list) outcome" where
  "take_slot dev_name sfd c st =
     (let idx = free_slot (instances st)
      in c_defined (idx < length (instances st))
           (Done (put_instance idx ((instances st ! idx)
                    \<lparr>inst_name := Some dev_name, inst_fd := sfd, inst_conn := c, read_buf := []\<rparr>) st,
                  [Put_int (int idx)])))"

text \<open>\<open>sfd\<close> is the number of the descriptor that \<open>socket\<close> returns.\<close>

definition simbus_connect_calltf ::
  "simulator \<Rightarrow> 'a os \<Rightarrow> int \<Rightarrow> vpi_obj list \<Rightarrow> vpi_state \<Rightarrow> (vpi_state \<times> vpi_call list) outcome" where
  "simbus_connect_calltf sim os sfd argv st =
     (case argv of
        [] \<Rightarrow> Stop Assert_failed
      | a # settings \<Rightarrow>
          (case obj_str a of
             None \<Rightarrow> Stop Undefined
           | Some dev_name \<Rightarrow>
               (case find_switch (bus_switch dev_name) (vlog_argv sim) of
                  None \<Rightarrow> Done (st, [Put_int (-1)])
                | Some host_string \<Rightarrow>
                    obind (open_server os host_string) (\<lambda>server.
                      case server of
                        None \<Rightarrow> Done (st, [Put_int (-1)])
                      | Some c0 \<Rightarrow>
                          obind (say_hello dev_name settings c0) (\<lambda>(mem, c).
                            if cstr mem = ''NAK'' @ [NL] then Done (st, [Put_int (-1)])
                            else if take 8 mem = ''YOU-ARE '' then take_slot dev_name sfd c st
                            else Done (st, [Put_int (-1)]))))))"

section \<open>READY\<close>

text \<open>\<open>while (now_int >= 10 && (now_int%10 == 0)) { now_int /= 10; scale += 1; }\<close>\<close>

function minimize :: "u64 \<Rightarrow> int \<Rightarrow> u64 \<times> int" where
  "minimize now_int scale =
     (if 10 \<le> now_int \<and> now_int mod 10 = 0 then minimize (now_int div 10) (scale + 1) else (now_int, scale))"
  by pat_completeness auto
termination
proof (relation "measure (\<lambda>(m, e). unat m)")
  fix now_int :: u64 and scale :: int
  assume "10 \<le> now_int \<and> now_int mod 10 = 0"
  then have "10 \<le> unat now_int" by (simp add: word_le_nat_alt)
  then show "((now_int div 10, scale + 1), now_int, scale) \<in> measure (\<lambda>(m, e). unat m)"
    by (simp add: unat_div)
qed simp

declare minimize.simps [simp del]

text \<open>\<open>vector[word].aval & mask\<close> and the character of a bit.\<close>

definition vec_char :: "vecval list \<Rightarrow> nat \<Rightarrow> char" where
  "vec_char vec b =
     (let (aval, bval) = vec ! (b div 32); m = push_bit (b mod 32) 1
      in if aval AND m \<noteq> 0 then (if bval AND m \<noteq> 0 then CHR ''x'' else CHR ''1'')
         else (if bval AND m \<noteq> 0 then CHR ''z'' else CHR ''0''))"

text \<open>What is left of the value \<open>sig\<close> of a bit: nothing where it is what the server drives (\<open>drv\<close>), or
  what only a pull keeps.\<close>

definition report_char :: "int \<Rightarrow> char \<Rightarrow> char \<Rightarrow> int \<times> int \<Rightarrow> char" where
  "report_char strong drv sig str =
     (if drv = sig then CHR ''z''
      else if sig = CHR ''z'' then sig
      else if sig = CHR ''x'' then sig
      else if fst str < strong \<and> snd str < strong then CHR ''z''
      else sig)"

definition report_bits :: "int \<Rightarrow> vpi_obj \<Rightarrow> vpi_obj \<Rightarrow> string" where
  "report_bits strong sig drv =
     map (\<lambda>b. report_char strong (vec_char (obj_vector drv) b) (vec_char (obj_vector sig) b) (obj_strength sig ! b))
       (rev [0..<obj_size sig])"

text \<open>The arguments after the bus: name, signal and what the server drives on it, repeated.\<close>

fun ready_signals :: "int \<Rightarrow> vpi_obj list \<Rightarrow> string outcome" where
  "ready_signals strong [] = Done []"
| "ready_signals strong [nm] = c_defined (obj_str nm \<noteq> None) (Stop Assert_failed)"
| "ready_signals strong [nm, sig] =
     c_defined (obj_str nm \<noteq> None \<and> obj_size sig \<le> 32 * length (obj_vector sig)) (Stop Assert_failed)"
| "ready_signals strong (nm # sig # drv # rest) =
     c_defined (obj_str nm \<noteq> None \<and> obj_size sig \<le> 32 * length (obj_vector sig))
       (c_assert (obj_size drv = obj_size sig)
         (c_defined (obj_size drv \<le> 32 * length (obj_vector drv) \<and> obj_size sig \<le> length (obj_strength sig))
           (obind (ready_signals strong rest) (\<lambda>text.
              Done ('' '' @ the (obj_str nm) @ ''='' @ report_bits strong sig drv @ text)))))"

definition sim_now :: "simulator \<Rightarrow> u64" where
  "sim_now sim = push_bit 32 (ucast (sim_high sim)) + ucast (sim_low sim)"

definition vpi_ready_message :: "simulator \<Rightarrow> vpi_obj list \<Rightarrow> string outcome" where
  "vpi_ready_message sim argv =
     (let (now_int, scale) = minimize (sim_now sim) (sim_precision sim)
      in obind (ready_signals (vpiStrongDrive sim) argv) (\<lambda>text.
           Done (''READY '' @ dec_nat (unat now_int) @ ''e'' @ dec_int scale @ text @ [NL])))"

definition simbus_ready_calltf :: "simulator \<Rightarrow> vpi_obj list \<Rightarrow> vpi_state \<Rightarrow> (vpi_state \<times> vpi_call list) outcome" where
  "simbus_ready_calltf sim argv st =
     (case argv of
        [] \<Rightarrow> Stop Assert_failed
      | bus_h # rest \<Rightarrow>
          c_assert (obj_int bus_h < int MAX_INSTANCES)
            (c_defined (0 \<le> obj_int bus_h)
              (let bus_id = nat (obj_int bus_h); i = instances st ! bus_id
               in c_assert (0 \<le> inst_fd i)
                 (obind (vpi_ready_message sim rest) (\<lambda>message.
                    c_defined (length message \<le> MAX_MESSAGE)
                      (let (rc, c) = sock_write (inst_conn i) message
                       in c_assert (rc = int (length message))
                            (Done (put_instance bus_id (i\<lparr>inst_conn := c\<rparr>) st, []))))))))"

section \<open>UNTIL\<close>

text \<open>\<open>strtol(cp, 0, 0)\<close>: the base is that of a C literal.\<close>

definition is_hex :: "char \<Rightarrow> bool" where
  "is_hex c \<longleftrightarrow> is_digit c \<or> 65 \<le> (of_char c :: nat) \<and> (of_char c :: nat) \<le> 70 \<or> 97 \<le> (of_char c :: nat) \<and> (of_char c :: nat) \<le> 102"

definition hex_val :: "char \<Rightarrow> nat" where
  "hex_val c = (if is_digit c then digit_val c else if (of_char c :: nat) < 97 then of_char c - 55 else of_char c - 87)"

definition literal_value :: "string \<Rightarrow> nat" where
  "literal_value s =
     (if take 2 s \<in> {''0x'', ''0X''} \<and> drop 2 s \<noteq> [] \<and> is_hex (hd (drop 2 s))
      then foldl (\<lambda>a c. a * 16 + hex_val c) 0 (takeWhile is_hex (drop 2 s))
      else if take 1 s = ''0'' then foldl (\<lambda>a c. a * 8 + digit_val c) 0 (takeWhile (\<lambda>c. is_digit c \<and> digit_val c < 8) s)
      else digits_val (takeWhile is_digit s))"

definition strtol_any :: "string \<Rightarrow> int" where
  "strtol_any s =
     (let s1 = dropWhile is_space s
      in if take 1 s1 = ''-'' then max (- int (literal_value (tl s1))) (- (2 ^ 63))
         else min (int (literal_value (if take 1 s1 = ''+'' then tl s1 else s1))) (2 ^ 63 - 1))"

text \<open>The token loop.\<close>

function chop_message :: "string \<Rightarrow> string list" where
  "chop_message [] = []"
| "chop_message (c # s) =
     takeWhile (\<lambda>x. x \<noteq> CHR '' '') (c # s)
     # chop_message (dropWhile (\<lambda>x. x = CHR '' '') (dropWhile (\<lambda>x. x \<noteq> CHR '' '') (c # s)))"
  by pat_completeness auto
termination
proof (relation "measure length")
  fix c :: char and s
  have l: "length (dropWhile P xs) \<le> length xs" for P and xs :: string by (rule length_dropWhile_le)
  show "(dropWhile (\<lambda>x. x = CHR '' '') (dropWhile (\<lambda>x. x \<noteq> CHR '' '') (c # s)), c # s) \<in> measure length"
  proof (cases "c = CHR '' ''")
    case True
    then show ?thesis using l [of "\<lambda>x. x = CHR '' ''" s] by simp
  next
    case False
    then show ?thesis using l [of "\<lambda>x. x \<noteq> CHR '' ''" s] l [of "\<lambda>x. x = CHR '' ''" "dropWhile (\<lambda>x. x \<noteq> CHR '' '') s"]
      by simp
  qed
qed simp

text \<open>The two scaling loops, and the loop that was to scale the present time.\<close>

function scale_up :: "int \<Rightarrow> int \<Rightarrow> u64 \<Rightarrow> u64 \<times> int" where
  "scale_up units until_exp until_mant =
     (if units < until_exp then scale_up units (until_exp - 1) (until_mant * 10) else (until_mant, until_exp))"
  by pat_completeness auto
termination by (relation "measure (\<lambda>(u, e, m). nat (e - u))") auto

function scale_down :: "int \<Rightarrow> int \<Rightarrow> u64 \<Rightarrow> u64 \<times> int" where
  "scale_down units until_exp until_mant =
     (if until_exp < units then scale_down units (until_exp + 1) ((until_mant + 5) div 10) else (until_mant, until_exp))"
  by pat_completeness auto
termination by (relation "measure (\<lambda>(u, e, m). nat (u - e))") auto

function scale_now :: "int \<Rightarrow> int \<Rightarrow> u64 \<Rightarrow> u64 \<Rightarrow> u64" where
  "scale_now units prec until_mant deltatime =
     (if prec < units then scale_now units (prec + 1) until_mant ((until_mant + 5) div 10) else deltatime)"
  by pat_completeness auto
termination by (relation "measure (\<lambda>(u, p, m, d). nat (u - p))") auto

declare scale_up.simps [simp del] scale_down.simps [simp del] scale_now.simps [simp del]

definition until_delta :: "simulator \<Rightarrow> u64 \<Rightarrow> int \<Rightarrow> int" where
  "until_delta sim mant0 exp0 =
     (let (m1, e1) = scale_up (sim_units sim) exp0 mant0;
          (until_mant, e2) = scale_down (sim_units sim) e1 m1;
          deltatime = scale_now (sim_units sim) (sim_precision sim) until_mant (sim_now sim)
      in to_int32 (uint (if until_mant < deltatime then 0 else until_mant - deltatime)))"

text \<open>A vector from its characters; one that is none of the four counts as 0.\<close>

definition char_masks :: "char \<Rightarrow> vecval" where
  "char_masks src = (if src = CHR ''1'' then (1, 0) else if src = CHR ''x'' then (1, 1) else if src = CHR ''z'' then (0, 1) else (0, 0))"

definition put_char :: "string \<Rightarrow> nat \<Rightarrow> vecval list \<Rightarrow> vecval list" where
  "put_char val idx vv =
     (let (amask, bmask) = char_masks (val ! (length val - idx - 1)); (aval, bval) = vv ! (idx div 32)
      in vv[idx div 32 := (aval OR push_bit (idx mod 32) amask, bval OR push_bit (idx mod 32) bmask)])"

definition value_vector :: "string \<Rightarrow> vecval list" where
  "value_vector val = fold (put_char val) [0..<length val] (replicate ((length val + 31) div 32) (0, 0))"

definition set_handle_to_value :: "vpi_obj \<Rightarrow> string \<Rightarrow> vpi_call list outcome" where
  "set_handle_to_value sig val =
     c_assert (obj_size sig = length val \<and> obj_type sig = VpiReg) (Done [Put_vector (obj_handle sig) (value_vector val)])"

text \<open>The list of the signals of the call; each pair goes in front.\<close>

fun signal_list :: "vpi_obj list \<Rightarrow> (string \<times> vpi_obj) list \<Rightarrow> (string \<times> vpi_obj) list outcome" where
  "signal_list [] ll = Done ll"
| "signal_list [k] ll = Stop Assert_failed"
| "signal_list (k # sig # rest) ll = c_assert (obj_str k \<noteq> None) (signal_list rest ((the (obj_str k), sig) # ll))"

fun find_key_in_list :: "(string \<times> vpi_obj) list \<Rightarrow> string \<Rightarrow> vpi_obj option" where
  "find_key_in_list [] key = None"
| "find_key_in_list ((k, sig) # ll) key = (if k = key then Some sig else find_key_in_list ll key)"

fun set_signals :: "(string \<times> vpi_obj) list \<Rightarrow> string list \<Rightarrow> vpi_call list outcome" where
  "set_signals ll [] = Done []"
| "set_signals ll (tok # toks) =
     c_assert (CHR ''='' \<in> set tok)
       (case find_key_in_list ll (name_of tok) of
          None \<Rightarrow> set_signals ll toks
        | Some sig \<Rightarrow> obind (set_handle_to_value sig (value_of tok)) (\<lambda>c. obind (set_signals ll toks) (\<lambda>cs. Done (c @ cs))))"

definition obey_until :: "simulator \<Rightarrow> (string \<times> vpi_obj) list \<Rightarrow> string list \<Rightarrow> vpi_call list outcome" where
  "obey_until sim ll msg_argv =
     c_assert (hd msg_argv = ''UNTIL'')
       (c_assert (2 \<le> length msg_argv)
         (let (mant, cp) = strtoul (msg_argv ! 1)
          in c_assert (cp \<noteq> [] \<and> hd cp = CHR ''e'')
               (obind (set_signals ll (drop 2 msg_argv)) (\<lambda>calls.
                  Done (Put_int (until_delta sim mant (to_int32 (strtol_any (tl cp)))) # calls)))))"

definition simbus_until_calltf :: "simulator \<Rightarrow> vpi_obj list \<Rightarrow> vpi_state \<Rightarrow> (vpi_state \<times> vpi_call list) outcome" where
  "simbus_until_calltf sim argv st =
     (case argv of
        [] \<Rightarrow> Stop Assert_failed
      | bus_h # rest \<Rightarrow>
          c_assert (0 \<le> obj_int bus_h \<and> obj_int bus_h < int MAX_INSTANCES)
            (let bus = nat (obj_int bus_h)
             in obind (signal_list rest []) (\<lambda>ll.
                  obind (read_message (instances st ! bus) (MAX_MESSAGE + 1)) (\<lambda>(line, i).
                    let st' = put_instance bus i st; msg_argv = chop_message line
                    in if line = [] then Done (st', [Vpi_stop, Put_int 0])
                       else c_defined (length msg_argv < MAX_MESSAGE div 2)
                         (if hd msg_argv = ''FINISH'' then Done (st', [Vpi_finish, Put_int 0])
                          else obind (obey_until sim ll msg_argv) (\<lambda>calls. Done (st', calls)))))))"

section \<open>Vectors\<close>

definition vec_text :: "nat \<Rightarrow> vecval list \<Rightarrow> string" where
  "vec_text n vec = map (vec_char vec) (rev [0..<n])"

lemma vec_char_bits:
  "vec_char vec b = (if bit (fst (vec ! (b div 32))) (b mod 32)
     then (if bit (snd (vec ! (b div 32))) (b mod 32) then CHR ''x'' else CHR ''1'')
     else (if bit (snd (vec ! (b div 32))) (b mod 32) then CHR ''z'' else CHR ''0''))"
  by (simp add: vec_char_def push_bit_eq_mult and_exp_eq_0_iff_not_bit split: prod.split)

definition flag_at :: "nat \<Rightarrow> bool \<Rightarrow> u32" where
  "flag_at n p = push_bit n (if p then 1 else 0)"

lemma bit_flag_at: "k < 32 \<Longrightarrow> bit (flag_at n p) k \<longleftrightarrow> p \<and> k = n"
  by (auto simp: flag_at_def bit_push_bit_iff bit_1_iff simp del: push_bit_of_1)

lemma char_masks_flags:
  "char_masks c = (if c = CHR ''1'' \<or> c = CHR ''x'' then 1 else 0, if c = CHR ''x'' \<or> c = CHR ''z'' then 1 else 0)"
  by (simp add: char_masks_def)

text \<open>After the first \<open>m\<close> characters from the right.\<close>

lemma put_chars:
  assumes "m \<le> length val"
  defines "vv \<equiv> fold (put_char val) [0..<m] (replicate ((length val + 31) div 32) (0, 0))"
  shows "length vv = (length val + 31) div 32 \<and>
    (\<forall>j < length vv. \<forall>k < 32.
       (bit (fst (vv ! j)) k \<longleftrightarrow> 32 * j + k < m \<and> val ! (length val - (32 * j + k) - 1) \<in> {CHR ''1'', CHR ''x''}) \<and>
       (bit (snd (vv ! j)) k \<longleftrightarrow> 32 * j + k < m \<and> val ! (length val - (32 * j + k) - 1) \<in> {CHR ''x'', CHR ''z''}))"
  using assms(1) unfolding vv_def
proof (induction m)
  case 0
  then show ?case by simp
next
  case (Suc m)
  let ?n = "(length val + 31) div 32"
  define ww where "ww = fold (put_char val) [0..<m] (replicate ?n (0, 0))"
  let ?c = "val ! (length val - m - 1)"
  from Suc have IH: "length ww = ?n" and
    bits: "\<And>j k. j < ?n \<Longrightarrow> k < 32 \<Longrightarrow>
       (bit (fst (ww ! j)) k \<longleftrightarrow> 32 * j + k < m \<and> val ! (length val - (32 * j + k) - 1) \<in> {CHR ''1'', CHR ''x''}) \<and>
       (bit (snd (ww ! j)) k \<longleftrightarrow> 32 * j + k < m \<and> val ! (length val - (32 * j + k) - 1) \<in> {CHR ''x'', CHR ''z''})"
    by (auto simp: ww_def)
  have step: "fold (put_char val) [0..<Suc m] (replicate ?n (0, 0)) = put_char val m ww" by (simp add: ww_def)
  have m: "m div 32 < ?n" using Suc.prems by (simp add: div_less_iff_less_mult) 
  have new: "put_char val m ww = ww[m div 32 :=
      (fst (ww ! (m div 32)) OR flag_at (m mod 32) (?c \<in> {CHR ''1'', CHR ''x''}),
       snd (ww ! (m div 32)) OR flag_at (m mod 32) (?c \<in> {CHR ''x'', CHR ''z''}))]"
    by (simp add: put_char_def char_masks_flags flag_at_def split: prod.split)
  have upd: "(bit (fst (put_char val m ww ! j)) k \<longleftrightarrow> 32 * j + k < Suc m \<and> val ! (length val - (32 * j + k) - 1) \<in> {CHR ''1'', CHR ''x''}) \<and>
       (bit (snd (put_char val m ww ! j)) k \<longleftrightarrow> 32 * j + k < Suc m \<and> val ! (length val - (32 * j + k) - 1) \<in> {CHR ''x'', CHR ''z''})"
    if j: "j < ?n" and k: "k < 32" for j k
  proof (cases "32 * j + k = m")
    case True
    then have "m div 32 = j" "m mod 32 = k" using k by auto
    then show ?thesis unfolding new using j k by (simp add: IH bits bit_or_iff bit_flag_at True)
  next
    case False
    then have at: "32 * j + k < Suc m \<longleftrightarrow> 32 * j + k < m" and ne: "\<not> (m div 32 = j \<and> m mod 32 = k)" by auto
    show ?thesis
    proof (cases "m div 32 = j")
      case True
      with ne show ?thesis unfolding new at using j k by (simp add: IH bits bit_or_iff bit_flag_at)
    next
      case False
      then show ?thesis unfolding new at using bits [OF j k] by simp
    qed
  qed
  have "length (put_char val m ww) = ?n" by (simp add: new IH)
  then show ?case unfolding step using upd by simp
qed

lemma length_value_vector: "length (value_vector val) = (length val + 31) div 32"
  using put_chars [of "length val" val] by (simp add: value_vector_def)

lemma vec_char_value:
  assumes "b < length val" and "set val \<subseteq> {CHR ''0'', CHR ''1'', CHR ''x'', CHR ''z''}"
  shows "vec_char (value_vector val) b = val ! (length val - b - 1)"
proof -
  let ?c = "val ! (length val - b - 1)"
  have c: "?c \<in> {CHR ''0'', CHR ''1'', CHR ''x'', CHR ''z''}" using assms nth_mem [of "length val - b - 1" val] by fastforce
  have j: "b div 32 < (length val + 31) div 32" using assms(1) by (simp add: div_less_iff_less_mult)
  have "(bit (fst (value_vector val ! (b div 32))) (b mod 32) \<longleftrightarrow> ?c \<in> {CHR ''1'', CHR ''x''}) \<and>
      (bit (snd (value_vector val ! (b div 32))) (b mod 32) \<longleftrightarrow> ?c \<in> {CHR ''x'', CHR ''z''})"
    using put_chars [of "length val" val] j assms(1) unfolding value_vector_def [symmetric]
    by (auto dest!: spec [where x = "b div 32"] spec [where x = "b mod 32"])
  then show ?thesis using c by (auto simp: vec_char_bits)
qed

text \<open>The register that \<open>set_handle_to_value\<close> writes reads back as the characters it was given.\<close>

lemma vec_text_value:
  assumes "set val \<subseteq> {CHR ''0'', CHR ''1'', CHR ''x'', CHR ''z''}"
  shows "vec_text (length val) (value_vector val) = val"
  by (rule nth_equalityI) (simp_all add: vec_text_def rev_nth vec_char_value [OF _ assms])

section \<open>Times\<close>

text \<open>Minimising the mantissa keeps the time, and no zero is left to remove.\<close>

lemma minimize_value:
  "minimize m e = (m', e') \<Longrightarrow>
   \<exists>k \<le> 19. unat m = unat m' * 10 ^ k \<and> e' = e + int k \<and> (m' < 10 \<or> m' mod 10 \<noteq> 0)"
proof -
  have ten: "unat (10 :: u64) = 10" by simp
  have "unat m = unat m' * 10 ^ nat (e' - e) \<and> e \<le> e' \<and> (m' < 10 \<or> m' mod 10 \<noteq> 0) \<and> (m' = m \<or> m' \<noteq> 0)"
    if "minimize m e = (m', e')"
    using that
  proof (induction m e rule: minimize.induct)
    case (1 m e)
    show ?case
    proof (cases "10 \<le> m \<and> m mod 10 = 0")
      case True
      then have "minimize (m div 10) (e + 1) = (m', e')" using 1(2) by (simp add: minimize.simps [of m e])
      note IH = 1(1) [OF True this]
      have d: "unat m = unat (m div 10) * 10"
      proof -
        have "unat m mod 10 = 0" using True by (metis unat_mod_distrib unat_0 ten)
        then show ?thesis using div_mult_mod_eq [of "unat m" 10] by (simp add: unat_div)
      qed
      moreover from IH have "e + 1 \<le> e'" by simp
      then have "nat (e' - e) = Suc (nat (e' - (e + 1)))" by arith
      moreover have "0 < unat m" using True by (simp add: word_le_nat_alt)
      then have "m' \<noteq> 0" using IH d by auto
      ultimately show ?thesis using IH by simp
    next
      case False
      then have "m' = m" "e' = e" using 1(2) unfolding minimize.simps [of m e] if_not_P [OF False] by simp_all
      then show ?thesis using False by (metis diff_self mult_1_right nat_0 not_le order_refl power_0)
    qed
  qed
  note v = this
  assume a: "minimize m e = (m', e')"
  show ?thesis
  proof (cases "m' = 0")
    case True
    with v [OF a] have "m = 0" by auto
    with a True have "e' = e" by (simp add: minimize.simps [of 0])
    with \<open>m = 0\<close> True show ?thesis by (intro exI [of _ 0]) simp
  next
    case False
    then have "0 < unat m'" by (simp add: unat_gt_0)
    then have "10 ^ nat (e' - e) \<le> unat m" using v [OF a] by simp
    moreover have "unat m < 10 ^ 20" using unsigned_less [of m, where 'a = nat] by simp
    ultimately have "(10 :: nat) ^ nat (e' - e) < 10 ^ 20" by linarith
    then have "nat (e' - e) < 20" by (rule power_less_imp_less_exp [rotated]) simp
    then show ?thesis using v [OF a] by (intro exI [of _ "nat (e' - e)"]) auto
  qed
qed

text \<open>The delay of \<open>$simbus_until\<close>: the bus time in units of the scope, less the present time.\<close>

lemma scale_up_value:
  "units \<le> e \<Longrightarrow> unat m * 10 ^ nat (e - units) < 2 ^ 64 \<Longrightarrow>
   scale_up units e m = (m * 10 ^ nat (e - units), units)"
proof (induction units e m rule: scale_up.induct)
  case (1 units e m)
  show ?case
  proof (cases "units < e")
    case True
    define k where "k = nat (e - 1 - units)"
    have k: "nat (e - units) = Suc k" using True by (simp add: k_def)
    have "unat m * 10 * 10 ^ k < 2 ^ 64" using 1(3) unfolding k by (simp add: ac_simps)
    moreover have "unat m * 10 \<le> unat m * 10 * 10 ^ k" by simp
    ultimately have "unat m * 10 < 2 ^ 64" by linarith
    then have u: "unat (m * 10) = unat m * 10" by (simp add: unat_word_ariths)
    have "scale_up units (e - 1) (m * 10) = (m * 10 * 10 ^ k, units)"
      unfolding k_def by (rule 1(1) [OF True]) (use True \<open>unat m * 10 * 10 ^ k < 2 ^ 64\<close> in \<open>simp_all add: u k_def\<close>)
    then show ?thesis using True by (simp add: scale_up.simps [of units e m] k ac_simps)
  next
    case False
    then have "e = units" using 1(2) by simp
    then show ?thesis by (simp add: scale_up.simps [of units units])
  qed
qed

lemma scale_now_fine: "prec < units \<Longrightarrow> scale_now units prec m d = (m + 5) div 10"
proof (induction units prec m d rule: scale_now.induct)
  case (1 units prec m d)
  show ?case
  proof (cases "prec + 1 < units")
    case True
    then show ?thesis using 1 by (simp add: scale_now.simps [of units prec])
  next
    case False
    then show ?thesis using 1(2) by (simp add: scale_now.simps [of units prec] scale_now.simps [of units "prec + 1"])
  qed
qed

lemma scale_now_same: "units \<le> prec \<Longrightarrow> scale_now units prec m d = d"
  by (simp add: scale_now.simps)

text \<open>What a bus time is in the units of the scope, when it can be expressed there.\<close>

lemma until_delta_value:
  assumes "sim_units sim \<le> e" and "unat m * 10 ^ nat (e - sim_units sim) < 2 ^ 64"
  shows "until_delta sim m e =
    (let t = m * 10 ^ nat (e - sim_units sim); d = (if sim_precision sim < sim_units sim then (t + 5) div 10 else sim_now sim)
     in to_int32 (uint (if t < d then 0 else t - d)))"
proof -
  have sd: "scale_down (sim_units sim) (sim_units sim) w = (w, sim_units sim)" for w by (simp add: scale_down.simps)
  show ?thesis
  proof (cases "sim_precision sim < sim_units sim")
    case True
    show ?thesis unfolding until_delta_def scale_up_value [OF assms] Let_def prod.case sd scale_now_fine [OF True] if_P [OF True] ..
  next
    case False
    then have le: "sim_units sim \<le> sim_precision sim" by simp
    show ?thesis unfolding until_delta_def scale_up_value [OF assms] Let_def prod.case sd scale_now_same [OF le] if_not_P [OF False] ..
  qed
qed

text \<open>C21: The delay that \<open>$simbus_until\<close> returns. When the simulation's precision is the unit of the calling
  scope, the delay is the time from the present to the bus time, and 0 for a bus time in the past, so the
  simulation stops exactly at the bus time. When the precision is finer than the unit, the delay
  does not depend on the present time at all: it is the bus time less a tenth of it, rounded.\<close>

theorem until_delay:
  assumes "sim_units sim \<le> e" and "t = unat m * 10 ^ nat (e - sim_units sim)" and "t < 2 ^ 31"
  shows "until_delta sim m e =
    (if sim_precision sim < sim_units sim then int (t - (t + 5) div 10) else int (t - unat (sim_now sim)))"
proof -
  define w where "w = m * 10 ^ nat (e - sim_units sim)"
  have tb: "t < 2 ^ 64" using assms(3) by simp
  have w: "unat w = t"
  proof -
    have "w = of_nat t" by (simp add: w_def assms(2))
    then show ?thesis using tb by (simp add: unsigned_of_nat take_bit_nat_eq_self)
  qed
  have i: "to_int32 (uint v) = int (unat v)" if "unat v < 2 ^ 31" for v :: u64
  proof -
    define n where "n = unat v"
    have "to_int32 (int n) = int n" by (rule to_int32_id) (use that in \<open>simp_all add: n_def [symmetric]\<close>)
    then show ?thesis unfolding uint_nat n_def .
  qed
  have d: "to_int32 (uint (if w < d then 0 else w - d)) = int (t - unat d)" for d :: u64
  proof (cases "w < d")
    case True
    then show ?thesis using w i [of 0] by (simp add: word_less_nat_alt)
  next
    case False
    then have "unat (w - d) = t - unat d" using w by (simp add: unat_sub word_le_nat_alt not_less)
    then show ?thesis using False assms(3) by (simp add: i)
  qed
  have "unat (w + 5) = t + 5" using w assms(3) by (simp add: unat_word_ariths)
  then have "unat ((w + 5) div 10) = (t + 5) div 10" by (simp add: unat_div)
  then show ?thesis
    unfolding until_delta_value [OF assms(1) tb [unfolded assms(2)]] Let_def w_def [symmetric] d by simp
qed

theorem until_delay_witness:
  "until_delta \<lparr>sim_high = 0, sim_low = 70, sim_precision = -9, sim_units = -9, vpiStrongDrive = 64, vlog_argv = []\<rparr> 1 (-7) = 30
   \<and> until_delta \<lparr>sim_high = 0, sim_low = 70000, sim_precision = -12, sim_units = -9, vpiStrongDrive = 64, vlog_argv = []\<rparr> 1 (-7) = 90"
proof
  show "until_delta \<lparr>sim_high = 0, sim_low = 70, sim_precision = -9, sim_units = -9, vpiStrongDrive = 64, vlog_argv = []\<rparr> 1 (-7) = 30"
    by (subst until_delay [where t = 100]) (simp_all add: sim_now_def)
  show "until_delta \<lparr>sim_high = 0, sim_low = 70000, sim_precision = -12, sim_units = -9, vpiStrongDrive = 64, vlog_argv = []\<rparr> 1 (-7) = 90"
    by (subst until_delay [where t = 100]) simp_all
qed

end
