(* ===== verification/Sim_VPI_Bus.thy ===== *)
theory Sim_VPI_Bus
  imports Sim_VPI
begin

text \<open>
  What the system tasks of vpi/simbus.c guarantee: a line is read whole however it arrives, a waiting
  trigger is never forgotten, and the messages of \<open>$simbus_ready\<close> and \<open>$simbus_until\<close> mean to the
  simulation what they mean to the server.
\<close>

section \<open>Reading a line\<close>

fun event_data :: "read_event \<Rightarrow> string" where
  "event_data (Rd_data s) = s"
| "event_data Rd_error = []"

lemma sock_read_length: "sock_read c n = Done (r, c') \<Longrightarrow> length (event_data r) \<le> n"
  by (cases r) (auto simp: sock_read_def split: list.splits read_event.splits if_splits)

lemma consumed:
  assumes "consume_readable_data i = Done j"
  obtains "j = i" "MAX_MESSAGE \<le> length (read_buf i)" "inst_name i \<noteq> None"
  | r c where "sock_read (inst_conn i) (MAX_MESSAGE - length (read_buf i)) = Done (r, c)" "length (read_buf i) < MAX_MESSAGE"
      "j = i\<lparr>inst_conn := c, read_buf := read_buf i @ event_data r\<rparr>" "inst_name i \<noteq> None"
proof (cases "MAX_MESSAGE \<le> length (read_buf i)")
  case True
  then show ?thesis using assms that(1) by (auto simp: consume_readable_data_def Let_def)
next
  case False
  then obtain r c where r: "sock_read (inst_conn i) (MAX_MESSAGE - length (read_buf i)) = Done (r, c)" "inst_name i \<noteq> None"
    "(case r of Rd_error \<Rightarrow> Done (i\<lparr>inst_conn := c\<rparr>) | Rd_data s \<Rightarrow> Done (i\<lparr>inst_conn := c, read_buf := read_buf i @ s\<rparr>)) = Done j"
    using assms by (auto simp: consume_readable_data_def Let_def)
  show ?thesis by (rule that(2) [OF r(1)]) (use r False in \<open>auto split: read_event.splits\<close>)
qed

lemma read_more_consumes: "read_more i = Done j \<Longrightarrow> pending (inst_conn j) < pending (inst_conn i)"
  by (auto simp: read_more_def split: if_splits elim!: consumed dest: pending_sock_read [rotated])

interpretation read_loop: io_loop "\<lambda>i. pending (inst_conn i)" read_more
  by unfold_locales (rule read_more_consumes)

lemma read_message_ready:
  assumes "take_line (read_buf i) = Some (line, rest)" and "inst_name i \<noteq> None" and "length line < n"
  shows "read_message i n = Done (line, i\<lparr>trig := None, read_buf := rest\<rparr>)"
  using assms by (simp add: read_message_def)

lemma read_events:
  assumes "evs \<noteq> []" and "event_data (last evs) \<noteq> []" and "read_buf i @ concat (map event_data evs) = line @ [NL]"
    and "rx (inst_conn i) = evs @ es" and "inst_name i \<noteq> None" and "\<forall>c \<in> set line. c \<noteq> NL \<and> c \<noteq> NUL"
    and "length line < MAX_MESSAGE"
  shows "while_io (\<lambda>i. pending (inst_conn i)) (\<lambda>i. take_line (read_buf i) = None) read_more i =
    Done (i\<lparr>inst_conn := (inst_conn i)\<lparr>rx := es\<rparr>, read_buf := line @ [NL]\<rparr>)"
  using assms
proof (induction evs arbitrary: i)
  case (Cons ev evs)
  let ?s = "event_data ev"
  have ne: "concat (map event_data (ev # evs)) \<noteq> []" using Cons.prems(1,2) by (metis concat_eq_Nil_conv last_in_set image_eqI set_map)
  have buf: "read_buf i @ butlast (concat (map event_data (ev # evs))) = line"
    using Cons.prems(3) ne by (metis butlast_append butlast_snoc)
  then have none: "take_line (read_buf i) = None" using Cons.prems(6) by (intro take_line_plain(2)) auto
  have "length (read_buf i) + length (butlast (concat (map event_data (ev # evs)))) = length line"
    using arg_cong [OF buf, of length] by simp
  then have room: "length (read_buf i) < MAX_MESSAGE" "length ?s \<le> MAX_MESSAGE - length (read_buf i)"
    using Cons.prems(7) by auto
  let ?j = "i\<lparr>inst_conn := (inst_conn i)\<lparr>rx := evs @ es\<rparr>, read_buf := read_buf i @ ?s\<rparr>"
  have step: "read_more i = Done ?j"
    using Cons.prems(4,5) room by (cases ev) (simp_all add: read_more_def consume_readable_data_def sock_read_def Let_def)
  show ?case
  proof (cases "evs = []")
    case True
    then have b: "read_buf i @ ?s = line @ [NL]" using Cons.prems(3) by simp
    have "take_line (read_buf i @ ?s) \<noteq> None" unfolding b using take_line_plain(1) [OF Cons.prems(6), of "[]"] by simp
    then show ?thesis by (subst read_loop.unfold) (simp add: none step True b)
  next
    case False
    have "while_io (\<lambda>i. pending (inst_conn i)) (\<lambda>i. take_line (read_buf i) = None) read_more ?j =
        Done (?j\<lparr>inst_conn := (inst_conn ?j)\<lparr>rx := es\<rparr>, read_buf := line @ [NL]\<rparr>)"
      by (rule Cons.IH) (use Cons.prems False in simp_all)
    then show ?thesis by (subst read_loop.unfold) (simp add: none step)
  qed
qed simp

text \<open>A message is read whole, whatever pieces it comes in, and whatever errors and ends of the stream are
  reported between them.\<close>

lemma read_message_line:
  assumes "evs \<noteq> []" and "event_data (last evs) \<noteq> []" and "read_buf i @ concat (map event_data evs) = line @ [NL]"
    and "rx (inst_conn i) = evs @ es" and "inst_name i \<noteq> None" and "\<forall>c \<in> set line. c \<noteq> NL \<and> c \<noteq> NUL"
    and "length line < MAX_MESSAGE"
  shows "read_message i (MAX_MESSAGE + 1) =
    Done (line, i\<lparr>inst_conn := (inst_conn i)\<lparr>rx := es\<rparr>, read_buf := [], trig := None\<rparr>)"
proof -
  let ?i = "i\<lparr>trig := None\<rparr>"
  have "while_io (\<lambda>i. pending (inst_conn i)) (\<lambda>i. take_line (read_buf i) = None) read_more ?i =
      Done (?i\<lparr>inst_conn := (inst_conn ?i)\<lparr>rx := es\<rparr>, read_buf := line @ [NL]\<rparr>)"
    by (rule read_events) (use assms in simp_all)
  then show ?thesis using take_line_plain(1) [OF assms(6), of "[]"] assms(5,7) by (simp add: read_message_def)
qed

section \<open>Waiting triggers\<close>

text \<open>A simulation: the tasks it calls, the callbacks it runs, and data that arrives.\<close>

inductive vpi_step :: "vpi_state \<Rightarrow> vpi_state \<Rightarrow> bool" where
  connect: "0 < sfd \<Longrightarrow> simbus_connect_calltf sim (os :: nat os) sfd argv st = Done (st', calls) \<Longrightarrow> vpi_step st st'"
| ready: "simbus_ready_calltf sim argv st = Done (st', calls) \<Longrightarrow> vpi_step st st'"
| poll: "simbus_poll_calltf argv st = Done (st', calls) \<Longrightarrow> vpi_step st st'"
| until: "simbus_until_calltf sim argv st = Done (st', calls) \<Longrightarrow> vpi_step st st'"
| callback: "callbacks st = Suc n \<Longrightarrow> poll_for_simbus_bus (Some rd) (st\<lparr>callbacks := n\<rparr>) = Done (st', calls) \<Longrightarrow> vpi_step st st'"
| arrival: "idx < length (instances st) \<Longrightarrow> instances st ! idx = i \<Longrightarrow>
    vpi_step st (put_instance idx (i\<lparr>inst_conn := (inst_conn i)\<lparr>rx := rx (inst_conn i) @ evs\<rparr>\<rparr>) st)"

inductive_cases vpi_stepE: "vpi_step st st'"

inductive vpi_reaches :: "vpi_state \<Rightarrow> bool" where
  startup: "vpi_reaches simbus_setup"
| run: "vpi_reaches st \<Longrightarrow> vpi_step st st' \<Longrightarrow> vpi_reaches st'"

definition instance_ok :: "port_instance \<Rightarrow> bool" where
  "instance_ok i \<longleftrightarrow> length (read_buf i) \<le> MAX_MESSAGE
     \<and> (inst_name i \<noteq> None \<longrightarrow> 0 < inst_fd i)
     \<and> (trig i \<noteq> None \<longrightarrow> inst_name i \<noteq> None \<and> take_line (read_buf i) = None)"

definition vpi_ok :: "vpi_state \<Rightarrow> bool" where
  "vpi_ok st \<longleftrightarrow> length (instances st) = MAX_INSTANCES \<and> (\<forall>i \<in> set (instances st). instance_ok i)
     \<and> ((\<exists>i \<in> set (instances st). waiting i) \<longrightarrow> 0 < callbacks st)"

lemma max_fd_positive:
  assumes "\<forall>i \<in> set ps. waiting i \<longrightarrow> 0 < inst_fd i"
  shows "0 \<le> max_fd ps" and "(\<exists>i \<in> set ps. waiting i) \<longleftrightarrow> max_fd ps \<noteq> 0"
proof -
  have "n \<le> fold (\<lambda>i n. if waiting i \<and> n < inst_fd i then inst_fd i else n) ps n \<and>
      ((\<exists>i \<in> set ps. waiting i \<and> n < inst_fd i) \<longleftrightarrow> fold (\<lambda>i n. if waiting i \<and> n < inst_fd i then inst_fd i else n) ps n \<noteq> n)" for n
  proof (induction "ps" arbitrary: n)
    case (Cons i ps)
    show ?case using Cons [of "inst_fd i"] Cons [of n] by (auto 0 3)
  qed simp
  from this [of 0] assms show "0 \<le> max_fd ps" "(\<exists>i \<in> set ps. waiting i) \<longleftrightarrow> max_fd ps \<noteq> 0"
    unfolding max_fd_def by (auto 0 3)
qed

lemma consume_ok:
  assumes "consume_readable_data i = Done j" and "length (read_buf i) \<le> MAX_MESSAGE"
  shows "length (read_buf j) \<le> MAX_MESSAGE \<and> inst_name j = inst_name i \<and> inst_fd j = inst_fd i \<and> trig j = trig i"
  using assms(1)
proof (cases rule: consumed)
  case (2 r c)
  then show ?thesis using sock_read_length [OF 2(1)] by simp
qed (use assms(2) in simp)

lemma prod_cases:
  assumes "prod_triggers rd (i # ps) = Done (js, calls)"
  obtains ks cs where "prod_triggers rd ps = Done (ks, cs)" "js = i # ks" "calls = cs" "trig i = None \<or> \<not> rd (inst_fd i)"
  | h i1 ks cs where "prod_triggers rd ps = Done (ks, cs)" "trig i = Some h" "rd (inst_fd i)" "consume_readable_data i = Done i1"
      "take_line (read_buf i1) \<noteq> None" "js = i1\<lparr>trig := None\<rparr> # ks" "calls = Put_scalar h True # cs"
  | h i1 ks cs where "prod_triggers rd ps = Done (ks, cs)" "trig i = Some h" "rd (inst_fd i)" "consume_readable_data i = Done i1"
      "take_line (read_buf i1) = None" "js = i1 # ks" "calls = cs"
  using assms by (auto simp: check_readable_def split: option.splits if_splits simp del: not_None_eq)

lemma prod_ok:
  "prod_triggers rd ps = Done (js, calls) \<Longrightarrow> \<forall>i \<in> set ps. instance_ok i \<Longrightarrow>
   length js = length ps \<and> (\<forall>j \<in> set js. instance_ok j)"
proof (induction ps arbitrary: js calls)
  case (Cons i ps)
  have i: "instance_ok i" "\<forall>i \<in> set ps. instance_ok i" using Cons.prems(2) by simp_all
  show ?case using Cons.prems(1)
  proof (cases rule: prod_cases)
    case (1 ks cs)
    then show ?thesis using Cons.IH [OF 1(1) i(2)] i(1) by simp
  next
    case (2 h i1 ks cs)
    then have "instance_ok (i1\<lparr>trig := None\<rparr>)" using consume_ok [OF 2(4)] i(1) by (simp add: instance_ok_def)
    then show ?thesis using Cons.IH [OF 2(1) i(2)] 2(6) by simp
  next
    case (3 h i1 ks cs)
    then have "instance_ok i1" using consume_ok [OF 3(4)] i(1) by (simp add: instance_ok_def)
    then show ?thesis using Cons.IH [OF 3(1) i(2)] 3(6) by simp
  qed
qed simp

lemma read_message_ok:
  assumes "read_message i n = Done (line, j)" and "length (read_buf i) \<le> MAX_MESSAGE"
  shows "length (read_buf j) \<le> MAX_MESSAGE \<and> inst_name j = inst_name i \<and> inst_fd j = inst_fd i \<and> trig j = None"
proof -
  let ?I = "\<lambda>k. length (read_buf k) \<le> MAX_MESSAGE \<and> inst_name k = inst_name i \<and> inst_fd k = inst_fd i \<and> trig k = None"
  have "ret (while_io (\<lambda>i. pending (inst_conn i)) (\<lambda>i. take_line (read_buf i) = None) read_more (i\<lparr>trig := None\<rparr>))
      (\<lambda>k. ?I k \<and> \<not> take_line (read_buf k) = None)"
  proof (rule ret_while_io)
    show "?I (i\<lparr>trig := None\<rparr>)" using assms(2) by simp
    show "ret (read_more k) ?I" if "?I k" for k
      using that by (auto simp: read_more_def intro!: retI dest: consume_ok)
  qed
  moreover obtain k where k: "while_io (\<lambda>i. pending (inst_conn i)) (\<lambda>i. take_line (read_buf i) = None) read_more (i\<lparr>trig := None\<rparr>) = Done k"
    "\<exists>rest. take_line (read_buf k) = Some (line, rest) \<and> j = k\<lparr>read_buf := rest\<rparr>"
    using assms(1) by (auto simp: read_message_def split: option.splits)
  ultimately have I: "?I k" by (auto dest: retD)
  from k(2) obtain rest where r: "take_line (read_buf k) = Some (line, rest)" "j = k\<lparr>read_buf := rest\<rparr>" by blast
  then have "rest = tl (dropWhile (\<lambda>c. c \<noteq> NL) (read_buf k))" by (auto simp: take_line_def split: if_splits)
  then have "length rest \<le> length (read_buf k)"
    using length_dropWhile_le [of "\<lambda>c. c \<noteq> NL" "read_buf k"] by simp
  then show ?thesis using I r(2) by simp
qed

text \<open>Which task does what to the table.\<close>

lemma connect_call_effect:
  assumes "simbus_connect_calltf sim os sfd argv st = Done (st', calls)"
  shows "st' = st \<or> (\<exists>idx nm c. idx < length (instances st) \<and> inst_name (instances st ! idx) = None
    \<and> st' = put_instance idx ((instances st ! idx)\<lparr>inst_name := Some nm, inst_fd := sfd, inst_conn := c, read_buf := []\<rparr>) st)"
proof -
  have slot: "\<exists>idx nm c. idx < length (instances st) \<and> inst_name (instances st ! idx) = None
      \<and> st' = put_instance idx ((instances st ! idx)\<lparr>inst_name := Some nm, inst_fd := sfd, inst_conn := c, read_buf := []\<rparr>) st"
    if "take_slot nm sfd c st = Done (st', calls)" for nm c
  proof -
    have f: "free_slot (instances st) < length (instances st)" using that by (simp add: take_slot_def Let_def)
    then have "inst_name (instances st ! free_slot (instances st)) = None"
      using nth_length_takeWhile [of "\<lambda>i. inst_name i \<noteq> None" "instances st"] by (simp add: free_slot_def)
    with f that show ?thesis
      by (intro exI [of _ "free_slot (instances st)"] exI [of _ nm] exI [of _ c]) (simp add: take_slot_def Let_def)
  qed
  show ?thesis
    using assms slot by (auto simp: simbus_connect_calltf_def split: list.splits option.splits if_splits)
qed

lemma bus_index: "0 \<le> b \<Longrightarrow> b < int n \<Longrightarrow> nat b < n"
  by linarith

lemma ready_call_effect:
  assumes "simbus_ready_calltf sim argv st = Done (st', calls)"
  shows "\<exists>idx c. idx < MAX_INSTANCES \<and> st' = put_instance idx ((instances st ! idx)\<lparr>inst_conn := c\<rparr>) st"
proof -
  from assms obtain b rest where a: "argv = b # rest" by (cases argv) (auto simp: simbus_ready_calltf_def)
  with assms obtain message where "0 \<le> obj_int b" "obj_int b < int MAX_INSTANCES"
    "st' = put_instance (nat (obj_int b)) ((instances st ! nat (obj_int b))
       \<lparr>inst_conn := snd (sock_write (inst_conn (instances st ! nat (obj_int b))) message)\<rparr>) st"
    by (auto simp: simbus_ready_calltf_def Let_def case_prod_beta)
  then show ?thesis using bus_index by blast
qed

lemma poll_call_effect:
  assumes "simbus_poll_calltf argv st = Done (st', calls)"
  obtains idx t where "idx < MAX_INSTANCES" "inst_name (instances st ! idx) \<noteq> None"
    "t \<noteq> None \<longrightarrow> take_line (read_buf (instances st ! idx)) = None"
    "st' = (put_instance idx ((instances st ! idx)\<lparr>trig := t\<rparr>) st)\<lparr>callbacks := callbacks st + (if t = None then 0 else 1)\<rparr>"
proof -
  from assms obtain b tg rest where a: "argv = b # tg # rest"
    by (cases argv; cases "tl argv") (auto simp: simbus_poll_calltf_def)
  let ?i = "instances st ! nat (obj_int b)"
  have b: "nat (obj_int b) < MAX_INSTANCES" and n: "inst_name ?i \<noteq> None"
    using assms bus_index by (auto simp: a simbus_poll_calltf_def check_readable_def Let_def)
  show ?thesis
  proof (cases "take_line (read_buf ?i) = None")
    case True
    then show ?thesis using assms n by (intro that [OF b n, of "Some (obj_handle tg)"])
      (auto simp: a simbus_poll_calltf_def check_readable_def Let_def)
  next
    case False
    then show ?thesis using assms n by (intro that [OF b n, of None])
      (auto simp: a simbus_poll_calltf_def check_readable_def Let_def)
  qed
qed

lemma until_call_effect:
  assumes "simbus_until_calltf sim argv st = Done (st', calls)"
  shows "\<exists>idx line i. idx < MAX_INSTANCES \<and> read_message (instances st ! idx) (MAX_MESSAGE + 1) = Done (line, i)
    \<and> st' = put_instance idx i st"
proof -
  from assms obtain b rest where a: "argv = b # rest" by (cases argv) (auto simp: simbus_until_calltf_def)
  with assms obtain ll line i where "read_message (instances st ! nat (obj_int b)) (MAX_MESSAGE + 1) = Done (line, i)"
    "0 \<le> obj_int b" "obj_int b < int MAX_INSTANCES" "st' = put_instance (nat (obj_int b)) i st"
    by (auto simp: simbus_until_calltf_def Let_def split: if_splits)
  then show ?thesis using bus_index by blast
qed

text \<open>The invariant.  A replaced instance must be sound, and wait only if a callback is owed.\<close>

lemma vpi_ok_put:
  assumes "vpi_ok st" and "instance_ok i" and "waiting i \<Longrightarrow> 0 < n" and "callbacks st \<le> n"
  shows "vpi_ok ((put_instance idx i st)\<lparr>callbacks := n\<rparr>)"
  using assms by (auto simp: vpi_ok_def dest!: set_update_subset_insert [THEN subsetD])

lemma vpi_ok_nth: "vpi_ok st \<Longrightarrow> idx < MAX_INSTANCES \<Longrightarrow> instance_ok (instances st ! idx)"
  by (simp add: vpi_ok_def)

lemma waiting_callbacks: "vpi_ok st \<Longrightarrow> idx < MAX_INSTANCES \<Longrightarrow> waiting (instances st ! idx) \<Longrightarrow> 0 < callbacks st"
  by (auto simp: vpi_ok_def)

lemma step_ok:
  assumes "vpi_step st st'" and ok: "vpi_ok st"
  shows "vpi_ok st'"
  using assms(1)
proof cases
  case (connect sfd sim os argv calls)
  from connect_call_effect [OF connect(2)] show ?thesis
  proof (elim disjE exE conjE)
    fix idx nm c
    assume idx: "idx < length (instances st)" and free: "inst_name (instances st ! idx) = None"
      and st': "st' = put_instance idx ((instances st ! idx)\<lparr>inst_name := Some nm, inst_fd := sfd, inst_conn := c, read_buf := []\<rparr>) st"
    let ?i = "(instances st ! idx)\<lparr>inst_name := Some nm, inst_fd := sfd, inst_conn := c, read_buf := []\<rparr>"
    have "instance_ok (instances st ! idx)" using ok idx by (simp add: vpi_ok_def)
    then have "trig (instances st ! idx) = None" using free by (auto simp: instance_ok_def)
    then have "vpi_ok ((put_instance idx ?i st)\<lparr>callbacks := callbacks st\<rparr>)"
      using connect(1) by (intro vpi_ok_put [OF ok]) (simp_all add: instance_ok_def waiting_def)
    then show ?thesis by (simp add: st')
  qed (use ok in simp)
next
  case (ready sim argv calls)
  then obtain idx c where idx: "idx < MAX_INSTANCES" and st': "st' = put_instance idx ((instances st ! idx)\<lparr>inst_conn := c\<rparr>) st"
    using ready_call_effect by blast
  have "vpi_ok ((put_instance idx ((instances st ! idx)\<lparr>inst_conn := c\<rparr>) st)\<lparr>callbacks := callbacks st\<rparr>)"
    using vpi_ok_nth [OF ok idx] waiting_callbacks [OF ok idx]
    by (intro vpi_ok_put [OF ok]) (simp_all add: instance_ok_def waiting_def)
  then show ?thesis by (simp add: st')
next
  case (poll argv calls)
  then obtain idx t where idx: "idx < MAX_INSTANCES" and n: "inst_name (instances st ! idx) \<noteq> None"
    and t: "t \<noteq> None \<longrightarrow> take_line (read_buf (instances st ! idx)) = None"
    and st': "st' = (put_instance idx ((instances st ! idx)\<lparr>trig := t\<rparr>) st)\<lparr>callbacks := callbacks st + (if t = None then 0 else 1)\<rparr>"
    by (rule poll_call_effect)
  show ?thesis unfolding st' using vpi_ok_nth [OF ok idx] n t
    by (intro vpi_ok_put [OF ok]) (auto simp: instance_ok_def waiting_def)
next
  case (until sim argv calls)
  then obtain idx line i where idx: "idx < MAX_INSTANCES" and r: "read_message (instances st ! idx) (MAX_MESSAGE + 1) = Done (line, i)"
    and st': "st' = put_instance idx i st" using until_call_effect by blast
  have "vpi_ok ((put_instance idx i st)\<lparr>callbacks := callbacks st\<rparr>)"
    using vpi_ok_nth [OF ok idx] read_message_ok [OF r]
    by (intro vpi_ok_put [OF ok]) (simp_all add: instance_ok_def waiting_def)
  then show ?thesis by (simp add: st')
next
  case (callback n rd calls)
  have insts: "\<forall>i \<in> set (instances st). instance_ok i" using ok by (simp add: vpi_ok_def)
  have fds: "\<forall>i \<in> set (instances st). waiting i \<longrightarrow> 0 < inst_fd i" using insts by (auto simp: instance_ok_def waiting_def)
  show ?thesis
  proof (cases "max_fd (instances st) = 0")
    case True
    then show ?thesis using callback ok max_fd_positive(2) [OF fds] by (auto simp: poll_for_simbus_bus_def vpi_ok_def)
  next
    case False
    with callback(2) obtain ps where p: "prod_triggers rd (instances st) = Done (ps, calls)"
      "st' = st\<lparr>instances := ps, callbacks := (if 0 < max_fd (instances st) + 1 + int (length (filter waiting ps)) then Suc n else n)\<rparr>"
      by (auto simp: poll_for_simbus_bus_def Let_def)
    then show ?thesis using prod_ok [OF p(1) insts] max_fd_positive(1) [OF fds] ok by (auto simp: vpi_ok_def)
  qed
next
  case (arrival idx i evs)
  let ?j = "i\<lparr>inst_conn := (inst_conn i)\<lparr>rx := rx (inst_conn i) @ evs\<rparr>\<rparr>"
  have idx: "idx < MAX_INSTANCES" using arrival ok by (simp add: vpi_ok_def)
  have "vpi_ok ((put_instance idx ?j st)\<lparr>callbacks := callbacks st\<rparr>)"
    using vpi_ok_nth [OF ok idx] waiting_callbacks [OF ok idx] arrival
    by (intro vpi_ok_put [OF ok]) (auto simp: instance_ok_def waiting_def)
  then show ?thesis by (simp add: arrival)
qed

lemma reaches_vpi_ok: "vpi_reaches st \<Longrightarrow> vpi_ok st"
proof (induction rule: vpi_reaches.induct)
  case startup
  show ?case by (auto simp: vpi_ok_def simbus_setup_def instance_ok_def waiting_def)
next
  case (run st st')
  then show ?case by (blast intro: step_ok)
qed

lemma prod_nth:
  "prod_triggers rd ps = Done (js, calls) \<Longrightarrow> idx < length ps \<Longrightarrow> trig (ps ! idx) = Some h \<Longrightarrow> rd (inst_fd (ps ! idx)) \<Longrightarrow>
   consume_readable_data (ps ! idx) = Done i1 \<Longrightarrow> take_line (read_buf i1) \<noteq> None \<Longrightarrow>
   js ! idx = i1\<lparr>trig := None\<rparr> \<and> Put_scalar h True \<in> set calls"
proof (induction ps arbitrary: js calls idx)
  case (Cons i ps)
  show ?case
  proof (cases idx)
    case 0
    from Cons.prems(1) show ?thesis by (cases rule: prod_cases) (use Cons.prems 0 in auto)
  next
    case (Suc k)
    from Cons.prems(1) obtain j ks cs where k: "prod_triggers rd ps = Done (ks, cs)" "js = j # ks" "set cs \<subseteq> set calls"
      by (cases rule: prod_cases) auto
    with Cons.IH [OF k(1), of k] Cons.prems Suc show ?thesis by auto
  qed
qed simp

text \<open>C7: A simulation that waits for the server is woken. In every reachable state in which a trigger waits on a
  connection, the simulator owes a callback. When the rest of a line arrives there and \<open>select\<close>
  reports it, the callback, if it returns, sets the trigger to 1, and the line is then in the
  buffer, so \<open>$simbus_until\<close> reads it without waiting.\<close>

theorem trigger_woken:
  assumes "vpi_reaches st" and "idx < MAX_INSTANCES" and "trig (instances st ! idx) = Some h"
    and "rx (inst_conn (instances st ! idx)) = Rd_data s # es"
    and "length (read_buf (instances st ! idx)) + length s \<le> MAX_MESSAGE" and "s \<noteq> []"
    and "take_line (read_buf (instances st ! idx) @ s) = Some (line, rest)"
    and "rd (inst_fd (instances st ! idx))"
  shows "0 < callbacks st \<and> ret (poll_for_simbus_bus (Some rd) (st\<lparr>callbacks := n\<rparr>)) (\<lambda>(st', calls).
    Put_scalar h True \<in> set calls \<and> n < callbacks st' \<and>
    (\<exists>j. read_message (instances st' ! idx) (MAX_MESSAGE + 1) = Done (line, j) \<and> inst_conn j = inst_conn (instances st' ! idx)))"
proof (intro conjI retI)
  let ?i = "instances st ! idx"
  have ok: "vpi_ok st" by (rule reaches_vpi_ok [OF assms(1)])
  then show "0 < callbacks st" by (rule waiting_callbacks [OF _ assms(2)]) (simp add: waiting_def assms(3))
  fix x assume x: "poll_for_simbus_bus (Some rd) (st\<lparr>callbacks := n\<rparr>) = Done x"
  have insts: "\<forall>i \<in> set (instances st). instance_ok i" and len: "idx < length (instances st)"
    using ok assms(2) by (simp_all add: vpi_ok_def)
  then have fds: "\<forall>i \<in> set (instances st). waiting i \<longrightarrow> 0 < inst_fd i" by (auto simp: instance_ok_def waiting_def)
  have "waiting ?i" by (simp add: waiting_def assms(3))
  then have "\<exists>i \<in> set (instances st). waiting i" using nth_mem [OF len] by blast
  then have fd: "max_fd (instances st) \<noteq> 0" using max_fd_positive(2) [OF fds] by simp
  obtain st' calls where x': "x = (st', calls)" by (cases x)
  from x fd obtain ps where p: "prod_triggers rd (instances st) = Done (ps, calls)"
    "st' = st\<lparr>instances := ps, callbacks := (if 0 < max_fd (instances st) + 1 + int (length (filter waiting ps)) then Suc n else n)\<rparr>"
    by (auto simp: poll_for_simbus_bus_def x' Let_def)
  have nm: "inst_name ?i \<noteq> None" using insts len assms(3) by (auto simp: instance_ok_def)
  let ?i1 = "?i\<lparr>inst_conn := (inst_conn ?i)\<lparr>rx := es\<rparr>, read_buf := read_buf ?i @ s\<rparr>"
  have "0 < length s" using assms(6) by simp
  then have c: "consume_readable_data ?i = Done ?i1"
    using nm assms(4,5) by (auto simp: consume_readable_data_def sock_read_def Let_def)
  have j: "ps ! idx = ?i1\<lparr>trig := None\<rparr>" "Put_scalar h True \<in> set calls"
    using prod_nth [OF p(1) len assms(3,8) c] assms(7) by simp_all
  have "length line \<le> length (read_buf ?i @ s)"
    using assms(7) length_takeWhile_le [of "\<lambda>c. c \<noteq> NL" "read_buf ?i @ s"] by (simp add: take_line_def split: if_splits)
  then have "length line < MAX_MESSAGE + 1" using assms(5) by simp
  then have "read_message (ps ! idx) (MAX_MESSAGE + 1) = Done (line, (ps ! idx)\<lparr>trig := None, read_buf := rest\<rparr>)"
    using assms(7) nm by (intro read_message_ready) (simp_all add: j)
  then show "case x of (st', calls) \<Rightarrow> Put_scalar h True \<in> set calls \<and> n < callbacks st' \<and>
    (\<exists>j. read_message (instances st' ! idx) (MAX_MESSAGE + 1) = Done (line, j) \<and> inst_conn j = inst_conn (instances st' ! idx))"
    using j(2) max_fd_positive(1) [OF fds] by (auto simp: x' p(2))
qed

definition demo_sim :: simulator where
  "demo_sim = \<lparr>sim_high = 0, sim_low = 1200, sim_precision = -9, sim_units = -9, vpiStrongDrive = 64, vlog_argv = [''vvp'', ''+simbus-h-bus=tcp:1'']\<rparr>"

definition demo_obj :: vpi_obj where
  "demo_obj = \<lparr>obj_handle = 0, obj_type = VpiReg, obj_const = OtherConst, obj_size = 1, obj_int = 0, obj_str = None,
     obj_vector = [(0, 0)], obj_strength = [(64, 0)]\<rparr>"

definition demo_os :: "nat os" where
  "demo_os = \<lparr>os_getaddrinfo = (\<lambda>h p. Some [0]), os_connect = (\<lambda>a. Some (script [Rd_data (''YOU-ARE 0'' @ [NL])])),
     os_connect_unix = (\<lambda>p. None), os_malloc_byte = NUL\<rparr>"

definition demo_port :: port_instance where
  "demo_port = \<lparr>inst_name = Some ''h'', inst_fd = 3, inst_conn = (script [])\<lparr>tx := [''HELLO h'' @ [NL]]\<rparr>, read_buf = [], trig = None\<rparr>"

lemma demo_connect:
  "simbus_connect_calltf demo_sim demo_os 3 [demo_obj\<lparr>obj_str := Some ''h''\<rparr>] simbus_setup =
     Done (put_instance 0 demo_port simbus_setup, [Put_int 0])"
  by (simp add: simbus_connect_calltf_def demo_sim_def demo_obj_def demo_os_def demo_port_def bus_switch_def open_server_def tcp_server_def
      say_hello_def hello_command_def take_slot_def free_slot_def simbus_setup_def MAX_INSTANCES_def Let_def
      sock_write_def sock_read_def script_def buf_size_def NL_def NUL_def cstr_def dec_nat.simps)

lemma demo_waits:
  "vpi_reaches (simbus_setup\<lparr>instances := (instances simbus_setup)[0 := demo_port\<lparr>trig := Some 7,
     inst_conn := (inst_conn demo_port)\<lparr>rx := [Rd_data (''UNTIL'' @ [NL])]\<rparr>\<rparr>], callbacks := 1\<rparr>)"
proof -
  let ?s1 = "put_instance 0 demo_port simbus_setup"
  let ?s2 = "(put_instance 0 (demo_port\<lparr>trig := Some 7\<rparr>) ?s1)\<lparr>callbacks := 1\<rparr>"
  have 1: "vpi_reaches ?s1" by (rule run [OF startup connect [OF _ demo_connect]]) simp
  have "simbus_poll_calltf [demo_obj, demo_obj\<lparr>obj_handle := 7\<rparr>] ?s1 = Done (?s2, [Put_scalar 7 False])"
    by (simp add: simbus_poll_calltf_def check_readable_def demo_obj_def demo_port_def simbus_setup_def MAX_INSTANCES_def take_line_def Let_def)
  then have "vpi_reaches ?s2" by (rule run [OF 1 poll])
  moreover have "vpi_step ?s2 (put_instance 0 ((demo_port\<lparr>trig := Some 7\<rparr>)
      \<lparr>inst_conn := (inst_conn (demo_port\<lparr>trig := Some 7\<rparr>))\<lparr>rx := rx (inst_conn (demo_port\<lparr>trig := Some 7\<rparr>)) @ [Rd_data (''UNTIL'' @ [NL])]\<rparr>\<rparr>) ?s2)"
    by (rule arrival) (simp_all add: simbus_setup_def MAX_INSTANCES_def)
  ultimately have "vpi_reaches (put_instance 0 ((demo_port\<lparr>trig := Some 7\<rparr>)
      \<lparr>inst_conn := (inst_conn (demo_port\<lparr>trig := Some 7\<rparr>))\<lparr>rx := rx (inst_conn (demo_port\<lparr>trig := Some 7\<rparr>)) @ [Rd_data (''UNTIL'' @ [NL])]\<rparr>\<rparr>) ?s2)"
    by (rule run)
  then show ?thesis by (simp add: demo_port_def simbus_setup_def)
qed

theorem trigger_woken_witness:
  "let st = simbus_setup\<lparr>instances := (instances simbus_setup)[0 := demo_port\<lparr>trig := Some 7,
     inst_conn := (inst_conn demo_port)\<lparr>rx := [Rd_data (''UNTIL'' @ [NL])]\<rparr>\<rparr>], callbacks := 1\<rparr>
   in 0 < callbacks st \<and> ret (poll_for_simbus_bus (Some (\<lambda>fd. fd = 3)) (st\<lparr>callbacks := 0\<rparr>)) (\<lambda>(st', calls).
    Put_scalar 7 True \<in> set calls \<and> 0 < callbacks st' \<and>
    (\<exists>j. read_message (instances st' ! 0) (MAX_MESSAGE + 1) = Done (''UNTIL'', j) \<and> inst_conn j = inst_conn (instances st' ! 0)))"
  unfolding Let_def
  by (rule trigger_woken [OF demo_waits, where s = "''UNTIL'' @ [NL]" and es = "[]" and rest = "[]"])
    (simp_all add: simbus_setup_def MAX_INSTANCES_def MAX_MESSAGE_def demo_port_def take_line_def NL_def NUL_def)

section \<open>Messages\<close>

lemma chop_words:
  "argument t \<Longrightarrow> list_all argument us \<Longrightarrow> chop_message (t @ spaced us) = t # us"
proof (induction us arbitrary: t)
  case Nil
  then obtain c cs where t: "t = c # cs" by (cases t) (auto simp: argument_def)
  have "\<forall>x \<in> set t. x \<noteq> CHR '' ''" using Nil by (auto simp: argument_def white_def)
  then have "takeWhile (\<lambda>x. x \<noteq> CHR '' '') t = t" "dropWhile (\<lambda>x. x \<noteq> CHR '' '') t = []"
    by (auto simp: takeWhile_eq_all_conv dropWhile_eq_Nil_conv)
  then show ?case unfolding spaced_simps append_Nil2 t chop_message.simps by simp
next
  case (Cons u us)
  obtain c cs where t: "t = c # cs" using Cons.prems(1) by (cases t) (auto simp: argument_def)
  have ne: "\<forall>x \<in> set t. x \<noteq> CHR '' ''" using Cons.prems by (auto simp: argument_def white_def)
  have tk: "takeWhile (\<lambda>x. x \<noteq> CHR '' '') (t @ spaced (u # us)) = t"
    "dropWhile (\<lambda>x. x \<noteq> CHR '' '') (t @ spaced (u # us)) = spaced (u # us)"
    using ne by (simp_all add: takeWhile_append2 dropWhile_append2)
  have u: "dropWhile (\<lambda>x. x = CHR '' '') (spaced (u # us)) = u @ spaced us"
    using Cons.prems(2) by (cases u) (auto simp: argument_def white_def)
  have "chop_message (t @ spaced (u # us)) = t # chop_message (u @ spaced us)"
    using tk u unfolding t append_Cons chop_message.simps by simp
  then show ?case using Cons by simp
qed

text \<open>A printed exponent has no leading zero, so the base of \<open>strtol\<close> is ten.\<close>

lemma dec_nat_no_zero: "0 < n \<Longrightarrow> hd (dec_nat n) \<noteq> CHR ''0''"
proof (induction n rule: dec_nat.induct)
  case (1 n)
  show ?case
  proof (cases "n < 10")
    case True
    have "(of_char (char_of (48 + n) :: char) :: nat) \<noteq> of_char (CHR ''0'')" using True 1(2) of_char_digit [OF True] by simp
    then have "char_of (48 + n) \<noteq> CHR ''0''" by metis
    then show ?thesis using True by (simp add: dec_nat.simps [of n])
  next
    case False
    then show ?thesis using 1 by (simp add: dec_nat.simps [of n])
  qed
qed

lemma literal_dec: "literal_value (dec_nat n) = n"
proof (cases "n = 0")
  case True
  have "dec_nat 0 = ''0''" by (simp add: dec_nat.simps [of 0] char_of_def bit_0)
  then show ?thesis using True by (simp add: literal_value_def is_digit_def digit_val_def)
next
  case False
  obtain c cs where d: "dec_nat n = c # cs" by (cases "dec_nat n") auto
  have c: "c \<noteq> CHR ''0''" using dec_nat_no_zero [of n] False d by simp
  have "takeWhile is_digit (dec_nat n) = dec_nat n"
    using dec_nat_digits [of n] by (simp add: takeWhile_eq_all_conv list_all_iff)
  then have "digits_val (takeWhile is_digit (dec_nat n)) = n" by (metis digits_val_dec_nat)
  moreover have "take 2 (dec_nat n) \<noteq> ''0x'' \<and> take 2 (dec_nat n) \<noteq> ''0X'' \<and> take 1 (dec_nat n) \<noteq> ''0''"
    using c d by (simp add: numeral_2_eq_2)
  ultimately show ?thesis by (simp add: literal_value_def)
qed

lemma strtol_any_dec:
  assumes "- (2 ^ 31) \<le> i" and "i < 2 ^ 31"
  shows "strtol_any (dec_int i) = i"
proof (cases "i < 0")
  case True
  then have "strtol_any (dec_int i) = max (- int (literal_value (dec_nat (nat (- i))))) (- (2 ^ 63))"
    by (simp add: dec_int_def strtol_any_def is_space_def)
  then show ?thesis using True assms by (simp add: literal_dec)
next
  case False
  let ?s = "dec_nat (nat i)"
  obtain c cs where d: "?s = c # cs" by (cases ?s) auto
  have "is_digit c" using dec_nat_digits [of "nat i"] d by simp
  note q = digit_neq [OF this]
  have "dropWhile is_space ?s = ?s" "take 1 ?s \<noteq> ''-''" "take 1 ?s \<noteq> ''+''" using q d by auto
  then have "strtol_any (dec_int i) = min (int (literal_value ?s)) (2 ^ 63 - 1)"
    using False by (simp add: dec_int_def strtol_any_def)
  then show ?thesis using False assms by (simp add: literal_dec)
qed

subsection \<open>UNTIL\<close>

text \<open>The registers that a list of signals writes.\<close>

definition register_writes :: "(string \<times> vpi_obj) list \<Rightarrow> (string \<times> bitval list) list \<Rightarrow> vpi_call list" where
  "register_writes ll sigs = concat (map (\<lambda>(nm, v).
     case find_key_in_list ll nm of
       None \<Rightarrow> []
     | Some sig \<Rightarrow> [Put_vector (obj_handle sig) (value_vector (msb_first (length v) v))]) sigs)"

definition fits_registers :: "(string \<times> vpi_obj) list \<Rightarrow> (string \<times> bitval list) list \<Rightarrow> bool" where
  "fits_registers ll sigs \<longleftrightarrow> (\<forall>(nm, v) \<in> set sigs.
     case find_key_in_list ll nm of None \<Rightarrow> True | Some sig \<Rightarrow> obj_size sig = length v \<and> obj_type sig = VpiReg)"

lemma set_signals_tokens:
  "\<forall>(nm, v) \<in> set sigs. signal_name nm \<Longrightarrow> fits_registers ll sigs \<Longrightarrow>
   set_signals ll (map signal_token sigs) = Done (register_writes ll sigs)"
proof (induction sigs)
  case (Cons x sigs)
  obtain nm v where x: "x = (nm, v)" by (cases x)
  with Cons.prems have n: "CHR ''='' \<notin> set nm" by (auto dest: signal_name_eq)
  have IH: "set_signals ll (map signal_token sigs) = Done (register_writes ll sigs)"
    using Cons by (auto simp: fits_registers_def)
  show ?case using split_token [OF n] IH Cons.prems(2)
    by (simp add: x register_writes_def fits_registers_def set_handle_to_value_def split: option.splits)
qed (simp add: register_writes_def)

lemma msb_chars: "set (msb_first n v) \<subseteq> {CHR ''0'', CHR ''1'', CHR ''x'', CHR ''z''}"
proof -
  have "bitval_to_char b \<in> {CHR ''0'', CHR ''1'', CHR ''x'', CHR ''z''}" for b by (cases b) simp_all
  then show ?thesis by (auto simp: msb_first_def)
qed

lemma written_bits: "b < length v \<Longrightarrow> vec_char (value_vector (msb_first (length v) v)) b = bitval_to_char (v ! b)"
  using vec_char_value [of b "msb_first (length v) v"] msb_chars [of "length v" v] by (simp add: msb_first_def)

text \<open>C5: What the server sends reaches the registers. When the UNTIL line that the server builds from a time and
  a device's signals arrives on a connection, in any pieces and with any read errors between them,
  \<open>$simbus_until\<close> returns the delay for exactly that time and writes each signal it was called with, and
  no other register; every bit of such a register is the bit the server sent.\<close>

theorem until_sets_registers:
  assumes "argv = bus_h # pairs" and "0 \<le> obj_int bus_h" and "obj_int bus_h < int MAX_INSTANCES"
    and "signal_list pairs [] = Done ll" and "i = instances st ! nat (obj_int bus_h)"
    and "inst_name i \<noteq> None" and "read_buf i = []" and "rx (inst_conn i) = evs @ es"
    and "evs \<noteq> []" and "event_data (last evs) \<noteq> []" and "concat (map event_data evs) = until_line t sigs @ [NL]"
    and "length (until_line t sigs) < MAX_MESSAGE" and "- (2 ^ 31) \<le> st_exp t" and "st_exp t < 2 ^ 31"
    and "\<forall>(nm, v) \<in> set sigs. signal_name nm" and "fits_registers ll sigs"
  shows "simbus_until_calltf sim argv st =
      Done (put_instance (nat (obj_int bus_h)) (i\<lparr>inst_conn := (inst_conn i)\<lparr>rx := es\<rparr>, read_buf := [], trig := None\<rparr>) st,
            Put_int (until_delta sim (st_mant t) (st_exp t)) # register_writes ll sigs)
    \<and> (\<forall>(nm, v) \<in> set sigs. \<forall>b < length v. vec_char (value_vector (msb_first (length v) v)) b = bitval_to_char (v ! b))"
proof
  let ?t = "\<lparr>time_mant = st_mant t, time_exp = st_exp t\<rparr>"
  let ?args = "time_token ?t # map signal_token sigs"
  have args: "list_all argument ?args"
    using assms(15) by (auto simp: list_all_iff time_argument signal_token_argument)
  have u: "argument ''UNTIL''" by (simp add: argument_def white_def NUL_def NL_def)
  have line: "until_line t sigs = ''UNTIL'' @ spaced ?args" by (simp only: until_line_tokens join_spaced)
  have plain: "\<forall>c \<in> set (until_line t sigs). c \<noteq> NL \<and> c \<noteq> NUL"
    using spaced_plain [OF args] unfolding line by (auto simp: NL_def NUL_def)
  have msg: "read_message i (MAX_MESSAGE + 1) =
      Done (until_line t sigs, i\<lparr>inst_conn := (inst_conn i)\<lparr>rx := es\<rparr>, read_buf := [], trig := None\<rparr>)"
    by (rule read_message_line [where evs = evs]) (use assms plain in simp_all)
  have chop: "chop_message (until_line t sigs) = ''UNTIL'' # ?args" unfolding line by (rule chop_words [OF u args])
  have few: "length (''UNTIL'' # ?args) < MAX_MESSAGE div 2"
    using length_spaced [OF args] assms(12) unfolding line by (simp add: MAX_MESSAGE_def)
  have "scan_number (time_token ?t) = Some (False, unat (st_mant t), ''e'' @ dec_int (st_exp t))"
    unfolding time_token_def by (simp only: simbus_time.select_convs) (rule scan_dec_nat, simp add: is_digit_def)
  moreover have "unat (st_mant t) < 2 ^ 64" using unsigned_less [of "st_mant t"] by simp
  ultimately have st: "strtoul (time_token ?t) = (st_mant t, ''e'' @ dec_int (st_exp t))" by (simp add: strtoul_def)
  have "to_int32 (strtol_any (dec_int (st_exp t))) = st_exp t"
    using assms(13,14) by (simp add: strtol_any_dec to_int32_id)
  then have obey: "obey_until sim ll (''UNTIL'' # ?args) =
      Done (Put_int (until_delta sim (st_mant t) (st_exp t)) # register_writes ll sigs)"
    by (simp add: obey_until_def st set_signals_tokens [OF assms(15,16)])
  have ne: "until_line t sigs \<noteq> []" by (simp add: line)
  show "simbus_until_calltf sim argv st =
      Done (put_instance (nat (obj_int bus_h)) (i\<lparr>inst_conn := (inst_conn i)\<lparr>rx := es\<rparr>, read_buf := [], trig := None\<rparr>) st,
            Put_int (until_delta sim (st_mant t) (st_exp t)) # register_writes ll sigs)"
    using assms(2,3,4) msg few ne unfolding assms(1)
    by (simp add: simbus_until_calltf_def chop obey Let_def assms(5) [symmetric])
qed (use written_bits in blast)

theorem until_sets_registers_witness:
  "let i = demo_port\<lparr>inst_conn := (inst_conn demo_port)\<lparr>rx := [Rd_data ''UNTIL 2500e-9 D'', Rd_error, Rd_data (''=1z'' @ [NL])]\<rparr>\<rparr>;
       st = put_instance 0 i simbus_setup
   in simbus_until_calltf demo_sim [demo_obj, demo_obj\<lparr>obj_str := Some ''D''\<rparr>, demo_obj\<lparr>obj_handle := 5, obj_size := 2\<rparr>] st =
      Done (put_instance 0 (i\<lparr>inst_conn := (inst_conn i)\<lparr>rx := []\<rparr>, read_buf := [], trig := None\<rparr>) st,
            [Put_int (until_delta demo_sim 2500 (-9)), Put_vector 5 (value_vector ''1z'')])"
proof -
  let ?i = "demo_port\<lparr>inst_conn := (inst_conn demo_port)\<lparr>rx := [Rd_data ''UNTIL 2500e-9 D'', Rd_error, Rd_data (''=1z'' @ [NL])]\<rparr>\<rparr>"
  let ?ll = "[(''D'', demo_obj\<lparr>obj_handle := 5, obj_size := 2\<rparr>)]" and ?sigs = "[(''D'', [BIT_Z, BIT_1])]"
  have n: "signal_name ''D''" by (simp add: signal_name_def white_def NUL_def NL_def)
  have line: "until_line \<lparr>st_mant = 2500, st_exp = -9\<rparr> ?sigs = ''UNTIL 2500e-9 D=1z''"
    by (simp add: until_line_def dec_nat.simps dec_int_def char_of_def bit_Suc_0_iff msb_first_def)
  have w: "register_writes ?ll ?sigs = [Put_vector 5 (value_vector ''1z'')]"
    by (simp add: register_writes_def msb_first_def demo_obj_def)
  have sl: "signal_list [demo_obj\<lparr>obj_str := Some ''D''\<rparr>, demo_obj\<lparr>obj_handle := 5, obj_size := 2\<rparr>] [] = Done ?ll"
    by (subst signal_list.simps) simp
  have b: "nat (obj_int demo_obj) = 0" by (simp add: demo_obj_def)
  have "simbus_until_calltf demo_sim [demo_obj, demo_obj\<lparr>obj_str := Some ''D''\<rparr>, demo_obj\<lparr>obj_handle := 5, obj_size := 2\<rparr>]
        (put_instance 0 ?i simbus_setup) =
      Done (put_instance (nat (obj_int demo_obj)) (?i\<lparr>inst_conn := (inst_conn ?i)\<lparr>rx := []\<rparr>, read_buf := [], trig := None\<rparr>)
              (put_instance 0 ?i simbus_setup),
            Put_int (until_delta demo_sim (st_mant \<lparr>st_mant = 2500, st_exp = -9\<rparr>) (st_exp \<lparr>st_mant = 2500, st_exp = -9\<rparr>))
              # register_writes ?ll ?sigs)"
    by (rule until_sets_registers [where evs = "[Rd_data ''UNTIL 2500e-9 D'', Rd_error, Rd_data (''=1z'' @ [NL])]", THEN conjunct1])
      (rule sl | simp add: demo_obj_def demo_port_def simbus_setup_def MAX_INSTANCES_def MAX_MESSAGE_def line fits_registers_def n)+
  then show ?thesis unfolding Let_def b w simtime.select_convs .
qed

subsection \<open>READY\<close>

definition vec_bit :: "vecval list \<Rightarrow> nat \<Rightarrow> bitval" where
  "vec_bit vec b = char_to_bitval (vec_char vec b)"

text \<open>What a bit of a signal says to the bus, specified: nothing where the net shows what the server drives, or
  where a known value is held by less than a strong driver.\<close>

definition reported :: "int \<Rightarrow> vpi_obj \<Rightarrow> vpi_obj \<Rightarrow> nat \<Rightarrow> bitval" where
  "reported strong sig drv b =
     (let s = vec_bit (obj_vector sig) b; weak = (fst (obj_strength sig ! b) < strong \<and> snd (obj_strength sig ! b) < strong)
      in if s = vec_bit (obj_vector drv) b \<or> known s \<and> weak then BIT_Z else s)"

lemma vec_bit_char: "bitval_to_char (vec_bit vec b) = vec_char vec b"
  by (simp add: vec_bit_def vec_char_bits char_to_bitval_def)

lemma vec_char_eq: "vec_char vec b = vec_char vec' b \<longleftrightarrow> vec_bit vec b = vec_bit vec' b"
  by (metis vec_bit_char vec_bit_def)

lemma report_char_reported:
  "report_char strong (vec_char (obj_vector drv) b) (vec_char (obj_vector sig) b) (obj_strength sig ! b)
     = bitval_to_char (reported strong sig drv b)"
proof -
  have v: "vec_char (obj_vector sig) b = bitval_to_char (vec_bit (obj_vector sig) b)" by (simp add: vec_bit_char)
  show ?thesis
    unfolding report_char_def vec_char_eq unfolding v
    by (cases "vec_bit (obj_vector sig) b") (auto simp: reported_def Let_def known_def)
qed

lemma report_bits_msb: "report_bits strong sig drv = msb_first (obj_size sig) (map (reported strong sig drv) [0..<obj_size sig])"
proof -
  have "length (map (reported strong sig drv) [0..<obj_size sig]) = obj_size sig" by simp
  from msb_first_rev [OF this] show ?thesis by (simp add: report_bits_def report_char_reported rev_map)
qed

text \<open>The arguments of \<open>$simbus_ready\<close> after the bus.\<close>

abbreviation ready_args :: "(vpi_obj \<times> vpi_obj \<times> vpi_obj) list \<Rightarrow> vpi_obj list" where
  "ready_args trs \<equiv> concat (map (\<lambda>(k, sig, drv). [k, sig, drv]) trs)"

definition reports :: "int \<Rightarrow> (vpi_obj \<times> vpi_obj \<times> vpi_obj) list \<Rightarrow> (string \<times> bitval list) list" where
  "reports strong trs = map (\<lambda>(k, sig, drv). (the (obj_str k), map (reported strong sig drv) [0..<obj_size sig])) trs"

lemma ready_signals_text:
  "ready_signals strong (ready_args trs) = Done sg \<Longrightarrow> sg = spaced (map signal_token (reports strong trs))"
  by (induction trs arbitrary: sg) (auto simp: reports_def report_bits_msb)

lemma ready_text:
  assumes "vpi_ready_message sim (ready_args trs) = Done message" and "-20 \<le> sim_precision sim" and "sim_precision sim \<le> 20"
  shows "\<exists>t k. message = ready_message t (reports (vpiStrongDrive sim) trs) \<and> time_ok t
    \<and> unat (sim_now sim) = unat (time_mant t) * 10 ^ k \<and> time_exp t = sim_precision sim + int k
    \<and> (time_mant t < 10 \<or> time_mant t mod 10 \<noteq> 0)"
proof -
  obtain m e where m: "minimize (sim_now sim) (sim_precision sim) = (m, e)" by (cases "minimize (sim_now sim) (sim_precision sim)")
  obtain k where k: "k \<le> 19" "unat (sim_now sim) = unat m * 10 ^ k" "e = sim_precision sim + int k" "m < 10 \<or> m mod 10 \<noteq> 0"
    using minimize_value [OF m] by blast
  let ?t = "\<lparr>time_mant = m, time_exp = e\<rparr>"
  obtain sg where t: "ready_signals (vpiStrongDrive sim) (ready_args trs) = Done sg"
    "message = ''READY '' @ dec_nat (unat m) @ ''e'' @ dec_int e @ sg @ [NL]"
    using assms(1) by (auto simp: vpi_ready_message_def m)
  have "message = ready_message ?t (reports (vpiStrongDrive sim) trs)"
    unfolding ready_message_line using ready_signals_text [OF t(1)] by (simp add: t(2) time_token_def)
  moreover have "time_ok ?t" using k assms(2,3) by (simp add: time_ok_def)
  ultimately show ?thesis using k by (intro exI [of _ ?t] exI [of _ k]) simp
qed

text \<open>C6: What a simulation reports is what the server stores. When \<open>$simbus_ready\<close> returns, it has written one
  line; the server, reading that line from the connection of the device, makes the device ready at
  exactly the simulation's present time (with a mantissa that is as short as it can be), and stores for each named
  signal the vector of what its bits say to the bus, in the order of the bits.\<close>

theorem ready_reaches_server:
  assumes "simbus_ready_calltf sim (bus_h # ready_args trs) st = Done (st', calls)"
    and "vpi_ready_message sim (ready_args trs) = Done message" and "length message < buf_size"
    and "-20 \<le> sim_precision sim" and "sim_precision sim \<le> 20"
    and "distinct (map (\<lambda>(k, sig, drv). the (obj_str k)) trs)" and "\<forall>(k, sig, drv) \<in> set trs. signal_name (the (obj_str k))"
    and "wr (inst_conn (instances st ! nat (obj_int bus_h))) = []" and "nat (obj_int bus_h) < length (instances st)"
    and "cl_buffer c = []" and "cl_dev_name c \<noteq> []" and "cl_interface c = Some key" and "map_of (device_map b) key = Some p"
  shows "\<exists>p' n.
    tx (inst_conn (instances st' ! nat (obj_int bus_h))) = tx (inst_conn (instances st ! nat (obj_int bus_h))) @ [message]
    \<and> read_from_socket os_write fd (Data message) c b = Done (c, at_plug key (\<lambda>_. p') b, [])
    \<and> ready_flag p' \<and> unat (sim_now sim) = unat (ready_time p') * 10 ^ n \<and> ready_scale p' = sim_precision sim + int n
    \<and> (ready_time p' < 10 \<or> ready_time p' mod 10 \<noteq> 0)
    \<and> (\<forall>(k, sig, drv) \<in> set trs. in_sig p' (the (obj_str k)) = map (reported (vpiStrongDrive sim) sig drv) [0..<obj_size sig])"
proof -
  let ?sigs = "reports (vpiStrongDrive sim) trs"
  obtain t n where t: "message = ready_message t ?sigs" "time_ok t" "unat (sim_now sim) = unat (time_mant t) * 10 ^ n"
    "time_exp t = sim_precision sim + int n" "time_mant t < 10 \<or> time_mant t mod 10 \<noteq> 0"
    using ready_text [OF assms(2,4,5)] by blast
  have "map fst ?sigs = map (\<lambda>(k, sig, drv). the (obj_str k)) trs" by (auto simp: reports_def)
  then have d: "distinct (map fst ?sigs)" using assms(6) by simp
  have nm: "\<forall>(nm, v) \<in> set ?sigs. signal_name nm" using assms(7) by (auto simp: reports_def)
  obtain p' where p': "read_from_socket os_write fd (Data message) c b = Done (c, at_plug key (\<lambda>_. p') b, [])"
    "ready_flag p'" "ready_time p' = time_mant t" "ready_scale p' = time_exp t" "\<forall>(nm, v) \<in> set ?sigs. in_sig p' nm = v"
    using ready_command_stored [OF t(2) d nm _ assms(10-13)] assms(3) t(1) by blast
  have "tx (inst_conn (instances st' ! nat (obj_int bus_h))) = tx (inst_conn (instances st ! nat (obj_int bus_h))) @ [message]"
    using assms(1,2,8,9) by (auto simp: simbus_ready_calltf_def Let_def sock_write_def)
  moreover have "\<forall>(k, sig, drv) \<in> set trs. in_sig p' (the (obj_str k)) = map (reported (vpiStrongDrive sim) sig drv) [0..<obj_size sig]"
    using p'(5) by (auto simp: reports_def)
  ultimately show ?thesis using p' t by (intro exI [of _ p'] exI [of _ n]) simp
qed

theorem ready_reaches_server_witness:
  "\<exists>p' n.
    read_from_socket (\<lambda>_ s. int (length s)) 4 (Data (''READY 12e-7 D=1 Q=z'' @ [NL]))
        ((new_client ''tcp:1'')\<lparr>cl_dev_name := ''h'', cl_interface := Some ''h''\<rparr>) (new_bus ''b'' () [(''h'', new_plug ''h'' True 0)] [])
      = Done ((new_client ''tcp:1'')\<lparr>cl_dev_name := ''h'', cl_interface := Some ''h''\<rparr>,
              at_plug ''h'' (\<lambda>_. p') (new_bus ''b'' () [(''h'', new_plug ''h'' True 0)] []), [])
    \<and> ready_flag p' \<and> 1200 = unat (ready_time p') * 10 ^ n \<and> ready_scale p' = -9 + int n
    \<and> in_sig p' ''D'' = [BIT_1] \<and> in_sig p' ''Q'' = [BIT_Z]"
proof -
  let ?one = "demo_obj\<lparr>obj_vector := [(1, 0)]\<rparr>" and ?zed = "demo_obj\<lparr>obj_vector := [(0, 1)]\<rparr>"
  let ?trs = "[(demo_obj\<lparr>obj_str := Some ''D''\<rparr>, ?one, ?zed), (demo_obj\<lparr>obj_str := Some ''Q''\<rparr>, ?one, ?one)]"
  let ?st = "put_instance 0 demo_port simbus_setup"
  have now: "sim_now demo_sim = 1200" by (simp add: sim_now_def demo_sim_def)
  have "minimize 1200 (-9) = (12, -7)" by (simp add: minimize.simps)
  then have m: "vpi_ready_message demo_sim (ready_args ?trs) = Done (''READY 12e-7 D=1 Q=z'' @ [NL])"
    by (simp add: vpi_ready_message_def now) (simp add: demo_sim_def demo_obj_def report_bits_def report_char_def vec_char_def
      dec_nat.simps dec_int_def char_of_def bit_Suc_0_iff)
  have "\<exists>st'. simbus_ready_calltf demo_sim (demo_obj # ready_args ?trs) ?st = Done (st', [])"
    unfolding simbus_ready_calltf_def list.case m Let_def obind.simps
    by (simp add: demo_obj_def demo_port_def simbus_setup_def MAX_INSTANCES_def MAX_MESSAGE_def sock_write_def script_def)
  then obtain st' where r: "simbus_ready_calltf demo_sim (demo_obj # ready_args ?trs) ?st = Done (st', [])" ..
  have v: "reported 64 ?one ?zed 0 = BIT_1" "reported 64 ?one ?one 0 = BIT_Z"
    by (simp_all add: reported_def vec_bit_def vec_char_def demo_obj_def char_to_bitval_def known_def Let_def)
  have "\<exists>p' n.
    tx (inst_conn (instances st' ! nat (obj_int demo_obj))) = tx (inst_conn (instances ?st ! nat (obj_int demo_obj))) @ [''READY 12e-7 D=1 Q=z'' @ [NL]]
    \<and> read_from_socket (\<lambda>_ s. int (length s)) 4 (Data (''READY 12e-7 D=1 Q=z'' @ [NL]))
        ((new_client ''tcp:1'')\<lparr>cl_dev_name := ''h'', cl_interface := Some ''h''\<rparr>) (new_bus ''b'' () [(''h'', new_plug ''h'' True 0)] [])
      = Done ((new_client ''tcp:1'')\<lparr>cl_dev_name := ''h'', cl_interface := Some ''h''\<rparr>,
              at_plug ''h'' (\<lambda>_. p') (new_bus ''b'' () [(''h'', new_plug ''h'' True 0)] []), [])
    \<and> ready_flag p' \<and> unat (sim_now demo_sim) = unat (ready_time p') * 10 ^ n \<and> ready_scale p' = sim_precision demo_sim + int n
    \<and> (ready_time p' < 10 \<or> ready_time p' mod 10 \<noteq> 0)
    \<and> (\<forall>(k, sig, drv) \<in> set ?trs. in_sig p' (the (obj_str k)) = map (reported (vpiStrongDrive demo_sim) sig drv) [0..<obj_size sig])"
    by (rule ready_reaches_server [OF r m])
      (simp_all add: demo_sim_def demo_obj_def demo_port_def simbus_setup_def MAX_INSTANCES_def script_def buf_size_def new_client_def
        new_bus_def signal_name_def white_def NUL_def NL_def)
  then obtain p' n where "read_from_socket (\<lambda>_ s. int (length s)) 4 (Data (''READY 12e-7 D=1 Q=z'' @ [NL]))
        ((new_client ''tcp:1'')\<lparr>cl_dev_name := ''h'', cl_interface := Some ''h''\<rparr>) (new_bus ''b'' () [(''h'', new_plug ''h'' True 0)] [])
      = Done ((new_client ''tcp:1'')\<lparr>cl_dev_name := ''h'', cl_interface := Some ''h''\<rparr>,
              at_plug ''h'' (\<lambda>_. p') (new_bus ''b'' () [(''h'', new_plug ''h'' True 0)] []), [])"
    "ready_flag p'" "1200 = unat (ready_time p') * 10 ^ n" "ready_scale p' = -9 + int n"
    "in_sig p' ''D'' = [reported 64 ?one ?zed 0]" "in_sig p' ''Q'' = [reported 64 ?one ?one 0]"
    unfolding now by (auto simp: demo_sim_def demo_obj_def)
  then show ?thesis unfolding v by blast
qed

end
