(* ===== verification/Sim_Camera.thy ===== *)
theory Sim_Camera
  imports Sim_P2P
begin

text \<open>
  p2p/cameralink_video: the camera (camera.c, camera_load.c) sends images over a point-to-point bus, the
  capture program (capture.c) receives them and writes files.

  Both programs put one word on the bus per clock and take one from it.  The work between two clocks
  is the functions \<open>camera_turn\<close> and \<open>capture_turn\<close>; \<open>camera_step\<close> and \<open>capture_step\<close> are the clocks,
  on the bus object of \<open>Sim_P2P\<close>.  The PNG library and the files are parameters: \<open>png\<close> gives the
  decoded image of a path, if it can be opened, and a written file is a value.  \<open>junk\<close> is the memory behind
  the image of the camera, which the code reads.
\<close>

section \<open>The camera\<close>

type_synonym color = "u8 \<times> u8 \<times> u8"

record cameralink_master =
  red :: u8
  green :: u8
  blue :: u8
  VCE :: bool
  LVV :: bool
  FVV :: bool
  cam_enable :: bool
  cam_request :: bool
  video_data :: "u8 list option"
  video_wid :: u32
  video_mar :: u32
  video_hei :: u32
  video_gap :: u32
  video_ptr :: u32
  arm_request :: bool
  gray_lanes :: u32

definition camera_word :: "cameralink_master \<Rightarrow> u32" where
  "camera_word cam =
     (((((0 OR push_bit 0 (ucast (red cam))) OR push_bit 8 (ucast (green cam))) OR push_bit 16 (ucast (blue cam)))
       OR (if VCE cam then 0x01000000 else 0)) OR (if LVV cam then 0x02000000 else 0)) OR (if FVV cam then 0x04000000 else 0)"

text \<open>What follows the clock: the commands of the capture side, and the next position.\<close>

definition camera_take :: "u32 \<Rightarrow> cameralink_master \<Rightarrow> cameralink_master outcome" where
  "camera_take val cam =
     (let c1 = cam\<lparr>cam_enable := (val AND 0x01 \<noteq> 0), cam_request := (val AND 0x02 \<noteq> 0)\<rparr>;
          c2 = (if \<not> cam_request c1 then c1\<lparr>arm_request := True\<rparr> else c1);
          c3 = c2\<lparr>video_ptr := video_ptr c2 + 1\<rparr>
      in if video_data c3 = None
         then c_assert (video_wid c3 + video_mar c3 \<noteq> 0)
                (Done (c3\<lparr>video_ptr := video_ptr c3 mod (video_wid c3 + video_mar c3)\<rparr>))
         else Done c3)"

definition camera_step :: "simbus_p2p \<Rightarrow> cameralink_master \<Rightarrow> (simbus_p2p \<times> cameralink_master) outcome" where
  "camera_step bus cam =
     obind (simbus_p2p_out bus [camera_word cam]) (\<lambda>b1.
     obind (simbus_p2p_clock_posedge b1 1) (\<lambda>(rc, b2).
     obind (simbus_p2p_in b2 [0]) (\<lambda>(rc', val).
     obind (camera_take (val ! 0) cam) (\<lambda>cam'. Done (b2, cam')))))"

subsection \<open>Images\<close>

datatype png_color = PNG_GRAY | PNG_RGB | PNG_OTHER

record png_image =
  png_height :: u32
  png_width :: u32
  png_color :: png_color
  png_rows :: "u8 list list"

text \<open>\<open>row_pointers[ydx][xdx]\<close>; a row ends with its last byte.\<close>

definition row_byte :: "u8 list \<Rightarrow> nat \<Rightarrow> u8 outcome" where
  "row_byte row x = c_defined (x < length row) (Done (row ! x))"

fun row_bytes :: "u8 list \<Rightarrow> nat list \<Rightarrow> u8 list outcome" where
  "row_bytes row [] = Done []"
| "row_bytes row (x # xs) = obind (row_byte row x) (\<lambda>v. obind (row_bytes row xs) (\<lambda>vs. Done (v # vs)))"

text \<open>The three bytes of one clock.\<close>

definition clock_bytes :: "png_color \<Rightarrow> u32 \<Rightarrow> u8 list \<Rightarrow> nat \<Rightarrow> u8 list outcome" where
  "clock_bytes col lanes row xdx =
     (case col of
        PNG_GRAY \<Rightarrow>
          (if lanes = 1 then row_bytes row [xdx, xdx, xdx]
           else if lanes = 2 then obind (row_bytes row [2 * xdx, 2 * xdx + 1]) (\<lambda>vs. Done (vs @ [0]))
           else if lanes = 3 then row_bytes row [3 * xdx, 3 * xdx + 1, 3 * xdx + 2]
           else Stop Assert_failed)
      | PNG_RGB \<Rightarrow> row_bytes row [3 * xdx, 3 * xdx + 1, 3 * xdx + 2]
      | PNG_OTHER \<Rightarrow> Stop Assert_failed)"

fun line_bytes :: "png_color \<Rightarrow> u32 \<Rightarrow> u8 list \<Rightarrow> nat list \<Rightarrow> u8 list outcome" where
  "line_bytes col lanes row [] = Done []"
| "line_bytes col lanes row (x # xs) =
     obind (clock_bytes col lanes row x) (\<lambda>v. obind (line_bytes col lanes row xs) (\<lambda>vs. Done (v @ vs)))"

fun image_bytes :: "png_color \<Rightarrow> u32 \<Rightarrow> nat \<Rightarrow> u8 list list \<Rightarrow> nat list \<Rightarrow> u8 list outcome" where
  "image_bytes col lanes wid rows [] = Done []"
| "image_bytes col lanes wid rows (y # ys) =
     c_defined (y < length rows)
       (obind (line_bytes col lanes (rows ! y) [0..<wid]) (\<lambda>v.
          obind (image_bytes col lanes wid rows ys) (\<lambda>vs. Done (v @ vs))))"

text \<open>The result code and the camera; the buffer holds the clocks of the image in their order.\<close>

definition load_image_file ::
  "(string \<Rightarrow> png_image option) \<Rightarrow> cameralink_master \<Rightarrow> string \<Rightarrow> (int \<times> cameralink_master) outcome" where
  "load_image_file png cam path =
     (case png path of
        None \<Rightarrow> Done (-1, cam)
      | Some im \<Rightarrow>
          (let wid = (if png_color im = PNG_GRAY then (png_width im + gray_lanes cam - 1) div gray_lanes cam else png_width im)
           in c_assert (png_color im \<noteq> PNG_OTHER)
             (c_defined (png_color im = PNG_GRAY \<longrightarrow> gray_lanes cam \<noteq> 0)
               (obind (image_bytes (png_color im) (gray_lanes cam) (unat wid) (png_rows im) [0..<unat (png_height im)]) (\<lambda>bytes.
                 c_defined (length bytes \<le> unat (3 * wid * png_height im))
                   (Done (0, cam\<lparr>video_hei := png_height im, video_wid := wid, video_data := Some bytes\<rparr>)))))))"

text \<open>The ring of paths: the list from the first image on, and the position of the next image in it; before
  the first use the position is that of the first image.\<close>

definition acquire_next_image ::
  "(string \<Rightarrow> png_image option) \<Rightarrow> string list \<Rightarrow> nat \<Rightarrow> cameralink_master \<Rightarrow> (nat \<times> cameralink_master) outcome" where
  "acquire_next_image png image_list image_next cam =
     c_assert (image_list \<noteq> [])
       (obind (load_image_file png (cam\<lparr>arm_request := False\<rparr>) (image_list ! image_next)) (\<lambda>(rc, c).
          Done (if rc < 0 then image_next else Suc image_next mod length image_list, c)))"

definition clear_image :: "cameralink_master \<Rightarrow> cameralink_master" where
  "clear_image cam = cam\<lparr>video_hei := 0, video_data := None\<rparr>"

text \<open>\<open>pix[0]\<close>: the byte behind the buffer is whatever the memory holds.\<close>

definition buf_byte :: "(nat \<Rightarrow> u8) \<Rightarrow> u8 list \<Rightarrow> nat \<Rightarrow> u8" where
  "buf_byte junk d n = (if n < length d then d ! n else junk n)"

text \<open>The part of a turn that shows the pixel at the present position.\<close>

definition show_pixel :: "(nat \<Rightarrow> u8) \<Rightarrow> cameralink_master \<Rightarrow> cameralink_master outcome" where
  "show_pixel junk cam =
     (let frame_width = video_wid cam + video_mar cam;
          frame_height = video_hei cam + video_gap cam
      in c_defined (frame_width \<noteq> 0)
        (let vpos = video_ptr cam div frame_width;
             hpos = video_ptr cam mod frame_width;
             c1 = cam\<lparr>LVV := (hpos < video_wid cam), VCE := True\<rparr>
         in case video_data c1 of
              None \<Rightarrow> Done (c1\<lparr>FVV := False\<rparr>)
            | Some d \<Rightarrow>
                if frame_height \<le> vpos then Done (clear_image (c1\<lparr>FVV := False\<rparr>))
                else if video_hei cam \<le> vpos then Done (c1\<lparr>FVV := False\<rparr>)
                else
                  let pix = unat (3 * video_wid cam * vpos) + unat (3 * hpos)
                  in Done (c1\<lparr>FVV := True, red := buf_byte junk d pix, green := buf_byte junk d (pix + 1),
                               blue := buf_byte junk d (pix + 2)\<rparr>)))"

definition camera_turn ::
  "(string \<Rightarrow> png_image option) \<Rightarrow> string list \<Rightarrow> (nat \<Rightarrow> u8) \<Rightarrow> nat \<times> cameralink_master \<Rightarrow> (nat \<times> cameralink_master) outcome" where
  "camera_turn png image_list junk = (\<lambda>(image_next, cam).
     obind (if video_data cam = None \<and> arm_request cam \<and> cam_request cam \<and> video_ptr cam = 0
            then acquire_next_image png image_list image_next cam else Done (image_next, cam)) (\<lambda>(image_next', c).
     obind (show_pixel junk c) (\<lambda>c'. Done (image_next', c'))))"

definition SIMBUS_P2P_CLOCK_RUN :: int where "SIMBUS_P2P_CLOCK_RUN = 0"

definition SIMBUS_P2P_CLOCK_STOP0 :: int where "SIMBUS_P2P_CLOCK_STOP0 = 1"

definition SIMBUS_P2P_CLOCK_STOP1 :: int where "SIMBUS_P2P_CLOCK_STOP1 = 2"

definition SIMBUS_P2P_CLOCK_STOPZ :: int where "SIMBUS_P2P_CLOCK_STOPZ = 3"

text \<open>One turn of the main loop, with the clock mode.\<close>

definition camera_cycle ::
  "(string \<Rightarrow> png_image option) \<Rightarrow> string list \<Rightarrow> (nat \<Rightarrow> u8) \<Rightarrow> int \<Rightarrow>
     int \<times> nat \<times> simbus_p2p \<times> cameralink_master \<Rightarrow> (int \<times> nat \<times> simbus_p2p \<times> cameralink_master) outcome" where
  "camera_cycle png image_list junk use_clock_when_disable = (\<lambda>(cur_clock, image_next, bus, cam).
     obind (camera_turn png image_list junk (image_next, cam)) (\<lambda>(image_next', c).
       let try_mode = (if cam_enable c then SIMBUS_P2P_CLOCK_RUN else use_clock_when_disable)
       in obind (if try_mode \<noteq> cur_clock then simbus_p2p_clock_mode bus try_mode else Done bus) (\<lambda>b1.
          obind (camera_step b1 c) (\<lambda>(b2, c'). Done (try_mode, image_next', b2, c')))))"

definition new_camera :: "u32 \<Rightarrow> u32 \<Rightarrow> u32 \<Rightarrow> u32 \<Rightarrow> cameralink_master" where
  "new_camera use_wid use_mar use_gap use_lanes =
     \<lparr>red = 0, green = 0, blue = 0, VCE = False, LVV = False, FVV = False, cam_enable = False, cam_request = False,
      video_data = None, video_wid = use_wid, video_mar = use_mar, video_hei = 0, video_gap = use_gap, video_ptr = 0,
      arm_request = False, gray_lanes = use_lanes\<rparr>"

subsection \<open>The command line and the start\<close>

record camera_options =
  use_server :: "string option"
  use_wid :: u32
  use_mar :: u32
  use_gap :: u32
  use_lanes :: u32
  clock_when_disable :: int
  use_name :: string
  option_errors :: nat

definition default_options :: camera_options where
  "default_options = \<lparr>use_server = None, use_wid = 0, use_mar = 1, use_gap = 1, use_lanes = 1,
     clock_when_disable = SIMBUS_P2P_CLOCK_RUN, use_name = ''camera'', option_errors = 0\<rparr>"

text \<open>One option that \<open>getopt\<close> returned, with its argument; it returns \<open>?\<close> for any other letter.\<close>

definition camera_option :: "char \<times> string \<Rightarrow> camera_options \<Rightarrow> camera_options outcome" where
  "camera_option = (\<lambda>(arg, optarg) opts.
     if arg = CHR ''c'' then Done (opts\<lparr>clock_when_disable :=
       (if optarg = ''run'' then SIMBUS_P2P_CLOCK_RUN
        else if optarg = ''stop0'' then SIMBUS_P2P_CLOCK_STOP0
        else if optarg = ''stop1'' then SIMBUS_P2P_CLOCK_STOP1
        else if optarg = ''stopZ'' then SIMBUS_P2P_CLOCK_STOPZ
        else SIMBUS_P2P_CLOCK_RUN)\<rparr>)
     else if arg = CHR ''g'' then
       (let (gap, cp) = strtoul optarg; o1 = opts\<lparr>use_gap := ucast gap\<rparr>
        in if cp \<noteq> [] then Done (o1\<lparr>option_errors := option_errors o1 + 1\<rparr>)
           else if use_gap o1 = 0 then Done (o1\<lparr>use_gap := 0\<rparr>) else Done o1)
     else if arg = CHR ''l'' then Done (opts\<lparr>use_lanes := ucast (fst (strtoul optarg))\<rparr>)
     else if arg = CHR ''n'' then Done (opts\<lparr>use_name := optarg\<rparr>)
     else if arg = CHR ''s'' then Done (opts\<lparr>use_server := Some optarg\<rparr>)
     else if arg = CHR ''w'' then
       (let (wid, cp) = strtoul optarg; o1 = opts\<lparr>use_wid := ucast wid\<rparr>
        in if use_wid o1 = 0 then Done (o1\<lparr>option_errors := option_errors o1 + 1\<rparr>)
           else if cp \<noteq> [] \<and> hd cp = CHR ''+'' then
             (let o2 = o1\<lparr>use_mar := ucast (fst (strtoul (tl cp)))\<rparr>
              in if use_mar o2 < 2 then Done (o2\<lparr>option_errors := option_errors o2 + 1\<rparr>) else Done o2)
           else Done o1)
     else Stop Assert_failed)"

fun camera_getopt :: "(char \<times> string) list \<Rightarrow> camera_options \<Rightarrow> camera_options outcome" where
  "camera_getopt [] opts = Done opts"
| "camera_getopt (a # as) opts = obind (camera_option a opts) (camera_getopt as)"

definition options_accepted :: "camera_options \<Rightarrow> bool" where
  "options_accepted opts \<longleftrightarrow> use_server opts \<noteq> None \<and> use_wid opts \<noteq> 0
     \<and> \<not> (use_lanes opts < 1 \<or> use_lanes opts > 3) \<and> option_errors opts = 0"

text \<open>\<open>main\<close> up to its loop: \<open>None\<close> is the exit with -1, otherwise the clock mode to use without a request, and
  the state of the loop.  The list of images is the rest of the command line.\<close>

definition camera_main ::
  "'a os \<Rightarrow> (char \<times> string) list \<Rightarrow> (int \<times> int \<times> nat \<times> simbus_p2p \<times> cameralink_master) option outcome" where
  "camera_main os args =
     obind (camera_getopt args default_options) (\<lambda>opts.
       if \<not> options_accepted opts then Done None
       else obind (simbus_p2p_connect os (the (use_server opts)) (use_name opts) 8 27) (\<lambda>bus.
         case bus of
           None \<Rightarrow> Done None
         | Some b \<Rightarrow>
             (let cur_clock = clock_when_disable opts
              in obind (simbus_p2p_clock_mode b cur_clock) (\<lambda>b1.
                 obind (camera_step b1 (new_camera (use_wid opts) (use_mar opts) (use_gap opts) (use_lanes opts)))
                   (\<lambda>(b2, cam). Done (Some (cur_clock, cur_clock, 0, b2, cam)))))))"

section \<open>The capture program\<close>

record cameralink_capture =
  cap_red :: u8
  cap_green :: u8
  cap_blue :: u8
  cap_VCE :: bool
  cap_LVV :: bool
  cap_FVV :: bool
  cap_enable :: bool
  cap_request :: bool
  cap_data :: "u8 list"
  cap_ptr :: u32
  cap_wid :: u32
  capture_seq :: nat

record ppm_file =
  ppm_seq :: nat
  ppm_wid :: u32
  ppm_hei :: u32
  ppm_bytes :: "u8 list"

definition capture_word :: "cameralink_capture \<Rightarrow> u32" where
  "capture_word cap = (0 OR (if cap_enable cap then 0x01 else 0)) OR (if cap_request cap then 0x02 else 0)"

definition capture_take :: "u32 \<Rightarrow> cameralink_capture \<Rightarrow> cameralink_capture" where
  "capture_take val cap = cap\<lparr>cap_red := ucast (drop_bit 0 val AND 0xff), cap_green := ucast (drop_bit 8 val AND 0xff),
     cap_blue := ucast (drop_bit 16 val AND 0xff), cap_VCE := (drop_bit 24 val AND 0x01 \<noteq> 0),
     cap_LVV := (drop_bit 25 val AND 0x01 \<noteq> 0), cap_FVV := (drop_bit 26 val AND 0x01 \<noteq> 0)\<rparr>"

definition capture_step :: "simbus_p2p \<Rightarrow> cameralink_capture \<Rightarrow> (simbus_p2p \<times> cameralink_capture) outcome" where
  "capture_step bus cap =
     obind (simbus_p2p_in_poke bus [capture_word cap]) (\<lambda>b1.
     obind (simbus_p2p_clock_posedge b1 1) (\<lambda>(rc, b2).
     obind (simbus_p2p_out_peek b2 [0]) (\<lambda>(rc', val). Done (b2, capture_take (val ! 0) cap))))"

text \<open>What a turn does after the clock: request, store, measure, or write the image.\<close>

definition store_pixel :: "cameralink_capture \<Rightarrow> cameralink_capture outcome" where
  "store_pixel cap =
     (let p = unat (3 * cap_ptr cap)
      in c_defined (p + 3 \<le> length (cap_data cap))
           (Done (cap\<lparr>cap_data := (cap_data cap)[p := cap_red cap, p + 1 := cap_green cap, p + 2 := cap_blue cap],
                      cap_ptr := cap_ptr cap + 1\<rparr>)))"

definition write_image :: "cameralink_capture \<Rightarrow> (cameralink_capture \<times> ppm_file list) outcome" where
  "write_image cap =
     (let wid = (if cap_wid cap = 0 then cap_ptr cap else cap_wid cap);
          got_hei = cap_ptr cap div wid; n = unat (3 * wid * got_hei)
      in c_defined (n \<le> length (cap_data cap))
           (Done (cap\<lparr>cap_ptr := 0, cap_wid := 0, capture_seq := Suc (capture_seq cap)\<rparr>,
              [\<lparr>ppm_seq = capture_seq cap, ppm_wid = wid, ppm_hei = got_hei, ppm_bytes = take n (cap_data cap)\<rparr>])))"

definition capture_turn :: "cameralink_capture \<Rightarrow> (cameralink_capture \<times> ppm_file list) outcome" where
  "capture_turn cap =
     (let c1 = cap\<lparr>cap_request := \<not> cap_FVV cap\<rparr>
      in if cap_FVV c1 \<and> cap_LVV c1 \<and> cap_VCE c1 then obind (store_pixel c1) (\<lambda>c2. Done (c2, []))
         else if cap_FVV c1 \<and> \<not> cap_LVV c1
           then Done (if cap_wid c1 = 0 then c1\<lparr>cap_wid := cap_ptr c1\<rparr> else c1, [])
         else if \<not> cap_FVV c1 \<and> 0 < cap_ptr c1 then write_image c1
         else Done (c1, []))"

definition capture_cycle :: "simbus_p2p \<times> cameralink_capture \<Rightarrow> (simbus_p2p \<times> cameralink_capture \<times> ppm_file list) outcome" where
  "capture_cycle = (\<lambda>(bus, cap).
     obind (capture_step bus cap) (\<lambda>(b1, c1). obind (capture_turn c1) (\<lambda>(c2, files). Done (b1, c2, files))))"

definition capture_goes_on :: "int \<Rightarrow> cameralink_capture \<Rightarrow> bool" where
  "capture_goes_on capture_count cap \<longleftrightarrow> cap_FVV cap \<or> int (capture_seq cap) < capture_count"

definition new_capture :: "u8 list \<Rightarrow> cameralink_capture" where
  "new_capture area =
     \<lparr>cap_red = 0, cap_green = 0, cap_blue = 0, cap_VCE = False, cap_LVV = False, cap_FVV = False, cap_enable = True,
      cap_request = False, cap_data = area, cap_ptr = 0, cap_wid = 0, capture_seq = 0\<rparr>"

record capture_options =
  cap_server :: "string option"
  capture_count :: int
  use_video_area :: u64

definition default_capture :: capture_options where
  "default_capture = \<lparr>cap_server = None, capture_count = 1000000, use_video_area = 1024 * 1024\<rparr>"

definition capture_option :: "char \<times> string \<Rightarrow> capture_options \<Rightarrow> capture_options outcome" where
  "capture_option = (\<lambda>(arg, optarg) opts.
     if arg = CHR ''a'' then Done (opts\<lparr>use_video_area := strtoul0 optarg\<rparr>)
     else if arg = CHR ''c'' then Done (opts\<lparr>capture_count := sint (ucast (strtoul0 optarg) :: u32)\<rparr>)
     else if arg = CHR ''s'' then Done (opts\<lparr>cap_server := Some optarg\<rparr>)
     else Stop Assert_failed)"

fun capture_getopt :: "(char \<times> string) list \<Rightarrow> capture_options \<Rightarrow> capture_options outcome" where
  "capture_getopt [] opts = Done opts"
| "capture_getopt (a # as) opts = obind (capture_option a opts) (capture_getopt as)"

text \<open>The loop of \<open>main\<close>, with the files written so far; each turn takes an answer of the server.\<close>

definition capture_loop ::
  "int \<Rightarrow> simbus_p2p \<times> cameralink_capture \<times> ppm_file list \<Rightarrow> (simbus_p2p \<times> cameralink_capture \<times> ppm_file list) outcome" where
  "capture_loop count =
     while_io (\<lambda>(bus, cap, files). pending (fd bus)) (\<lambda>(bus, cap, files). capture_goes_on count cap)
       (\<lambda>(bus, cap, files). obind (capture_cycle (bus, cap)) (\<lambda>(b, c, fs). Done (b, c, files @ fs)))"

text \<open>\<open>main\<close>: its result, the connection it leaves and the files; \<open>mem\<close> is what fresh memory holds.\<close>

definition capture_main ::
  "'a os \<Rightarrow> (nat \<Rightarrow> u8) \<Rightarrow> (char \<times> string) list \<Rightarrow> (int \<times> conn option \<times> ppm_file list) outcome" where
  "capture_main os mem args =
     obind (capture_getopt args default_capture) (\<lambda>opts.
       case cap_server opts of
         None \<Rightarrow> Done (-1, None, [])
       | Some server \<Rightarrow>
           obind (simbus_p2p_connect os server ''capture'' 8 27) (\<lambda>bus.
             case bus of
               None \<Rightarrow> Done (-1, None, [])
             | Some b \<Rightarrow>
                 obind (capture_loop (capture_count opts)
                          (b, new_capture (map mem [0..<unat (3 * use_video_area opts)]), [])) (\<lambda>(b1, cap, files).
                 obind (simbus_p2p_end_simulation b1) (\<lambda>c. Done (0, Some c, files)))))"

section \<open>The word of a clock\<close>

lemma bit_byte_at: "n \<le> 24 \<Longrightarrow> bit (push_bit n (ucast v) :: u32) j \<longleftrightarrow> n \<le> j \<and> j < n + 8 \<and> bit (v :: u8) (j - n)"
  using bit_imp_le_length [of v "j - n"] by (auto simp: bit_push_bit_iff bit_ucast_iff)

lemma bit_flag: "n < 32 \<Longrightarrow> bit (if c then push_bit n 1 else 0 :: u32) j \<longleftrightarrow> c \<and> j = n"
  by (auto simp: bit_push_bit_iff bit_1_iff simp del: push_bit_of_1)

lemma bit_camera_word:
  "bit (camera_word cam) j \<longleftrightarrow> j < 8 \<and> bit (red cam) j \<or> 8 \<le> j \<and> j < 16 \<and> bit (green cam) (j - 8)
     \<or> 16 \<le> j \<and> j < 24 \<and> bit (blue cam) (j - 16) \<or> VCE cam \<and> j = 24 \<or> LVV cam \<and> j = 25 \<or> FVV cam \<and> j = 26"
proof -
  have m: "(0x01000000 :: u32) = push_bit 24 1" "(0x02000000 :: u32) = push_bit 25 1" "(0x04000000 :: u32) = push_bit 26 1"
    by (simp_all add: push_bit_eq_mult)
  show ?thesis
    unfolding camera_word_def m bit_or_iff using bit_byte_at [of 0 "red cam" j] by (simp add: bit_byte_at bit_flag del: push_bit_of_1 split del: if_split)
qed

lemma byte_of_word: "\<forall>j < 8. bit w (n + j) = bit (v :: u8) j \<Longrightarrow> ucast (drop_bit n (w :: u32) AND 0xff) = v"
proof (rule bit_word_eqI)
  fix j assume a: "\<forall>j < 8. bit w (n + j) = bit v j" and j: "j < LENGTH(8)"
  have m: "(0xff :: u32) = mask 8" by (simp add: mask_eq_exp_minus_1)
  show "bit (ucast (drop_bit n w AND 0xff) :: u8) j = bit v j"
    unfolding m using a j by (simp add: bit_ucast_iff bit_and_iff bit_mask_iff bit_drop_bit_eq)
qed

lemma flag_of_word: "drop_bit n (w :: u32) AND 1 \<noteq> 0 \<longleftrightarrow> bit w n"
  using and_exp_eq_0_iff_not_bit [of "drop_bit n w" 0] by (simp add: bit_drop_bit_eq)

text \<open>The capture program takes from the word exactly what the camera put on it.\<close>

lemma take_camera_word:
  "capture_take (camera_word cam) cap = cap\<lparr>cap_red := red cam, cap_green := green cam, cap_blue := blue cam,
     cap_VCE := VCE cam, cap_LVV := LVV cam, cap_FVV := FVV cam\<rparr>"
proof -
  have "ucast (drop_bit 0 (camera_word cam) AND 0xff) = red cam" "ucast (drop_bit 8 (camera_word cam) AND 0xff) = green cam"
    "ucast (drop_bit 16 (camera_word cam) AND 0xff) = blue cam"
    by (rule byte_of_word, simp add: bit_camera_word)+
  moreover have "bit (camera_word cam) 24 = VCE cam" "bit (camera_word cam) 25 = LVV cam" "bit (camera_word cam) 26 = FVV cam"
    by (simp_all add: bit_camera_word)
  ultimately show ?thesis unfolding capture_take_def flag_of_word by simp
qed

section \<open>A frame\<close>

text \<open>The two programs clock by clock: the camera's word goes to the capture program; \<open>vs\<close> are the words the
  camera receives.\<close>

fun film ::
  "(string \<Rightarrow> png_image option) \<Rightarrow> string list \<Rightarrow> (nat \<Rightarrow> u8) \<Rightarrow> u32 list \<Rightarrow> nat \<times> cameralink_master \<Rightarrow> cameralink_capture
    \<Rightarrow> ((nat \<times> cameralink_master) \<times> cameralink_capture \<times> ppm_file list) outcome" where
  "film png il junk [] nc cap = Done (nc, cap, [])"
| "film png il junk (v # vs) nc cap =
     obind (camera_turn png il junk nc) (\<lambda>(nx, c1).
     obind (camera_take v c1) (\<lambda>c2.
     obind (capture_turn (capture_take (camera_word c1) cap)) (\<lambda>(k, fs).
     obind (film png il junk vs (nx, c2) k) (\<lambda>(nc', k', fs'). Done (nc', k', fs @ fs')))))"

text \<open>Both programs after \<open>n\<close> clocks of a frame: \<open>w\<close> by \<open>h\<close> clocks with margin \<open>m\<close> and gap \<open>g\<close>.\<close>

definition stored :: "nat \<Rightarrow> nat \<Rightarrow> nat \<Rightarrow> nat" where
  "stored w fw n = w * (n div fw) + min (n mod fw) w"

definition mid_camera :: "u8 list \<Rightarrow> nat \<Rightarrow> nat \<Rightarrow> nat \<Rightarrow> nat \<Rightarrow> nat \<Rightarrow> cameralink_master \<Rightarrow> bool" where
  "mid_camera d w m h g n cam \<longleftrightarrow> video_data cam = Some d \<and> video_wid cam = of_nat w \<and> video_mar cam = of_nat m
     \<and> video_hei cam = of_nat h \<and> video_gap cam = of_nat g \<and> video_ptr cam = of_nat n"

definition mid_capture :: "u8 list \<Rightarrow> nat \<Rightarrow> nat \<Rightarrow> nat \<Rightarrow> nat \<Rightarrow> cameralink_capture \<Rightarrow> bool" where
  "mid_capture d w m n sq cap \<longleftrightarrow> length d \<le> length (cap_data cap) \<and> cap_ptr cap = of_nat (stored w (w + m) n)
     \<and> take (3 * stored w (w + m) n) (cap_data cap) = take (3 * stored w (w + m) n) d
     \<and> cap_wid cap = (if n \<le> w then 0 else of_nat w) \<and> capture_seq cap = sq"

definition frame_fits :: "u8 list \<Rightarrow> nat \<Rightarrow> nat \<Rightarrow> nat \<Rightarrow> nat \<Rightarrow> bool" where
  "frame_fits d w m h g \<longleftrightarrow> 0 < w \<and> 0 < m \<and> 0 < h \<and> 0 < g \<and> length d = 3 * w * h \<and> 3 * ((w + m) * (h + g)) < 2 ^ 32"

lemma stored_Suc:
  assumes "0 < w" and "0 < m"
  shows "stored w (w + m) (Suc n) = (if n mod (w + m) < w then Suc (stored w (w + m) n) else stored w (w + m) n)"
proof (cases "Suc (n mod (w + m)) = w + m")
  case True
  then show ?thesis using assms by (auto simp: stored_def div_Suc mod_Suc)
next
  case False
  then show ?thesis using assms by (auto simp: stored_def div_Suc mod_Suc)
qed

lemma small: "n < 2 ^ 32 \<Longrightarrow> unat (of_nat n :: u32) = n"
  by (simp add: unsigned_of_nat take_bit_nat_eq_self)

lemma frame_position:
  assumes "frame_fits d w m h g" and "mid_camera d w m h g n cam" and "n \<le> (w + m) * h"
  shows "unat (video_wid cam) = w" and "unat (video_wid cam + video_mar cam) = w + m" and "unat (video_hei cam) = h"
    and "unat (video_hei cam + video_gap cam) = h + g" and "unat (video_ptr cam) = n" and "video_wid cam + video_mar cam \<noteq> 0"
proof -
  have b: "3 * ((w + m) * (h + g)) < 2 ^ 32" "0 < w" "0 < h" "0 < g" using assms(1) by (simp_all add: frame_fits_def)
  have "(w + m) * 1 \<le> (w + m) * (h + g)" "1 * (h + g) \<le> (w + m) * (h + g)" using b by (intro mult_le_mono; simp)+
  moreover have P: "(w + m) * (h + g) < 2 ^ 32" using b(1) by simp
  ultimately have wm: "w + m < 2 ^ 32" and hg: "h + g < 2 ^ 32" by (simp_all only: mult_1 mult_1_right le_less_trans)
  have "(w + m) * h \<le> (w + m) * (h + g)" by (rule mult_le_mono2) simp
  then have n: "n < 2 ^ 32" using assms(3) P by (meson le_less_trans order_trans)
  note c = assms(2) [unfolded mid_camera_def]
  show "unat (video_wid cam) = w" "unat (video_hei cam) = h" "unat (video_ptr cam) = n"
    using c wm hg n small [of w] small [of h] small [of n] by simp_all
  have "video_wid cam + video_mar cam = of_nat (w + m)" "video_hei cam + video_gap cam = of_nat (h + g)" using c by simp_all
  then show u: "unat (video_wid cam + video_mar cam) = w + m" "unat (video_hei cam + video_gap cam) = h + g"
    using small [OF wm] small [OF hg] by simp_all
  show "video_wid cam + video_mar cam \<noteq> 0" using u(1) b(2) by auto
qed

text \<open>What the camera shows within the frame and after its last line.\<close>

lemma show_body:
  assumes "frame_fits d w m h g" and "mid_camera d w m h g n cam" and "n < (w + m) * h"
  shows "show_pixel junk cam = Done (cam\<lparr>LVV := (n mod (w + m) < w), VCE := True, FVV := True,
     red := buf_byte junk d (3 * w * (n div (w + m)) + 3 * (n mod (w + m))),
     green := buf_byte junk d (3 * w * (n div (w + m)) + 3 * (n mod (w + m)) + 1),
     blue := buf_byte junk d (3 * w * (n div (w + m)) + 3 * (n mod (w + m)) + 2)\<rparr>)"
proof -
  let ?v = "video_ptr cam div (video_wid cam + video_mar cam)" and ?x = "video_ptr cam mod (video_wid cam + video_mar cam)"
  note p = frame_position [OF assms(1,2) less_imp_le [OF assms(3)]]
  have w: "0 < w + m" using assms(1) by (simp add: frame_fits_def)
  have v: "unat ?v = n div (w + m)" and x: "unat ?x = n mod (w + m)" by (simp_all add: unat_div unat_mod p)
  have lt: "n div (w + m) < h" using assms(3) w by (simp add: less_mult_imp_div_less mult.commute)
  have cmp: "(?x < video_wid cam) = (n mod (w + m) < w)" "\<not> video_hei cam + video_gap cam \<le> ?v" "\<not> video_hei cam \<le> ?v"
    using lt by (simp_all add: word_less_nat_alt word_le_nat_alt p v x)
  let ?i = "3 * w * (n div (w + m)) + 3 * (n mod (w + m))"
  have "w * (n div (w + m)) \<le> (w + m) * (h - 1)" using lt by (intro mult_le_mono) auto
  moreover have "n mod (w + m) < w + m" using w by simp
  moreover have "(w + m) * (h - 1) + (w + m) = (w + m) * h" using lt by (cases h) simp_all
  ultimately have "?i < 3 * ((w + m) * h)" by linarith
  also have "\<dots> \<le> 3 * ((w + m) * (h + g))" by (intro mult_le_mono2) simp
  finally have "?i < 2 ^ 32" using assms(1) by (simp add: frame_fits_def)
  then have ab: "3 * w * (n div (w + m)) < 2 ^ 32" "3 * (n mod (w + m)) < 2 ^ 32" by (simp_all only: add_lessD1 add.commute)
  have vx: "?v = of_nat (n div (w + m))" "?x = of_nat (n mod (w + m))" by (simp_all only: v [symmetric] x [symmetric]) simp_all
  have "of_nat (3 * w * (n div (w + m))) = 3 * video_wid cam * ?v" "of_nat (3 * (n mod (w + m))) = 3 * ?x"
    using assms(2) by (simp_all only: vx) (simp_all add: mid_camera_def)
  with small [OF ab(1)] small [OF ab(2)]
  have i: "unat (3 * video_wid cam * ?v) + unat (3 * ?x) = ?i" by metis
  have "video_data cam = Some d" using assms(2) by (simp add: mid_camera_def)
  then show ?thesis using p(6) by (simp add: show_pixel_def Let_def cmp i)
qed

lemma show_end:
  assumes "frame_fits d w m h g" and "mid_camera d w m h g ((w + m) * h) cam"
  shows "show_pixel junk cam = Done (cam\<lparr>LVV := True, VCE := True, FVV := False\<rparr>)"
proof -
  let ?v = "video_ptr cam div (video_wid cam + video_mar cam)" and ?x = "video_ptr cam mod (video_wid cam + video_mar cam)"
  note p = frame_position [OF assms order_refl]
  have w: "0 < w" "0 < g" using assms(1) by (simp_all add: frame_fits_def)
  have "unat ?v = h" "unat ?x = 0" using w by (simp_all add: unat_div unat_mod p)
  then have "?x < video_wid cam" "\<not> video_hei cam + video_gap cam \<le> ?v" "video_hei cam \<le> ?v"
    using w by (simp_all add: word_less_nat_alt word_le_nat_alt p)
  moreover have "video_data cam = Some d" using assms(2) by (simp add: mid_camera_def)
  ultimately show ?thesis using p(6) by (simp add: show_pixel_def Let_def)
qed

text \<open>One clock inside the frame.\<close>

lemma take_keeps: "mid_camera d w m h g n cam \<Longrightarrow> \<exists>c. camera_take v cam = Done c \<and> mid_camera d w m h g (Suc n) c"
  by (auto simp: camera_take_def mid_camera_def Let_def)

lemma take_three:
  assumes "take k xs = take k ys" and "k + 3 \<le> length xs" and "k + 3 \<le> length ys"
  shows "take (k + 3) (xs[k := ys ! k, k + 1 := ys ! (k + 1), k + 2 := ys ! (k + 2)]) = take (k + 3) ys"
proof (rule nth_equalityI)
  fix i assume "i < length (take (k + 3) (xs[k := ys ! k, k + 1 := ys ! (k + 1), k + 2 := ys ! (k + 2)]))"
  then have i: "i < k + 3" "i < length xs" "i < length ys" using assms(2,3) by simp_all
  have "i < k \<Longrightarrow> xs ! i = ys ! i" using assms(1) by (metis nth_take)
  moreover have "i < k \<or> i = k \<or> i = k + 1 \<or> i = k + 2" using i(1) by linarith
  ultimately show "take (k + 3) (xs[k := ys ! k, k + 1 := ys ! (k + 1), k + 2 := ys ! (k + 2)]) ! i = take (k + 3) ys ! i"
    using i assms(2) by (auto simp: nth_list_update)
qed (use assms in simp)

lemma body_clock:
  assumes fit: "frame_fits d w m h g" and cam: "mid_camera d w m h g n cam" and cap: "mid_capture d w m n sq cap"
    and n: "n < (w + m) * h"
  shows "\<exists>c1 c2 k. camera_turn png il junk (nx, cam) = Done (nx, c1) \<and> camera_take v c1 = Done c2
    \<and> capture_turn (capture_take (camera_word c1) cap) = Done (k, [])
    \<and> mid_camera d w m h g (Suc n) c2 \<and> mid_capture d w m (Suc n) sq k"
proof -
  let ?fw = "w + m" and ?s = "stored w (w + m) n" and ?i = "3 * w * (n div (w + m)) + 3 * (n mod (w + m))"
  define c1 where "c1 = cam\<lparr>LVV := (n mod ?fw < w), VCE := True, FVV := True, red := buf_byte junk d ?i,
     green := buf_byte junk d (?i + 1), blue := buf_byte junk d (?i + 2)\<rparr>"
  have some: "video_data cam = Some d" using cam by (simp add: mid_camera_def)
  have turn: "camera_turn png il junk (nx, cam) = Done (nx, c1)"
    by (simp add: camera_turn_def some show_body [OF fit cam n] c1_def)
  have "mid_camera d w m h g n c1" using cam by (simp add: c1_def mid_camera_def)
  from take_keeps [OF this] obtain c2 where c2: "camera_take v c1 = Done c2" "mid_camera d w m h g (Suc n) c2" by blast
  have pos: "0 < w" "0 < m" "length d = 3 * w * h" using fit by (simp_all add: frame_fits_def)
  have lt: "n div ?fw < h" using n pos by (simp add: less_mult_imp_div_less mult.commute)
  let ?kap = "capture_take (camera_word c1) cap"
  have k0: "cap_FVV ?kap" "cap_VCE ?kap" "cap_LVV ?kap = (n mod ?fw < w)" "cap_ptr ?kap = cap_ptr cap" "cap_wid ?kap = cap_wid cap"
    "cap_data ?kap = cap_data cap" "capture_seq ?kap = capture_seq cap" "cap_red ?kap = buf_byte junk d ?i"
    "cap_green ?kap = buf_byte junk d (?i + 1)" "cap_blue ?kap = buf_byte junk d (?i + 2)"
    by (simp_all add: take_camera_word c1_def)
  note c = cap [unfolded mid_capture_def]
  have "w * (n div ?fw) + w \<le> w * h" using lt by (metis add.commute mult_Suc_right mult_le_mono2 Suc_leI)
  then have full: "3 * (w * (n div ?fw)) + 3 * w \<le> length d" using pos by simp
  have sb: "w * h < 2 ^ 32"
  proof -
    have "w * h \<le> ?fw * (h + g)" by (intro mult_le_mono) simp_all
    moreover have "3 * (?fw * (h + g)) < 2 ^ 32" using fit by (simp add: frame_fits_def)
    ultimately show ?thesis by simp
  qed
  show ?thesis
  proof (cases "n mod ?fw < w")
    case True
    have s: "?s = w * (n div ?fw) + n mod ?fw" using True by (simp add: stored_def)
    have i: "?i = 3 * ?s" by (simp add: s)
    have room: "3 * ?s + 3 \<le> length d" using full True by (simp add: s)
    have "3 * ?s < 2 ^ 32"
    proof -
      have "3 * (w * h) \<le> 3 * (?fw * (h + g))" by (intro mult_le_mono) simp_all
      also have "\<dots> < 2 ^ 32" using fit by (simp add: frame_fits_def)
      finally show ?thesis using room pos(3) by simp
    qed
    then have p: "unat (3 * cap_ptr ?kap) = 3 * ?s" using c k0 small [of "3 * ?s"] by simp
    have j: "buf_byte junk d (?i + j) = d ! (3 * ?s + j)" if "j < 3" for j
      using that room unfolding i by (simp add: buf_byte_def)
    let ?k = "?kap\<lparr>cap_request := False, cap_data := (cap_data cap)[3 * ?s := d ! (3 * ?s), 3 * ?s + 1 := d ! (3 * ?s + 1), 3 * ?s + 2 := d ! (3 * ?s + 2)],
       cap_ptr := cap_ptr cap + 1\<rparr>"
    have px: "cap_red ?kap = d ! (3 * ?s)" "cap_green ?kap = d ! (3 * ?s + 1)" "cap_blue ?kap = d ! (3 * ?s + 2)"
      using k0(8-10) j [of 0] j [of 1] j [of 2] by simp_all
    have "3 * ?s + 3 \<le> length (cap_data cap)" using room c by linarith
    then have "store_pixel (?kap\<lparr>cap_request := False\<rparr>) = Done ?k"
      unfolding store_pixel_def Let_def cameralink_capture.simps k0(4,6) px using p by (simp add: k0(4,6) px)
    then have t: "capture_turn ?kap = Done (?k, [])"
      using k0(1-3) True unfolding capture_turn_def Let_def by simp
    have "mid_capture d w m (Suc n) sq ?k"
    proof -
      have "take (3 * ?s + 3) (cap_data ?k) = take (3 * ?s + 3) d"
        using take_three [of "3 * ?s" "cap_data cap" d] c room by simp
      moreover have "Suc n \<le> w \<longleftrightarrow> n \<le> w" using True by (cases "n = w") (auto simp: pos)
      moreover have e: "3 * Suc ?s = 3 * ?s + 3" by simp
      ultimately show ?thesis
        using c unfolding mid_capture_def stored_Suc [OF pos(1,2)] if_P [OF True] e by (simp add: k0)
    qed
    with turn c2 t show ?thesis by blast
  next
    case False
    have s: "?s = w * (n div ?fw) + w" using False by (simp add: stored_def)
    let ?k = "if cap_wid cap = 0 then ?kap\<lparr>cap_request := False, cap_wid := cap_ptr cap\<rparr> else ?kap\<lparr>cap_request := False\<rparr>"
    have t: "capture_turn ?kap = Done (?k, [])" using k0 False by (simp add: capture_turn_def Let_def)
    have wn: "(of_nat w :: u32) \<noteq> 0"
    proof -
      have "w \<le> w * h" using lt by (cases h) simp_all
      then have "w < 2 ^ 32" using sb by (rule le_less_trans)
      from small [OF this] show ?thesis using pos(1) by auto
    qed
    have "w \<le> n" using False by (metis mod_less_eq_dividend not_le_imp_less order_trans)
    moreover have "n = w \<Longrightarrow> ?s = w" using s pos by simp
    ultimately have "mid_capture d w m (Suc n) sq ?k"
      using c False wn by (auto simp: mid_capture_def stored_Suc [OF pos(1,2)] k0)
    with turn c2 t show ?thesis by blast
  qed
qed

lemma body_film:
  assumes "frame_fits d w m h g"
  shows "n \<le> (w + m) * h \<Longrightarrow> mid_camera d w m h g 0 cam \<Longrightarrow> mid_capture d w m 0 sq cap \<Longrightarrow> length vs = n \<Longrightarrow>
    \<exists>c k. film png il junk vs (nx, cam) cap = Done ((nx, c), k, []) \<and> mid_camera d w m h g n c \<and> mid_capture d w m n sq k"
proof -
  have "\<exists>c k. film png il junk vs (nx, cam) cap = Done ((nx, c), k, []) \<and> mid_camera d w m h g (i + length vs) c
      \<and> mid_capture d w m (i + length vs) sq k"
    if "i + length vs \<le> (w + m) * h" and "mid_camera d w m h g i cam" and "mid_capture d w m i sq cap" for i cam cap
    using that
  proof (induction vs arbitrary: i cam cap)
    case (Cons v vs)
    then have i: "i < (w + m) * h" by simp
    from body_clock [OF assms Cons.prems(2,3) i] obtain c1 c2 k where
      s: "camera_turn png il junk (nx, cam) = Done (nx, c1)" "camera_take v c1 = Done c2"
        "capture_turn (capture_take (camera_word c1) cap) = Done (k, [])"
      and inv: "mid_camera d w m h g (Suc i) c2" "mid_capture d w m (Suc i) sq k" by blast
    have le: "Suc i + length vs \<le> (w + m) * h" using Cons.prems(1) by simp
    from Cons.IH [OF le inv] show ?case by (auto simp: s)
  qed simp
  from this [of 0 cam cap]
  show "n \<le> (w + m) * h \<Longrightarrow> mid_camera d w m h g 0 cam \<Longrightarrow> mid_capture d w m 0 sq cap \<Longrightarrow> length vs = n \<Longrightarrow>
    \<exists>c k. film png il junk vs (nx, cam) cap = Done ((nx, c), k, []) \<and> mid_camera d w m h g n c \<and> mid_capture d w m n sq k"
    by simp
qed

text \<open>The clock after the last line: the file is written.\<close>

lemma end_clock:
  assumes fit: "frame_fits d w m h g" and cam: "mid_camera d w m h g ((w + m) * h) cam"
    and cap: "mid_capture d w m ((w + m) * h) sq cap"
  shows "\<exists>c k. film png il junk [v] (nx, cam) cap = Done ((nx, c), k, [\<lparr>ppm_seq = sq, ppm_wid = of_nat w, ppm_hei = of_nat h, ppm_bytes = d\<rparr>])
    \<and> cap_ptr k = 0 \<and> cap_wid k = 0 \<and> capture_seq k = Suc sq"
proof -
  let ?c1 = "cam\<lparr>LVV := True, VCE := True, FVV := False\<rparr>" and ?kap = "capture_take (camera_word (cam\<lparr>LVV := True, VCE := True, FVV := False\<rparr>)) cap"
  have pos: "0 < w" "0 < m" "0 < h" "length d = 3 * w * h" using fit by (simp_all add: frame_fits_def)
  have some: "video_data cam = Some d" using cam by (simp add: mid_camera_def)
  have turn: "camera_turn png il junk (nx, cam) = Done (nx, ?c1)" by (simp add: camera_turn_def some show_end [OF fit cam])
  have "mid_camera d w m h g ((w + m) * h) ?c1" using cam by (simp add: mid_camera_def)
  from take_keeps [OF this] obtain c2 where c2: "camera_take v ?c1 = Done c2" by blast
  have st: "stored w (w + m) ((w + m) * h) = w * h" using pos by (simp add: stored_def)
  have "w + m \<le> (w + m) * h" using pos by simp
  then have nw: "\<not> (w + m) * h \<le> w" using pos by linarith
  note c = cap [unfolded mid_capture_def st if_not_P [OF nw]]
  have "3 * (w * h) \<le> 3 * ((w + m) * (h + g))" by (intro mult_le_mono) simp_all
  moreover have "3 * ((w + m) * (h + g)) < 2 ^ 32" using fit by (simp add: frame_fits_def)
  ultimately have b: "3 * (w * h) < 2 ^ 32" by (rule le_less_trans)
  have wh: "w \<le> w * h" "h \<le> w * h" "w * h < 2 ^ 32" using pos b by simp_all
  note u = small [OF le_less_trans [OF wh(1,3)]] small [OF le_less_trans [OF wh(2,3)]] small [OF wh(3)]
  have w0: "(of_nat w :: u32) \<noteq> 0" and p0: "0 < (of_nat (w * h) :: u32)"
    using u pos by (auto simp: word_less_nat_alt)
  have "unat ((of_nat (w * h) :: u32) div of_nat w) = h" using u pos by (simp add: unat_div)
  then have hei: "(of_nat (w * h) :: u32) div of_nat w = of_nat h" by (simp only: word_unat_eq_iff u(2))
  have n: "unat (3 * of_nat w * of_nat h :: u32) = 3 * (w * h)"
  proof -
    have "(3 * of_nat w * of_nat h :: u32) = of_nat (3 * (w * h))" by simp
    then show ?thesis using small [OF b] by metis
  qed
  have td: "take (3 * (w * h)) (cap_data cap) = d" using c pos by simp
  have fs: "cap_FVV ?kap = False" "cap_ptr ?kap = of_nat (w * h)" "cap_wid ?kap = of_nat w" "cap_data ?kap = cap_data cap"
    "capture_seq ?kap = sq" using c by (simp_all add: take_camera_word)
  let ?k = "?kap\<lparr>cap_request := True, cap_ptr := 0, cap_wid := 0, capture_seq := Suc sq\<rparr>"
  have "write_image (?kap\<lparr>cap_request := True\<rparr>) = Done (?k, [\<lparr>ppm_seq = sq, ppm_wid = of_nat w, ppm_hei = of_nat h, ppm_bytes = d\<rparr>])"
    using w0 c pos unfolding write_image_def Let_def by (simp add: fs hei n td del: of_nat_mult)
  then have t: "capture_turn ?kap = Done (?k, [\<lparr>ppm_seq = sq, ppm_wid = of_nat w, ppm_hei = of_nat h, ppm_bytes = d\<rparr>])"
    using p0 unfolding capture_turn_def Let_def by (simp add: fs del: of_nat_mult)
  show ?thesis by (simp add: turn c2 t)
qed

section \<open>From the file to the file\<close>

lemma row_bytes_nth: "\<forall>x \<in> set xs. x < length row \<Longrightarrow> row_bytes row xs = Done (map (\<lambda>x. row ! x) xs)"
  by (induction xs) (simp_all add: row_byte_def)

lemma rgb_line: "3 * n \<le> length row \<Longrightarrow> line_bytes PNG_RGB lanes row [0..<n] = Done (take (3 * n) row)"
proof -
  have app: "line_bytes c l row (xs @ ys) = obind (line_bytes c l row xs) (\<lambda>v. obind (line_bytes c l row ys) (\<lambda>vs. Done (v @ vs)))"
    for c l and xs ys :: "nat list"
    by (induction xs) (simp_all add: obind_assoc)
  show "3 * n \<le> length row \<Longrightarrow> line_bytes PNG_RGB lanes row [0..<n] = Done (take (3 * n) row)"
  proof (induction n)
    case (Suc n)
    have "clock_bytes PNG_RGB lanes row n = Done [row ! (3 * n), row ! (3 * n + 1), row ! (3 * n + 2)]"
      using Suc.prems by (simp add: clock_bytes_def row_bytes_nth row_byte_def)
    moreover have "take (3 * Suc n) row = take (3 * n) row @ [row ! (3 * n), row ! (3 * n + 1), row ! (3 * n + 2)]"
      using Suc.prems by (simp add: take_Suc_conv_app_nth numeral_3_eq_3)
    ultimately show ?case using Suc by (simp add: app)
  qed simp
qed

lemma rgb_image:
  "\<forall>row \<in> set rows. length row = 3 * n \<Longrightarrow> image_bytes PNG_RGB lanes n rows [0..<length rows] = Done (concat rows)"
proof -
  assume a: "\<forall>row \<in> set rows. length row = 3 * n"
  have "image_bytes PNG_RGB lanes n rows ys = Done (concat (map (\<lambda>y. rows ! y) ys))" if "\<forall>y \<in> set ys. y < length rows" for ys
    using that
  proof (induction ys)
    case (Cons y ys)
    then have l: "length (rows ! y) = 3 * n" using a by simp
    then have "line_bytes PNG_RGB lanes (rows ! y) [0..<n] = Done (rows ! y)" by (simp add: rgb_line)
    then show ?case using Cons by simp
  qed simp
  from this [of "[0..<length rows]"] show ?thesis by (simp add: map_nth)
qed

lemma film_append:
  "film png il junk us nc k = Done (nc', k', fs) \<Longrightarrow> film png il junk us' nc' k' = Done (nc'', k'', fs') \<Longrightarrow>
    film png il junk (us @ us') nc k = Done (nc'', k'', fs @ fs')"
proof (induction us arbitrary: nc k nc' k' fs)
  case (Cons v us)
  from Cons.prems(1) obtain nx c1 c2 k1 f1 f2 where
    s: "camera_turn png il junk nc = Done (nx, c1)" "camera_take v c1 = Done c2"
      "capture_turn (capture_take (camera_word c1) k) = Done (k1, f1)" "film png il junk us (nx, c2) k1 = Done (nc', k', f2)"
      and f: "fs = f1 @ f2"
    by auto
  from Cons.IH [OF s(4) Cons.prems(2)] show ?case by (simp add: s f)
qed simp

lemma concat_rows: "\<forall>row \<in> set rows. length row = n \<Longrightarrow> length (concat rows) = n * length rows"
  by (induction rows) simp_all

text \<open>C15: An image goes through the link unharmed. Suppose the camera is idle at the start of a line, armed and
  asked for an image, and the next path is a color image of \<open>w\<close> by \<open>h\<close> pixels. Let the two programs run
  for the clocks of the frame and one more, whatever the camera receives meanwhile. Then the capture program
  has written exactly one file, its width and height are \<open>w\<close> and \<open>h\<close>, and its bytes are the rows of the
  image in their order; margins do not get into it, nor what lies behind the camera's buffer.\<close>

theorem image_captured:
  assumes "video_data cam = None" and "arm_request cam" and "cam_request cam" and "video_ptr cam = 0"
    and "nx < length il" and "png (il ! nx) = Some im" and "png_color im = PNG_RGB"
    and "w = unat (png_width im)" and "h = unat (png_height im)" and "m = unat (video_mar cam)" and "g = unat (video_gap cam)"
    and "length (png_rows im) = h" and "\<forall>row \<in> set (png_rows im). length row = 3 * w"
    and "0 < w" and "0 < m" and "0 < h" and "0 < g" and "3 * ((w + m) * (h + g)) < 2 ^ 32"
    and "cap_ptr cap = 0" and "cap_wid cap = 0" and "3 * (w * h) \<le> length (cap_data cap)"
    and "length vs = (w + m) * h + 1"
  shows "\<exists>cam' cap'. film png il junk vs (nx, cam) cap = Done ((Suc nx mod length il, cam'), cap',
      [\<lparr>ppm_seq = capture_seq cap, ppm_wid = png_width im, ppm_hei = png_height im, ppm_bytes = concat (png_rows im)\<rparr>])
    \<and> cap_ptr cap' = 0 \<and> cap_wid cap' = 0 \<and> capture_seq cap' = Suc (capture_seq cap)"
proof -
  let ?d = "concat (png_rows im)"
  define c0 where "c0 = cam\<lparr>arm_request := False, video_hei := png_height im, video_wid := png_width im, video_data := Some ?d\<rparr>"
  have len: "length ?d = 3 * w * h" using concat_rows [OF assms(13)] assms(12) by simp
  have fit: "frame_fits ?d w m h g" using assms len by (simp add: frame_fits_def)
  have cam0: "mid_camera ?d w m h g 0 c0" using assms by (simp add: mid_camera_def c0_def)
  have cap0: "mid_capture ?d w m 0 (capture_seq cap) cap" using assms len by (simp add: mid_capture_def stored_def)
  have "3 * (w * h) \<le> 3 * ((w + m) * (h + g))" by (intro mult_le_mono) simp_all
  then have b: "3 * (w * h) < 2 ^ 32" using assms(18) by (rule le_less_trans)
  have "unat (3 * png_width im * png_height im) = 3 * (w * h)"
  proof -
    have "(3 * png_width im * png_height im :: u32) = of_nat (3 * (w * h))" using assms(8,9) by simp
    then show ?thesis using small [OF b] by metis
  qed
  moreover have "image_bytes PNG_RGB (gray_lanes cam) w (png_rows im) [0..<h] = Done ?d"
    using rgb_image [OF assms(13)] assms(12) by simp
  ultimately have "load_image_file png (cam\<lparr>arm_request := False\<rparr>) (il ! nx) = Done (0, c0)"
    using assms(6,7) len by (simp add: load_image_file_def Let_def assms(8,9) [symmetric] c0_def)
  then have acq: "acquire_next_image png il nx cam = Done (Suc nx mod length il, c0)"
    using assms(5) by (auto simp: acquire_next_image_def)
  have "camera_turn png il junk (nx, cam) = camera_turn png il junk (Suc nx mod length il, c0)"
    using assms(1-4) acq by (simp add: camera_turn_def c0_def)
  moreover obtain v vs' where vs: "vs = v # vs'" using assms(22) by (cases vs) auto
  ultimately have same: "film png il junk vs (nx, cam) cap = film png il junk vs (Suc nx mod length il, c0) cap" by simp
  define us where "us = butlast vs"
  have us: "us @ [last vs] = vs" "length us = (w + m) * h"
    using assms(22) vs by (simp_all add: us_def del: last.simps butlast.simps)
  obtain c k where bf: "film png il junk us (Suc nx mod length il, c0) cap = Done ((Suc nx mod length il, c), k, [])"
    "mid_camera ?d w m h g ((w + m) * h) c" "mid_capture ?d w m ((w + m) * h) (capture_seq cap) k"
    using body_film [OF fit order_refl cam0 cap0 us(2)] by blast
  obtain c' k' where e: "film png il junk [last vs] (Suc nx mod length il, c) k = Done ((Suc nx mod length il, c'), k',
      [\<lparr>ppm_seq = capture_seq cap, ppm_wid = of_nat w, ppm_hei = of_nat h, ppm_bytes = ?d\<rparr>])"
    "cap_ptr k' = 0" "cap_wid k' = 0" "capture_seq k' = Suc (capture_seq cap)"
    using end_clock [OF fit bf(2,3)] by blast
  have "film png il junk vs (nx, cam) cap = Done ((Suc nx mod length il, c'), k',
      [\<lparr>ppm_seq = capture_seq cap, ppm_wid = png_width im, ppm_hei = png_height im, ppm_bytes = ?d\<rparr>])"
    unfolding same using film_append [OF bf(1) e(1)] assms(8,9) by (simp add: us(1))
  with e(2-4) show ?thesis by blast
qed

text \<open>Two pixels in each of two lines, with a margin of two clocks.\<close>

definition sample_image :: png_image where
  "sample_image = \<lparr>png_height = 2, png_width = 2, png_color = PNG_RGB,
     png_rows = [[1, 2, 3, 4, 5, 6], [7, 8, 9, 10, 11, 12]]\<rparr>"

theorem image_captured_witness:
  "\<exists>cam' cap'. film (\<lambda>path. if path = ''a.png'' then Some sample_image else None) [''a.png''] (\<lambda>n. 77) (replicate 9 1)
       (0, (new_camera 2 2 1 1)\<lparr>arm_request := True, cam_request := True\<rparr>) (new_capture (replicate 30 0))
     = Done ((0, cam'), cap', [\<lparr>ppm_seq = 0, ppm_wid = 2, ppm_hei = 2, ppm_bytes = [1, 2, 3, 4, 5, 6, 7, 8, 9, 10, 11, 12]\<rparr>])"
proof -
  let ?cam = "(new_camera 2 2 1 1)\<lparr>arm_request := True, cam_request := True\<rparr>" and ?cap = "new_capture (replicate 30 0)"
  have "\<exists>cam' cap'. film (\<lambda>path. if path = ''a.png'' then Some sample_image else None) [''a.png''] (\<lambda>n. 77) (replicate 9 1) (0, ?cam) ?cap
      = Done ((Suc 0 mod length [''a.png''], cam'), cap', [\<lparr>ppm_seq = capture_seq ?cap, ppm_wid = png_width sample_image,
          ppm_hei = png_height sample_image, ppm_bytes = concat (png_rows sample_image)\<rparr>])
      \<and> cap_ptr cap' = 0 \<and> cap_wid cap' = 0 \<and> capture_seq cap' = Suc (capture_seq ?cap)"
    by (rule image_captured [where w = 2 and h = 2 and m = 2 and g = 1])
      (simp_all add: new_camera_def new_capture_def sample_image_def)
  then show ?thesis by (auto simp: new_capture_def sample_image_def)
qed

section \<open>The capture program writes what was asked for\<close>

lemma p2p_posedge_consumes: "simbus_p2p_clock_posedge b 1 = Done (rc, b') \<Longrightarrow> pending (fd b') < pending (fd b)"
proof -
  assume "simbus_p2p_clock_posedge b 1 = Done (rc, b')"
  then obtain r1 b1 where
    s: "spin_rc fd send_ready_p2p (\<lambda>b. clock b \<noteq> BIT_0) (0, b) = Done (r1, b1)"
       "spin_rc fd send_ready_p2p (\<lambda>b. clock b \<noteq> BIT_1) (r1, b1) = Done (rc, b')"
    by (auto simp: simbus_p2p_clock_posedge_def)
  have le: "pending (fd b') \<le> pending (fd b1)"
    using p2p.spin_rc_pending [THEN retD, OF s(2)] by simp
  show ?thesis
  proof (cases "clock b = BIT_0")
    case True
    then have b1: "r1 = 0" "b1 = b" using s(1) by (simp_all add: p2p.spin_rc_unfold)
    with s(2) True obtain r2 b2 where r: "send_ready_p2p b = Done (r2, b2)"
      and s2: "spin_rc fd send_ready_p2p (\<lambda>b. clock b \<noteq> BIT_1) (r2, b2) = Done (rc, b')"
      by (auto simp: p2p.spin_rc_unfold [of _ 0])
    from p2p.ready_consumes [OF r] p2p.spin_rc_pending [THEN retD, OF s2] show ?thesis by simp
  next
    case False
    with s(1) obtain r2 b2 where r: "send_ready_p2p b = Done (r2, b2)"
      and s2: "spin_rc fd send_ready_p2p (\<lambda>b. clock b \<noteq> BIT_0) (r2, b2) = Done (r1, b1)"
      by (auto simp: p2p.spin_rc_unfold [of _ 0])
    from p2p.ready_consumes [OF r] p2p.spin_rc_pending [THEN retD, OF s2] le show ?thesis by simp
  qed
qed

lemma capture_turn_fuel: "capture_turn cap \<noteq> Stop Out_of_fuel"
  by (simp add: capture_turn_def write_image_def store_pixel_def Let_def c_defined_def obind_eq_Stop)

lemma capture_cycle_fuel: "capture_cycle s \<noteq> Stop Out_of_fuel"
proof -
  have "simbus_p2p_clock_posedge b n \<noteq> Stop Out_of_fuel" for b n
    unfolding simbus_p2p_clock_posedge_def by (rule p2p_posedge_fuel)
  then show ?thesis
    by (cases s) (auto simp: capture_cycle_def capture_step_def obind_eq_Stop capture_turn_fuel simbus_p2p_in_poke_def
      simbus_p2p_out_peek_def c_defined_def)
qed

lemma capture_cycle_consumes: "capture_cycle (b, cap) = Done (b', cap', fs) \<Longrightarrow> pending (fd b') < pending (fd b)"
  by (auto simp: capture_cycle_def capture_step_def simbus_p2p_in_poke_def c_defined_def split: if_splits dest!: p2p_posedge_consumes [unfolded One_nat_def])

interpretation capturing: io_loop "\<lambda>(bus, cap, files). pending (fd bus)"
  "\<lambda>(bus, cap, files). obind (capture_cycle (bus, cap)) (\<lambda>(b, c, fs). Done (b, c, files @ fs))"
  by unfold_locales (auto dest: capture_cycle_consumes)

lemma capture_loop_fuel: "capture_loop count s \<noteq> Stop Out_of_fuel"
  unfolding capture_loop_def by (rule capturing.never_out_of_fuel) (auto simp: obind_eq_Stop capture_cycle_fuel split: prod.splits)

text \<open>The files are numbered as they come, each as long as its size says, and an image counts when the frame is over.\<close>

lemma capture_turn_files:
  "capture_turn cap = Done (k, fs) \<Longrightarrow> map ppm_seq fs = [capture_seq cap..<capture_seq k]
     \<and> (\<forall>f \<in> set fs. length (ppm_bytes f) = unat (3 * ppm_wid f * ppm_hei f))
     \<and> (capture_seq k = capture_seq cap \<or> capture_seq k = Suc (capture_seq cap) \<and> \<not> cap_FVV k)"
  by (auto simp: capture_turn_def write_image_def store_pixel_def Let_def c_defined_def split: if_splits)

definition capture_inv :: "int \<Rightarrow> simbus_p2p \<times> cameralink_capture \<times> ppm_file list \<Rightarrow> bool" where
  "capture_inv count = (\<lambda>(b, k, files). map ppm_seq files = [0..<capture_seq k]
     \<and> (\<forall>f \<in> set files. length (ppm_bytes f) = unat (3 * ppm_wid f * ppm_hei f))
     \<and> (capture_seq k < nat count \<or> capture_seq k = nat count \<and> \<not> cap_FVV k))"

lemma capture_cycle_inv:
  assumes "capture_inv count (bus, cap, files)" and "capture_goes_on count cap"
    and "capture_cycle (bus, cap) = Done (b1, k, fs)"
  shows "capture_inv count (b1, k, files @ fs)"
proof -
  obtain c1 where c: "capture_step bus cap = Done (b1, c1)" and k: "capture_turn c1 = Done (k, fs)"
    using assms(3) by (auto simp: capture_cycle_def)
  have seq: "capture_seq c1 = capture_seq cap" using c by (auto simp: capture_step_def capture_take_def)
  have "capture_seq cap < nat count" using assms(1,2) by (auto simp: capture_inv_def capture_goes_on_def split: if_split_asm)
  with capture_turn_files [OF k] seq
  have n: "capture_seq k < nat count \<or> capture_seq k = nat count \<and> \<not> cap_FVV k" by auto
  have "map ppm_seq (files @ fs) = [0..<capture_seq cap] @ [capture_seq cap..<capture_seq k]"
    using assms(1) capture_turn_files [OF k] seq by (simp add: capture_inv_def)
  also have "\<dots> = [0..<capture_seq k]"
    using capture_turn_files [OF k] seq by (metis bot_nat_0.extremum le_add_diff_inverse le_Suc_eq order_refl upt_add_eq_append)
  finally show ?thesis using assms(1) capture_turn_files [OF k] n by (auto simp: capture_inv_def)
qed

lemma capture_loop_files:
  "ret (capture_loop count (b, new_capture area, [])) (\<lambda>(b', k, files). length files = nat count
     \<and> map ppm_seq files = [0..<length files] \<and> (\<forall>f \<in> set files. length (ppm_bytes f) = unat (3 * ppm_wid f * ppm_hei f)))"
proof -
  have "ret (capture_loop count (b, new_capture area, []))
      (\<lambda>s. capture_inv count s \<and> \<not> (\<lambda>(bus, cap, files). capture_goes_on count cap) s)"
    unfolding capture_loop_def
  proof (rule ret_while_io)
    show "capture_inv count (b, new_capture area, [])" by (simp add: capture_inv_def new_capture_def) linarith
  qed (auto intro!: retI dest: capture_cycle_inv)
  then show ?thesis
  proof (rule ret_mono)
    fix s assume a: "capture_inv count s \<and> \<not> (\<lambda>(bus, cap, files). capture_goes_on count cap) s"
    obtain b' k files where s: "s = (b', k, files)" by (cases s) auto
    with a have m: "map ppm_seq files = [0..<capture_seq k]" and n: "capture_seq k = nat count"
      by (auto simp: capture_inv_def capture_goes_on_def)
    have "length files = capture_seq k" using arg_cong [OF m, of length] by simp
    with a n show "(\<lambda>(b', k, files). length files = nat count
        \<and> map ppm_seq files = [0..<length files] \<and> (\<forall>f \<in> set files. length (ppm_bytes f) = unat (3 * ppm_wid f * ppm_hei f))) s"
      by (simp add: s capture_inv_def)
  qed
qed

text \<open>C16: The capture program writes the images it was asked for. It exits with -1 and no file when it has no server or
  cannot connect.  When it exits with 0 it has written exactly the number of images of its command line
  (none for a negative number), numbered from 0 without a gap, and each file holds exactly the bytes that the
  width and height in its header announce.  (It need not exit: the result of the clock is ignored, so
  it goes on after the end of the simulation.)\<close>

theorem captures_as_asked:
  assumes "capture_getopt args default_capture = Done opts"
  shows "ret (capture_main os mem args) (\<lambda>(rc, c, files).
        rc = -1 \<and> c = None \<and> files = [] \<or>
        rc = 0 \<and> c \<noteq> None \<and> cap_server opts \<noteq> None \<and> length files = nat (capture_count opts)
          \<and> map ppm_seq files = [0..<length files]
          \<and> (\<forall>f \<in> set files. length (ppm_bytes f) = unat (3 * ppm_wid f * ppm_hei f)))"
proof (cases "cap_server opts")
  case None
  then show ?thesis using assms by (simp add: capture_main_def)
next
  case (Some server)
  note files = capture_loop_files [unfolded ret_def, rule_format]
  show ?thesis
    using assms Some by (auto simp: capture_main_def split: option.splits intro!: retI dest!: files)
qed

text \<open>A run: one pixel, then the end of the frame, written as one file.\<close>

definition data_tick :: "bitval \<Rightarrow> string \<Rightarrow> read_event" where
  "data_tick v ds = answer [''UNTIL'', time_token init_simbus_time, ''CLOCK='' @ [bitval_to_char v], ''DATA_O='' @ ds]"

lemma load_all: "length xs = length cp \<Longrightarrow> load_vector (length cp) cp (length cp) xs = rev (map char_to_bitval cp)"
  by (rule nth_equalityI) (simp_all add: nth_load_vector rev_nth)

lemma send_ready_data:
  assumes "p2p_fits bus" and "rx (fd bus) = data_tick v ds # es" and "length ds = width_o bus" and "ds \<noteq> []"
    and "plain_token ds" and "length ds < 1000"
  shows "send_ready_p2p bus = Done (0, bus\<lparr>fd := (fd bus)\<lparr>rx := es, tx := tx (fd bus) @ [ready_message_p2p bus]\<rparr>,
      bus_time := init_simbus_time, clock := v, data_o := rev (map char_to_bitval ds)\<rparr>)"
proof -
  let ?sigs = "[''CLOCK='' @ [bitval_to_char v], ''DATA_O='' @ ds]"
  have len: "length (join_tokens (''UNTIL'' # time_token init_simbus_time # ?sigs)) + 1 < buf_size"
    using assms(6) by (simp add: buf_size_def init_token)
  have plain: "list_all plain_token (''UNTIL'' # time_token init_simbus_time # ?sigs)"
    using bitval_to_char_plain [of v] assms(5) by (simp add: plain_time_token) (auto simp: plain_token_def NUL_def NL_def)
  have "send_ready_p2p bus = obind (each_signal on_signal_p2p ?sigs
      (bus\<lparr>fd := (fd bus)\<lparr>rx := es, tx := tx (fd bus) @ [ready_message_p2p bus]\<rparr>, bus_time := init_simbus_time\<rparr>))
      (\<lambda>s'. Done (0, s'))"
    unfolding send_ready_p2p_def
    by (subst ready_exchange_answer [where t = init_simbus_time and sigs = ?sigs and es = es])
      (use assms fits_message [OF assms(1)] len plain in \<open>simp_all add: p2p_fits_def data_tick_def max_argc_def\<close>)
  moreover have "length (data_o bus) = length ds" using assms(1,3) by (simp add: p2p_fits_def p2p_wf_def)
  then have "take_vector (width_o bus) ds (data_o bus) = Done (rev (map char_to_bitval ds))"
    using assms(4) by (simp add: take_vector_def load_all flip: assms(3))
  ultimately show ?thesis by (simp add: on_signal_p2p_def char0_def)
qed

lemma posedge_data:
  assumes "p2p_fits bus" and "clock bus \<noteq> BIT_0" and "rx (fd bus) = data_tick BIT_0 ds # data_tick BIT_1 ds # es"
    and "length ds = width_o bus" and "ds \<noteq> []" and "plain_token ds" and "length ds < 1000"
  shows "\<exists>b. simbus_p2p_clock_posedge bus 1 = Done (0, b) \<and> p2p_fits b \<and> clock b = BIT_1 \<and> rx (fd b) = es
    \<and> width_o b = width_o bus \<and> width_i b = width_i bus \<and> data_o b = rev (map char_to_bitval ds)"
proof -
  note one = send_ready_data [OF assms(1,3-7)]
  let ?b1 = "bus\<lparr>fd := (fd bus)\<lparr>rx := data_tick BIT_1 ds # es, tx := tx (fd bus) @ [ready_message_p2p bus]\<rparr>,
      bus_time := init_simbus_time, clock := BIT_0, data_o := rev (map char_to_bitval ds)\<rparr>"
  have b1: "p2p_fits ?b1" using assms(1,4) by (simp add: p2p_fits_def p2p_wf_def)
  have two: "send_ready_p2p ?b1 = Done (0, ?b1\<lparr>fd := (fd ?b1)\<lparr>rx := es, tx := tx (fd ?b1) @ [ready_message_p2p ?b1]\<rparr>,
      bus_time := init_simbus_time, clock := BIT_1, data_o := rev (map char_to_bitval ds)\<rparr>)" (is "_ = Done (0, ?b2)")
    by (rule send_ready_data [OF b1]) (use assms(4-7) in simp_all)
  have "simbus_p2p_clock_posedge bus 1 = Done (0, ?b2)"
    unfolding simbus_p2p_clock_posedge_def One_nat_def
    by (simp add: p2p.spin_rc_unfold assms(2) one two del: simbus_p2p.update_convs)
  moreover have "p2p_fits ?b2" using b1 assms(4) by (simp add: p2p_fits_def p2p_wf_def)
  ultimately show ?thesis by (intro exI [of _ ?b2]) simp
qed

text \<open>The answers: a pixel with all three valid lines up, then the end of the frame.\<close>

definition capture_script :: "read_event list" where
  "capture_script = [data_tick BIT_0 (''111'' @ replicate 24 CHR ''0''), data_tick BIT_1 (''111'' @ replicate 24 CHR ''0''),
     data_tick BIT_0 (replicate 27 CHR ''0''), data_tick BIT_1 (replicate 27 CHR ''0''), Rd_data (''FINISH'' @ [NL])]"

text \<open>What a turn takes from 27 lines: the three valid flags are lines 24, 25 and 26.\<close>

lemma take_lines:
  assumes "length xs = 27"
  shows "\<exists>val rd gn bl. fold (collect_step xs) [0..<27] (0, [0]) = (- int (unknown_count xs), [val])
    \<and> capture_take val cap = cap\<lparr>cap_red := rd, cap_green := gn, cap_blue := bl,
        cap_VCE := (xs ! 24 = BIT_1), cap_LVV := (xs ! 25 = BIT_1), cap_FVV := (xs ! 26 = BIT_1)\<rparr>"
proof -
  have c: "collected xs 27 [0] (fold (collect_step xs) [0..<27] (0, [0]))"
    by (rule collect_all) (use assms in simp_all)
  obtain n vs where f: "fold (collect_step xs) [0..<27] (0, [0]) = (n, vs)" by (rule prod.exhaust)
  with c assms have n: "n = - int (unknown_count xs)" "length vs = 1" "word_of_lines xs 27 0 (vs ! 0)"
    by (simp_all add: collected_def)
  then obtain val where v: "vs = [val]" "word_of_lines xs 27 0 val" by (cases vs) auto
  then have "bit val 24 = (xs ! 24 = BIT_1)" "bit val 25 = (xs ! 25 = BIT_1)" "bit val 26 = (xs ! 26 = BIT_1)"
    by (simp_all add: word_of_lines_def)
  with f n(1) v(1) show ?thesis by (intro exI [of _ val] exI) (simp add: capture_take_def flag_of_word)
qed

lemma capture_step_data:
  assumes "p2p_fits bus" and "clock bus \<noteq> BIT_0" and "rx (fd bus) = data_tick BIT_0 ds # data_tick BIT_1 ds # es"
    and "width_o bus = 27" and "width_i bus = 8" and "length ds = 27" and "plain_token ds"
  shows "\<exists>b rd gn bl. capture_step bus cap = Done (b, cap\<lparr>cap_red := rd, cap_green := gn, cap_blue := bl,
        cap_VCE := (char_to_bitval (ds ! 2) = BIT_1), cap_LVV := (char_to_bitval (ds ! 1) = BIT_1),
        cap_FVV := (char_to_bitval (ds ! 0) = BIT_1)\<rparr>)
    \<and> p2p_fits b \<and> clock b = BIT_1 \<and> rx (fd b) = es \<and> width_o b = 27 \<and> width_i b = 8"
proof -
  let ?b1 = "bus\<lparr>data_i := fold (drive_step [capture_word cap]) [0..<8] (data_i bus)\<rparr>"
  have poke: "simbus_p2p_in_poke bus [capture_word cap] = Done ?b1" using assms(5) by (simp add: simbus_p2p_in_poke_def)
  have b1: "p2p_fits ?b1" using assms(1) by (simp add: p2p_fits_def p2p_wf_def)
  have ne: "ds \<noteq> []" using assms(6) by auto
  obtain b where e: "simbus_p2p_clock_posedge ?b1 1 = Done (0, b)" and b: "p2p_fits b" "clock b = BIT_1" "rx (fd b) = es"
      "width_o b = 27" "width_i b = 8" "data_o b = rev (map char_to_bitval ds)"
    using posedge_data [OF b1, of ds es] assms ne by auto
  let ?xs = "rev (map char_to_bitval ds)"
  have at: "?xs ! 24 = char_to_bitval (ds ! 2)" "?xs ! 25 = char_to_bitval (ds ! 1)" "?xs ! 26 = char_to_bitval (ds ! 0)"
    using assms(6) by (simp_all add: rev_nth)
  obtain val rd gn bl where t: "fold (collect_step ?xs) [0..<27] (0, [0]) = (- int (unknown_count ?xs), [val])"
      "capture_take val cap = cap\<lparr>cap_red := rd, cap_green := gn, cap_blue := bl,
        cap_VCE := (?xs ! 24 = BIT_1), cap_LVV := (?xs ! 25 = BIT_1), cap_FVV := (?xs ! 26 = BIT_1)\<rparr>"
    using take_lines [of ?xs cap] assms(6) by auto
  have "simbus_p2p_out_peek b [0] = Done (- int (unknown_count ?xs), [val])"
    using b(4,6) t(1) by (simp add: simbus_p2p_out_peek_def)
  then have "capture_step bus cap = Done (b, capture_take val cap)"
    by (simp only: capture_step_def poke e obind.simps prod.case nth_Cons_0)
  with t(2) b show ?thesis
    unfolding at by (intro exI [of _ b] exI [of _ rd] exI [of _ gn] exI [of _ bl]) simp
qed

lemma capture_turns:
  "capture_goes_on count cap \<Longrightarrow> capture_cycle (b, cap) = Done (b1, c1, fs) \<Longrightarrow>
     capture_loop count (b, cap, files) = capture_loop count (b1, c1, files @ fs)"
  "\<not> capture_goes_on count cap \<Longrightarrow> capture_loop count (b, cap, files) = Done (b, cap, files)"
  unfolding capture_loop_def by (simp_all add: capturing.unfold [where s = "(b, cap, files)"])

lemma capture_cycle_turn:
  "capture_step b cap = Done (b1, c1) \<Longrightarrow> capture_turn c1 = Done (c2, fs) \<Longrightarrow> capture_cycle (b, cap) = Done (b1, c2, fs)"
  by (simp add: capture_cycle_def)

lemma capture_run:
  assumes "p2p_fits b" and "clock b \<noteq> BIT_0" and "rx (fd b) = capture_script" and "width_o b = 27" and "width_i b = 8"
    and "length area = 3"
  shows "\<exists>b' cap' f. capture_loop 1 (b, new_capture area, []) = Done (b', cap', [f]) \<and> p2p_fits b'
    \<and> rx (fd b') = [Rd_data (''FINISH'' @ [NL])]"
proof -
  let ?p = "''111'' @ replicate 24 CHR ''0''" and ?z = "replicate 27 CHR ''0''"
  have plain: "plain_token ?p" "plain_token ?z" by (simp_all add: plain_token_def NUL_def NL_def)
  obtain b1 rd gn bl where c1: "capture_step b (new_capture area) = Done (b1, (new_capture area)\<lparr>cap_red := rd, cap_green := gn,
        cap_blue := bl, cap_VCE := True, cap_LVV := True, cap_FVV := True\<rparr>)"
    and b1: "p2p_fits b1" "clock b1 = BIT_1" "rx (fd b1) = [data_tick BIT_0 ?z, data_tick BIT_1 ?z, Rd_data (''FINISH'' @ [NL])]"
      "width_o b1 = 27" "width_i b1 = 8"
    using capture_step_data [OF assms(1,2) _ assms(4,5) _ plain(1), of _ "new_capture area"] assms(3)
    by (auto simp: capture_script_def char_to_bitval_def)
  let ?k1 = "(new_capture area)\<lparr>cap_red := rd, cap_green := gn, cap_blue := bl, cap_VCE := True, cap_LVV := True,
      cap_FVV := True, cap_request := False, cap_data := [rd, gn, bl], cap_ptr := 1\<rparr>"
  have len: "area[0 := rd, Suc 0 := gn, Suc (Suc 0) := bl] = [rd, gn, bl]"
    using assms(6) by (auto simp: length_Suc_conv numeral_nat)
  have t1: "capture_cycle (b, new_capture area) = Done (b1, ?k1, [])"
    by (rule capture_cycle_turn [OF c1])
      (use assms(6) len in \<open>simp add: capture_turn_def store_pixel_def Let_def new_capture_def c_defined_def\<close>)
  obtain b2 rd' gn' bl' where c2: "capture_step b1 ?k1 = Done (b2, ?k1\<lparr>cap_red := rd', cap_green := gn',
        cap_blue := bl', cap_VCE := False, cap_LVV := False, cap_FVV := False\<rparr>)"
    and b2: "p2p_fits b2" "rx (fd b2) = [Rd_data (''FINISH'' @ [NL])]"
    using capture_step_data [OF b1(1) _ b1(3-5) _ plain(2), of ?k1] b1(2)
    by (auto simp: char_to_bitval_def)
  obtain k2 f where kt: "capture_turn (?k1\<lparr>cap_red := rd', cap_green := gn', cap_blue := bl', cap_VCE := False, cap_LVV := False,
      cap_FVV := False\<rparr>) = Done (k2, [f])" and k2: "\<not> cap_FVV k2" "capture_seq k2 = 1"
    by (simp add: capture_turn_def write_image_def Let_def new_capture_def c_defined_def)
  have t2: "capture_cycle (b1, ?k1) = Done (b2, k2, [f])" by (rule capture_cycle_turn [OF c2 kt])
  have "capture_loop 1 (b, new_capture area, []) = capture_loop 1 (b1, ?k1, [])"
    using capture_turns(1) [OF _ t1] by (simp add: capture_goes_on_def new_capture_def)
  also have "\<dots> = capture_loop 1 (b2, k2, [f])"
    using capture_turns(1) [OF _ t2] by (simp add: capture_goes_on_def new_capture_def)
  also have "\<dots> = Done (b2, k2, [f])"
    by (rule capture_turns(2)) (simp add: capture_goes_on_def k2)
  finally show ?thesis using b2 by blast
qed

theorem captures_as_asked_witness:
  "\<exists>c f. capture_main (script_os (script (you_are 1 # capture_script))) (\<lambda>n. 0)
        [(CHR ''c'', ''1''), (CHR ''a'', ''1''), (CHR ''s'', ''bus'')] = Done (0, Some c, [f])
     \<and> ppm_seq f = 0 \<and> length (ppm_bytes f) = unat (3 * ppm_wid f * ppm_hei f)"
proof -
  let ?args = "[(CHR ''c'', ''1''), (CHR ''a'', ''1''), (CHR ''s'', ''bus'')]"
  let ?os = "script_os (script (you_are 1 # capture_script))"
  let ?o = "default_capture\<lparr>capture_count := 1, use_video_area := 1, cap_server := Some ''bus''\<rparr>"
  let ?b = "\<lparr>simbus_p2p.name = ''capture'', fd = (script capture_script)\<lparr>tx := [hello_line ''capture'' []]\<rparr>, ident = 1,
    bus_time = init_simbus_time, clock = BIT_X, clock_mode = [BIT_0, BIT_0], width_o = 27,
    data_o = replicate 27 BIT_X, width_i = 8, data_i = replicate 8 BIT_X\<rparr>"
  have o: "capture_getopt ?args default_capture = Done ?o"
    by (simp add: capture_option_def strtoul0_def digit_in_def is_space_def Let_def default_capture_def)
  have c: "simbus_p2p_connect ?os ''bus'' ''capture'' 8 27 = Done (Some ?b)"
    by (simp add: simbus_p2p_connect_def script_socket script_hello hello_line_def buf_size_def)
  have fits: "p2p_fits ?b" by (simp add: p2p_fits_def p2p_wf_def)
  obtain b' cap' f where l: "capture_loop 1 (?b, new_capture [0, 0, 0], []) = Done (b', cap', [f])"
    and b': "p2p_fits b'" "rx (fd b') = [Rd_data (''FINISH'' @ [NL])]"
    using capture_run [OF fits, of "[0, 0, 0]"] by auto
  have e: "\<exists>c. simbus_p2p_end_simulation b' = Done c"
    using b' by (simp add: simbus_p2p_end_simulation_def simbus_server_finish_def p2p_fits_def sock_write_def sock_read_def cstr_def NL_def NUL_def Let_def)
  have area: "map (\<lambda>n. 0 :: u8) [0..<unat (3 * use_video_area ?o)] = [0, 0, 0]" by (simp add: upt_rec)
  have opts: "cap_server ?o = Some ''bus''" "capture_count ?o = 1" by simp_all
  obtain c where m: "capture_main ?os (\<lambda>n. 0) ?args = Done (0, Some c, [f])"
    using e by (auto simp only: capture_main_def o c obind.simps area opts option.case prod.case l)
  have "ret (capture_main ?os (\<lambda>n. 0) ?args) (\<lambda>(rc, c, files). rc = -1 \<and> c = None \<and> files = [] \<or>
        rc = 0 \<and> c \<noteq> None \<and> cap_server ?o \<noteq> None \<and> length files = nat (capture_count ?o)
          \<and> map ppm_seq files = [0..<length files]
          \<and> (\<forall>f \<in> set files. length (ppm_bytes f) = unat (3 * ppm_wid f * ppm_hei f)))"
    by (rule captures_as_asked [OF o])
  with m show ?thesis by simp
qed

end
