(* ===== verification/Sim_Ramdev.thy ===== *)
theory Sim_Ramdev
  imports Sim_PCI_Access
begin

text \<open>
  pci/ramdev/ramdev.cc: a device of the PCI bus with 64 KBytes of memory behind BAR 0 and the registers
  of a DMA controller behind BAR 2.

  The file's variables are one record, the user state of the bus object.  The callbacks are entries
  of a handler table under the numbers below; what they call of the bus library is in the list they return.
  Debug prints are dropped.
\<close>

section \<open>State and registers\<close>

definition DEVICE_ID :: u32 where "DEVICE_ID = 0xffc112c5"

definition bar0_mask :: u32 where "bar0_mask = 0xffff0000"

definition BAR0_FLAGS :: u32 where "BAR0_FLAGS = 0x0000000c"

definition BAR2_MASK :: u32 where "BAR2_MASK = 0xffffe000"

definition BAR2_FLAGS :: u32 where "BAR2_FLAGS = 0x0000000c"

definition CONFIG_WORDS :: nat where "CONFIG_WORDS = 16"

definition BAR2_WORDS :: nat where "BAR2_WORDS = 0x2000 div 4"

definition memory_size :: u32 where "memory_size = 1 + NOT bar0_mask"

record ramdev =
  config_mem :: "u32 list"
  memory_space :: "u32 list"
  bar2_mem :: "u32 list"
  bar0_map :: simbus_translation
  bar2_map :: simbus_translation

definition new_ramdev :: "u32 \<Rightarrow> ramdev" where
  "new_ramdev idn =
     \<lparr>config_mem = [idn, 0, 0x05000000, 0, 0 OR BAR0_FLAGS, 0, 0 OR BAR2_FLAGS, 0, 0, 0, 0, 0, 0, 0, 0, 0],
      memory_space = replicate (unat memory_size div 4) 0, bar2_mem = replicate BAR2_WORDS 0,
      bar0_map = no_translation, bar2_map = no_translation\<rparr>"

text \<open>The mask that the four lines \<open>if (BEn & ...) be_mask &= ...\<close> make, in each of the three functions.\<close>

definition be_mask :: "int \<Rightarrow> u32" where
  "be_mask BEn =
     (let m0 = 0xffffffff;
          m1 = (if bit BEn 0 then m0 AND 0xffffff00 else m0);
          m2 = (if bit BEn 1 then m1 AND 0xffff00ff else m1);
          m3 = (if bit BEn 2 then m2 AND 0xff00ffff else m2)
      in if bit BEn 3 then m3 AND 0x00ffffff else m3)"

definition be_merge :: "int \<Rightarrow> u32 \<Rightarrow> u32 \<Rightarrow> u32" where
  "be_merge BEn val old = (val AND be_mask BEn) OR (old AND NOT (be_mask BEn))"

section \<open>The memory\<close>

definition bar0_word :: "u64 \<Rightarrow> nat" where
  "bar0_word addr = unat ((ucast addr :: u32) AND NOT bar0_mask) div 4"

definition bar0_need32 :: "ramdev \<Rightarrow> u64 \<Rightarrow> int \<Rightarrow> u32" where
  "bar0_need32 d addr BEn = memory_space d ! bar0_word addr"

definition bar0_recv32 :: "ramdev \<Rightarrow> u64 \<Rightarrow> u32 \<Rightarrow> int \<Rightarrow> ramdev" where
  "bar0_recv32 d addr val BEn =
     (let use_addr = bar0_word addr
      in d\<lparr>memory_space := (memory_space d)[use_addr := be_merge BEn val (memory_space d ! use_addr)]\<rparr>)"

section \<open>The registers of the DMA controller\<close>

definition bar2_word :: "u64 \<Rightarrow> nat" where
  "bar2_word addr = unat ((ucast addr :: u32) AND NOT BAR2_MASK) div 4"

definition bar2_need32 :: "ramdev \<Rightarrow> u64 \<Rightarrow> int \<Rightarrow> u32" where
  "bar2_need32 d addr BEn = bar2_mem d ! bar2_word addr"

text \<open>The bytes that are not enabled come from the memory, and \<open>%= ~3\<close> is a remainder.\<close>

definition bar2_recv32 :: "ramdev \<Rightarrow> u64 \<Rightarrow> u32 \<Rightarrow> int \<Rightarrow> ramdev \<times> api_call list" where
  "bar2_recv32 d addr val BEn =
     (let use_addr = bar2_word addr;
          d1 = d\<lparr>bar2_mem := (bar2_mem d)[use_addr := be_merge BEn val (memory_space d ! use_addr)]\<rparr>
      in if use_addr = 0x1000 div 4 then (d1, [Call_wait_break])
         else if use_addr = 0x1004 div 4 then (d1\<lparr>bar2_mem := (bar2_mem d1)[use_addr := bar2_mem d1 ! use_addr mod NOT 3]\<rparr>, [])
         else if use_addr = 0x1010 div 4 then (d1\<lparr>bar2_mem := (bar2_mem d1)[use_addr := bar2_mem d1 ! use_addr mod NOT 3]\<rparr>, [])
         else (d1, []))"

section \<open>The configuration space\<close>

definition config_read32 :: "ramdev \<Rightarrow> u64 \<Rightarrow> int \<Rightarrow> u32" where
  "config_read32 d addr BEn =
     (let waddr = unat (addr div 4) in if waddr < CONFIG_WORDS then config_mem d ! waddr else 0xffffffff)"

definition config_store :: "ramdev \<Rightarrow> nat \<Rightarrow> u32 \<Rightarrow> int \<Rightarrow> ramdev" where
  "config_store d waddr val BEn =
     (let old = config_mem d ! waddr; put = (\<lambda>v. d\<lparr>config_mem := (config_mem d)[waddr := v]\<rparr>)
      in if waddr = 1 then put (((val AND 0x0006) AND be_mask BEn) OR ((old AND 0xffff) AND NOT (be_mask BEn)))
         else if waddr = 4 then put ((be_merge BEn val old AND bar0_mask) OR BAR0_FLAGS)
         else if waddr = 6 then put ((be_merge BEn val old AND BAR2_MASK) OR BAR2_FLAGS)
         else if waddr = 5 \<or> waddr = 7 then put (be_merge BEn val old)
         else d)"

definition bar_base :: "u32 \<Rightarrow> u32 \<Rightarrow> u64" where
  "bar_base hi lo = push_bit 32 (ucast hi) OR ucast lo"

text \<open>The numbers of the callbacks.\<close>

definition H_config_read32 :: nat where "H_config_read32 = 0"

definition H_config_recv32 :: nat where "H_config_recv32 = 1"

definition H_bar0_need32 :: nat where "H_bar0_need32 = 2"

definition H_bar0_recv32 :: nat where "H_bar0_recv32 = 3"

definition H_bar2_need32 :: nat where "H_bar2_need32 = 4"

definition H_bar2_recv32 :: nat where "H_bar2_recv32 = 5"

definition set_maps :: "ramdev \<Rightarrow> ramdev" where
  "set_maps d =
     d\<lparr>bar0_map := (bar0_map d)\<lparr>xl_need32 := Some H_bar0_need32, xl_recv32 := Some H_bar0_recv32,
         xl_base := bar_base (config_mem d ! 5) (config_mem d ! 4), xl_mask := 0xffffffff00000000 OR ucast bar0_mask\<rparr>,
       bar2_map := (bar2_map d)\<lparr>xl_need32 := Some H_bar2_need32, xl_recv32 := Some H_bar2_recv32,
         xl_base := bar_base (config_mem d ! 7) (config_mem d ! 6), xl_mask := 0xffffffff00000000 OR ucast BAR2_MASK\<rparr>\<rparr>"

text \<open>Both branches hand the two maps to the bus; the second has not cleared them.\<close>

definition config_recv32 :: "ramdev \<Rightarrow> u64 \<Rightarrow> u32 \<Rightarrow> int \<Rightarrow> ramdev \<times> api_call list" where
  "config_recv32 d addr val BEn =
     (let waddr = unat (addr div 4)
      in if waddr \<ge> CONFIG_WORDS then (d, [])
         else let d1 = config_store d waddr val BEn;
                  d2 = (if config_mem d1 ! 1 AND 0x0002 \<noteq> 0 then set_maps d1 else d1)
              in (d2, [Call_mem_xlate 0 (Some (bar0_map d2)), Call_mem_xlate 2 (Some (bar2_map d2))]))"

definition ramdev_handlers :: "ramdev handlers" where
  "ramdev_handlers =
     \<lparr>h_need32 = (\<lambda>h d addr BEn.
        (if h = H_config_read32 then config_read32 d addr BEn
         else if h = H_bar0_need32 then bar0_need32 d addr BEn
         else bar2_need32 d addr BEn, d, [])),
      h_recv32 = (\<lambda>h d addr val BEn.
        if h = H_config_recv32 then config_recv32 d addr val BEn
        else if h = H_bar0_recv32 then (bar0_recv32 d addr val BEn, [])
        else bar2_recv32 d addr val BEn)\<rparr>"

section \<open>Bus mastering\<close>

definition dma_reg :: "ramdev simbus_pci \<Rightarrow> nat \<Rightarrow> u32" where
  "dma_reg pci a = bar2_mem (user pci) ! (a div 4)"

definition set_dma_reg :: "nat \<Rightarrow> (u32 \<Rightarrow> u32) \<Rightarrow> ramdev simbus_pci \<Rightarrow> ramdev simbus_pci" where
  "set_dma_reg a f pci =
     pci\<lparr>user := (user pci)\<lparr>bar2_mem := (bar2_mem (user pci))[a div 4 := f (dma_reg pci a)]\<rparr>\<rparr>"

definition dma_transfer :: "ramdev simbus_pci \<Rightarrow> ramdev simbus_pci outcome" where
  "dma_transfer pci =
     (let addr = bar_base (dma_reg pci 0x100c) (dma_reg pci 0x1008);
          off = dma_reg pci 0x1010;
          b1 = set_dma_reg 0x1004 (\<lambda>c. c - 4) (set_dma_reg 0x1008 (\<lambda>a. a + 4) (set_dma_reg 0x1010 (\<lambda>a. a + 4) pci))
      in if dma_reg b1 0x1000 AND 0x10 \<noteq> 0
         then simbus_pci_write32 ramdev_handlers b1 addr
                (if off < memory_size then memory_space (user b1) ! (unat off div 4) else 0xffffffff) 0
         else obind (simbus_pci_read32 ramdev_handlers b1 addr 0) (\<lambda>(val, b2).
                Done (if off < memory_size
                      then b2\<lparr>user := (user b2)\<lparr>memory_space := (memory_space (user b2))[unat off div 4 := val]\<rparr>\<rparr>
                      else b2)))"

text \<open>The loop over the transfer count.  A turn that takes no input runs no callback, so the count changes by the
  turn itself only; when it is not less afterwards it has passed 0, and does so for ever.\<close>

function dma_loop :: "ramdev simbus_pci \<Rightarrow> ramdev simbus_pci outcome" where
  "dma_loop pci =
     (if dma_reg pci 0x1004 > 0
      then obind (dma_transfer pci) (\<lambda>p1.
             if pending (fd p1) < pending (fd pci) \<or> pending (fd p1) = pending (fd pci) \<and> dma_reg p1 0x1004 < dma_reg pci 0x1004
             then dma_loop p1 else Stop Diverges)
      else Done pci)"
  by pat_completeness auto
termination by (relation "measures [\<lambda>p. pending (fd p), \<lambda>p. unat (dma_reg p 0x1004)]") (auto simp: word_less_nat_alt)

declare dma_loop.simps [simp del]

definition do_bus_master_operations :: "ramdev simbus_pci \<Rightarrow> ramdev simbus_pci outcome" where
  "do_bus_master_operations pci =
     (if dma_reg pci 0x1000 AND 0x01 \<noteq> 0
      then obind (dma_loop pci) (\<lambda>b1. Done (set_dma_reg 0x1000 (\<lambda>c. c AND NOT 0x01) b1))
      else Done pci)"

section \<open>The program\<close>

record ramdev_options =
  ram_server :: "string option"
  ram_name :: string
  ram_ident :: u32

definition ramdev_option :: "char \<times> string \<Rightarrow> ramdev_options \<Rightarrow> ramdev_options outcome" where
  "ramdev_option = (\<lambda>(arg, optarg) opts.
     if arg = CHR ''d'' then Done opts
     else if arg = CHR ''i'' then Done (opts\<lparr>ram_ident := ucast (strtoul0 optarg)\<rparr>)
     else if arg = CHR ''n'' then Done (opts\<lparr>ram_name := optarg\<rparr>)
     else if arg = CHR ''s'' then Done (opts\<lparr>ram_server := Some optarg\<rparr>)
     else Stop Assert_failed)"

fun ramdev_getopt :: "(char \<times> string) list \<Rightarrow> ramdev_options \<Rightarrow> ramdev_options outcome" where
  "ramdev_getopt [] opts = Done opts"
| "ramdev_getopt (a # as) opts = obind (ramdev_option a opts) (ramdev_getopt as)"

text \<open>The loop of \<open>main\<close>: the last result of the wait, and the bus.\<close>

definition ramdev_turn :: "int \<times> ramdev simbus_pci \<Rightarrow> (int \<times> ramdev simbus_pci) outcome" where
  "ramdev_turn = (\<lambda>(_, pci).
     obind (simbus_pci_wait ramdev_handlers pci 0xffffffff None) (\<lambda>(rc, irq, b1).
       if rc = SIMBUS_PCI_BREAK then obind (do_bus_master_operations b1) (\<lambda>b2. Done (rc, b2)) else Done (rc, b1)))"

definition ramdev_loop :: "ramdev simbus_pci \<Rightarrow> (int \<times> ramdev simbus_pci) outcome" where
  "ramdev_loop pci =
     while_io (\<lambda>(rc, b). pending (fd b)) (\<lambda>(rc, b). rc = SIMBUS_PCI_BREAK) ramdev_turn (SIMBUS_PCI_BREAK, pci)"

definition ramdev_main :: "'a os \<Rightarrow> (char \<times> string) list \<Rightarrow> (int \<times> conn option) outcome" where
  "ramdev_main os args =
     obind (ramdev_getopt args \<lparr>ram_server = None, ram_name = ''ramdev'', ram_ident = DEVICE_ID\<rparr>) (\<lambda>opts.
       c_defined (ram_server opts \<noteq> None)
         (obind (simbus_pci_connect os (the (ram_server opts)) (ram_name opts) (new_ramdev (ram_ident opts))) (\<lambda>pci.
            case pci of
              None \<Rightarrow> Done (-1, None)
            | Some b \<Rightarrow>
                (let b1 = simbus_pci_config_recv32 (simbus_pci_config_need32 b (Some H_config_read32)) (Some H_config_recv32)
                 in obind (ramdev_loop b1) (\<lambda>(rc, b2). Done (0, Some (simbus_pci_disconnect b2)))))))"

section \<open>The memory is a byte store\<close>

lemma be_masks:
  "(0xffffff00 :: u32) = NOT (mask 8)" "(0xffff00ff :: u32) = NOT (push_bit 8 (mask 8))"
  "(0xff00ffff :: u32) = NOT (push_bit 16 (mask 8))" "(0x00ffffff :: u32) = NOT (push_bit 24 (mask 8))"
  "(0xffffffff :: u32) = NOT 0"
  by (simp_all add: mask_eq_exp_minus_1 push_bit_eq_mult)

lemma bit_be_mask: "bit (be_mask BEn) j \<longleftrightarrow> j < 32 \<and> \<not> bit BEn (j div 8)"
proof -
  have "j div 8 = 0 \<longleftrightarrow> j < 8" "j div 8 = 1 \<longleftrightarrow> 8 \<le> j \<and> j < 16" "j div 8 = 2 \<longleftrightarrow> 16 \<le> j \<and> j < 24"
    "j < 32 \<Longrightarrow> j div 8 = 3 \<longleftrightarrow> 24 \<le> j" by auto
  moreover have "j < 32 \<Longrightarrow> j div 8 = 0 \<or> j div 8 = 1 \<or> j div 8 = 2 \<or> j div 8 = 3" by auto
  moreover have "bit (be_mask BEn) j \<longleftrightarrow> j < 32 \<and> \<not> (bit BEn 0 \<and> j < 8) \<and> \<not> (bit BEn 1 \<and> 8 \<le> j \<and> j < 16)
      \<and> \<not> (bit BEn 2 \<and> 16 \<le> j \<and> j < 24) \<and> \<not> (bit BEn 3 \<and> 24 \<le> j)"
    unfolding be_mask_def Let_def be_masks by (auto simp: bit_simps)
  ultimately show ?thesis by metis
qed

definition ram_byte :: "ramdev \<Rightarrow> nat \<Rightarrow> u8" where
  "ram_byte d a = ucast (drop_bit (8 * (a mod 4)) (memory_space d ! (a div 4)))"

lemma be_merge_byte:
  assumes "k < 4"
  shows "(ucast (drop_bit (8 * k) (be_merge BEn val old)) :: u8)
    = (if bit BEn k then ucast (drop_bit (8 * k) old) else ucast (drop_bit (8 * k) val))"
proof (rule bit_word_eqI)
  fix i :: nat assume "i < LENGTH(8)"
  then have "(8 * k + i) div 8 = k" and "8 * k + i < 32" and "i < 8" using assms by simp_all
  then show "bit (ucast (drop_bit (8 * k) (be_merge BEn val old)) :: u8) i
      = bit (if bit BEn k then ucast (drop_bit (8 * k) old) else ucast (drop_bit (8 * k) val) :: u8) i"
    by (auto simp: be_merge_def bit_simps bit_be_mask)
qed

lemma bar0_word_eq: "bar0_word addr = unat addr mod 0x10000 div 4"
proof -
  have "NOT bar0_mask = (mask 16 :: u32)" by (simp add: bar0_mask_def mask_eq_exp_minus_1)
  then have "bar0_word addr = unat (take_bit 16 (ucast addr :: u32)) div 4" by (simp add: bar0_word_def take_bit_eq_mask)
  moreover have "unat (take_bit 16 (ucast addr :: u32)) = take_bit 16 (unat addr)"
    by (simp only: unsigned_take_bit_eq unsigned_ucast_eq) simp
  ultimately show ?thesis by (simp add: take_bit_eq_mod)
qed

text \<open>C17: Through BAR 0 the device is a store of 65536 bytes. A write replaces exactly the bytes of its word whose byte
  enable is active (low) by the bytes of the datum, wherever in the 64-bit address space the window is, and
  leaves every other byte; a read delivers the four bytes of its word, and so the datum of the last
  write where it was enabled.\<close>

theorem ramdev_byte_store:
  assumes "length (memory_space d) = 0x4000" and "a < 0x10000"
  shows "ram_byte (bar0_recv32 d addr val BEn) a =
      (if a div 4 = unat addr mod 0x10000 div 4 \<and> \<not> bit BEn (a mod 4)
       then ucast (drop_bit (8 * (a mod 4)) val) else ram_byte d a)
    \<and> (\<forall>k < 4. (ucast (drop_bit (8 * k) (bar0_need32 d addr ben)) :: u8) = ram_byte d (unat addr mod 0x10000 div 4 * 4 + k))
    \<and> length (memory_space (bar0_recv32 d addr val BEn)) = 0x4000"
proof -
  have "bar0_word addr < 0x4000" by (simp add: bar0_word_eq less_mult_imp_div_less)
  moreover have "a mod 4 < 4" by simp
  note m = be_merge_byte [OF this]
  ultimately have b: "ram_byte (bar0_recv32 d addr val BEn) a = (if a div 4 = bar0_word addr \<and> \<not> bit BEn (a mod 4)
      then ucast (drop_bit (8 * (a mod 4)) val) else ram_byte d a)"
    using assms(1) by (cases "a div 4 = bar0_word addr") (simp_all add: ram_byte_def bar0_recv32_def Let_def m)
  have r: "\<forall>k < 4. (ucast (drop_bit (8 * k) (bar0_need32 d addr ben)) :: u8) = ram_byte d (bar0_word addr * 4 + k)"
    by (simp add: ram_byte_def bar0_need32_def)
  have l: "length (memory_space (bar0_recv32 d addr val BEn)) = 0x4000" using assms(1) by (simp add: bar0_recv32_def Let_def)
  show ?thesis using b r l unfolding bar0_word_eq by blast
qed

theorem ramdev_byte_store_witness:
  "ram_byte (bar0_recv32 (new_ramdev DEVICE_ID) 0xabcd0006 0x44332211 0x0b) 6 = 0x33
    \<and> ram_byte (bar0_recv32 (new_ramdev DEVICE_ID) 0xabcd0006 0x44332211 0x0b) 5 = 0"
  using ramdev_byte_store [of "new_ramdev DEVICE_ID" 6 "0xabcd0006" "0x44332211" "0x0b"]
    ramdev_byte_store [of "new_ramdev DEVICE_ID" 5 "0xabcd0006" "0x44332211" "0x0b"]
  by (simp_all add: new_ramdev_def memory_size_def bar0_mask_def ram_byte_def bit_numeral_rec)

section \<open>Configuring the device\<close>

lemma be_merge_all: "be_merge 0 val old = val"
  by (rule bit_word_eqI) (simp add: be_merge_def bit_simps bit_be_mask)

lemma config_call:
  fixes p :: "ramdev simbus_pci" and a :: u64 and v :: u32 and ben :: int
  assumes "unat (a div 4) < CONFIG_WORDS"
  defines "d1 \<equiv> config_store (user p) (unat (a div 4)) v ben"
  defines "d2 \<equiv> if config_mem d1 ! 1 AND 2 \<noteq> 0 then set_maps d1 else d1"
  defines "q \<equiv> call_recv32 ramdev_handlers H_config_recv32 p a v ben"
  shows "user q = d2 \<and> mem_target q = (mem_target p)[0 := bar0_map d2, 2 := bar2_map d2]"
  using assms(1) unfolding q_def d2_def d1_def
  by (simp add: call_recv32_def ramdev_handlers_def config_recv32_def Let_def simbus_pci_mem_xlate_def TARGET_MEM_REGIONS_def)

lemma two_updates: "xs[0 := a, 2 := b, 0 := c, 2 := d] = xs[0 := c, 2 := d]"
  by (simp add: list_update_swap [of 2 0])

text \<open>What a host writes at start: the addresses of the two windows, then the command register.\<close>

definition configure :: "u32 \<Rightarrow> u32 \<Rightarrow> u32 \<Rightarrow> u32 \<Rightarrow> u32 \<Rightarrow> ramdev simbus_pci \<Rightarrow> ramdev simbus_pci" where
  "configure lo0 hi0 lo2 hi2 cmd p =
     fold (\<lambda>(a, v) q. call_recv32 ramdev_handlers H_config_recv32 q a v 0)
       [(0x10, lo0), (0x14, hi0), (0x18, lo2), (0x1c, hi2), (0x04, cmd)] p"

lemma config_mem_maps [simp]: "config_mem (set_maps d) = config_mem d"
  by (simp add: set_maps_def)

lemma config_user:
  assumes "unat (a div 4) < CONFIG_WORDS"
  shows "config_mem (user (call_recv32 ramdev_handlers H_config_recv32 p a v ben))
    = config_mem (config_store (user p) (unat (a div 4)) v ben)"
  using config_call [OF assms, of p v ben] by simp

lemma config_regions:
  assumes "unat (a div 4) < CONFIG_WORDS"
  shows "\<exists>m0 m2. mem_target (call_recv32 ramdev_handlers H_config_recv32 p a v ben) = (mem_target p)[0 := m0, 2 := m2]"
  using config_call [OF assms, of p v ben] by blast

lemma configured:
  fixes p :: "ramdev simbus_pci" and lo0 hi0 lo2 hi2 cmd :: u32
  assumes "length (config_mem (user p)) = CONFIG_WORDS" and "bit cmd 1"
  defines "q \<equiv> configure lo0 hi0 lo2 hi2 cmd p"
  shows "\<exists>m0 m2. mem_target q = (mem_target p)[0 := m0, 2 := m2] \<and> bar0_map (user q) = m0 \<and> bar2_map (user q) = m2
    \<and> xl_base m0 = bar_base hi0 ((lo0 AND bar0_mask) OR BAR0_FLAGS) \<and> xl_mask m0 = NOT (mask 16)
    \<and> xl_base m2 = bar_base hi2 ((lo2 AND BAR2_MASK) OR BAR2_FLAGS) \<and> xl_mask m2 = NOT (mask 13)
    \<and> xl_need32 m0 = Some H_bar0_need32 \<and> xl_recv32 m0 = Some H_bar0_recv32
    \<and> xl_need32 m2 = Some H_bar2_need32 \<and> xl_recv32 m2 = Some H_bar2_recv32
    \<and> length (config_mem (user q)) = CONFIG_WORDS"
proof -
  let ?w = "\<lambda>p a v. call_recv32 ramdev_handlers H_config_recv32 p a v 0"
  define p1 where "p1 = ?w p 0x10 lo0"
  define p2 where "p2 = ?w p1 0x14 hi0"
  define p3 where "p3 = ?w p2 0x18 lo2"
  define p4 where "p4 = ?w p3 0x1c hi2"
  have q: "q = ?w p4 0x04 cmd" by (simp add: q_def configure_def p1_def p2_def p3_def p4_def)
  note ok = CONFIG_WORDS_def
  have l: "length (config_mem (user p)) = 16" using assms(1) by (simp add: ok)
  have c1: "config_mem (user p1) = (config_mem (user p))[4 := (lo0 AND bar0_mask) OR BAR0_FLAGS]"
    unfolding p1_def by (subst config_user) (simp_all add: ok config_store_def Let_def be_merge_all)
  have c2: "config_mem (user p2) = (config_mem (user p1))[5 := hi0]"
    unfolding p2_def by (subst config_user) (simp_all add: ok config_store_def Let_def be_merge_all)
  have c3: "config_mem (user p3) = (config_mem (user p2))[6 := (lo2 AND BAR2_MASK) OR BAR2_FLAGS]"
    unfolding p3_def by (subst config_user) (simp_all add: ok config_store_def Let_def be_merge_all)
  have c4: "config_mem (user p4) = (config_mem (user p3))[7 := hi2]"
    unfolding p4_def by (subst config_user) (simp_all add: ok config_store_def Let_def be_merge_all)
  have m: "\<exists>m0 m2. mem_target p4 = (mem_target p)[0 := m0, 2 := m2]"
    using config_regions [of "0x10" p lo0 0] config_regions [of "0x14" p1 hi0 0] config_regions [of "0x18" p2 lo2 0]
      config_regions [of "0x1c" p3 hi2 0]
    by (auto simp: ok p4_def [symmetric] p3_def [symmetric] p2_def [symmetric] p1_def [symmetric] list_update_swap) blast
  have be: "be_mask 0 = NOT 0" by (rule bit_word_eqI) (simp add: bit_be_mask)
  have on: "config_mem (config_store (user p4) 1 cmd 0) ! 1 AND 2 \<noteq> 0"
  proof -
    have "bit (config_mem (config_store (user p4) 1 cmd 0) ! 1 AND 2) 1"
      using assms(2) l by (simp add: config_store_def Let_def be c1 c2 c3 c4 bit_simps bit_numeral_rec)
    then show ?thesis by auto
  qed
  have four: "unat ((4 :: u64) div 4) = 1" by simp
  let ?d = "set_maps (config_store (user p4) 1 cmd 0)"
  have u: "user q = ?d \<and> mem_target q = (mem_target p4)[0 := bar0_map ?d, 2 := bar2_map ?d]"
    using config_call [of 4 p4 cmd 0] on unfolding q four by (simp add: ok)
  have cs: "config_mem (config_store (user p4) 1 cmd 0) ! i = config_mem (user p4) ! i" if "i \<noteq> 1" for i
    using that by (simp add: config_store_def Let_def)
  have cm: "config_mem (user p4) ! 4 = (lo0 AND bar0_mask) OR BAR0_FLAGS" "config_mem (user p4) ! 5 = hi0"
    "config_mem (user p4) ! 6 = (lo2 AND BAR2_MASK) OR BAR2_FLAGS" "config_mem (user p4) ! 7 = hi2"
    using l by (simp_all add: c1 c2 c3 c4)
  have masks: "0xffffffff00000000 OR ucast bar0_mask = (NOT (mask 16) :: u64)" "0xffffffff00000000 OR ucast BAR2_MASK = (NOT (mask 13) :: u64)"
    by (simp_all add: bar0_mask_def BAR2_MASK_def mask_eq_exp_minus_1)
  from m obtain m0 m2 where m: "mem_target p4 = (mem_target p)[0 := m0, 2 := m2]" by blast
  have "mem_target q = (mem_target p)[0 := bar0_map ?d, 2 := bar2_map ?d]" using u by (simp only: m two_updates)
  moreover have "length (config_mem (user q)) = CONFIG_WORDS"
    using u l by (simp add: config_store_def Let_def c1 c2 c3 c4 ok)
  ultimately show ?thesis using u by (simp add: set_maps_def masks cs cm del: One_nat_def)
qed

lemma window_iff: "(NOT (mask n) AND x = NOT (mask n) AND y) = (drop_bit n x = drop_bit n (y :: u64))"
proof
  assume a: "NOT (mask n) AND x = NOT (mask n) AND y"
  have "bit x (n + i) = bit y (n + i)" for i
    using arg_cong [OF a, of "\<lambda>w. bit w (n + i)"] bit_imp_le_length [of x "n + i"] bit_imp_le_length [of y "n + i"]
    by (auto simp: bit_simps)
  then show "drop_bit n x = drop_bit n y" by (intro bit_word_eqI) (simp add: bit_drop_bit_eq)
next
  assume a: "drop_bit n x = drop_bit n y"
  have "bit x i = bit y i" if "n \<le> i" for i
    using arg_cong [OF a, of "\<lambda>w. bit w (i - n)"] that by (simp add: bit_drop_bit_eq)
  then show "NOT (mask n) AND x = NOT (mask n) AND y" by (intro bit_word_eqI) (auto simp: bit_simps)
qed

lemma flags_below: "4 \<le> j \<Longrightarrow> \<not> bit (0xc :: u32) j"
proof -
  have "(0xc :: u32) = push_bit 2 (mask 2)" by (simp add: mask_eq_exp_minus_1 push_bit_eq_mult)
  then show "4 \<le> j \<Longrightarrow> \<not> bit (0xc :: u32) j" by (simp only: bit_simps) auto
qed

lemma window_base:
  assumes "m = NOT (mask n)" and "4 \<le> n" and "n \<le> 32"
  shows "drop_bit n (bar_base hi ((lo AND m) OR 0xc)) = drop_bit n (bar_base hi lo)"
proof (rule bit_word_eqI)
  fix i :: nat
  have "bit ((lo AND m) OR 0xc) (n + i) = bit lo (n + i)"
    using assms flags_below [of "n + i"] bit_imp_le_length [of lo "n + i"] by (auto simp: bit_simps)
  then show "bit (drop_bit n (bar_base hi ((lo AND m) OR 0xc))) i = bit (drop_bit n (bar_base hi lo)) i"
    by (simp add: bar_base_def bit_drop_bit_eq bit_or_iff bit_ucast_iff)
qed

lemma two_windows:
  assumes "xl_mask m0 = NOT (mask 16)" and "xl_mask m2 = NOT (mask 13)"
  shows "first_match ((replicate 8 no_translation)[0 := m0, 2 := m2]) a 0 =
    (if drop_bit 16 (xl_base m0) = drop_bit 16 a then Some 0 else if drop_bit 13 (xl_base m2) = drop_bit 13 a then Some 2 else None)"
proof -
  have nz: "(NOT (mask 16) :: u64) \<noteq> 0" "(NOT (mask 13) :: u64) \<noteq> 0" by (simp_all add: mask_eq_exp_minus_1)
  have l: "(replicate 8 no_translation)[0 := m0, 2 := m2] = m0 # no_translation # m2 # replicate 5 no_translation"
    by (simp add: numeral_nat)
  have z: "xl_mask no_translation = 0" by (simp add: no_translation_def)
  show ?thesis using nz unfolding l by (simp add: assms window_iff z no_region del: replicate.simps)
qed

text \<open>What a data phase does with a region whose callbacks are those of a window.\<close>

lemma window_calls:
  assumes "xl_need32 (mem_target r ! 0) = Some H_bar0_need32" and "xl_recv32 (mem_target r ! 0) = Some H_bar0_recv32"
    and "xl_need32 (mem_target r ! 2) = Some H_bar2_need32" and "xl_recv32 (mem_target r ! 2) = Some H_bar2_recv32"
  shows "burst_words ramdev_handlers 0 4 a vl vh r =
      Done (bar0_need32 (user r) (a AND NOT 3) (if pcix_mode r then 0 else get_c_be r 4), vh, r)"
    "deliver_word ramdev_handlers 0 4 a ben r =
      Done (r\<lparr>user := bar0_recv32 (user r) (a AND NOT 3) (ucast (get_addr32 r)) ben\<rparr>)"
    "burst_words ramdev_handlers 2 4 a vl vh r =
      Done (bar2_need32 (user r) (a AND NOT 3) (if pcix_mode r then 0 else get_c_be r 4), vh, r)"
    "deliver_word ramdev_handlers 2 4 a ben r =
      Done (let (d, calls) = bar2_recv32 (user r) (a AND NOT 3) (ucast (get_addr32 r)) ben in fold api_apply calls (r\<lparr>user := d\<rparr>))"
  using assms
  by (simp_all add: burst_words_def deliver_word_def call_need32_def call_recv32_def ramdev_handlers_def Let_def
      H_config_read32_def H_config_recv32_def H_bar0_need32_def H_bar0_recv32_def H_bar2_need32_def H_bar2_recv32_def
      split: prod.split)

text \<open>C18: Once a host has written the base addresses and enabled memory, the device claims exactly two windows of
  the 64-bit address space, whatever it held before: 64 KBytes at the first address for its memory,
  8 KBytes at the second for its registers, the first in front where they overlap.  A data phase of
  the first window reads and writes the memory and a data phase of the second the registers of the DMA controller, at the
  word of its address and with the byte enables of the bus.  Taking the enable bit away again
  changes nothing: the device goes on claiming them.\<close>

theorem ramdev_decodes:
  fixes p r :: "ramdev simbus_pci"
  assumes "length (config_mem (user p)) = CONFIG_WORDS" and "mem_target p = replicate 8 no_translation" and "bit cmd 1"
    and "mem_target r = mem_target (configure lo0 hi0 lo2 hi2 cmd p)"
  shows "match_mem_target r =
      (if drop_bit 16 (bar_base hi0 lo0) = drop_bit 16 (get_addr r) then Some 0
       else if drop_bit 13 (bar_base hi2 lo2) = drop_bit 13 (get_addr r) then Some 2 else None)
    \<and> burst_words ramdev_handlers 0 4 a vl vh r =
        Done (bar0_need32 (user r) (a AND NOT 3) (if pcix_mode r then 0 else get_c_be r 4), vh, r)
    \<and> deliver_word ramdev_handlers 0 4 a ben r =
        Done (r\<lparr>user := bar0_recv32 (user r) (a AND NOT 3) (ucast (get_addr32 r)) ben\<rparr>)
    \<and> burst_words ramdev_handlers 2 4 a vl vh r =
        Done (bar2_need32 (user r) (a AND NOT 3) (if pcix_mode r then 0 else get_c_be r 4), vh, r)
    \<and> deliver_word ramdev_handlers 2 4 a ben r =
        Done (let (d, calls) = bar2_recv32 (user r) (a AND NOT 3) (ucast (get_addr32 r)) ben in fold api_apply calls (r\<lparr>user := d\<rparr>))
    \<and> mem_target (call_recv32 ramdev_handlers H_config_recv32 (configure lo0 hi0 lo2 hi2 cmd p) 4 0 0) = mem_target r"
proof -
  let ?q = "configure lo0 hi0 lo2 hi2 cmd p"
  obtain m0 m2 where m: "mem_target ?q = (mem_target p)[0 := m0, 2 := m2]" "bar0_map (user ?q) = m0" "bar2_map (user ?q) = m2"
    "xl_base m0 = bar_base hi0 ((lo0 AND bar0_mask) OR BAR0_FLAGS)" "xl_mask m0 = NOT (mask 16)"
    "xl_base m2 = bar_base hi2 ((lo2 AND BAR2_MASK) OR BAR2_FLAGS)" "xl_mask m2 = NOT (mask 13)"
    and h: "xl_need32 m0 = Some H_bar0_need32" "xl_recv32 m0 = Some H_bar0_recv32"
      "xl_need32 m2 = Some H_bar2_need32" "xl_recv32 m2 = Some H_bar2_recv32"
    and l: "length (config_mem (user ?q)) = CONFIG_WORDS"
    using configured [OF assms(1,3), of lo0 hi0 lo2 hi2] by blast
  have w: "drop_bit 16 (xl_base m0) = drop_bit 16 (bar_base hi0 lo0)" "drop_bit 13 (xl_base m2) = drop_bit 13 (bar_base hi2 lo2)"
    unfolding m(4,6) BAR0_FLAGS_def BAR2_FLAGS_def
    by (rule window_base; simp add: bar0_mask_def BAR2_MASK_def mask_eq_exp_minus_1)+
  have first: "match_mem_target r = (if drop_bit 16 (bar_base hi0 lo0) = drop_bit 16 (get_addr r) then Some 0
       else if drop_bit 13 (bar_base hi2 lo2) = drop_bit 13 (get_addr r) then Some 2 else None)"
    using two_windows [OF m(5,7), of "get_addr r"] by (simp add: match_mem_target_def TARGET_MEM_REGIONS_def assms(2,4) m(1) w)
  have r: "mem_target r ! 0 = m0" "mem_target r ! 2 = m2" by (simp_all add: assms(2,4) m(1))
  note calls = window_calls [of r, unfolded r, OF h]
  let ?c = "config_store (user ?q) 1 0 0"
  have four: "unat ((4 :: u64) div 4) = 1" by simp
  have "be_mask 0 = NOT 0" by (rule bit_word_eqI) (simp add: bit_be_mask)
  then have off: "config_mem ?c ! 1 AND 2 = 0" using l by (simp add: config_store_def Let_def CONFIG_WORDS_def)
  have maps: "bar0_map ?c = m0" "bar2_map ?c = m2" by (simp_all add: config_store_def Let_def m(2,3))
  have "mem_target (call_recv32 ramdev_handlers H_config_recv32 ?q 4 0 0) = (mem_target ?q)[0 := m0, 2 := m2]"
    using config_call [of 4 ?q 0 0] off unfolding four by (simp add: CONFIG_WORDS_def maps del: One_nat_def)
  then have again: "mem_target (call_recv32 ramdev_handlers H_config_recv32 ?q 4 0 0) = mem_target r"
    unfolding assms(4) m(1) two_updates by simp
  from first calls again show ?thesis by (intro conjI)
qed

theorem ramdev_decodes_witness:
  "let p = init_simbus_pci ''ramdev'' (script []) 0 (new_ramdev DEVICE_ID);
       r = p\<lparr>target_state := TARG_DAC, dac_addr_lo := 0x80011234,
             mem_target := mem_target (configure 0x80010000 0 0x90000000 0 2 p)\<rparr>
   in match_mem_target r = Some 0 \<and> burst_words ramdev_handlers 0 4 0x80011234 0 0 r = Done (0, 0, r)"
proof -
  let ?p = "init_simbus_pci ''ramdev'' (script []) 0 (new_ramdev DEVICE_ID)"
  let ?r = "?p\<lparr>target_state := TARG_DAC, dac_addr_lo := 0x80011234, mem_target := mem_target (configure 0x80010000 0 0x90000000 0 2 ?p)\<rparr>"
  have "get_addr32 ?r = 0" by (rule bit_word_eqI) (simp add: bit_get_addr32 init_simbus_pci_def)
  then have a: "get_addr ?r = 0x80011234" by (simp add: get_addr_split)
  have b: "bit (2 :: u32) 1" by (simp add: bit_numeral_rec)
  have p: "length (config_mem (user ?p)) = CONFIG_WORDS" "mem_target ?p = replicate 8 no_translation"
    by (simp_all add: init_simbus_pci_def new_ramdev_def CONFIG_WORDS_def TARGET_MEM_REGIONS_def)
  have r: "mem_target ?r = mem_target (configure 0x80010000 0 0x90000000 0 2 ?p)" by simp
  note f = ramdev_decodes [OF p b r]
  have m: "match_mem_target ?r =
      (if drop_bit 16 (bar_base 0 0x80010000) = drop_bit 16 (get_addr ?r) then Some 0
       else if drop_bit 13 (bar_base 0 0x90000000) = drop_bit 13 (get_addr ?r) then Some 2 else None)"
    by (rule f [THEN conjunct1])
  have d: "drop_bit 16 (bar_base 0 0x80010000) = drop_bit 16 (0x80011234 :: u64)" by (simp add: bar_base_def drop_bit_eq_div)
  have rd: "burst_words ramdev_handlers 0 4 0x80011234 0 0 ?r =
      Done (bar0_need32 (user ?r) (0x80011234 AND NOT 3) (if pcix_mode ?r then 0 else get_c_be ?r 4), 0, ?r)"
    by (rule f [THEN conjunct2, THEN conjunct1])
  have "bar0_word (0x80011234 AND NOT 3) < unat memory_size div 4"
    by (simp add: bar0_word_eq memory_size_def bar0_mask_def)
  then have "bar0_need32 (user ?r) (0x80011234 AND NOT 3) ben = 0" for ben
    by (simp add: bar0_need32_def init_simbus_pci_def new_ramdev_def del: replicate.simps)
  then show ?thesis using m a d rd by (simp only: Let_def refl if_True simp_thms)
qed

section \<open>Bus mastering lets go of the bus\<close>

lemma dma_reg_frame [simp]:
  "mquiet par (set_dma_reg a f p) = mquiet par p" "fd (set_dma_reg a f p) = fd p" "pci_wf (set_dma_reg a f p) = pci_wf p"
  "quiet (set_dma_reg a f p) = quiet p" "par_off (set_dma_reg a f p) = par_off p"
  by (simp_all add: set_dma_reg_def)

lemma read32_access: "idle p \<Longrightarrow> ret (simbus_pci_read32 cb p a b) (\<lambda>(v, q). released q)"
  unfolding simbus_pci_read32_def simbus_pci_read32_xz_def by (erule ret_seq [OF read32_loop_idle]) auto

lemma write32_access: "idle p \<Longrightarrow> ret (simbus_pci_write32 cb p a w b) vacated"
  unfolding simbus_pci_write32_def by (erule ret_seq [OF write32_idle]) auto

lemma dma_transfer_idle: "idle p \<Longrightarrow> ret (dma_transfer p) vacated"
proof -
  assume i: "idle p"
  let ?b = "set_dma_reg 0x1004 (\<lambda>c. c - 4) (set_dma_reg 0x1008 (\<lambda>a. a + 4) (set_dma_reg 0x1010 (\<lambda>a. a + 4) p))"
  have ib: "idle ?b" using i by simp
  have "ret (obind (simbus_pci_read32 ramdev_handlers ?b a 0) (\<lambda>(val, b2). Done (if c
      then b2\<lparr>user := (user b2)\<lparr>memory_space := (memory_space (user b2))[n := val]\<rparr>\<rparr> else b2))) vacated" for a c n
    by (rule ret_seq2 [OF read32_access [OF ib]]) (simp add: vacated_def)
  then show ?thesis
    unfolding dma_transfer_def Let_def using write32_access [OF ib] by (simp del: ret_obind)
qed

lemma dma_loop_idle: "idle p \<Longrightarrow> ret (dma_loop p) (\<lambda>q. idle q \<and> dma_reg q 0x1004 = 0
    \<and> (vacated p \<or> dma_reg p 0x1004 > 0 \<longrightarrow> vacated q))"
proof (induction p rule: dma_loop.induct)
  case (1 p)
  show ?case
  proof (cases "dma_reg p 0x1004 > 0")
    case True
    show ?thesis
    proof (cases "dma_transfer p")
      case (Done x)
      with dma_transfer_idle [OF 1(2)] have "vacated x" by simp
      with vacated_idle have "idle x" by blast
      with 1(1) [OF True Done] have "pending (fd x) < pending (fd p)
          \<or> pending (fd x) = pending (fd p) \<and> dma_reg x 0x1004 < dma_reg p 0x1004
          \<Longrightarrow> ret (dma_loop x) (\<lambda>q. idle q \<and> dma_reg q 0x1004 = 0 \<and> vacated q)"
        using \<open>vacated x\<close> by (simp only: simp_thms)
      then show ?thesis using Done True by (subst dma_loop.simps) simp
    qed (use True in \<open>subst dma_loop.simps, simp\<close>)
  next
    case False
    then show ?thesis using 1(2) by (subst dma_loop.simps) (simp add: word_gt_0)
  qed
qed

lemma master_idle: "idle p \<Longrightarrow> ret (do_bus_master_operations p) idle"
  unfolding do_bus_master_operations_def
  by (auto simp del: ret_obind intro!: ret_seq [OF dma_loop_idle])

lemma ramdev_turn_idle: "idle p \<Longrightarrow> ret (ramdev_turn (rc, p)) (\<lambda>(rc', q). idle q)"
  unfolding ramdev_turn_def simbus_pci_wait_def prod.case
  by (rule ret_seq [OF tgt.wait_idle [where par = False]]) (auto simp del: ret_obind intro!: ret_seq [OF master_idle])

lemma ramdev_loop_idle: "idle p \<Longrightarrow> ret (ramdev_loop p) (\<lambda>(rc, q). idle q \<and> rc \<noteq> SIMBUS_PCI_BREAK)"
  unfolding ramdev_loop_def
  by (rule ret_mono [OF ret_while_io [where I = "\<lambda>(rc, q). idle q"]]) (auto intro: ramdev_turn_idle)

section \<open>The accesses of the device use input only\<close>

lemma machine_deeper: "deeper N (pci_target_state_machine cb)"
  unfolding deeper_def pci_target_state_machine_def by (intro allI impI target_sm_runs) simp

lemma devsel_runs: "within N p \<Longrightarrow> runs (wait_for_devsel p) (\<lambda>(rc, q). within N q)"
proof -
  have "within N p \<Longrightarrow> runs (await_devsel n p) (within N)" for n
    by (induction n arbitrary: p) (auto intro: posedge_runs_seq)
  then show "within N p \<Longrightarrow> runs (wait_for_devsel p) (\<lambda>(rc, q). within N q)"
    unfolding wait_for_devsel_def by (rule runs_seq) auto
qed

lemma trdy_runs: "within N p \<Longrightarrow> runs (await_trdy n p) (\<lambda>(rc, q). within N q)"
proof (induction n arbitrary: p)
  case 0
  then show ?case by (subst await_trdy.simps) (auto intro!: posedge_runs_seq)
next
  case (Suc n)
  then show ?case by (subst await_trdy.simps) (auto intro!: posedge_runs_seq)
qed

lemma command_runs: "within N p \<Longrightarrow> runs (address_command p a c b f g) (within N)"
proof -
  have dac: "within N q \<Longrightarrow> runs (dac_phase t q) (within N)" for t and q :: "'a simbus_pci"
    unfolding dac_phase_def by (auto intro!: posedge_runs_seq)
  have attr: "within N q \<Longrightarrow> runs (attr_phase b q) (within N)" for q :: "'a simbus_pci"
    unfolding attr_phase_def Let_def by (auto intro!: posedge_runs_seq posedge_runs)
  have drive: "within N (drive_address a f q) = within N q" for q :: "'a simbus_pci"
    by (simp add: drive_address_def Let_def within_def)
  show "within N p \<Longrightarrow> runs (address_command p a c b f g) (within N)"
    unfolding address_command_def
    by (rule runs_seq [OF dac]) (auto simp: drive intro!: posedge_runs_seq runs_seq [OF attr])
qed

lemma read_phase_runs: "within N p \<Longrightarrow> runs (read_phase p r r2) (\<lambda>(rc, v, vx, q). within N q)"
proof -
  assume w: "within N p"
  have rd: "within N q \<Longrightarrow> runs (wait_for_read q v vx) (\<lambda>(rc, v, vx, q). within N q)" for q :: "'a simbus_pci" and v vx
    unfolding wait_for_read_def by (rule runs_seq [OF trdy_runs]) auto
  show ?thesis
    unfolding read_phase_def
    by (rule runs_seq [OF devsel_runs [OF w]])
      (auto intro!: posedge_runs_seq runs_seq [OF rd] runs_seq [where Q = "within N"] posedge_runs)
qed

lemma read32_runs: "within N p \<Longrightarrow> runs (generic_pci_read32 cb p a c b r r2) (\<lambda>(rc, v, vx, q). within N q)"
  unfolding generic_pci_read32_def generic_pci_read32_with_def
  by (rule runs_seq [OF request_bus_runs [OF machine_deeper]], assumption)
    (auto intro!: runs_seq [OF command_runs] posedge_runs_seq read_phase_runs)

lemma write32_runs: "within N p \<Longrightarrow> runs (generic_pci_write32 cb p a c v b) (\<lambda>(rc, q). within N q)"
proof -
  assume w: "within N p"
  have tail: "runs (obind (wait_for_devsel q) (\<lambda>(rc, p4). if rc < 0 then Done (rc, p4)
      else obind (clocked (\<lambda>p. pci_trdy_n p \<noteq> BIT_0) p4) (\<lambda>p5. obind (pci_next_posedge (undrive_bus p5)) (\<lambda>p6. Done (0, p6)))))
      (\<lambda>(rc, q). within N q)" if "within N q" for q :: "'a simbus_pci"
    by (rule runs_seq [OF devsel_runs [OF that]]) (auto intro!: runs_seq [OF clocked_runs] posedge_runs_seq)
  have sw: "within N q \<Longrightarrow> runs (setup_for_write q x e f) (within N)" for q :: "'a simbus_pci" and x e f
    unfolding setup_for_write_def Let_def by (rule posedge_runs) simp
  show ?thesis
    unfolding generic_pci_write32_def generic_pci_write32_with_def
    by (rule runs_seq [OF request_bus_runs [OF machine_deeper w]])
      (auto intro!: runs_seq [OF command_runs] runs_seq [OF sw] tail)
qed

lemma read32_loop_runs: "within N p \<Longrightarrow> runs (read32_loop cb a b v vx p) (\<lambda>(rc, v, vx, q). within N q)"
proof (induction "pending (fd p)" arbitrary: v vx p rule: less_induct)
  case less
  show ?case
    by (subst read32_loop.simps, rule runs_seq [OF read32_runs [OF less.prems]]) (use less.hyps in auto)
qed

lemma dma_transfer_runs: "within N p \<Longrightarrow> runs (dma_transfer p) (within N)"
proof -
  assume "within N p"
  then have w: "within N (set_dma_reg a1 f1 (set_dma_reg a2 f2 (set_dma_reg a3 f3 p)))" for a1 a2 a3 f1 f2 f3
    by (simp add: within_def)
  note rd = runs_seq [OF read32_loop_runs [OF w]] and wd = runs_seq [OF write32_runs [OF w]]
  show ?thesis
    unfolding dma_transfer_def Let_def simbus_pci_read32_def simbus_pci_read32_xz_def simbus_pci_write32_def obind_assoc
    by (auto intro!: rd wd)
qed

lemma dma_loop_runs: "within N p \<Longrightarrow> runs (dma_loop p) (within N)"
proof (induction p rule: dma_loop.induct)
  case (1 p)
  show ?case
  proof (cases "dma_reg p 0x1004 > 0")
    case True
    show ?thesis
    proof (cases "dma_transfer p")
      case (Done x)
      with dma_transfer_runs [OF 1(2)] have "within N x" by simp
      then show ?thesis using 1(1) [OF True Done] Done True by (subst dma_loop.simps) simp
    next
      case (Stop e)
      with dma_transfer_runs [OF 1(2)] show ?thesis using True by (subst dma_loop.simps) simp
    qed
  next
    case False
    then show ?thesis using 1(2) by (subst dma_loop.simps) simp
  qed
qed

lemma wait_consumes:
  assumes "0 < n"
  shows "runs (simbus_pci_wait cb p n None) (\<lambda>(rc, irq, q). pending (fd q) < pending (fd p))"
proof -
  obtain k where n: "n = Suc k" using assms by (cases n) auto
  let ?P = "\<lambda>(rc :: int, irq :: u64 option, q :: 'a simbus_pci). pending (fd q) < pending (fd p)"
  have tail: "runs (obind (pci_target_state_machine cb q) (\<lambda>p3. if break_flag p3 \<noteq> 0 \<and> target_state p3 = TARG_IDLE
        then Done (SIMBUS_PCI_BREAK, None, p3) else wait_clocks (pci_target_state_machine cb) k 0 (intr_active p3) None p3)) ?P"
    if q: "pending (fd q) < pending (fd p)" for q
  proof (rule runs_seq [where Q = "within (pending (fd q))"])
    show "runs (pci_target_state_machine cb q) (within (pending (fd q)))"
      using machine_deeper [of "Suc (pending (fd q))" cb] by (simp add: deeper_def)
    show "runs (if break_flag x \<noteq> 0 \<and> target_state x = TARG_IDLE then Done (SIMBUS_PCI_BREAK, None, x)
        else wait_clocks (pci_target_state_machine cb) k 0 (intr_active x) None x) ?P" if "within (pending (fd q)) x" for x
      using that q by (auto simp: within_def intro!: runs_mono [OF wait_clocks_runs [OF machine_deeper that]])
  qed
  have "runs (obind (obind (spin_rc fd send_ready_pci (\<lambda>p. pci_clk p \<noteq> BIT_0) (0, p\<lparr>break_flag := 0\<rparr>))
        (spin_rc fd send_ready_pci (\<lambda>p. pci_clk p \<noteq> BIT_1))) (\<lambda>(rc, p2).
      if rc < 0 then Done (rc, None, p2)
      else obind (pci_target_state_machine cb p2) (\<lambda>p3. if break_flag p3 \<noteq> 0 \<and> target_state p3 = TARG_IDLE
        then Done (SIMBUS_PCI_BREAK, None, p3) else wait_clocks (pci_target_state_machine cb) k 0 (intr_active p3) None p3))) ?P"
    by (rule runs_seq [OF edge_consumes]) (use tail in auto)
  then show ?thesis by (simp add: simbus_pci_wait_def simbus_pci_wait_with_def n obind_assoc)
qed

lemma ramdev_turn_runs: "runs (ramdev_turn (rc, p)) (\<lambda>(rc', q). pending (fd q) < pending (fd p))"
proof -
  have m: "runs (do_bus_master_operations q) (within (pending (fd q)))" for q
    unfolding do_bus_master_operations_def
    by (auto simp: within_def intro!: runs_seq [OF dma_loop_runs [of "pending (fd q)" q]])
  show ?thesis
    unfolding ramdev_turn_def prod.case
    by (rule runs_seq [OF wait_consumes]) (auto simp: within_def intro!: runs_seq [OF m])
qed

text \<open>The budget of the model's loop is never what stops it.\<close>

lemma ramdev_loop_budget: "ramdev_loop p \<noteq> Stop Out_of_fuel"
proof -
  have "runs (ramdev_loop p) (\<lambda>s. True)"
    unfolding ramdev_loop_def
    by (rule runs_mono [OF runs_while_io [where I = "\<lambda>s. True"]])
      (use ramdev_turn_runs in \<open>auto simp: case_prod_unfold\<close>)
  then show ?thesis by (simp add: runs_def)
qed

text \<open>C19: The device lets go of the bus. From a state in which it drives none of FRAME#, REQ64#, ACK64#, IRDY#,
  TRDY#, STOP#, DEVSEL#, C/BE# and AD, its main loop, with all target cycles and all transfers of its DMA controller in it,
  returns only in such a state and not on a break.  A run of the controller returns only in such a
  state with its transfer count at 0; if it made a transfer, PAR and PAR64 are released as
  well, unless the last one was a write that nobody answered, which leaves PAR driven.\<close>

theorem ramdev_lets_go:
  assumes "pci_wf p" and "quiet p"
  shows "ret (ramdev_loop p) (\<lambda>(rc, q). idle q \<and> rc \<noteq> SIMBUS_PCI_BREAK)
    \<and> ret (dma_loop p) (\<lambda>q. idle q \<and> dma_reg q 0x1004 = 0 \<and> (dma_reg p 0x1004 > 0 \<longrightarrow> vacated q))"
proof -
  have i: "idle p" using assms by simp
  show ?thesis using ramdev_loop_idle [OF i] by (intro conjI ret_mono [OF dma_loop_idle [OF i]]) auto
qed

text \<open>A bus that answers at once, before the first clock, and a controller that is told to read one word.\<close>

lemma free_bus_read:
  fixes p :: "'d simbus_pci"
  assumes "\<not> known (pci_clk p)" and "pci_gnt_n p = BIT_0" and "pci_frame_n p = BIT_1" and "pci_irdy_n p = BIT_1"
    and "pci_devsel_n p = BIT_0" and "pci_trdy_n p = BIT_0" and "pcixcap p \<noteq> BIT_1" and "drop_bit 32 a = 0"
  shows "\<exists>v vx q. generic_pci_read32 cb p a c b r r2 = Done (0, v, vx, q) \<and> fd q = fd p \<and> user q = user p"
proof -
  have grant: "await_grant tsm 4096 (p\<lparr>out_req_n := BIT_0\<rparr>) = Done (p\<lparr>out_req_n := BIT_0\<rparr>)" for tsm
    by (subst await_grant.simps) (simp add: bus_taken_def assms)
  have trdy: "await_trdy 256 q = Done (0, q)" if "pci_trdy_n q = BIT_0" for q :: "'d simbus_pci"
    using that by (subst await_trdy.simps) simp
  show ?thesis
    by (simp add: assms generic_pci_read32_def generic_pci_read32_with_def pci_request_bus_with_def grant
        address_command_def dac_phase_def attr_phase_def drive_address_def posedge_unknown
        next_parity_def read_phase_def wait_for_devsel_def wait_for_read_def trdy undrive_bus_def
        numeral_3_eq_3 Let_def)
qed

definition dma_demo :: "ramdev simbus_pci" where
  "dma_demo = (init_simbus_pci ''ramdev'' (script []) 0
      ((new_ramdev DEVICE_ID)\<lparr>bar2_mem := (replicate BAR2_WORDS 0)[0x1004 div 4 := 4]\<rparr>))
    \<lparr>pci_gnt_n := BIT_0, pci_frame_n := BIT_1, pci_irdy_n := BIT_1\<rparr>"

lemma dma_demo_sel:
  "pci_wf dma_demo" "quiet dma_demo" "\<not> known (pci_clk dma_demo)" "pci_gnt_n dma_demo = BIT_0"
  "pci_frame_n dma_demo = BIT_1" "pci_irdy_n dma_demo = BIT_1" "pci_devsel_n dma_demo = BIT_0"
  "pci_trdy_n dma_demo = BIT_0" "pcixcap dma_demo \<noteq> BIT_1" "fd dma_demo = script []"
  unfolding pci_wf_def quiet_def
  by (simp_all add: dma_demo_def init_simbus_pci_def TARGET_MEM_REGIONS_def known_def)

lemma dma_demo_regs:
  "length (bar2_mem (user dma_demo)) = BAR2_WORDS" "dma_reg dma_demo 0x1004 = 4"
  "a \<noteq> 0x1004 div 4 \<Longrightarrow> a < BAR2_WORDS \<Longrightarrow> bar2_mem (user dma_demo) ! a = 0"
  by (simp_all add: dma_reg_def dma_demo_def init_simbus_pci_def BAR2_WORDS_def del: replicate.simps)

theorem ramdev_lets_go_witness:
  "\<exists>q. dma_loop dma_demo = Done q \<and> dma_reg q 0x1004 = 0 \<and> vacated q"
proof -
  let ?b = "set_dma_reg 0x1004 (\<lambda>c. c - 4) (set_dma_reg 0x1008 (\<lambda>a. a + 4) (set_dma_reg 0x1010 (\<lambda>a. a + 4) dma_demo))"
  have z: "dma_reg dma_demo 0x1000 = 0" "dma_reg dma_demo 0x1008 = 0" "dma_reg dma_demo 0x100c = 0" "dma_reg dma_demo 0x1010 = 0"
    using dma_demo_regs(3) by (simp_all add: dma_reg_def BAR2_WORDS_def)
  have b: "dma_reg ?b 0x1000 = 0" "dma_reg ?b 0x1004 = 0" "fd ?b = fd dma_demo"
    using z dma_demo_regs(1,2) by (simp_all add: set_dma_reg_def dma_reg_def BAR2_WORDS_def)
  have bus: "\<not> known (pci_clk ?b)" "pci_gnt_n ?b = BIT_0" "pci_frame_n ?b = BIT_1" "pci_irdy_n ?b = BIT_1"
    "pci_devsel_n ?b = BIT_0" "pci_trdy_n ?b = BIT_0" "pcixcap ?b \<noteq> BIT_1"
    using dma_demo_sel by (simp_all add: set_dma_reg_def)
  obtain v vx q where rd: "generic_pci_read32 ramdev_handlers ?b 0 0xf6 0 0xffffffff 0xffffffff = Done (0, v, vx, q)"
    and q: "fd q = fd ?b" "user q = user ?b"
    using free_bus_read [OF bus, of 0 ramdev_handlers "0xf6" 0 "0xffffffff" "0xffffffff"] by auto
  have "simbus_pci_read32 ramdev_handlers ?b 0 0 = Done (if vx \<noteq> 0 then 0xffffffff else v, q)"
    unfolding simbus_pci_read32_def simbus_pci_read32_xz_def
    by (subst read32_loop.simps) (simp add: rd GPCI_TARGET_RETRY_def)
  then obtain x where t: "dma_transfer dma_demo = Done x" and x: "fd x = fd dma_demo" "bar2_mem (user x) = bar2_mem (user ?b)"
    unfolding dma_transfer_def Let_def using b z q by (simp add: bar_base_def split: if_split_asm)
  have "dma_reg x 0x1004 = 0" using b(2) x(2) by (simp only: dma_reg_def)
  then have "dma_loop dma_demo = Done x"
    using dma_demo_regs(2) t x(1) by (subst dma_loop.simps) (simp add: dma_loop.simps)
  moreover have "ret (dma_loop dma_demo) (\<lambda>q. idle q \<and> dma_reg q 0x1004 = 0 \<and> (dma_reg dma_demo 0x1004 > 0 \<longrightarrow> vacated q))"
    using ramdev_lets_go [OF dma_demo_sel(1,2)] by (elim conjE)
  ultimately show ?thesis using dma_demo_regs(2) by simp
qed

end
