(* ===== verification/Sim_Process.thy ===== *)
theory Sim_Process
  imports Sim_Server_Bus
begin

text \<open>
  server/process.cc: the programs that a configuration asks the server to start, and the descriptors they start with.

  The descriptors of a process are a table of open files; opening a file takes the lowest free number.
  The system is two parameters: which files can be opened, and whether a fork succeeds. The child is
  what it is when it calls \<open>execv\<close>: its table and the arguments.
\<close>

section \<open>Descriptors\<close>

datatype open_file = Inherited nat | Opened string bool

type_synonym fd_table = "open_file option list"

fun lowest_free :: "fd_table \<Rightarrow> nat" where
  "lowest_free [] = 0"
| "lowest_free (None # t) = 0"
| "lowest_free (Some f # t) = Suc (lowest_free t)"

definition fd_get :: "fd_table \<Rightarrow> nat \<Rightarrow> open_file option" where
  "fd_get t n = (if n < length t then t ! n else None)"

definition fd_put :: "nat \<Rightarrow> open_file option \<Rightarrow> fd_table \<Rightarrow> fd_table" where
  "fd_put n f t = (if n < length t then t[n := f] else t @ replicate (n - length t) None @ [f])"

definition sys_open :: "(string \<Rightarrow> bool \<Rightarrow> bool) \<Rightarrow> string \<Rightarrow> bool \<Rightarrow> fd_table \<Rightarrow> int \<times> fd_table" where
  "sys_open can path wt t =
     (if can path wt then (int (lowest_free t), fd_put (lowest_free t) (Some (Opened path wt)) t) else (-1, t))"

definition sys_close :: "int \<Rightarrow> fd_table \<Rightarrow> fd_table" where
  "sys_close n t = (if 0 \<le> n \<and> nat n < length t then t[nat n := None] else t)"

definition sys_dup2 :: "int \<Rightarrow> int \<Rightarrow> fd_table \<Rightarrow> fd_table" where
  "sys_dup2 old new t =
     (if 0 \<le> old \<and> 0 \<le> new \<and> fd_get t (nat old) \<noteq> None then fd_put (nat new) (fd_get t (nat old)) t else t)"

section \<open>The table of processes\<close>

record process_info =
  use_exec :: string
  use_stdin :: string
  use_stdout :: string
  use_stderr :: string
  use_env :: "string smap"

definition process_add ::
  "string \<Rightarrow> string \<Rightarrow> string \<Rightarrow> string \<Rightarrow> string \<Rightarrow> string smap \<Rightarrow> process_info smap \<Rightarrow> process_info smap" where
  "process_add nm ex sin sout serr env proc_table =
     smap_put nm \<lparr>use_exec = ex, use_stdin = sin, use_stdout = sout, use_stderr = serr, use_env = env\<rparr> proc_table"

section \<open>Starting one\<close>

definition move_fd :: "int \<Rightarrow> int \<Rightarrow> fd_table \<Rightarrow> fd_table" where
  "move_fd fd n t = (if fd \<noteq> n then sys_dup2 fd n (sys_close n t) else t)"

definition child_table :: "int \<Rightarrow> int \<Rightarrow> int \<Rightarrow> fd_table \<Rightarrow> fd_table" where
  "child_table fd_stdin fd_stdout fd_stderr t = move_fd fd_stderr 2 (move_fd fd_stdout 1 (move_fd fd_stdin 0 t))"

definition parent_table :: "int \<Rightarrow> int \<Rightarrow> int \<Rightarrow> fd_table \<Rightarrow> fd_table" where
  "parent_table fd_stdin fd_stdout fd_stderr t =
     (let t1 = (if fd_stdin > 2 then sys_close fd_stdin t else t);
          t2 = (if fd_stdout > 2 then sys_close fd_stdout t1 else t1)
      in if fd_stderr > 2 \<and> fd_stderr \<noteq> fd_stdout then sys_close fd_stderr t2 else t2)"

definition open_stdout :: "(string \<Rightarrow> bool \<Rightarrow> bool) \<Rightarrow> process_info \<Rightarrow> fd_table \<Rightarrow> int \<times> fd_table" where
  "open_stdout can info t =
     (if use_stdout info \<noteq> '''' \<and> use_stdout info \<noteq> ''-'' then sys_open can (use_stdout info) True t else (1, t))"

definition open_stderr :: "(string \<Rightarrow> bool \<Rightarrow> bool) \<Rightarrow> process_info \<Rightarrow> int \<Rightarrow> fd_table \<Rightarrow> int \<times> fd_table" where
  "open_stderr can info fd_stdout t =
     (if use_stderr info = '''' then (2, t)
      else if use_stderr info = ''-'' then (fd_stdout, t)
      else sys_open can (use_stderr info) True t)"

text \<open>The server's table afterwards, and the child.\<close>

definition do_process_run ::
  "(string \<Rightarrow> bool \<Rightarrow> bool) \<Rightarrow> bool \<Rightarrow> process_info \<Rightarrow> fd_table \<Rightarrow> fd_table \<times> (fd_table \<times> string list) option" where
  "do_process_run can forks info t =
     (let (fd_stdin, t1) = sys_open can (use_stdin info) False t
      in if fd_stdin < 0 then (t1, None)
         else
           let (fd_stdout, t2) = open_stdout can info t1
           in if fd_stdout < 0 then (t2, None)
              else
                let (fd_stderr, t3) = open_stderr can info fd_stdout t2
                in if fd_stderr < 0 then (t3, None)
                   else (parent_table fd_stdin fd_stdout fd_stderr t3,
                         if forks then Some (child_table fd_stdin fd_stdout fd_stderr t3, [''/bin/sh'', ''-c'', use_exec info])
                         else None))"

text \<open>All of them, in the order of their names; \<open>forks\<close> says for each whether its fork succeeds.\<close>

fun process_run ::
  "(string \<Rightarrow> bool \<Rightarrow> bool) \<Rightarrow> (string \<Rightarrow> bool) \<Rightarrow> process_info smap \<Rightarrow> fd_table
    \<Rightarrow> fd_table \<times> (string \<times> fd_table \<times> string list) list" where
  "process_run can forks [] t = (t, [])"
| "process_run can forks ((nm, info) # rest) t =
     (let (t1, child) = do_process_run can (forks nm) info t;
          (t2, children) = process_run can forks rest t1
      in (t2, case child of None \<Rightarrow> children | Some (c, argv) \<Rightarrow> (nm, c, argv) # children))"

section \<open>What a program starts with\<close>

lemma get_put [simp]: "fd_get (fd_put n f t) m = (if m = n then f else fd_get t m)"
  by (auto simp: fd_get_def fd_put_def nth_append nth_Cons')

lemma get_close [simp]: "fd_get (sys_close n t) m = (if int m = n then None else fd_get t m)"
  by (auto simp: fd_get_def sys_close_def nth_list_update)

lemma get_dup2: "fd_get (sys_dup2 (int a) (int n) t) m = (if m = n \<and> fd_get t a \<noteq> None then fd_get t a else fd_get t m)"
  by (auto simp: sys_dup2_def)

lemma lowest_free_closed: "fd_get t (lowest_free t) = None"
  by (induction t rule: lowest_free.induct) (auto simp: fd_get_def)

definition std_open :: "fd_table \<Rightarrow> bool" where
  "std_open t \<longleftrightarrow> fd_get t 0 \<noteq> None \<and> fd_get t 1 \<noteq> None \<and> fd_get t 2 \<noteq> None"

lemma lowest_free_std: "std_open t \<Longrightarrow> 2 < lowest_free t"
proof (rule ccontr)
  assume t: "std_open t" and "\<not> 2 < lowest_free t"
  then have "lowest_free t = 0 \<or> lowest_free t = 1 \<or> lowest_free t = 2" by auto
  with lowest_free_closed [of t] t show False by (auto simp: std_open_def)
qed

lemma open_new:
  assumes "sys_open can path w t = (fd, t')" and "\<not> fd < 0" and "std_open t"
  obtains n where "fd = int n" and "2 < n" and "fd_get t n = None" and "fd_get t' = (fd_get t)(n := Some (Opened path w))" and "std_open t'"
proof -
  have o: "fd = int (lowest_free t)" "t' = fd_put (lowest_free t) (Some (Opened path w)) t"
    using assms(1,2) by (auto simp: sys_open_def split: if_splits)
  have "fd_get t' = (fd_get t)(lowest_free t := Some (Opened path w))" by (rule ext) (simp add: o(2))
  moreover from this have "std_open t'" using assms(3) by (simp add: std_open_def)
  ultimately show thesis using that o(1) lowest_free_std [OF assms(3)] lowest_free_closed by blast
qed

lemma get_move:
  assumes "fd_get t a \<noteq> None"
  shows "fd_get (move_fd (int a) (int n) t) = (fd_get t)(n := fd_get t a)"
  using assms by (auto simp: move_fd_def get_dup2)

text \<open>The first three descriptors that a configuration asks for.\<close>

definition std_files :: "fd_table \<Rightarrow> process_info \<Rightarrow> open_file option list" where
  "std_files t info =
     (let out = (if use_stdout info \<noteq> '''' \<and> use_stdout info \<noteq> ''-'' then Some (Opened (use_stdout info) True) else fd_get t 1)
      in [Some (Opened (use_stdin info) False), out,
          if use_stderr info = '''' then fd_get t 2 else if use_stderr info = ''-'' then out
          else Some (Opened (use_stderr info) True)])"

lemma child_gets:
  assumes "fd_get t a \<noteq> None" and "fd_get t b \<noteq> None" and "fd_get t e \<noteq> None"
    and "a > 2" and "b > 2 \<or> b = 1" and "e > 2 \<or> e = 2 \<or> e = b"
  shows "map (fd_get (child_table (int a) (int b) (int e) t)) [0, 1, 2] = [fd_get t a, fd_get t b, fd_get t e]"
proof -
  have 1: "fd_get (move_fd (int a) 0 t) = (fd_get t)(0 := fd_get t a)" using get_move [OF assms(1), of 0] by simp
  have "fd_get (move_fd (int a) 0 t) b \<noteq> None" using assms by (auto simp: 1)
  from get_move [OF this, of 1] have 2: "fd_get (move_fd (int b) 1 (move_fd (int a) 0 t))
      = ((fd_get t)(0 := fd_get t a))(1 := fd_get t b)" using assms(5) by (auto simp: 1)
  have "fd_get (move_fd (int b) 1 (move_fd (int a) 0 t)) e \<noteq> None" using assms by (auto simp: 2)
  from get_move [OF this, of 2] show ?thesis using assms(4-6) unfolding child_table_def by (auto simp: 2)
qed

lemma parent_gets:
  "fd_get (parent_table (int a) (int b) (int e) t) m = (if m \<in> {a, b, e} \<and> m > 2 then None else fd_get t m)"
  by (auto simp: parent_table_def Let_def)

lemma started:
  assumes "std_open t" and "do_process_run can forks info t = (t', Some (c, argv))"
  shows "map (fd_get c) [0, 1, 2] = std_files t info \<and> fd_get t' = fd_get t \<and> argv = [''/bin/sh'', ''-c'', use_exec info]"
proof -
  obtain fi t1 where o1: "sys_open can (use_stdin info) False t = (fi, t1)" by (cases "sys_open can (use_stdin info) False t")
  have fi: "\<not> fi < 0" using assms(2) by (auto simp: do_process_run_def o1 Let_def)
  from open_new [OF o1 fi assms(1)] obtain a where a: "fi = int a" "2 < a" "fd_get t a = None"
    "fd_get t1 = (fd_get t)(a := Some (Opened (use_stdin info) False))" "std_open t1" .
  let ?file = "use_stdout info \<noteq> [] \<and> use_stdout info \<noteq> ''-''"
  obtain fo t2 where o2: "open_stdout can info t1 = (fo, t2)" by fastforce
  have fo: "\<not> fo < 0" using assms(2) fi by (auto simp: do_process_run_def o1 o2 Let_def)
  obtain b where b: "fo = int b" "std_open t2" "if ?file then 2 < b \<and> fd_get t1 b = None \<and>
      fd_get t2 = (fd_get t1)(b := Some (Opened (use_stdout info) True)) else b = 1 \<and> t2 = t1"
  proof (cases ?file)
    case True
    with o2 have "sys_open can (use_stdout info) True t1 = (fo, t2)" by (simp add: open_stdout_def)
    from open_new [OF this fo a(5)] obtain n where "fo = int n" "2 < n" "fd_get t1 n = None"
      "fd_get t2 = (fd_get t1)(n := Some (Opened (use_stdout info) True))" "std_open t2" .
    then show ?thesis by (intro that [of n]) (use True in auto)
  next
    case False
    have "(1, t1) = (fo, t2)" using o2 unfolding open_stdout_def if_not_P [OF False] by simp
    then have "fo = int 1" "std_open t2" "t2 = t1" using a(5) by simp_all
    then show ?thesis by (intro that [of 1]) (use False in auto)
  qed
  let ?e = "use_stderr info"
  obtain fe t3 where o3: "open_stderr can info fo t2 = (fe, t3)" by fastforce
  have fe: "\<not> fe < 0" using assms(2) fi fo by (auto simp: do_process_run_def o1 o2 o3 Let_def)
  obtain e where e: "fe = int e" "if ?e = [] then e = 2 \<and> t3 = t2 else if ?e = ''-'' then e = b \<and> t3 = t2
      else 2 < e \<and> fd_get t2 e = None \<and> fd_get t3 = (fd_get t2)(e := Some (Opened ?e True))"
  proof (cases "?e = [] \<or> ?e = ''-''")
    case True
    with o3 b(1) have "fe = int (if ?e = [] then 2 else b)" "t3 = t2" using True by (auto simp: open_stderr_def split: if_splits)
    then show ?thesis using True by (intro that [of "if ?e = [] then 2 else b"]) auto
  next
    case False
    with o3 have "sys_open can ?e True t2 = (fe, t3)" by (simp add: open_stderr_def)
    from open_new [OF this fe b(2)] obtain n where "fe = int n" "2 < n" "fd_get t2 n = None"
      "fd_get t3 = (fd_get t2)(n := Some (Opened ?e True))" "std_open t3" .
    then show ?thesis using False by (intro that [of n]) simp_all
  qed
  have "t' = parent_table fi fo fe t3" "c = child_table fi fo fe t3" and argv: "argv = [''/bin/sh'', ''-c'', use_exec info]"
    using assms(2) fi fo fe by (auto simp: do_process_run_def o1 o2 o3 Let_def split: if_splits)
  then have r: "t' = parent_table (int a) (int b) (int e) t3" "c = child_table (int a) (int b) (int e) t3"
    by (simp_all only: a(1) b(1) e(1))
  have std: "fd_get t 1 \<noteq> None" "fd_get t 2 \<noteq> None" using assms(1) by (simp_all add: std_open_def)
  let ?in = "Some (Opened (use_stdin info) False)" and ?out = "if ?file then Some (Opened (use_stdout info) True) else fd_get t 1"
  let ?err = "if ?e = [] then fd_get t 2 else if ?e = ''-'' then ?out else Some (Opened ?e True)"
  have sf: "std_files t info = [?in, ?out, ?err]" by (simp add: std_files_def Let_def)
  have t1: "fd_get t1 a = ?in" "fd_get t1 1 = fd_get t 1" "fd_get t1 2 = fd_get t 2" using a by simp_all
  have t2: "fd_get t2 a = ?in \<and> fd_get t2 b = ?out \<and> fd_get t2 2 = fd_get t 2"
  proof (cases ?file)
    case True
    then have b': "2 < b" "fd_get t1 b = None" "fd_get t2 = (fd_get t1)(b := Some (Opened (use_stdout info) True))"
      using b(3) by simp_all
    then have "a \<noteq> b" using t1(1) by auto
    then show ?thesis using b' t1 True by simp
  next
    case False
    then have "b = 1" "t2 = t1" using b(3) by simp_all
    then show ?thesis using t1 False by auto
  qed
  have t3: "fd_get t3 a = ?in \<and> fd_get t3 b = ?out \<and> fd_get t3 e = ?err"
  proof (cases "?e = [] \<or> ?e = ''-''")
    case True
    then have "t3 = t2" "e = (if ?e = [] then 2 else b)" using e(2) by (auto split: if_splits)
    then show ?thesis using t2 True by auto
  next
    case False
    then have e': "fd_get t2 e = None" "fd_get t3 = (fd_get t2)(e := Some (Opened ?e True))" using e(2) by simp_all
    have "?out \<noteq> None" using std by simp
    then have "e \<noteq> a" "e \<noteq> b" using e'(1) t2 by auto
    then show ?thesis using e' t2 False by simp
  qed
  have some: "?in \<noteq> None" "?out \<noteq> None" "?err \<noteq> None" using std by simp_all
  have n: "2 < b \<or> b = 1" "2 < e \<or> e = 2 \<or> e = b" using b(3) e(2) by (simp_all split: if_splits)
  have "fd_get t3 a \<noteq> None" "fd_get t3 b \<noteq> None" "fd_get t3 e \<noteq> None" using t3 some by simp_all
  from child_gets [OF this a(2) n] have "map (fd_get c) [0, 1, 2] = std_files t info"
    unfolding r(2) sf using t3 by simp
  moreover have "fd_get t' = fd_get t"
    by (rule ext) (use a b(3) e(2) in \<open>auto simp: r(1) parent_gets split: if_splits\<close>)
  ultimately show ?thesis using argv by simp
qed

definition can_start :: "(string \<Rightarrow> bool \<Rightarrow> bool) \<Rightarrow> process_info \<Rightarrow> bool" where
  "can_start can info \<longleftrightarrow> can (use_stdin info) False
     \<and> (use_stdout info = '''' \<or> use_stdout info = ''-'' \<or> can (use_stdout info) True)
     \<and> (use_stderr info = '''' \<or> use_stderr info = ''-'' \<or> can (use_stderr info) True)"

lemma starts: "can_start can info \<Longrightarrow> \<exists>t' c argv. do_process_run can True info t = (t', Some (c, argv))"
  by (auto simp: can_start_def do_process_run_def open_stdout_def open_stderr_def sys_open_def Let_def split: if_splits)

lemma std_files_same: "fd_get t' = fd_get t \<Longrightarrow> std_files t' info = std_files t info"
  by (simp only: std_files_def)

text \<open>C20: Every program of the configuration is started, in the order of the names, with the shell and its command,
  and its descriptors 0, 1 and 2 are the files that the configuration names: the input file, the output file or else the
  server's own output, and for the errors a file, the program's output or the server's own. The server's
  descriptors are afterwards what they were, so one program gets nothing from the start of another.\<close>

theorem programs_started:
  assumes "std_open t" and "\<forall>(nm, info) \<in> set procs. can_start can info \<and> forks nm"
  shows "map (\<lambda>(nm, c, argv). (nm, map (fd_get c) [0, 1, 2], argv)) (snd (process_run can forks procs t))
      = map (\<lambda>(nm, info). (nm, std_files t info, [''/bin/sh'', ''-c'', use_exec info])) procs
    \<and> fd_get (fst (process_run can forks procs t)) = fd_get t"
  using assms
proof (induction procs arbitrary: t)
  case (Cons p rest)
  obtain nm info where p: "p = (nm, info)" by (cases p)
  with Cons.prems have ok: "can_start can info" "forks nm" and rest: "\<forall>(nm, info) \<in> set rest. can_start can info \<and> forks nm" by auto
  from starts [OF ok(1), of t] obtain t' c argv where r: "do_process_run can True info t = (t', Some (c, argv))" by blast
  note s = started [OF Cons.prems(1) r]
  have "std_open t'" using Cons.prems(1) s by (simp add: std_open_def)
  note IH = Cons.IH [OF this rest]
  have f: "std_files t' = std_files t" by (rule ext) (use std_files_same s in blast)
  obtain t2 children where run: "process_run can forks rest t' = (t2, children)" by (cases "process_run can forks rest t'")
  show ?case using IH s by (simp add: p ok r run f)
qed simp

definition sample_process :: process_info where
  "sample_process = \<lparr>use_exec = ''run x'', use_stdin = ''/dev/null'', use_stdout = ''out'', use_stderr = ''-'', use_env = []\<rparr>"

theorem programs_started_witness:
  "map (\<lambda>(nm, c, argv). (nm, map (fd_get c) [0, 1, 2], argv))
     (snd (process_run (\<lambda>p w. True) (\<lambda>n. True) (process_add ''a'' ''run x'' ''/dev/null'' ''out'' ''-'' [] [])
       [Some (Inherited 0), Some (Inherited 1), Some (Inherited 2)]))
   = [(''a'', [Some (Opened ''/dev/null'' False), Some (Opened ''out'' True), Some (Opened ''out'' True)], [''/bin/sh'', ''-c'', ''run x''])]"
proof -
  let ?t = "[Some (Inherited 0), Some (Inherited 1), Some (Inherited 2)]"
  have p: "process_add ''a'' ''run x'' ''/dev/null'' ''out'' ''-'' [] [] = [(''a'', sample_process)]"
    by (simp add: process_add_def sample_process_def)
  have s: "std_open ?t" by (simp add: std_open_def fd_get_def)
  have "\<forall>(nm, info) \<in> set [(''a'', sample_process)]. can_start (\<lambda>p w. True) info \<and> True" by (simp add: can_start_def)
  from programs_started [OF s this, THEN conjunct1] show ?thesis unfolding p by (simp add: std_files_def sample_process_def Let_def)
qed

end
