(* ===== verification/Spec2Isabelle.thy ===== *)
theory Spec2Isabelle
  imports Sim_MT Sim_PCI_Access Sim_Mem Sim_AXI4_Slave Sim_PCIe Sim_Server_Protocols Sim_Server_P2P Sim_VPI_Bus Sim_Camera Sim_Ramdev
    Sim_Process
begin

text \<open>
  A verification library for simbus, a system that joins hardware simulations and programs over
  simulated busses (PCI, AXI4, PCIe and plain point-to-point links).

  The program.  A bus server (\<open>server/\<close>) owns the busses.  Programs attach to it over sockets, either
  through the client library (\<open>libsimbus/\<close>) or from a Verilog simulator (\<open>vpi/\<close>).  The protocol is
  lines of text: HELLO and YOU-ARE introduce a client, READY carries the time and the signals it
  drives, UNTIL carries the bus time and the signals it receives, FINISH ends it.  The server steps
  a bus when every device of it has reported READY.  On top of this exchange the client library
  builds the cycles of each bus: a master that reads and writes, a target that answers.

  How the code is modelled.  A struct is a record with the source's field names, an enum a datatype,
  a machine integer a word of its width, an array a list of fixed length.  A C function that works
  on a bus takes the record and returns it updated.  Its value is an \<open>outcome\<close>: \<open>Done\<close>, or \<open>Stop\<close>
  with the reason, which is a failed assertion, behaviour the language leaves undefined, a
  loop that never ends, or a budget that is used up.  The peer of a client is the script of what its reads
  return (\<open>conn\<close> in \<open>Sim_Base\<close>), universally quantified in every theorem; the end of the stream is one read of 0
  bytes in it, where a closed socket goes on answering 0.  For the server, the operating
  system is a script of what select and read report.  Callbacks of the user are function arguments.

  The theories, in the order of their imports.
  \<^item> \<open>Sim_Prelude\<close>: outcomes, \<open>ret\<close> (if it returns, then) and \<open>runs\<close> (and it does not run out of
    the model's budget), loops over a shrinking script; the locale \<open>io_loop\<close>.
  \<^item> \<open>Sim_Bits\<close>: the four signal values, vectors and their text, words on lines
    (libsimbus/simbus_priv.h and the static helpers of the bus files).
  \<^item> \<open>Sim_Base\<close>: libsimbus/simbus.c: connecting, HELLO, sending a command and splitting the answer, times,
    the READY exchange; the locales \<open>ready_bus\<close> and \<open>signal_bus\<close>, which every bus of the library
    interprets.
  \<^item> \<open>Sim_P2P\<close>: libsimbus/simbus_p2p.c.  \<open>Sim_MT\<close>: libsimbus/mt19937int.c against the recurrence of
    the Mersenne Twister.
  \<^item> \<open>Sim_PCI\<close>, \<open>Sim_PCI_Target\<close>, \<open>Sim_PCI_Access\<close>: libsimbus/simbus_pci*.c: the clock and parity engine, the
    target state machine with its callbacks, and the accesses of a host.
  \<^item> \<open>Sim_Mem\<close>: the driver libsimbus/simbus_pci_mem.c and the simulator's memory device
    vpi/simbus_mem.c, the latter against an abstract byte store.
  \<^item> \<open>Sim_AXI4\<close>, \<open>Sim_AXI4_Slave\<close>: libsimbus/simbus_axi4*.c: the master's reads, writes and waits; the
    slave machine against its handshake specification, and both ends joined.
  \<^item> \<open>Sim_TLP_Queue\<close>, \<open>Sim_PCIe\<close>: libsimbus/simbus_pcie_tlp*.c: the ring of pending packets in an explicit
    store, the stream interface, requests and completions; both directions joined.
  \<^item> \<open>Sim_Server_Bus\<close>, \<open>Sim_Server_Client\<close>, \<open>Sim_Server\<close>: server/protocol.cc, server/client.cc and server/service.cc:
    devices and busses, the commands of a client, the loop over all busses; the locales
    \<open>string_map\<close> and \<open>protocol_engine\<close>.
  \<^item> \<open>Sim_Server_Links\<close>, \<open>Sim_Server_PCI\<close>, \<open>Sim_Server_PCI_Bus\<close>: the four protocols of the server.
  \<^item> \<open>Sim_Server_Protocols\<close>: the protocols behind the virtual functions, as the interpretation of
    \<open>protocol_engine\<close>, and what the loop then guarantees.  \<open>Sim_Server_P2P\<close>: the client library and
    the server together.
  \<^item> \<open>Sim_Process\<close>: server/process.cc: the programs that the server starts, and their descriptors.
  \<^item> \<open>Sim_VPI\<close>, \<open>Sim_VPI_Bus\<close>: vpi/simbus.c: the system tasks by which a Verilog simulation is a client; their
    messages against the server's, and the callback that wakes a waiting simulation.
  \<^item> \<open>Sim_Camera\<close>: p2p/cameralink_video: the camera and the capture program, and an image from the one to the other.
    The decoded images and the memory behind the camera's buffer are parameters.
  \<^item> \<open>Sim_Ramdev\<close>: pci/ramdev/ramdev.cc: a device with a memory and a DMA controller, as handlers of the target
    state machine of \<open>Sim_PCI_Target\<close> and as a master with the accesses of \<open>Sim_PCI_Access\<close>.

  What the lemmas show.  For the text of the protocol, round trips of vectors, times and commands in
  both directions, however the stream is cut.  For the library, that every operation keeps its bus well formed and
  lets go of shared lines; that words and addresses reach the other end.  The parity lines of the PCI bus
  are the exception to the letting go: \<open>idle\<close> and \<open>quiet\<close> do not speak of them, and the theorems say apart
  when PAR and PAR64 are released; a write that nobody answers leaves PAR driven.
  For the state machines, refinement of short specifications, with the states in which the code leaves
  them named (\<open>slave_refines_handshake\<close>).  For the server, lock step of busses and devices, one grant at a
  time, the grant in the order of the ring among devices that wait (a device that holds its request keeps
  the grant, so this is no freedom from starvation), and agreement of all devices on the shared lines.

  Bounds.  A loop that talks to the peer has as budget the input that is still to come
  (\<open>pending\<close>), since every turn consumes some; the theorems of kind \<open>runs\<close> show that it is never
  used up.  The script is finite, so this says only that the model cuts nothing off; that a C loop ends
  is claimed only where the end is a value of the theorem, as in \<open>axi4_write_live\<close> or \<open>pci_steps_return\<close>.  The target machine of the PCI bus calls itself through a split completion; its depth
  is a parameter, and \<open>target_depth_suffices\<close> gives the depth that is enough.  The arbiter's search gets 16 turns,
  after which it is where it began.

  Not modelled.
  \<^item> The operating system and the C library, beyond what the source uses of them: their results are parameters,
    and messages, debug logs and waveform traces are dropped, as they influence no bus.
  \<^item> server/lxt2_write.c (the waveform writer, from GTKWave), server/config.lex and server/config.ypp (generator input),
    server/main.cc (the command line): nothing here depends on them but the
    initial configuration, which the theorems leave arbitrary.
  \<^item> server/mt19937int.c is the text of libsimbus/mt19937int.c under other names, and \<open>Sim_MT\<close> stands for both.
  \<^item> The Verilog simulator: the arguments of a system task are records of what it answers for them, and what a
    task asks of it is a list of \<open>vpi_call\<close>s.
  \<^item> The Verilog modules under ver/, the example programs, and pci/ramdev/check_ramdev.cc, a test of the device.
  \<^item> \<open>__time_as_double\<close> (floating point), and the overflow of the response timer of the AXI4 master after
    \<open>2\<^sup>3\<^sup>1\<close> clocks.
  \<^item> The memory device maps files shared; its model gives each descriptor its own memory.
\<close>

section \<open>The memory device driver and the memory device\<close>

lemma char_byte_bits: "bit (char_byte c) j \<Longrightarrow> j < 8"
proof -
  have "take_bit 8 (of_char c :: nat) = of_char c"
    using of_char_mod_256 [of c] by (simp add: take_bit_eq_mod)
  then have "take_bit 8 (char_byte c) = char_byte c"
    by (simp add: char_byte_def take_bit_of_nat)
  then show "bit (char_byte c) j \<Longrightarrow> j < 8" by (metis bit_take_bit_iff)
qed

definition pack4 :: "char \<Rightarrow> char \<Rightarrow> char \<Rightarrow> char \<Rightarrow> u32" where
  "pack4 c0 c1 c2 c3 =
     ((char_byte c0 OR push_bit 8 (char_byte c1)) OR push_bit 16 (char_byte c2)) OR push_bit 24 (char_byte c3)"

lemma byte_of_packed:
  "byte_of 0 (pack4 c0 c1 c2 c3) = ucast (char_byte c0)" "byte_of (Suc 0) (pack4 c0 c1 c2 c3) = ucast (char_byte c1)"
  "byte_of 2 (pack4 c0 c1 c2 c3) = ucast (char_byte c2)" "byte_of 3 (pack4 c0 c1 c2 c3) = ucast (char_byte c3)"
  unfolding pack4_def
  by (rule bit_word_eqI; auto simp: bit_byte_of bit_simps dest: char_byte_bits)+

lemma unat_packed_char: "unat (ucast (char_byte c) :: u8) = of_char c"
proof -
  have "of_char c < (256 :: nat)" using of_char_mod_256 [of c, where 'a = nat] by (metis mod_less_divisor zero_less_numeral)
  then show ?thesis by (simp add: char_byte_def unsigned_ucast_eq unsigned_of_nat take_bit_nat_eq_self)
qed

lemma path_char_packed: "path_char (ucast (char_byte c)) = c"
  by (simp add: path_char_def unat_packed_char)

lemma packed_zero: "ucast (char_byte c) = (0 :: u8) \<longleftrightarrow> c = NUL"
proof -
  have "of_char c = (0 :: nat) \<longleftrightarrow> c = NUL"
    using of_char_eq_iff [of c NUL, where 'a = nat] by (simp add: NUL_def)
  then show ?thesis using unat_packed_char [of c] by (metis unat_eq_zero)
qed

lemma extract_packed:
  "extract_path (pack4 c0 c1 c2 c3 # ws) =
     (if c0 = NUL then Done [] else if c1 = NUL then Done [c0] else if c2 = NUL then Done [c0, c1]
      else if c3 = NUL then Done [c0, c1, c2]
      else obind (extract_path ws) (\<lambda>p. Done (c0 # c1 # c2 # c3 # p)))"
  by (simp add: Let_def byte_of_packed path_char_packed packed_zero)

lemma extract_file_words:
  "NUL \<notin> set f \<Longrightarrow> extract_path (file_words f @ 0 # ws) = Done f"
proof (induction "length f" arbitrary: f rule: less_induct)
  case less
  note sims = Let_def char0_def extract_packed
  consider "f = []" | c where "f = [c]" | c a where "f = [c, a]" | c a b where "f = [c, a, b]"
    | c a b d r where "f = c # a # b # d # r"
    by (metis neq_Nil_conv)
  then show ?case
  proof cases
    case 5
    have "extract_path (file_words r @ 0 # ws) = Done r"
      using less 5 by simp
    with 5 less(2) show ?thesis by (auto simp: sims simp del: extract_path.simps simp flip: pack4_def)
  qed (use less(2) in \<open>simp_all add: byte_of_def\<close>, auto simp: sims simp del: extract_path.simps simp flip: pack4_def)
qed

text \<open>C40: The file name a driver sends is the file name the memory device opens. The words that
  \<open>simbus_pci_memdev_load\<close> and \<open>simbus_pci_memdev_save\<close> write from register 3 on, and the zero word
  after them, are read back by \<open>extract_path_from_load\<close> as exactly that name, for every name that
  fits the register bank.\<close>

theorem file_name_transfer:
  assumes "NUL \<notin> set file" and "length (control_regs m) = CONTROL_COUNT"
    and "drop 3 (control_regs m) = file_words file @ 0 # rest"
  shows "extract_path_from_load m = Done file"
proof -
  have "take (CONTROL_COUNT - 3) (drop 3 (control_regs m)) = drop 3 (control_regs m)"
    by (simp add: assms(2))
  then show ?thesis
    unfolding extract_path_from_load_def assms(3) by (simp only: extract_file_words [OF assms(1)])
qed

theorem file_name_transfer_witness:
  "extract_path_from_load ((demo_map 0 0 0)\<lparr>control_regs := [2, 0, 3] @ file_words ''boot.bin'' @ 0 # replicate 1018 0\<rparr>)
     = Done ''boot.bin''"
proof (rule file_name_transfer)
  show "NUL \<notin> set ''boot.bin''" by (simp add: NUL_def)
  have "length (file_words ''boot.bin'') = 2" by (simp add: Let_def char0_def NUL_def)
  then show "length (control_regs ((demo_map 0 0 0)\<lparr>control_regs := [2, 0, 3] @ file_words ''boot.bin'' @ 0 # replicate 1018 0\<rparr>))
      = CONTROL_COUNT" by (simp add: CONTROL_COUNT_def del: file_words.simps)
  show "drop 3 (control_regs ((demo_map 0 0 0)\<lparr>control_regs := [2, 0, 3] @ file_words ''boot.bin'' @ 0 # replicate 1018 0\<rparr>))
      = file_words ''boot.bin'' @ 0 # replicate 1018 0" by simp
qed

end
